(* ===== verification/Prelude.thy ===== *)
theory Prelude
  imports Main "HOL-Library.Word" "HOL-Library.Signed_Division" "HOL-Library.Monad_Syntax"
begin

unbundle bit_operations_syntax

text \<open>
  Shared vocabulary of the development: the machine integers of the 32-bit x86 C code, the flat
  byte-addressed memory the pointers refer to, C strings in that memory, cyclic address regions,
  C's truncating signed division, and the theorem collections the component theories use.
\<close>

section \<open>Machine integers\<close>

type_synonym u8 = "8 word"
type_synonym u16 = "16 word"
type_synonym u32 = "32 word"

text \<open>
  \<open>frame\<close> collects which state components an operation leaves alone, \<open>c_arith\<close> the evaluation
  of C arithmetic on words.
\<close>

named_theorems frame
named_theorems c_arith

text \<open>
  C's \<open>/\<close> and \<open>%\<close> on \<open>int\<close> truncate towards zero; the result is reduced to 32 bits, as the
  compiled code does for the one quotient that does not fit.
\<close>

definition c_div :: "u32 \<Rightarrow> u32 \<Rightarrow> u32" where
  "c_div a b = word_of_int (sint a sdiv sint b)"

definition c_mod :: "u32 \<Rightarrow> u32 \<Rightarrow> u32" where
  "c_mod a b = word_of_int (sint a smod sint b)"

text \<open>Reading a \<open>signed char\<close> or a \<open>short\<close> as an \<open>int\<close> sign-extends it.\<close>

definition sx8 :: "u8 \<Rightarrow> u32" where
  "sx8 c = signed_take_bit 7 (ucast c)"

definition sx16 :: "u16 \<Rightarrow> u32" where
  "sx16 c = signed_take_bit 15 (ucast c)"

text \<open>Narrowing an \<open>unsigned int\<close> or \<open>unsigned short\<close> keeps the low bits.\<close>

definition lo8 :: "u32 \<Rightarrow> u8" where
  "lo8 x = ucast x"

definition lo16 :: "u32 \<Rightarrow> u16" where
  "lo16 x = ucast x"

lemma unat_of_nat_u32: "n < 4294967296 \<Longrightarrow> unat (of_nat n :: u32) = n"
  by (simp add: unat_of_nat take_bit_nat_eq_self)

lemma unat_offset_u32: "n < 4294967296 \<Longrightarrow> unat (p + of_nat n - p :: u32) = n"
  by (simp add: unat_of_nat_u32)

lemma of_nat_u32_inj:
  "m < 4294967296 \<Longrightarrow> n < 4294967296 \<Longrightarrow> (of_nat m :: u32) = of_nat n \<longleftrightarrow> m = n"
  by (metis unat_of_nat_u32)

lemma unat_u32_less: "unat (x :: u32) < 4294967296"
  using unsigned_less [of x] by simp

lemma lo8_of_nat: "n < 4294967296 \<Longrightarrow> lo8 (of_nat n) = of_nat n"
  by (simp add: lo8_def unsigned_of_nat take_bit_nat_eq_self)

lemma sint_of_nat_u32: "n < 2147483648 \<Longrightarrow> sint (of_nat n :: u32) = int n"
  by (simp add: signed_of_nat signed_take_bit_int_eq_self)

lemma of_nat_sless_u32:
  "m < 2147483648 \<Longrightarrow> n < 2147483648 \<Longrightarrow> (of_nat m :: u32) <s of_nat n \<longleftrightarrow> m < n"
  by (simp add: word_sless_alt sint_of_nat_u32)

lemma sint_plus_1_u32: "a <s b \<Longrightarrow> sint (a + 1 :: u32) = sint a + 1"
  using sint_lt [of b] sint_ge [of a]
  by (simp add: word_sless_alt sint_word_add signed_take_bit_int_eq_self)

lemma sint_minus_1_u32: "a <s b \<Longrightarrow> sint (b - 1 :: u32) = sint b - 1"
  using sint_lt [of b] sint_ge [of a]
  by (simp add: word_sless_alt sint_word_diff signed_take_bit_int_eq_self)

lemma sint_dec_pos_u32: "0 < sint x \<Longrightarrow> sint (x - 1 :: u32) = sint x - 1"
  using sint_minus_1_u32 [of 0 x] by (simp add: word_sless_alt)

lemma sint_inc_neg_u32: "sint x < 0 \<Longrightarrow> sint (x + 1 :: u32) = sint x + 1"
  using sint_plus_1_u32 [of x 0] by (simp add: word_sless_alt)

lemma sint_range_u32: "- 2147483648 \<le> sint (x :: u32)" "sint (x :: u32) < 2147483648"
  using sint_lt [of x] sint_ge [of x] by simp_all

lemma sint_eq_0_u32 [simp]: "sint (x :: u32) = 0 \<longleftrightarrow> x = 0"
proof
  assume "sint x = 0"
  then have "(word_of_int (sint x) :: u32) = 0" by (simp only: of_int_0)
  then show "x = 0" by simp
qed simp

lemma sint_eq_min_u32: "sint (x :: u32) = - 2147483648 \<longleftrightarrow> x = 0x80000000"
proof
  assume "sint x = - 2147483648"
  then have "(word_of_int (sint x) :: u32) = word_of_int (- 2147483648)" by (simp only:)
  then show "x = 0x80000000" by simp
qed simp

lemma sint_word_of_int_u32:
  "- 2147483648 \<le> i \<Longrightarrow> i < 2147483648 \<Longrightarrow> sint (word_of_int i :: u32) = i"
  by (simp add: int_word_sint)

text \<open>Dividing by ten, the step of every decimal conversion.\<close>

lemma sdiv_10: "(x :: int) sdiv 10 = sgn x * (\<bar>x\<bar> div 10)"
  by (simp add: signed_divide_int_def)

lemma abs_sdiv_10: "\<bar>(x :: int) sdiv 10\<bar> = \<bar>x\<bar> div 10"
  by (auto simp: sdiv_10 abs_mult sgn_if)

lemma sint_c_div_10 [c_arith]: "sint (c_div x 10) = sint x sdiv 10"
proof -
  have "\<bar>sint x sdiv 10\<bar> \<le> 214748364"
    using sint_range_u32 [of x] unfolding abs_sdiv_10 by arith
  then show ?thesis
    unfolding c_div_def by (simp add: sint_word_of_int_u32 abs_le_iff)
qed

lemma sint_c_mod_10 [c_arith]: "sint (c_mod x 10) = sint x smod 10"
proof -
  have "\<bar>sint x smod 10\<bar> < 10"
    by (simp add: signed_modulo_int_def sdiv_10 sgn_if abs_if) presburger
  then show ?thesis
    unfolding c_mod_def by (simp add: sint_word_of_int_u32 abs_less_iff)
qed

section \<open>Memory, address regions and C strings\<close>

type_synonym memory = "u32 \<Rightarrow> u8"

text \<open>
  A region is the \<open>n\<close> bytes from \<open>p\<close> on, in the cyclic 32-bit address space: \<open>a\<close> lies in it when
  its distance from \<open>p\<close> is below \<open>n\<close>. Two regions are disjoint when neither starts in the other.
\<close>

definition in_region :: "u32 \<Rightarrow> u32 \<Rightarrow> nat \<Rightarrow> bool" where
  "in_region a p n \<longleftrightarrow> unat (a - p) < n"

definition disjoint_regions :: "u32 \<Rightarrow> nat \<Rightarrow> u32 \<Rightarrow> nat \<Rightarrow> bool" where
  "disjoint_regions p n q k \<longleftrightarrow>
     n = 0 \<or> k = 0 \<or> (\<not> in_region q p n \<and> \<not> in_region p q k)"

lemma disjoint_regions_sym: "disjoint_regions p n q k \<Longrightarrow> disjoint_regions q k p n"
  by (auto simp: disjoint_regions_def)

lemma disjoint_regionsD:
  assumes "disjoint_regions p n q k" and "in_region a p n"
  shows "\<not> in_region a q k"
proof
  assume "in_region a q k"
  then have aq: "unat (a - q) < k" and ap: "unat (a - p) < n"
    using assms(2) by (auto simp: in_region_def)
  then have nk: "n \<noteq> 0" "k \<noteq> 0" by auto
  with assms(1) have qp: "n \<le> unat (q - p)" and pq: "k \<le> unat (p - q)"
    by (auto simp: disjoint_regions_def in_region_def)
  show False
  proof (cases "a - p \<le> a - q")
    case True
    have "p - q = (a - q) - (a - p)" by simp
    then have "unat (p - q) = unat (a - q) - unat (a - p)"
      using True by (simp only: unat_sub)
    with aq pq show False by simp
  next
    case False
    have "q - p = (a - p) - (a - q)" by simp
    then have "unat (q - p) = unat (a - p) - unat (a - q)"
      using False by (simp only: unat_sub linear)
    with ap qp show False by simp
  qed
qed

lemma in_region_offset: "n \<le> 4294967296 \<Longrightarrow> i < n \<Longrightarrow> in_region (p + of_nat i) p n"
  by (simp add: in_region_def unat_of_nat_u32)

lemma in_regionE:
  assumes "in_region a p n"
  obtains i where "i < n" and "a = p + of_nat i"
proof
  show "unat (a - p) < n" using assms by (simp add: in_region_def)
  show "a = p + of_nat (unat (a - p))" by simp
qed

lemma in_region_Suc: "in_region a (p + 1) n \<Longrightarrow> n < 4294967296 \<Longrightarrow> in_region a p (Suc n)"
proof (elim in_regionE)
  fix i assume "i < n" "n < 4294967296" "a = p + 1 + of_nat i"
  then have "a = p + of_nat (Suc i)" and "Suc i < Suc n" by (simp_all add: add.assoc)
  then show "in_region a p (Suc n)"
    using \<open>n < 4294967296\<close> by (auto intro!: in_region_offset simp del: of_nat_Suc)
qed

lemma in_region_mono: "in_region a p n \<Longrightarrow> n \<le> k \<Longrightarrow> in_region a p k"
  by (simp add: in_region_def)

lemma disjoint_regionsI:
  "(\<And>x. in_region x p n \<Longrightarrow> \<not> in_region x q k) \<Longrightarrow> disjoint_regions p n q k"
  by (force simp: disjoint_regions_def in_region_def)

lemma in_region_sub:
  assumes "in_region x (p + of_nat i) n" and "i + n \<le> k" and "k \<le> 4294967296"
  shows "in_region x p k"
proof -
  from assms(1) obtain j where "j < n" and x: "x = p + of_nat i + of_nat j" by (rule in_regionE)
  then have "x = p + of_nat (i + j)" and "i + j < k" using assms(2) by simp_all
  then show ?thesis using assms(3) in_region_offset by blast
qed

lemma disjoint_subregion:
  assumes "disjoint_regions p k q l" and "i + n \<le> k" and "k \<le> 4294967296"
  shows "disjoint_regions (p + of_nat i) n q l"
  using assms by (blast intro: disjoint_regionsI in_region_sub dest: disjoint_regionsD)

lemma disjoint_regions_mono:
  "disjoint_regions p n q k \<Longrightarrow> n' \<le> n \<Longrightarrow> k' \<le> k \<Longrightarrow> disjoint_regions p n' q k'"
  by (blast intro: disjoint_regionsI in_region_mono dest: disjoint_regionsD)

lemma not_in_region_before:
  "i < n \<Longrightarrow> n + k \<le> 4294967296 \<Longrightarrow> \<not> in_region (p + of_nat i) (p + of_nat n) k"
proof
  assume "i < n" "n + k \<le> 4294967296" "in_region (p + of_nat i) (p + of_nat n) k"
  moreover from this obtain j where "j < k" "p + of_nat i = p + of_nat n + of_nat j"
    by (elim in_regionE)
  then have "j < k" "(of_nat i :: u32) = of_nat (n + j)" by (simp_all add: add.assoc)
  ultimately show False using of_nat_u32_inj [of i "n + j"] by simp
qed

lemma addr_offsetE:
  fixes x p :: u32
  obtains d where "x = p + of_nat d" and "d < 4294967296" and "unat (x - p) = d"
proof
  show "x = p + of_nat (unat (x - p))" by simp
  show "unat (x - p) < 4294967296" by (rule unat_u32_less)
qed simp

text \<open>The \<open>n\<close> bytes at \<open>p\<close>, and the memory with a byte list written at \<open>p\<close>.\<close>

fun read_bytes :: "memory \<Rightarrow> u32 \<Rightarrow> nat \<Rightarrow> u8 list" where
  "read_bytes m p 0 = []"
| "read_bytes m p (Suc n) = m p # read_bytes m (p + 1) n"

fun write_bytes :: "memory \<Rightarrow> u32 \<Rightarrow> u8 list \<Rightarrow> memory" where
  "write_bytes m p [] = m"
| "write_bytes m p (b # bs) = write_bytes (m(p := b)) (p + 1) bs"

lemma length_read_bytes [simp]: "length (read_bytes m p n) = n"
  by (induction n arbitrary: p) auto

lemma nth_read_bytes: "i < n \<Longrightarrow> read_bytes m p n ! i = m (p + of_nat i)"
proof (induction n arbitrary: p i)
  case (Suc n)
  then show ?case by (cases i) (auto simp: algebra_simps)
qed simp

lemma read_bytes_cong:
  "(\<And>i. i < n \<Longrightarrow> m (p + of_nat i) = m' (p + of_nat i)) \<Longrightarrow> read_bytes m p n = read_bytes m' p n"
  by (simp add: list_eq_iff_nth_eq nth_read_bytes)

lemma read_bytes_outside:
  assumes "\<And>a. in_region a p n \<Longrightarrow> m a = m' a" and "n \<le> 4294967296"
  shows "read_bytes m p n = read_bytes m' p n"
  using assms by (intro read_bytes_cong) (simp add: in_region_offset)

lemma read_bytes_upd_outside:
  assumes "\<not> in_region a p n" and "n \<le> 4294967296"
  shows "read_bytes (m(a := v)) p n = read_bytes m p n"
  using assms by (intro read_bytes_outside) auto

lemma read_bytes_snoc: "read_bytes m p (Suc n) = read_bytes m p n @ [m (p + of_nat n)]"
proof (induction n arbitrary: p)
  case (Suc n)
  have "read_bytes m p (Suc (Suc n)) = m p # read_bytes m (p + 1) (Suc n)" by simp
  also have "\<dots> = m p # (read_bytes m (p + 1) n @ [m (p + 1 + of_nat n)])" by (simp only: Suc.IH)
  finally show ?case by (simp add: add.assoc)
qed simp

lemma write_bytes_same: "read_bytes m p (length bs) = bs \<Longrightarrow> write_bytes m p bs = m"
  by (induction bs arbitrary: p) (auto simp: fun_upd_idem)

lemma write_bytes_apply:
  "length bs \<le> 4294967296 \<Longrightarrow>
   write_bytes m p bs a = (if in_region a p (length bs) then bs ! unat (a - p) else m a)"
proof (induction bs arbitrary: m p)
  case Nil
  then show ?case by (simp add: in_region_def)
next
  case (Cons b bs)
  obtain d where d: "a = p + of_nat d" "d < 4294967296" "unat (a - p) = d"
    by (rule addr_offsetE)
  show ?case
  proof (cases d)
    case 0
    with d have "a = p" by simp
    moreover have "\<not> in_region p (p + 1) (length bs)"
      using Cons.prems by (simp add: in_region_def unsigned_minus_1_eq_mask mask_eq_exp_minus_1)
    ultimately show ?thesis using Cons by (simp add: in_region_def)
  next
    case (Suc k)
    with d have "a - (p + 1) = of_nat k" by simp
    then have "unat (a - (p + 1)) = k"
      using Suc d(2) by (simp only: unat_of_nat_u32)
    moreover have "a \<noteq> p" using Suc d by auto
    ultimately show ?thesis using Cons Suc d(3) by (simp add: in_region_def)
  qed
qed

lemma write_bytes_append:
  "write_bytes m p (xs @ ys) = write_bytes (write_bytes m p xs) (p + of_nat (length xs)) ys"
  by (induction xs arbitrary: m p) (simp_all add: algebra_simps)

lemma read_write_bytes:
  "length bs \<le> 4294967296 \<Longrightarrow> read_bytes (write_bytes m p bs) p (length bs) = bs"
  by (intro nth_equalityI)
    (simp_all add: nth_read_bytes write_bytes_apply in_region_offset unat_of_nat_u32)

lemma write_bytes_outside:
  "length bs \<le> 4294967296 \<Longrightarrow> \<not> in_region a p (length bs) \<Longrightarrow> write_bytes m p bs a = m a"
  by (simp add: write_bytes_apply)

text \<open>
  \<open>cstr_at m p bs\<close>: at \<open>p\<close> lies the NUL-terminated string whose characters before the NUL are
  \<open>bs\<close>.
\<close>

fun cstr_at :: "memory \<Rightarrow> u32 \<Rightarrow> u8 list \<Rightarrow> bool" where
  "cstr_at m p [] \<longleftrightarrow> m p = 0"
| "cstr_at m p (b # bs) \<longleftrightarrow> m p = b \<and> b \<noteq> 0 \<and> cstr_at m (p + 1) bs"

lemma cstr_at_iff:
  "cstr_at m p bs \<longleftrightarrow>
     read_bytes m p (length bs) = bs \<and> 0 \<notin> set bs \<and> m (p + of_nat (length bs)) = 0"
  by (induction bs arbitrary: p) (auto simp: algebra_simps)

lemma cstr_at_append:
  "cstr_at m p (xs @ ys) \<longleftrightarrow>
     read_bytes m p (length xs) = xs \<and> 0 \<notin> set xs \<and> cstr_at m (p + of_nat (length xs)) ys"
  by (induction xs arbitrary: p) (auto simp: algebra_simps)

lemma cstr_at_nth: "cstr_at m p bs \<Longrightarrow> i < length bs \<Longrightarrow> m (p + of_nat i) = bs ! i"
  using nth_read_bytes [of i "length bs" m p] by (simp add: cstr_at_iff)

lemma cstr_at_nonzero: "cstr_at m p bs \<Longrightarrow> i < length bs \<Longrightarrow> m (p + of_nat i) \<noteq> 0"
  using cstr_at_nth [of m p bs i] by (metis cstr_at_iff nth_mem)

lemma cstr_at_end: "cstr_at m p bs \<Longrightarrow> m (p + of_nat (length bs)) = 0"
  by (simp add: cstr_at_iff)

lemma cstr_at_cong:
  assumes "cstr_at m p bs" and "\<And>a. in_region a p (Suc (length bs)) \<Longrightarrow> m' a = m a"
    and "length bs < 4294967295"
  shows "cstr_at m' p bs"
proof -
  have "read_bytes m' p (length bs) = read_bytes m p (length bs)"
    using assms(2,3) by (intro read_bytes_cong) (simp add: in_region_offset)
  moreover have "m' (p + of_nat (length bs)) = m (p + of_nat (length bs))"
    using assms(2,3) by (simp add: in_region_offset)
  ultimately show ?thesis using assms(1) by (simp add: cstr_at_iff)
qed

text \<open>The bytes of a string literal.\<close>

definition bytes_of :: "string \<Rightarrow> u8 list" where
  "bytes_of cs = map of_char cs"

lemma length_bytes_of [simp]: "length (bytes_of cs) = length cs"
  by (simp add: bytes_of_def)

text \<open>32-bit little-endian load and store, as the processor does them.\<close>

definition load32 :: "memory \<Rightarrow> u32 \<Rightarrow> u32" where
  "load32 m p =
     ucast (m p) OR push_bit 8 (ucast (m (p + 1))) OR push_bit 16 (ucast (m (p + 2)))
       OR push_bit 24 (ucast (m (p + 3)))"

section \<open>Loops over a counter\<close>

text \<open>\<open>for (i = a; i < a + n; i++) body(i)\<close> over a state.\<close>

fun for_n :: "nat \<Rightarrow> nat \<Rightarrow> (nat \<Rightarrow> 's \<Rightarrow> 's) \<Rightarrow> 's \<Rightarrow> 's" where
  "for_n a 0 body s = s"
| "for_n a (Suc n) body s = for_n (Suc a) n body (body a s)"

lemma for_n_inv:
  assumes "P s" and "\<And>i s. a \<le> i \<Longrightarrow> i < a + n \<Longrightarrow> P s \<Longrightarrow> P (body i s)"
  shows "P (for_n a n body s)"
  using assms
proof (induction n arbitrary: a s)
  case (Suc n)
  have "P (body a s)" using Suc.prems by simp
  then show ?case using Suc.prems(2) by (auto intro!: Suc.IH)
qed simp

lemma for_n_Suc_end: "for_n a (Suc n) body s = body (a + n) (for_n a n body s)"
  by (induction n arbitrary: a s) auto

lemma for_n_frame:
  assumes "\<And>i s. f (body i s) = f s"
  shows "f (for_n a n body s) = f s"
  by (induction n arbitrary: a s) (auto simp: assms)

lemma for_n_cong:
  assumes "\<And>i s. a \<le> i \<Longrightarrow> i < a + n \<Longrightarrow> body i s = body' i s"
  shows "for_n a n body s = for_n a n body' s"
  using assms by (induction n arbitrary: a s) auto

text \<open>All the bytes, and bytes that went through an \<open>int\<close>.\<close>

lemma all_bytes: "(\<forall>b :: u8. P b) \<longleftrightarrow> list_all P (map of_nat [0..<256])"
proof -
  have "P b" if "\<forall>n \<in> {0..<256}. P (of_nat n)" for b :: u8
  proof -
    have "unat b \<in> {0..<256}" using unsigned_less [of b] by simp
    with that have "P (of_nat (unat b))" by blast
    then show ?thesis by simp
  qed
  then show ?thesis by (auto simp: list_all_iff)
qed

lemma top_bit: "n < 8 \<Longrightarrow> 7 \<le> n \<Longrightarrow> n = (7 :: nat)"
  by simp

lemma lo8_sx8: "lo8 (sx8 sc) = sc"
  unfolding lo8_def sx8_def by (rule bit_word_eqI) (auto simp: bit_simps min_def dest: top_bit)

lemma sx8_inj: "sx8 a = sx8 b \<longleftrightarrow> a = b"
  using lo8_sx8 by metis

end
