(* ===== verification/KString.thy ===== *)
theory KString
  imports Prelude
begin

text \<open>
  The string routines of src/string.c on the flat memory. A \<open>char *\<close> is an address, an \<open>int\<close> a
  32-bit word compared with the signed order, and a function that writes through a pointer returns
  the new memory. A loop that need not end is a \<open>partial_function\<close>: the value \<open>None\<close> is "does not
  return".
\<close>

section \<open>The routines\<close>

subsection \<open>strlen and strreverse\<close>

partial_function (option) strlen_loop :: "memory \<Rightarrow> u32 \<Rightarrow> u32 \<Rightarrow> u32 option" where
  "strlen_loop m str length' =
     (if m (str + length') \<noteq> 0 then strlen_loop m str (length' + 1) else Some length')"

definition strlen :: "memory \<Rightarrow> u32 \<Rightarrow> u32 option" where
  "strlen m str = strlen_loop m str 0"

function strreverse_loop :: "memory \<Rightarrow> u32 \<Rightarrow> u32 \<Rightarrow> u32 \<Rightarrow> memory" where
  "strreverse_loop m str start end' =
     (if start <s end' then
        let temp = m (str + start);
            m1 = m(str + start := m (str + end'));
            m2 = m1(str + end' := temp)
        in strreverse_loop m2 str (start + 1) (end' - 1)
      else m)"
  by pat_completeness auto
termination
  by (relation "measure (\<lambda>(m, str, start, end'). nat (sint end' - sint start))")
    (auto simp: word_sless_alt sint_plus_1_u32 sint_minus_1_u32)

declare strreverse_loop.simps [simp del]

definition strreverse :: "memory \<Rightarrow> u32 \<Rightarrow> u32 \<Rightarrow> memory" where
  "strreverse m str length' = strreverse_loop m str 0 (length' - 1)"

subsection \<open>Printing integers\<close>

definition hexChars :: "u8 list" where
  "hexChars = bytes_of ''0123456789ABCDEF''"

text \<open>
  The loop of \<open>int_to_hex\<close> counts \<open>i\<close> down from 7 to 0; the first argument is \<open>i + 1\<close>. A nibble is
  below 16, so the table is read in range.
\<close>

fun int_to_hex_loop :: "nat \<Rightarrow> memory \<Rightarrow> u32 \<Rightarrow> u32 \<Rightarrow> memory \<times> u32" where
  "int_to_hex_loop 0 m hexString uValue = (m, hexString)"
| "int_to_hex_loop (Suc i) m hexString uValue =
     (let nibble = lo8 (drop_bit (4 * i) uValue AND 0xF)
      in int_to_hex_loop i (m(hexString := hexChars ! unat nibble)) (hexString + 1) uValue)"

definition int_to_hex :: "memory \<Rightarrow> u32 \<Rightarrow> u32 \<Rightarrow> memory" where
  "int_to_hex m value' hexString =
     (let (m1, hexString1) = int_to_hex_loop 8 m hexString value'
      in m1(hexString1 := 0))"

text \<open>
  The \<open>do\<close>/\<open>while\<close> loop of \<open>int_to_str\<close>: one character per digit, least significant first. The
  digits of a negative \<open>num\<close> (left by \<open>-INT_MIN\<close>) are negative, as C's \<open>%\<close> gives them.
\<close>

function int_to_str_digits :: "memory \<Rightarrow> u32 \<Rightarrow> u32 \<Rightarrow> u32 \<Rightarrow> memory \<times> u32" where
  "int_to_str_digits m buffer num i =
     (let m1 = m(buffer + i := lo8 (c_mod num 10 + 0x30));
          num1 = c_div num 10
      in if num1 \<noteq> 0 then int_to_str_digits m1 buffer num1 (i + 1) else (m1, i + 1))"
  by pat_completeness auto
termination
proof (relation "measure (\<lambda>(m, buffer, num, i). nat \<bar>sint num\<bar>)", goal_cases)
  case (2 m buffer num i m1 num1)
  then have eq: "\<bar>sint num1\<bar> = \<bar>sint num\<bar> div 10"
    by (simp add: sint_c_div_10 abs_sdiv_10)
  have "num1 \<noteq> 0" using 2 by simp
  then have "0 < \<bar>sint num1\<bar>" by simp
  with eq have "\<bar>sint num1\<bar> < \<bar>sint num\<bar>" by linarith
  then show ?case by auto
qed simp

declare int_to_str_digits.simps [simp del]

definition int_to_str :: "memory \<Rightarrow> u32 \<Rightarrow> u32 \<Rightarrow> memory" where
  "int_to_str m num buffer =
     (let is_negative = num <s 0;
          num1 = (if is_negative then - num else num);
          (m1, i) = int_to_str_digits m buffer num1 0;
          (m2, i2) = (if is_negative then (m1(buffer + i := 0x2D), i + 1) else (m1, i));
          m3 = m2(buffer + i2 := 0)
      in strreverse m3 buffer i2)"

subsection \<open>Slices, comparison, copies\<close>

partial_function (option) strslice_loop ::
  "memory \<Rightarrow> u32 \<Rightarrow> u32 \<Rightarrow> u32 \<Rightarrow> u32 \<Rightarrow> u32 \<Rightarrow> memory option" where
  "strslice_loop m str i to out j =
     (if i \<le>s to \<and> m (str + i) \<noteq> 0
      then strslice_loop (m(out + j := m (str + i))) str (i + 1) to out (j + 1)
      else Some (m(out + j := 0)))"

definition strslice :: "memory \<Rightarrow> u32 \<Rightarrow> u32 \<Rightarrow> u32 \<Rightarrow> u32 \<Rightarrow> memory option" where
  "strslice m str from' to out = strslice_loop m str from' to out 0"

text \<open>
  \<open>strcmp\<close> leaves its loop at the first difference (with \<open>failed\<close> set) or at the first NUL, and
  then sets \<open>failed\<close> when only one string has ended.
\<close>

partial_function (option) strcmp_loop :: "memory \<Rightarrow> u32 \<Rightarrow> u32 \<Rightarrow> u32 \<Rightarrow> (u32 \<times> u32) option"
  where
  "strcmp_loop m str1 str2 i =
     (if m (str1 + i) \<noteq> 0 \<and> m (str2 + i) \<noteq> 0
      then if m (str1 + i) \<noteq> m (str2 + i) then Some (i, 1) else strcmp_loop m str1 str2 (i + 1)
      else Some (i, 0))"

definition strcmp :: "memory \<Rightarrow> u32 \<Rightarrow> u32 \<Rightarrow> u32 option" where
  "strcmp m str1 str2 =
     do {
       (i, failed) \<leftarrow> strcmp_loop m str1 str2 0;
       Some (if (m (str1 + i) = 0 \<and> m (str2 + i) \<noteq> 0) \<or> (m (str1 + i) \<noteq> 0 \<and> m (str2 + i) = 0)
             then 1 else failed)
     }"

text \<open>\<open>strcpy\<close> returns the character \<open>*dest\<close> after the copy, converted to a pointer.\<close>

partial_function (option) strcpy_loop :: "memory \<Rightarrow> u32 \<Rightarrow> u32 \<Rightarrow> (memory \<times> u32) option" where
  "strcpy_loop m dest src =
     (let m1 = m(dest := m src)
      in if m1 (src + 1) \<noteq> 0 then strcpy_loop m1 (dest + 1) (src + 1) else Some (m1, dest + 1))"

definition strcpy :: "memory \<Rightarrow> u32 \<Rightarrow> u32 \<Rightarrow> (memory \<times> u32) option" where
  "strcpy m dest src =
     do {
       (m1, dest1) \<leftarrow> strcpy_loop m dest src;
       Some (m1, sx8 (m1 dest1))
     }"

text \<open>
  \<open>strw_flo\<close>: the loop \<open>while (offset)\<close> advances \<open>dest\<close>; the statement \<open>while (from);\<close> has an empty
  body and spins for ever unless \<open>from\<close> is 0; the block after it runs once and undoes the
  \<open>*src--\<close> of the first line.
\<close>

function strw_flo_skip :: "u32 \<Rightarrow> u32 \<Rightarrow> u32" where
  "strw_flo_skip dest offset =
     (if offset \<noteq> 0 then strw_flo_skip (dest + 1) (offset - 1) else dest)"
  by pat_completeness auto
termination
  by (relation "measure (\<lambda>(dest, offset). unat offset)") (auto simp: measure_unat)

declare strw_flo_skip.simps [simp del]

function strw_flo_copy :: "memory \<Rightarrow> u32 \<Rightarrow> u32 \<Rightarrow> u32 \<Rightarrow> memory" where
  "strw_flo_copy m dest src length' =
     (let m1 = m(dest := m src);
          dest1 = dest + 1;
          src1 = src + 1;
          length1 = length' - 1
      in if length1 \<noteq> 0 \<and> (m1 src1 \<noteq> 0 \<or> m1 dest1 \<noteq> 0)
         then strw_flo_copy m1 dest1 src1 length1
         else m1(dest1 := 0))"
  by pat_completeness auto
termination
proof (relation "measure (\<lambda>(m, dest, src, length'). unat (length' - 1))", goal_cases)
  case (2 m dest src length' m1 dest1 src1 length1)
  then show ?case using measure_unat [of length1] by simp
qed simp

declare strw_flo_copy.simps [simp del]

definition strw_flo :: "memory \<Rightarrow> u32 \<Rightarrow> u32 \<Rightarrow> u32 \<Rightarrow> u32 \<Rightarrow> u32 \<Rightarrow> memory option" where
  "strw_flo m dest src from' length' offset =
     (let src1 = src - 1;
          dest1 = strw_flo_skip dest offset
      in if from' \<noteq> 0 then None
         else let src2 = src1 + 1
              in Some (strw_flo_copy m dest1 src2 length'))"

definition strcat :: "memory \<Rightarrow> u32 \<Rightarrow> u32 \<Rightarrow> u32 \<Rightarrow> memory option" where
  "strcat m dest append' buffer =
     do {
       l1 \<leftarrow> strlen m dest;
       m1 \<leftarrow> strw_flo m buffer dest 0 l1 0;
       l2 \<leftarrow> strlen m1 append';
       o2 \<leftarrow> strlen m1 dest;
       m2 \<leftarrow> strw_flo m1 buffer append' 0 l2 o2;
       l3 \<leftarrow> strlen m2 dest;
       l4 \<leftarrow> strlen m2 append';
       Some (m2(buffer + (l3 + l4 + 1) := 0))
     }"

section \<open>strlen\<close>

lemma strlen_loop_cstr: "cstr_at m (p + l) bs \<Longrightarrow> strlen_loop m p l = Some (l + of_nat (length bs))"
proof (induction bs arbitrary: l)
  case Nil
  then show ?case by (simp add: strlen_loop.simps)
next
  case (Cons b bs)
  then have "strlen_loop m p (l + 1) = Some (l + 1 + of_nat (length bs))"
    by (simp add: algebra_simps)
  moreover have "m (p + l) \<noteq> 0" using Cons.prems by auto
  ultimately show ?case by (simp add: strlen_loop.simps [of m p l])
qed

lemma strlen_cstr [c_arith]: "cstr_at m p bs \<Longrightarrow> strlen m p = Some (of_nat (length bs))"
  using strlen_loop_cstr [of m p 0 bs] by (simp add: strlen_def)

section \<open>strreverse\<close>

lemma strreverse_loop_nat:
  assumes "b < 2147483648" and "a < 2147483648" and "a \<le> Suc b"
  shows "strreverse_loop m p (of_nat a) (of_nat b) =
    (\<lambda>x. let d = unat (x - p) in if a \<le> d \<and> d \<le> b then m (p + of_nat (a + b - d)) else m x)"
  using assms
proof (induction "Suc b - a" arbitrary: a b m rule: less_induct)
  case less
  show ?case
  proof (cases "a < b")
    case False
    then have "\<not> (of_nat a :: u32) <s of_nat b"
      using less.prems by (subst of_nat_sless_u32) auto
    moreover have "m (p + of_nat (a + b - unat (x - p))) = m x"
      if "a \<le> unat (x - p) \<and> unat (x - p) \<le> b" for x
    proof -
      have "a + b - unat (x - p) = unat (x - p)" using that False less.prems by linarith
      then show ?thesis by simp
    qed
    ultimately show ?thesis
      by (simp add: strreverse_loop.simps [of m] Let_def fun_eq_iff del: of_nat_diff)
  next
    case True
    have s: "(of_nat a :: u32) <s of_nat b"
      using less.prems True by (subst of_nat_sless_u32) auto
    have ab: "(of_nat a :: u32) + 1 = of_nat (Suc a)" "(of_nat b :: u32) - 1 = of_nat (b - 1)"
      using True by (simp_all add: of_nat_diff)
    let ?m1 = "m(p + of_nat a := m (p + of_nat b))"
    let ?m2 = "?m1(p + of_nat b := m (p + of_nat a))"
    have IH: "strreverse_loop ?m2 p (of_nat (Suc a)) (of_nat (b - 1)) =
      (\<lambda>x. let d = unat (x - p) in if Suc a \<le> d \<and> d \<le> b - 1 then ?m2 (p + of_nat (Suc a + (b - 1) - d)) else ?m2 x)"
      using less.prems True by (intro less.hyps) auto
    have "strreverse_loop m p (of_nat a) (of_nat b) = strreverse_loop ?m2 p (of_nat (Suc a)) (of_nat (b - 1))"
      using s by (subst strreverse_loop.simps) (simp only: ab if_True Let_def)
    also have "\<dots> = (\<lambda>x. let d = unat (x - p) in if a \<le> d \<and> d \<le> b then m (p + of_nat (a + b - d)) else m x)"
      unfolding IH
    proof (rule ext)
      fix x
      obtain d where d: "x = p + of_nat d" and dl: "d < 4294967296" and du: "unat (x - p) = d"
        by (rule addr_offsetE)
      have m2: "?m2 (p + of_nat i) = m (p + of_nat (if i = a then b else if i = b then a else i))"
        if "i < 4294967296" for i
        using that less.prems by (auto simp: of_nat_u32_inj)
      have rng: "Suc a \<le> d \<and> d \<le> b - 1 \<longleftrightarrow> a < d \<and> d < b" using True by linarith
      consider "a < d" "d < b" | "d = a" | "d = b" | "d < a" | "b < d" by linarith
      then show "(let d = unat (x - p) in if Suc a \<le> d \<and> d \<le> b - 1 then ?m2 (p + of_nat (Suc a + (b - 1) - d)) else ?m2 x)
        = (let d = unat (x - p) in if a \<le> d \<and> d \<le> b then m (p + of_nat (a + b - d)) else m x)"
        unfolding Let_def du rng
      proof cases
        case 1
        then have "Suc a + (b - 1) - d = a + b - d" "a + b - d < 4294967296" "a + b - d \<noteq> a" "a + b - d \<noteq> b"
          using less.prems by linarith+
        with 1 m2 [of "a + b - d"] show "(if a < d \<and> d < b then ?m2 (p + of_nat (Suc a + (b - 1) - d)) else ?m2 x) =
          (if a \<le> d \<and> d \<le> b then m (p + of_nat (a + b - d)) else m x)"
          by (simp del: of_nat_diff fun_upd_apply)
      qed (use m2 [OF dl] True in \<open>simp_all only: d, simp_all\<close>)
    qed
    finally show ?thesis .
  qed
qed

lemma strreverse_nat:
  assumes "n < 2147483648"
  shows "strreverse m p (of_nat n) =
    (\<lambda>x. if in_region x p n then m (p + of_nat (n - 1 - unat (x - p))) else m x)"
proof (cases n)
  case 0
  then show ?thesis
    by (simp add: strreverse_def strreverse_loop.simps in_region_def word_sless_alt)
next
  case (Suc k)
  then have "(of_nat n - 1 :: u32) = of_nat k" by simp
  then have "strreverse m p (of_nat n) = strreverse_loop m p (of_nat 0) (of_nat k)"
    by (simp add: strreverse_def)
  also have "\<dots> = (\<lambda>x. let d = unat (x - p) in if 0 \<le> d \<and> d \<le> k then m (p + of_nat (0 + k - d)) else m x)"
    using assms Suc by (intro strreverse_loop_nat) auto
  finally show ?thesis using Suc by (auto simp: in_region_def fun_eq_iff less_Suc_eq_le)
qed

lemma strreverse_reverses:
  assumes "n < 2147483648"
  shows "read_bytes (strreverse m p (of_nat n)) p n = rev (read_bytes m p n)"
    and "\<And>a. \<not> in_region a p n \<Longrightarrow> strreverse m p (of_nat n) a = m a"
  using assms
  by (auto intro!: nth_equalityI simp: nth_read_bytes rev_nth strreverse_nat in_region_def unat_of_nat_u32)

section \<open>int_to_hex\<close>

text \<open>The hexadecimal digits of a word, most significant first.\<close>

definition hex_digit_value :: "u8 \<Rightarrow> nat option" where
  "hex_digit_value c =
     (if 0x30 \<le> c \<and> c \<le> 0x39 then Some (unat (c - 0x30))
      else if 0x41 \<le> c \<and> c \<le> 0x46 then Some (unat (c - 0x41) + 10) else None)"

fun hex_value :: "u8 list \<Rightarrow> nat \<Rightarrow> nat option" where
  "hex_value [] acc = Some acc"
| "hex_value (c # cs) acc =
     (case hex_digit_value c of None \<Rightarrow> None | Some d \<Rightarrow> hex_value cs (16 * acc + d))"

definition hex_nibbles :: "u32 \<Rightarrow> nat \<Rightarrow> u8 list" where
  "hex_nibbles u n = map (\<lambda>i. hexChars ! unat (lo8 (drop_bit (4 * i) u AND 0xF))) (rev [0..<n])"

lemma int_to_hex_loop_write:
  "int_to_hex_loop n m p u = (write_bytes m p (hex_nibbles u n), p + of_nat n)"
  by (induction n arbitrary: m p) (simp_all add: hex_nibbles_def Let_def algebra_simps)

lemma nibble_less: "unat (lo8 (u AND 0xF)) < 16"
proof -
  have "lo8 (u AND 0xF) = lo8 u AND 0xF"
    by (simp add: lo8_def unsigned_and_eq)
  moreover have "unat (lo8 u AND 0xF) \<le> unat (0xF :: u8)"
    by (rule word_and_le1 [THEN word_le_nat_alt [THEN iffD1]])
  ultimately show ?thesis by simp
qed

lemma length_hex_nibbles [simp]: "length (hex_nibbles u n) = n"
  by (simp add: hex_nibbles_def)

lemma hex_digit_value_hexChars:
  assumes "n < 16"
  shows "hex_digit_value (hexChars ! n) = Some n" and "hexChars ! n \<noteq> 0"
proof -
  have "list_all (\<lambda>k. hex_digit_value (hexChars ! k) = Some k \<and> hexChars ! k \<noteq> 0) [0..<16]"
    by code_simp
  then show "hex_digit_value (hexChars ! n) = Some n" and "hexChars ! n \<noteq> 0"
    using assms by (auto simp: list_all_iff)
qed

lemma unat_nibble: "unat (lo8 (u AND 0xF)) = unat u mod 16"
proof -
  have "lo8 (u AND 0xF) = ucast (take_bit 4 u)"
    by (simp add: lo8_def take_bit_eq_mask mask_eq_exp_minus_1)
  then show ?thesis
    by (simp add: unsigned_ucast_eq unsigned_take_bit_eq take_bit_nat_def mod_mod_cancel)
qed

lemma hex_value_hex_nibbles:
  "hex_value (hex_nibbles u n) acc = Some (16 ^ n * acc + unat u mod 16 ^ n)"
proof (induction n arbitrary: acc)
  case 0
  then show ?case by (simp add: hex_nibbles_def)
next
  case (Suc n)
  let ?d = "unat (drop_bit (4 * n) u) mod 16"
  have d: "unat (drop_bit (4 * n) u) = unat u div 16 ^ n"
    unfolding unat_drop_bit_eq by (simp add: drop_bit_eq_div power_mult)
  have "hex_nibbles u (Suc n) = hexChars ! ?d # hex_nibbles u n"
    by (simp add: hex_nibbles_def unat_nibble)
  then have "hex_value (hex_nibbles u (Suc n)) acc = hex_value (hex_nibbles u n) (16 * acc + ?d)"
    by (simp add: hex_digit_value_hexChars)
  also have "\<dots> = Some (16 ^ n * (16 * acc + ?d) + unat u mod 16 ^ n)"
    by (rule Suc.IH)
  also have "16 ^ n * (16 * acc + ?d) + unat u mod 16 ^ n = 16 ^ Suc n * acc + unat u mod 16 ^ Suc n"
    unfolding d using mod_mult2_eq [of "unat u" "16 ^ n" 16]
    by (simp add: algebra_simps)
  finally show ?case .
qed

lemma hex_nibbles_nonzero: "0 \<notin> set (hex_nibbles u n)"
proof
  assume "0 \<in> set (hex_nibbles u n)"
  then obtain i where "hexChars ! unat (lo8 (drop_bit (4 * i) u AND 0xF)) = 0"
    by (auto simp: hex_nibbles_def)
  then show False using hex_digit_value_hexChars(2) [OF nibble_less] by metis
qed

lemma int_to_hex_write: "int_to_hex m u p = write_bytes m p (hex_nibbles u 8 @ [0])"
  by (simp add: int_to_hex_def int_to_hex_loop_write write_bytes_append)

lemma write_cstr:
  assumes "0 \<notin> set bs" and "length bs < 4294967295"
  shows "cstr_at (write_bytes m p (bs @ [0])) p bs"
proof -
  have "read_bytes (write_bytes m p (bs @ [0])) p (length bs) = bs"
    using assms(2)
    by (intro nth_equalityI)
      (simp_all add: nth_read_bytes write_bytes_apply in_region_offset unat_of_nat_u32 nth_append del: write_bytes.simps)
  moreover have "write_bytes m p (bs @ [0]) (p + of_nat (length bs)) = 0"
    using assms(2) by (simp add: write_bytes_append)
  ultimately show ?thesis using assms(1) by (simp add: cstr_at_iff)
qed

lemma int_to_hex_spec:
  "cstr_at (int_to_hex m u p) p (hex_nibbles u 8)"
  "hex_value (hex_nibbles u 8) 0 = Some (unat u)"
  "\<not> in_region a p 9 \<Longrightarrow> int_to_hex m u p a = m a"
proof -
  show "cstr_at (int_to_hex m u p) p (hex_nibbles u 8)"
    unfolding int_to_hex_write by (rule write_cstr) (simp_all add: hex_nibbles_nonzero)
  show "hex_value (hex_nibbles u 8) 0 = Some (unat u)"
    using unat_u32_less [of u] by (simp add: hex_value_hex_nibbles)
  show "int_to_hex m u p a = m a" if "\<not> in_region a p 9"
    unfolding int_to_hex_write using that by (intro write_bytes_outside) simp_all
qed

section \<open>int_to_str\<close>

text \<open>The decimal digits of a number, least significant first, and the printed integer.\<close>

fun dec_digits :: "nat \<Rightarrow> u8 list" where
  "dec_digits n = (0x30 + of_nat (n mod 10)) # (if n div 10 = 0 then [] else dec_digits (n div 10))"

declare dec_digits.simps [simp del]

definition decimal :: "int \<Rightarrow> u8 list" where
  "decimal i = (if i < 0 then [0x2D] else []) @ rev (dec_digits (nat \<bar>i\<bar>))"

text \<open>Reading a printed integer back.\<close>

fun dec_value :: "u8 list \<Rightarrow> nat" where
  "dec_value [] = 0"
| "dec_value (c # cs) = unat (c - 0x30) + 10 * dec_value cs"

definition parse_decimal :: "u8 list \<Rightarrow> int" where
  "parse_decimal cs =
     (case cs of [] \<Rightarrow> 0
      | c # cs' \<Rightarrow> if c = 0x2D then - int (dec_value (rev cs')) else int (dec_value (rev cs)))"

lemma dec_value_digits: "dec_value (dec_digits n) = n"
proof (induction n rule: dec_digits.induct)
  case (1 n)
  have "unat (of_nat (n mod 10) :: u8) = n mod 10"
    by (simp add: unat_of_nat take_bit_nat_eq_self)
  with 1 show ?case
    by (subst dec_digits.simps) (auto simp: div_mod_decomp)
qed

lemma dec_digits_range: "c \<in> set (dec_digits n) \<Longrightarrow> 0x30 \<le> c \<and> c \<le> 0x39"
proof (induction n rule: dec_digits.induct)
  case (1 n)
  have "k < 10 \<Longrightarrow> 0x30 \<le> (0x30 + of_nat k :: u8) \<and> (0x30 + of_nat k :: u8) \<le> 0x39" for k
    by (simp add: word_le_nat_alt unat_word_ariths unat_of_nat take_bit_nat_eq_self)
  from this [of "n mod 10"]
  have "0x30 \<le> (0x30 + of_nat (n mod 10) :: u8) \<and> (0x30 + of_nat (n mod 10) :: u8) \<le> 0x39"
    by simp
  with 1 show ?case
    by (subst (asm) dec_digits.simps) (auto split: if_splits)
qed

lemma length_dec_digits: "n < 10 ^ Suc k \<Longrightarrow> length (dec_digits n) \<le> Suc k"
proof (induction k arbitrary: n)
  case 0
  then show ?case by (subst dec_digits.simps) simp
next
  case (Suc k)
  then have "n div 10 < 10 ^ Suc k" by (simp add: less_mult_imp_div_less)
  then have "length (dec_digits (n div 10)) \<le> Suc k" by (rule Suc.IH)
  then show ?case by (subst dec_digits.simps) simp
qed

lemma parse_decimal_decimal: "parse_decimal (decimal i) = i"
proof -
  obtain c cs where c: "rev (dec_digits (nat \<bar>i\<bar>)) = c # cs"
    by (metis dec_digits.simps list.distinct(1) neq_Nil_conv rev_is_Nil_conv)
  then have "c \<in> set (dec_digits (nat \<bar>i\<bar>))" by (metis list.set_intros(1) set_rev)
  then have "c \<noteq> 0x2D" using dec_digits_range by fastforce
  then show ?thesis
    using c dec_value_digits [of "nat \<bar>i\<bar>"]
    by (auto simp: decimal_def parse_decimal_def simp flip: rev_swap)
qed


lemma c_mod_10_digit:
  assumes "0 \<le> sint num"
  shows "lo8 (c_mod num 10 + 0x30) = 0x30 + of_nat (nat (sint num) mod 10)"
proof -
  have "sint num smod 10 = int (nat (sint num) mod 10)"
    using assms by (simp add: signed_modulo_int_def sdiv_10 sgn_if of_nat_mod minus_mult_div_eq_mod)
  then have "c_mod num 10 + 0x30 = of_nat (nat (sint num) mod 10 + 48)"
    by (simp add: c_mod_def)
  moreover have "nat (sint num) mod 10 + 48 < 4294967296"
    using mod_less_divisor [of 10 "nat (sint num)"] by linarith
  ultimately have "lo8 (c_mod num 10 + 0x30) = of_nat (nat (sint num) mod 10 + 48)"
    by (simp only: lo8_of_nat)
  then show ?thesis by (simp only: of_nat_add of_nat_numeral add.commute)
qed

lemma int_to_str_digits_write:
  assumes "0 \<le> sint num"
  shows "int_to_str_digits m p num i =
    (write_bytes m (p + i) (dec_digits (nat (sint num))), i + of_nat (length (dec_digits (nat (sint num)))))"
  using assms
proof (induction m p num i rule: int_to_str_digits.induct)
  case (1 m p num i)
  have q: "nat (sint (c_div num 10)) = nat (sint num) div 10" and q0: "0 \<le> sint (c_div num 10)"
    using "1.prems" by (simp_all add: sint_c_div_10 sdiv_10 nat_div_distrib sgn_if)
  have z: "c_div num 10 = 0 \<longleftrightarrow> nat (sint num) div 10 = 0"
    unfolding q [symmetric] using q0 sint_eq_0_u32 [of "c_div num 10"] by linarith
  show ?case
  proof (cases "c_div num 10 = 0")
    case True
    with z show ?thesis
      by (subst int_to_str_digits.simps, subst (1 2) dec_digits.simps)
        (simp add: c_mod_10_digit "1.prems")
  next
    case False
    note IH = "1.IH" [OF refl refl False q0, unfolded q]
    from False z show ?thesis using IH [unfolded c_mod_10_digit [OF "1.prems"]]
      by (subst int_to_str_digits.simps, subst (1 2) dec_digits.simps)
        (simp add: c_mod_10_digit "1.prems" add.assoc del: fun_upd_apply)
  qed
qed

end
