(* ===== verification/Machine.thy ===== *)
theory Machine
  imports KString
begin

text \<open>
  The machine state the kernel runs on: memory and the sequence of port accesses. The component
  theories extend this record with their own globals. \<open>outb\<close> and \<open>inb\<close> are the two routines of
  src/io.s; what a port returns is decided by the device, a function of everything that happened on
  the ports before (the argument \<open>dev\<close>). String literals, global arrays and local arrays have addresses chosen by
  the compiler and the linker; they are the arguments collected in the record \<open>image\<close>.
\<close>

datatype io_event = Out u16 u8 | In u16 u8

record machine =
  mem :: memory
  trace :: "io_event list"

type_synonym device = "io_event list \<Rightarrow> u16 \<Rightarrow> u8"

definition outb :: "u16 \<Rightarrow> u8 \<Rightarrow> 'a machine_scheme \<Rightarrow> 'a machine_scheme" where
  "outb port data' s = s\<lparr>trace := Out port data' # trace s\<rparr>"

definition inb :: "device \<Rightarrow> u16 \<Rightarrow> 'a machine_scheme \<Rightarrow> u8 \<times> 'a machine_scheme" where
  "inb dev port s = (let v = dev (trace s) port in (v, s\<lparr>trace := In port v # trace s\<rparr>))"

text \<open>A store through a \<open>char *\<close>.\<close>

definition store8 :: "u32 \<Rightarrow> u8 \<Rightarrow> 'a machine_scheme \<Rightarrow> 'a machine_scheme" where
  "store8 a v s = s\<lparr>mem := (mem s)(a := v)\<rparr>"

record image =
  lit_addr :: "string \<Rightarrow> u32"
  sym_addr :: "string \<Rightarrow> u32"
  local_addr :: "string \<Rightarrow> u32"

text \<open>The literals of a list lie in memory where the linker put them.\<close>

definition literals_loaded :: "image \<Rightarrow> memory \<Rightarrow> string list \<Rightarrow> bool" where
  "literals_loaded img m ls \<longleftrightarrow> (\<forall>l \<in> set ls. cstr_at m (lit_addr img l) (bytes_of l))"

lemma outb_simps [simp]:
  "mem (outb p v s) = mem s" "trace (outb p v s) = Out p v # trace s"
  "machine.more (outb p v s) = machine.more s"
  by (simp_all add: outb_def)

lemma store8_simps [simp]:
  "mem (store8 a v s) = (mem s)(a := v)" "trace (store8 a v s) = trace s"
  "machine.more (store8 a v s) = machine.more s"
  by (simp_all add: store8_def)

lemma inb_simps [simp]:
  "fst (inb dev p s) = dev (trace s) p"
  "mem (snd (inb dev p s)) = mem s"
  "trace (snd (inb dev p s)) = In p (dev (trace s) p) # trace s"
  "machine.more (snd (inb dev p s)) = machine.more s"
  by (simp_all add: inb_def Let_def)

end
