(* ===== verification/KCommon.thy ===== *)
theory KCommon
  imports Machine
begin

text \<open>
  The byte-block routines of src/common.c (\<open>memcpy\<close>, \<open>memset\<close>, \<open>memmove\<close>, \<open>memcmp\<close>), on the flat
  memory. Each loop counts an \<open>unsigned\<close> down to 0, so all of them end.
\<close>

section \<open>The routines\<close>

function memcpy :: "memory \<Rightarrow> u32 \<Rightarrow> u32 \<Rightarrow> u32 \<Rightarrow> memory" where
  "memcpy m dp sp len =
     (if len \<noteq> 0 then memcpy (m(dp := m sp)) (dp + 1) (sp + 1) (len - 1) else m)"
  by pat_completeness auto
termination
  by (relation "measure (\<lambda>(m, dp, sp, len). unat len)") (auto simp: measure_unat)

function memset :: "memory \<Rightarrow> u32 \<Rightarrow> u8 \<Rightarrow> u32 \<Rightarrow> memory" where
  "memset m temp val len = (if len \<noteq> 0 then memset (m(temp := val)) (temp + 1) val (len - 1) else m)"
  by pat_completeness auto
termination
  by (relation "measure (\<lambda>(m, temp, val, len). unat len)") (auto simp: measure_unat)

text \<open>\<open>memmove\<close> copies upwards or downwards, by the order of the two pointers.\<close>

function memmove_up :: "memory \<Rightarrow> u32 \<Rightarrow> u32 \<Rightarrow> u32 \<Rightarrow> memory" where
  "memmove_up m d s count =
     (if count > 0 then memmove_up (m(d := m s)) (d + 1) (s + 1) (count - 1) else m)"
  by pat_completeness auto
termination
  by (relation "measure (\<lambda>(m, d, s, count). unat count)") (auto simp: measure_unat word_gt_0)

function memmove_down :: "memory \<Rightarrow> u32 \<Rightarrow> u32 \<Rightarrow> u32 \<Rightarrow> memory" where
  "memmove_down m d s count =
     (if count > 0 then memmove_down (m(d := m s)) (d - 1) (s - 1) (count - 1) else m)"
  by pat_completeness auto
termination
  by (relation "measure (\<lambda>(m, d, s, count). unat count)") (auto simp: measure_unat word_gt_0)

definition memmove :: "memory \<Rightarrow> u32 \<Rightarrow> u32 \<Rightarrow> u32 \<Rightarrow> memory" where
  "memmove m dest src count =
     (let d = dest; s = src in
      if d < s \<or> d \<ge> s + count then memmove_up m d s count
      else memmove_down m (d + count - 1) (s + count - 1) count)"

function memcmp :: "memory \<Rightarrow> u32 \<Rightarrow> u32 \<Rightarrow> u32 \<Rightarrow> int" where
  "memcmp m p1 p2 count =
     (if count > 0
      then if m p1 \<noteq> m p2 then (if m p1 < m p2 then -1 else 1)
           else memcmp m (p1 + 1) (p2 + 1) (count - 1)
      else 0)"
  by pat_completeness auto
termination
  by (relation "measure (\<lambda>(m, p1, p2, count). unat count)") (auto simp: measure_unat word_gt_0)

declare memcpy.simps [simp del] memset.simps [simp del] memmove_up.simps [simp del]
  memmove_down.simps [simp del] memcmp.simps [simp del]

section \<open>memset, memcpy\<close>

lemma memset_write:
  "n < 4294967296 \<Longrightarrow> memset m p v (of_nat n) = write_bytes m p (replicate n v)"
proof (induction n arbitrary: m p)
  case 0
  then show ?case by (simp add: memset.simps)
next
  case (Suc n)
  have "(of_nat (Suc n) :: u32) \<noteq> 0"
    using Suc.prems of_nat_u32_inj [of "Suc n" 0] by (simp del: of_nat_Suc)
  then have "memset m p v (of_nat (Suc n)) = memset (m(p := v)) (p + 1) v (of_nat n)"
    by (subst memset.simps) simp
  with Suc show ?case by simp
qed

lemma memmove_up_eq_memcpy: "memmove_up m d s n = memcpy m d s n"
proof (induction m d s n rule: memmove_up.induct)
  case (1 m d s n)
  then show ?case by (subst memmove_up.simps, subst memcpy.simps) (auto simp: word_gt_0 simp del: fun_upd_apply)
qed

text \<open>
  Copying upwards is right whenever the destination does not start inside the rest of the source.
\<close>

lemma memcpy_write:
  assumes "n < 4294967296" and "d = s \<or> \<not> in_region d s n"
  shows "memcpy m d s (of_nat n) = write_bytes m d (read_bytes m s n)"
  using assms
proof (induction n arbitrary: m d s)
  case 0
  then show ?case by (simp add: memcpy.simps)
next
  case (Suc n)
  have "(of_nat (Suc n) :: u32) \<noteq> 0"
    using Suc.prems of_nat_u32_inj [of "Suc n" 0] by (simp del: of_nat_Suc)
  then have step: "memcpy m d s (of_nat (Suc n)) = memcpy (m(d := m s)) (d + 1) (s + 1) (of_nat n)"
    by (subst memcpy.simps) simp
  have "read_bytes (m(d := m s)) (s + 1) n = read_bytes m (s + 1) n"
  proof (cases "d = s")
    case False
    then have "\<not> in_region d (s + 1) n"
      using Suc.prems in_region_Suc [of d s n] by auto
    then show ?thesis using Suc.prems by (intro read_bytes_upd_outside) auto
  qed (simp add: fun_upd_idem)
  moreover have "d + 1 = s + 1 \<or> \<not> in_region (d + 1) (s + 1) n"
    using Suc.prems by (auto simp: in_region_def)
  ultimately show ?case
    using Suc.prems unfolding step by (subst Suc.IH) auto
qed

text \<open>Copying downwards is right whenever the source does not start inside the destination.\<close>

lemma memmove_down_write:
  assumes "n < 4294967296" and "\<not> in_region s d n \<or> d = s"
  shows "memmove_down m (d + of_nat n - 1) (s + of_nat n - 1) (of_nat n) = write_bytes m d (read_bytes m s n)"
  using assms
proof (induction n arbitrary: m)
  case 0
  then show ?case by (simp add: memmove_down.simps)
next
  case (Suc n)
  have gt: "(of_nat (Suc n) :: u32) > 0"
    using Suc.prems of_nat_u32_inj [of "Suc n" 0] by (simp add: word_gt_0 del: of_nat_Suc)
  let ?m = "m(d + of_nat n := m (s + of_nat n))"
  have "memmove_down m (d + of_nat (Suc n) - 1) (s + of_nat (Suc n) - 1) (of_nat (Suc n))
      = memmove_down ?m (d + of_nat n - 1) (s + of_nat n - 1) (of_nat n)"
    using gt by (subst memmove_down.simps) (simp add: algebra_simps)
  also have "\<dots> = write_bytes ?m d (read_bytes ?m s n)"
    using Suc.prems by (intro Suc.IH) (auto simp: in_region_def)
  also have "read_bytes ?m s n = read_bytes m s n"
  proof (cases "d = s")
    case False
    then have "\<not> in_region s d (Suc n)" using Suc.prems by blast
    then have "n < unat (s - d)" by (simp add: in_region_def)
    have "\<not> in_region (d + of_nat n) s n"
    proof
      assume "in_region (d + of_nat n) s n"
      then obtain i where "i < n" and "d + of_nat n = s + of_nat i" by (rule in_regionE)
      then have "s - d = of_nat (n - i)" by (simp add: algebra_simps)
      then have "unat (s - d) = n - i" using Suc.prems by (simp only: unat_of_nat_u32)
      with \<open>n < unat (s - d)\<close> show False by simp
    qed
    then show ?thesis using Suc.prems by (intro read_bytes_upd_outside) auto
  next
    case True
    then show ?thesis by (simp add: fun_upd_idem)
  qed
  also have "write_bytes ?m d (read_bytes m s n) = write_bytes m d (read_bytes m s (Suc n))"
    unfolding read_bytes_snoc write_bytes_append
    using Suc.prems by (auto simp: fun_eq_iff write_bytes_apply not_in_region_before in_region_def unat_of_nat_u32)
  finally show ?case .
qed

section \<open>memmove\<close>

lemma not_in_region_below:
  fixes d s :: u32
  assumes "d < s" and "n + unat s \<le> 4294967296"
  shows "\<not> in_region d s n"
proof
  assume "in_region d s n"
  then obtain i where i: "i < n" "d = s + of_nat i" by (rule in_regionE)
  then have "unat d = unat s + i"
    using assms(2) by (simp add: unat_word_ariths unat_of_nat_u32)
  then show False using assms(1) by (simp add: word_less_nat_alt)
qed

lemma memmove_write:
  assumes "n + unat dest < 4294967296" and "n + unat src < 4294967296"
  shows "memmove m dest src (of_nat n) = write_bytes m dest (read_bytes m src n)"
proof -
  have sn: "unat (src + of_nat n) = unat src + n"
    using assms by (simp add: unat_word_ariths unat_of_nat_u32)
  consider "dest < src" | "src + of_nat n \<le> dest" | "src \<le> dest" "dest < src + of_nat n"
    by (meson not_le)
  then show ?thesis
  proof cases
    case 1
    then have "\<not> in_region dest src n" using assms by (intro not_in_region_below) auto
    then show ?thesis using 1 assms by (simp add: memmove_def memmove_up_eq_memcpy memcpy_write)
  next
    case 2
    then have "unat src \<le> unat dest" and "n \<le> unat dest - unat src"
      using sn by (auto simp: word_le_nat_alt)
    then have "\<not> in_region dest src n"
      by (simp add: in_region_def unat_sub word_le_nat_alt)
    then show ?thesis using 2 assms by (simp add: memmove_def memmove_up_eq_memcpy memcpy_write)
  next
    case 3
    have "\<not> in_region src dest n \<or> dest = src"
    proof (cases "dest = src")
      case False
      then have "src < dest" using 3 by simp
      then show ?thesis using assms not_in_region_below [of src dest n] by auto
    qed simp
    then have "memmove_down m (dest + of_nat n - 1) (src + of_nat n - 1) (of_nat n)
        = write_bytes m dest (read_bytes m src n)"
      using assms by (intro memmove_down_write) auto
    then show ?thesis using 3 by (auto simp: memmove_def)
  qed
qed

section \<open>memcmp\<close>

lemma memcmp_first_difference:
  assumes "n < 4294967296" and "i \<le> n" and "\<And>j. j < i \<Longrightarrow> m (p + of_nat j) = m (q + of_nat j)"
    and "i < n \<Longrightarrow> m (p + of_nat i) \<noteq> m (q + of_nat i)"
  shows "memcmp m p q (of_nat n) =
    (if i = n then 0 else if m (p + of_nat i) < m (q + of_nat i) then -1 else 1)"
  using assms
proof (induction n arbitrary: p q i)
  case 0
  then show ?case by (simp add: memcmp.simps)
next
  case (Suc n)
  have gt: "(of_nat (Suc n) :: u32) > 0"
    using Suc.prems of_nat_u32_inj [of "Suc n" 0] by (simp add: word_gt_0 del: of_nat_Suc)
  show ?case
  proof (cases i)
    case 0
    with gt Suc.prems(4) show ?thesis by (subst memcmp.simps) auto
  next
    case (Suc k)
    have "memcmp m (p + 1) (q + 1) (of_nat n) =
      (if k = n then 0 else if m (p + 1 + of_nat k) < m (q + 1 + of_nat k) then -1 else 1)"
    proof (rule Suc.IH)
      show "m (p + 1 + of_nat j) = m (q + 1 + of_nat j)" if "j < k" for j
        using Suc.prems(3) [of "Suc j"] that Suc by (simp add: add.assoc)
      show "m (p + 1 + of_nat k) \<noteq> m (q + 1 + of_nat k)" if "k < n"
        using Suc.prems(4) that Suc by (simp add: add.assoc)
    qed (use Suc.prems Suc in auto)
    moreover have "m p = m q" using Suc.prems(3) [of 0] Suc by simp
    ultimately show ?thesis
      using gt Suc by (subst memcmp.simps) (simp add: add.assoc)
  qed
qed

end
