(* ===== verification/KString_More.thy ===== *)
theory KString_More
  imports KString KCommon
begin

text \<open>
  What the routines of src/string.c compute on C strings in memory: comparison, slicing, copying,
  concatenation, and the printed integers; then the properties of the file.
\<close>

section \<open>strcmp\<close>

lemma strcmp_loop_cstr:
  "cstr_at m (p + i) xs \<Longrightarrow> cstr_at m (q + i) ys \<Longrightarrow>
   \<exists>k f. strcmp_loop m p q i = Some (k, f) \<and>
     (if (m (p + k) = 0 \<and> m (q + k) \<noteq> 0) \<or> (m (p + k) \<noteq> 0 \<and> m (q + k) = 0) then 1 else f)
       = (if xs = ys then 0 else 1 :: u32)"
proof (induction xs arbitrary: i ys)
  case Nil
  then show ?case by (cases ys) (auto simp: strcmp_loop.simps)
next
  case (Cons x xs)
  show ?case
  proof (cases ys)
    case Nil
    with Cons.prems show ?thesis by (auto simp: strcmp_loop.simps)
  next
    case (Cons y zs)
    show ?thesis
    proof (cases "x = y")
      case True
      have "cstr_at m (p + (i + 1)) xs" "cstr_at m (q + (i + 1)) zs"
        using Cons Cons.prems by (simp_all add: add.assoc)
      from Cons.IH [OF this] show ?thesis
        using Cons Cons.prems True by (subst (1) strcmp_loop.simps) simp
    next
      case False
      then show ?thesis using Cons Cons.prems by (subst (1) strcmp_loop.simps) auto
    qed
  qed
qed

text \<open>\<open>strcmp\<close> decides equality of C strings: 0 when they are equal, 1 otherwise, never -1.\<close>

lemma strcmp_cstr [c_arith]:
  assumes "cstr_at m p xs" and "cstr_at m q ys"
  shows "strcmp m p q = Some (if xs = ys then 0 else 1)"
  using strcmp_loop_cstr [of m p 0 xs q ys] assms by (auto simp: strcmp_def)

section \<open>strslice\<close>

lemma strslice_loop_write:
  assumes "cstr_at m (str + of_nat k) xs" and "k \<le> Suc t" and "k + length xs < 2147483647" and "t < 2147483647"
    and "disjoint_regions (out + j) (Suc (length xs)) (str + of_nat k) (Suc (length xs))"
  shows "strslice_loop m str (of_nat k) (of_nat t) out j
    = Some (write_bytes m (out + j) (take (Suc t - k) xs @ [0]))"
  using assms
proof (induction xs arbitrary: k j m)
  case Nil
  then show ?case by (simp add: strslice_loop.simps fun_upd_def)
next
  case (Cons x xs)
  show ?case
  proof (cases "k \<le> t")
    case False
    then have "\<not> of_nat k \<le>s (of_nat t :: u32)"
      using Cons.prems by (simp add: word_sle_eq sint_of_nat_u32)
    then show ?thesis using False by (simp add: strslice_loop.simps fun_upd_def)
  next
    case True
    then have le: "of_nat k \<le>s (of_nat t :: u32)"
      using Cons.prems by (simp add: word_sle_eq sint_of_nat_u32)
    let ?m1 = "m(out + j := x)"
    have dis: "disjoint_regions (out + j) (Suc (Suc (length xs))) (str + of_nat k) (Suc (Suc (length xs)))"
      using Cons.prems by simp
    have "in_region (out + j) (out + j) (Suc (Suc (length xs)))" by (simp add: in_region_def)
    from disjoint_regionsD [OF dis this]
    have out: "\<not> in_region (out + j) (str + of_nat k) (Suc (Suc (length xs)))" .
    have sk: "str + of_nat (Suc k) = str + of_nat k + of_nat 1" by simp
    have "cstr_at m (str + of_nat (Suc k)) xs"
      using Cons.prems by (simp add: add.assoc add.commute [of 1])
    then have c: "cstr_at ?m1 (str + of_nat (Suc k)) xs"
    proof (rule cstr_at_cong)
      fix a assume "in_region a (str + of_nat (Suc k)) (Suc (length xs))"
      then have "in_region a (str + of_nat k) (Suc (Suc (length xs)))"
        unfolding sk by (rule in_region_sub) (use Cons.prems in auto)
      then show "?m1 a = m a" using out by auto
    qed (use Cons.prems in simp)
    have "disjoint_regions (out + j + of_nat 1) (Suc (length xs)) (str + of_nat k) (Suc (Suc (length xs)))"
      by (rule disjoint_subregion [OF dis]) (use Cons.prems in auto)
    then have "disjoint_regions (str + of_nat k) (Suc (Suc (length xs))) (out + j + of_nat 1) (Suc (length xs))"
      by (rule disjoint_regions_sym)
    then have "disjoint_regions (str + of_nat k + of_nat 1) (Suc (length xs)) (out + j + of_nat 1) (Suc (length xs))"
      by (rule disjoint_subregion) (use Cons.prems in auto)
    then have d: "disjoint_regions (out + (j + 1)) (Suc (length xs)) (str + of_nat (Suc k)) (Suc (length xs))"
      unfolding sk by (simp add: disjoint_regions_sym add.assoc)
    have "strslice_loop m str (of_nat k) (of_nat t) out j = strslice_loop ?m1 str (of_nat (Suc k)) (of_nat t) out (j + 1)"
      using le Cons.prems by (subst strslice_loop.simps) (simp add: add.commute)
    also have "\<dots> = Some (write_bytes ?m1 (out + (j + 1)) (take (Suc t - Suc k) xs @ [0]))"
      by (rule Cons.IH [OF c]) (use True Cons.prems d in auto)
    also have "\<dots> = Some (write_bytes m (out + j) (take (Suc t - k) (x # xs) @ [0]))"
      using True by (simp add: Suc_diff_le add.assoc)
    finally show ?thesis .
  qed
qed

lemma strslice_cstr:
  assumes "cstr_at m str bs" and "from \<le> length bs" and "from \<le> Suc to" and "length bs < 2147483647" and "to < 2147483647"
    and "disjoint_regions out (Suc (length bs - from)) (str + of_nat from) (Suc (length bs - from))"
  shows "strslice m str (of_nat from) (of_nat to) out
    = Some (write_bytes m out (take (Suc to - from) (drop from bs) @ [0]))"
proof -
  have "cstr_at m str (take from bs @ drop from bs)" using assms(1) by simp
  then have "cstr_at m (str + of_nat from) (drop from bs)"
    using assms(2) by (simp only: cstr_at_append length_take min.absorb2)
  then show ?thesis
    unfolding strslice_def using assms strslice_loop_write [of m str "from" "drop from bs" to out 0]
    by (simp add: Suc_diff_le)
qed

section \<open>strcpy\<close>

text \<open>The loop stops before it copies the NUL.\<close>

lemma strcpy_loop_write:
  assumes "cstr_at m src (x # xs)" and "length xs < 4294967294"
    and "disjoint_regions dest (Suc (length xs)) src (Suc (Suc (length xs)))"
  shows "strcpy_loop m dest src = Some (write_bytes m dest (x # xs), dest + of_nat (Suc (length xs)))"
  using assms
proof (induction xs arbitrary: x m dest src)
  case Nil
  then have "in_region dest dest (Suc 0)" "in_region (src + 1) src (Suc (Suc 0))"
    by (simp_all add: in_region_def)
  then have "dest \<noteq> src + 1" using disjoint_regionsD Nil.prems(3) by force
  with Nil show ?case by (subst strcpy_loop.simps) simp
next
  case (Cons y ys)
  note prems = Cons.prems [unfolded length_Cons]
  have "in_region dest dest (Suc (Suc (length ys)))" by (simp add: in_region_def)
  then have out: "\<not> in_region dest src (Suc (Suc (Suc (length ys))))"
    using disjoint_regionsD prems(3) by force
  let ?m1 = "m(dest := x)"
  have c1: "cstr_at ?m1 src (x # y # ys)"
    by (rule cstr_at_cong [OF Cons.prems(1)]) (use out Cons.prems(2) in auto)
  then have c: "cstr_at ?m1 (src + 1) (y # ys)" by simp
  have "disjoint_regions (dest + of_nat 1) (Suc (length ys)) src (Suc (Suc (Suc (length ys))))"
    by (rule disjoint_subregion [OF prems(3)]) (use prems in auto)
  then have "disjoint_regions src (Suc (Suc (Suc (length ys)))) (dest + of_nat 1) (Suc (length ys))"
    by (rule disjoint_regions_sym)
  then have "disjoint_regions (src + of_nat 1) (Suc (Suc (length ys))) (dest + of_nat 1) (Suc (length ys))"
    by (rule disjoint_subregion) (use prems in auto)
  then have d: "disjoint_regions (dest + 1) (Suc (length ys)) (src + 1) (Suc (Suc (length ys)))"
    by (simp add: disjoint_regions_sym)
  have "strcpy_loop m dest src = strcpy_loop ?m1 (dest + 1) (src + 1)"
    using c Cons.prems by (subst strcpy_loop.simps) simp
  also have "\<dots> = Some (write_bytes ?m1 (dest + 1) (y # ys), dest + 1 + of_nat (Suc (length ys)))"
    by (rule Cons.IH [OF c _ d]) (use prems in auto)
  finally show ?case by (simp add: add.assoc)
qed

section \<open>strw_flo and strcat\<close>

lemma strw_flo_skip_eq: "strw_flo_skip dest offset = dest + offset"
  by (induction dest offset rule: strw_flo_skip.induct) (subst strw_flo_skip.simps, simp)

text \<open>
  The copy loop moves exactly \<open>length\<close> characters and a NUL when the source has that many. The
  destination is either apart from the source or the source itself.
\<close>

lemma strw_flo_copy_write:
  assumes "read_bytes m src (length xs) = xs" and "0 \<notin> set xs" and "xs \<noteq> []" and "length xs < 4294967295"
    and "dest = src \<or> disjoint_regions dest (Suc (length xs)) src (length xs)"
  shows "strw_flo_copy m dest src (of_nat (length xs)) = write_bytes m dest (xs @ [0])"
  using assms
proof (induction xs arbitrary: m dest src)
  case (Cons x xs)
  let ?m1 = "m(dest := x)"
  have mx: "m src = x" using Cons.prems by simp
  have out: "dest = src \<or> \<not> in_region dest src (Suc (length xs))"
  proof (cases "dest = src")
    case False
    have "in_region dest dest (Suc (Suc (length xs)))" by (simp add: in_region_def)
    then show ?thesis using disjoint_regionsD Cons.prems(5) False by force
  qed simp
  show ?case
  proof (cases xs)
    case Nil
    then show ?thesis using mx by (subst strw_flo_copy.simps) simp
  next
    case (Cons y ys)
    have l1: "(of_nat (length (x # xs)) - 1 :: u32) = of_nat (length xs)" by simp
    have nz: "(of_nat (length xs) :: u32) \<noteq> 0"
      using of_nat_u32_inj [of "length xs" 0] Cons.prems(4) Cons by auto
    have r: "read_bytes ?m1 (src + 1) (length xs) = xs"
    proof -
      have "read_bytes ?m1 src (Suc (length xs)) = read_bytes m src (Suc (length xs))"
      proof (cases "dest = src")
        case True
        then show ?thesis using mx by (simp add: fun_upd_idem)
      next
        case False
        then show ?thesis using out Cons.prems(4) by (intro read_bytes_upd_outside) auto
      qed
      then show ?thesis using Cons.prems(1) by simp
    qed
    then have y: "?m1 (src + 1) = y" using Cons by simp
    have d: "dest + 1 = src + 1 \<or> disjoint_regions (dest + 1) (Suc (length xs)) (src + 1) (length xs)"
    proof (cases "dest = src")
      case False
      then have dis: "disjoint_regions dest (Suc (Suc (length xs))) src (Suc (length xs))"
        using Cons.prems(5) by simp
      have "disjoint_regions (dest + of_nat 1) (Suc (length xs)) src (Suc (length xs))"
        by (rule disjoint_subregion [OF dis]) (use Cons.prems in auto)
      then have "disjoint_regions src (Suc (length xs)) (dest + of_nat 1) (Suc (length xs))"
        by (rule disjoint_regions_sym)
      then have "disjoint_regions (src + of_nat 1) (length xs) (dest + of_nat 1) (Suc (length xs))"
        by (rule disjoint_subregion) (use Cons.prems in auto)
      then show ?thesis by (simp add: disjoint_regions_sym)
    qed simp
    have "strw_flo_copy m dest src (of_nat (length (x # xs))) = strw_flo_copy ?m1 (dest + 1) (src + 1) (of_nat (length xs))"
      using nz y Cons.prems(2) Cons unfolding l1 [symmetric]
      by (subst strw_flo_copy.simps) (simp only: Let_def mx, simp)
    also have "\<dots> = write_bytes ?m1 (dest + 1) (xs @ [0])"
      by (rule Cons.IH [OF r]) (use Cons.prems d Cons in auto)
    finally show ?thesis by simp
  qed
qed simp

lemma strw_flo_hangs: "from \<noteq> 0 \<Longrightarrow> strw_flo m dest src from length' offset = None"
  by (simp add: strw_flo_def)

lemma strw_flo_write:
  assumes "read_bytes m src (length xs) = xs" and "0 \<notin> set xs" and "xs \<noteq> []" and "length xs < 4294967295"
    and "dest + offset = src \<or> disjoint_regions (dest + offset) (Suc (length xs)) src (length xs)"
  shows "strw_flo m dest src 0 (of_nat (length xs)) offset = Some (write_bytes m (dest + offset) (xs @ [0]))"
  using strw_flo_copy_write [OF assms] by (simp add: strw_flo_def strw_flo_skip_eq)


text \<open>
  Concatenation into a buffer apart from both arguments: the two strings and two NULs.
\<close>

lemma strcat_apart:
  assumes "cstr_at m dest xs" and "cstr_at m app ys" and "xs \<noteq> []" and "ys \<noteq> []"
    and len: "length xs + length ys < 2147483647"
    and d1: "disjoint_regions buffer (length xs + length ys + 2) dest (Suc (length xs))"
    and d2: "disjoint_regions buffer (length xs + length ys + 2) app (Suc (length ys))"
  shows "strcat m dest app buffer = Some (write_bytes m buffer (xs @ ys @ [0, 0]))"
proof -
  let ?l = "length xs" and ?k = "length ys"
  have nz: "0 \<notin> set xs" "0 \<notin> set ys" and rd: "read_bytes m dest ?l = xs"
    using assms(1,2) by (simp_all add: cstr_at_iff)
  have keep: "cstr_at (write_bytes m buffer bs) p zs"
    if "cstr_at m p zs" "disjoint_regions buffer (?l + ?k + 2) p (Suc (length zs))" "length bs \<le> ?l + ?k + 2"
      "length zs < 4294967295" for bs p zs
  proof (rule cstr_at_cong [OF that(1)])
    fix a assume "in_region a p (Suc (length zs))"
    then have "\<not> in_region a buffer (?l + ?k + 2)"
      using that(2) disjoint_regions_sym disjoint_regionsD by blast
    then show "write_bytes m buffer bs a = m a"
      using that(3) len in_region_mono by (intro write_bytes_outside) auto
  qed (use that in simp)
  define m1 where "m1 = write_bytes m buffer (xs @ [0])"
  have s1: "strw_flo m buffer dest 0 (of_nat ?l) 0 = Some m1"
    unfolding m1_def
    using strw_flo_write [OF rd nz(1) assms(3), of buffer 0] len disjoint_regions_mono [OF d1, of "Suc ?l" ?l] by simp
  have k1: "cstr_at m1 dest xs" "cstr_at m1 app ys"
    unfolding m1_def using assms(1,2) d1 d2 len by (auto intro!: keep)
  have rd1: "read_bytes m1 app ?k = ys" using k1(2) by (simp add: cstr_at_iff)
  define m2 where "m2 = write_bytes m buffer (xs @ ys @ [0])"
  have m2: "m2 = write_bytes m1 (buffer + of_nat ?l) (ys @ [0])"
  proof -
    have "write_bytes (write_bytes m buffer (xs @ [0])) (buffer + of_nat ?l) (ys @ [0]) a
        = write_bytes m buffer (xs @ ys @ [0]) a" for a
    proof -
      obtain y ys' where ys: "ys = y # ys'" using assms(4) by (cases ys) auto
      show ?thesis by (simp add: write_bytes_append ys)
    qed
    then show ?thesis by (auto simp: m1_def m2_def)
  qed
  have "disjoint_regions (buffer + of_nat ?l) (Suc ?k) app (Suc ?k)"
    by (rule disjoint_subregion [OF d2]) (use len in auto)
  then have "disjoint_regions (buffer + of_nat ?l) (Suc ?k) app ?k"
    by (rule disjoint_regions_mono) auto
  then have s2: "strw_flo m1 buffer app 0 (of_nat ?k) (of_nat ?l) = Some m2"
    unfolding m2 using strw_flo_write [OF rd1 nz(2) assms(4)] len by simp
  have k2: "cstr_at m2 dest xs" "cstr_at m2 app ys"
    unfolding m2_def using assms(1,2) d1 d2 len by (auto intro!: keep)
  have "strcat m dest app buffer = Some (m2(buffer + (of_nat ?l + of_nat ?k + 1) := 0))"
    unfolding strcat_def
    using strlen_cstr [OF assms(1)] s1 strlen_cstr [OF k1(1)] strlen_cstr [OF k1(2)] s2
      strlen_cstr [OF k2(1)] strlen_cstr [OF k2(2)] by simp
  also have "m2(buffer + (of_nat ?l + of_nat ?k + 1) := 0) = write_bytes m buffer ((xs @ ys @ [0]) @ [0])"
  proof -
    have "(of_nat ?l + of_nat ?k + 1 :: u32) = of_nat (length (xs @ ys @ [0 :: u8]))" by simp
    then show ?thesis
      unfolding write_bytes_append [of _ _ "xs @ ys @ [0]"] m2_def by (simp only: write_bytes.simps)
  qed
  finally show ?thesis by simp
qed

text \<open>
  Concatenation in place, the way \<open>page_fault\<close> uses it: the result is right, but the length of
  \<open>dest\<close> is taken again at the end, so the last NUL lands \<open>length ys\<close> bytes further on.
\<close>

lemma strcat_in_place:
  assumes "cstr_at m dest xs" and "cstr_at m app ys" and "xs \<noteq> []" and "ys \<noteq> []"
    and len: "length xs + 2 * length ys < 2147483647"
    and d: "disjoint_regions dest (length xs + 2 * length ys + 2) app (Suc (length ys))"
  shows "strcat m dest app dest
    = Some ((write_bytes m dest (xs @ ys @ [0]))(dest + of_nat (length xs + 2 * length ys + 1) := 0))"
proof -
  let ?l = "length xs" and ?k = "length ys"
  have nz: "0 \<notin> set xs" "0 \<notin> set ys" and rd: "read_bytes m dest ?l = xs" and rd1: "read_bytes m app ?k = ys"
    using assms(1,2) by (simp_all add: cstr_at_iff)
  have "write_bytes m dest (xs @ [0]) = m"
    using assms(1) by (intro write_bytes_same) (simp add: read_bytes_snoc cstr_at_iff del: read_bytes.simps)
  then have s1: "strw_flo m dest dest 0 (of_nat ?l) 0 = Some m"
    using strw_flo_write [OF rd nz(1) assms(3), of dest 0] len by simp
  define m2 where "m2 = write_bytes m (dest + of_nat ?l) (ys @ [0])"
  have d': "disjoint_regions (dest + of_nat ?l) (Suc ?k) app (Suc ?k)"
    by (rule disjoint_subregion [OF d]) (use len in auto)
  then have "disjoint_regions (dest + of_nat ?l) (Suc ?k) app ?k"
    by (rule disjoint_regions_mono) auto
  then have s2: "strw_flo m dest app 0 (of_nat ?k) (of_nat ?l) = Some m2"
    unfolding m2_def using strw_flo_write [OF rd1 nz(2) assms(4)] len by simp
  have m2: "m2 = write_bytes m dest ((xs @ ys) @ [0])"
    unfolding m2_def by (simp add: write_bytes_append write_bytes_same [of m dest xs] rd)
  have "cstr_at m2 dest (xs @ ys)"
    unfolding m2 by (rule write_cstr) (use nz len in auto)
  moreover have "cstr_at m2 app ys"
    unfolding m2_def
    by (rule cstr_at_cong [OF assms(2)], rule write_bytes_outside)
      (use len disjoint_regionsD [OF disjoint_regions_sym [OF d']] in auto)
  ultimately have "strcat m dest app dest = Some (m2(dest + (of_nat (length (xs @ ys)) + of_nat ?k + 1) := 0))"
    unfolding strcat_def
    using strlen_cstr [OF assms(1)] strlen_cstr [OF assms(2)] s1 s2
      strlen_cstr [of m2 dest "xs @ ys"] strlen_cstr [of m2 app ys] by simp
  moreover have "(of_nat (length (xs @ ys)) + of_nat ?k + 1 :: u32) = of_nat (?l + 2 * ?k + 1)"
    by simp
  ultimately show ?thesis by (simp only: m2 append_assoc)
qed

section \<open>What int_to_str prints for every input\<close>

text \<open>
  The characters the digit loop produces, least significant first, for any \<open>num\<close>; for the least
  \<open>int\<close>, whose negation is itself, they are not digits.
\<close>

definition int_text :: "u32 \<Rightarrow> u8 list" where
  "int_text num = (if num = 0x80000000 then bytes_of ''-./,),(-*,('' else decimal (sint num))"

lemma int_to_str_digits_min:
  "int_to_str_digits m p (- 0x80000000) 0
    = (write_bytes m p (rev (bytes_of ''./,),(-*,('')), 10)"
  by (simp add: int_to_str_digits.simps c_div_def c_mod_def lo8_def bytes_of_def add.assoc del: fun_upd_apply)


lemma int_to_str_write:
  "\<exists>cs. rev cs = int_text num \<and> length cs \<le> 11 \<and>
     int_to_str m num p = strreverse (write_bytes m p (cs @ [0])) p (of_nat (length cs))"
proof (cases "num = 0x80000000")
  case True
  have "int_to_str m num p = strreverse (write_bytes m p (rev (int_text num) @ [0])) p (of_nat (length (int_text num)))"
    unfolding int_to_str_def True
    by (simp add: word_sless_alt int_to_str_digits_min int_text_def write_bytes_append bytes_of_def add.assoc)
  then show ?thesis using True by (intro exI [of _ "rev (int_text num)"]) (simp add: int_text_def)
next
  case False
  define num1 where "num1 = (if num <s 0 then - num else num)"
  have sn: "sint num1 = \<bar>sint num\<bar>"
  proof (cases "num <s 0")
    case True
    moreover have "sint num \<noteq> -2147483648"
      using False by (simp add: sint_eq_min_u32)
    ultimately show ?thesis
      using sint_range_u32 [of num]
      by (simp add: num1_def word_sless_alt sint_word_minus signed_take_bit_int_eq_self)
  qed (simp add: num1_def word_sless_alt)
  define ds where "ds = dec_digits (nat \<bar>sint num\<bar>)"
  define cs where "cs = ds @ (if num <s 0 then [0x2D] else [])"
  have "rev cs = int_text num"
    using False by (simp add: cs_def ds_def decimal_def word_sless_alt int_text_def)
  moreover have "nat \<bar>sint num\<bar> < 10 ^ Suc 9"
    using sint_range_u32 [of num] by simp
  then have "length ds \<le> Suc 9" unfolding ds_def by (rule length_dec_digits)
  then have "length cs \<le> 11" by (simp add: cs_def)
  moreover have dig: "int_to_str_digits m p num1 0 = (write_bytes m p ds, of_nat (length ds))"
    by (simp add: int_to_str_digits_write sn ds_def)
  have "int_to_str m num p = strreverse (write_bytes m p (cs @ [0])) p (of_nat (length cs))"
    unfolding int_to_str_def Let_def num1_def [symmetric] dig prod.case
    by (simp add: cs_def write_bytes_append add.assoc)
  ultimately show ?thesis by blast
qed

lemma int_text_nonzero: "0 \<notin> set (int_text num)"
  by (auto simp: int_text_def decimal_def bytes_of_def dest: dec_digits_range)

lemma int_text_length: "length (int_text num) \<le> 11"
  using int_to_str_write [of num] by (metis length_rev)

lemma int_to_str_spec:
  "cstr_at (int_to_str m num p) p (int_text num)"
  "\<not> in_region a p 12 \<Longrightarrow> int_to_str m num p a = m a"
proof -
  obtain cs where cs: "rev cs = int_text num" "length cs \<le> 11"
    and eq: "int_to_str m num p = strreverse (write_bytes m p (cs @ [0])) p (of_nat (length cs))"
    using int_to_str_write by blast
  define m3 where "m3 = write_bytes m p (cs @ [0])"
  have nz: "0 \<notin> set cs" using int_text_nonzero [of num] by (simp flip: cs(1))
  have m3: "read_bytes m3 p (length cs) = cs" "m3 (p + of_nat (length cs)) = 0"
    using write_cstr [OF nz] cs(2) by (simp_all add: m3_def cstr_at_iff)
  have "read_bytes (int_to_str m num p) p (length cs) = rev cs"
    unfolding eq m3_def [symmetric] using cs(2) m3 by (simp add: strreverse_reverses)
  moreover have "int_to_str m num p (p + of_nat (length cs)) = 0"
    unfolding eq m3_def [symmetric] using cs(2) m3 by (simp add: strreverse_nat in_region_def unat_of_nat_u32)
  ultimately show "cstr_at (int_to_str m num p) p (int_text num)"
    using nz by (simp add: cstr_at_iff flip: cs(1))
  show "int_to_str m num p a = m a" if "\<not> in_region a p 12"
    using that cs(2) by (simp add: eq strreverse_nat write_bytes_apply in_region_def)
qed

section \<open>Properties\<close>

text \<open>C38: \<open>int_to_hex\<close> writes exactly eight characters and a NUL, which read back as the unsigned value.\<close>

theorem int_to_hex_correct:
  "int_to_hex m u p = write_bytes m p (hex_nibbles u 8 @ [0])
   \<and> cstr_at (int_to_hex m u p) p (hex_nibbles u 8)
   \<and> hex_value (hex_nibbles u 8) 0 = Some (unat u)"
  using int_to_hex_spec(1) [of m u p] int_to_hex_spec(2) [of u] by (simp add: int_to_hex_write del: write_bytes.simps)

text \<open>C37: \<open>int_to_str\<close> prints every \<open>int\<close> except the least in at most 11 characters from which it can be
  read back, and changes no byte outside the 12 of the documented buffer.\<close>

theorem int_to_str_correct:
  assumes "num \<noteq> 0x80000000"
  shows "cstr_at (int_to_str m num p) p (decimal (sint num))
    \<and> parse_decimal (decimal (sint num)) = sint num
    \<and> length (decimal (sint num)) \<le> 11
    \<and> (\<forall>a. \<not> in_region a p 12 \<longrightarrow> int_to_str m num p a = m a)"
  using int_to_str_spec(1) [of m num p] int_to_str_spec(2) [of _ p m num] int_text_length [of num] assms
  by (simp add: int_text_def parse_decimal_decimal)

lemma int_to_str_correct_witness:
  "cstr_at (int_to_str (\<lambda>_. 0) (- 305) 0x1000) 0x1000 (bytes_of ''-305'')"
proof -
  have "decimal (- 305) = bytes_of ''-305''"
    by (simp add: decimal_def dec_digits.simps bytes_of_def)
  then show ?thesis using int_to_str_correct [of "- 305" "\<lambda>_. 0" "0x1000"] by simp
qed

text \<open>For the least \<open>int\<close> the negation overflows, and what is printed is not a number.\<close>

theorem int_to_str_int_min:
  "cstr_at (int_to_str m 0x80000000 p) p (bytes_of ''-./,),(-*,('')"
  using int_to_str_spec(1) [of m "0x80000000" p] by (simp add: int_text_def)

text \<open>\<open>strcmp\<close> returns 0 exactly for equal strings and 1 otherwise; it never returns -1.\<close>

theorem strcmp_correct:
  assumes "cstr_at m p xs" and "cstr_at m q ys"
  shows "strcmp m p q = Some (if xs = ys then 0 else 1)"
  using assms by (rule strcmp_cstr)

lemma strcmp_correct_witness:
  "strcmp (write_bytes (write_bytes (\<lambda>_. 0) 16 (bytes_of ''ab'')) 32 (bytes_of ''abc'')) 16 32 = Some 1"
  using strcmp_correct [of "write_bytes (write_bytes (\<lambda>_. 0) 16 (bytes_of ''ab'')) 32 (bytes_of ''abc'')"
      16 "bytes_of ''ab''" 32 "bytes_of ''abc''"]
  by (simp add: bytes_of_def)

text \<open>\<open>strslice\<close> writes the characters from index \<open>from\<close> to \<open>to\<close> inclusive, cut at the end of the
  string, and a NUL, and nothing else.\<close>

theorem strslice_correct:
  assumes "cstr_at m str bs" and "from \<le> length bs" and "from \<le> Suc to"
    and "length bs < 2147483647" and "to < 2147483647"
    and "disjoint_regions out (Suc (length bs - from)) (str + of_nat from) (Suc (length bs - from))"
  shows "strslice m str (of_nat from) (of_nat to) out
    = Some (write_bytes m out (take (Suc to - from) (drop from bs) @ [0]))"
  using assms by (rule strslice_cstr)

lemma strslice_correct_witness:
  "strslice (write_bytes (\<lambda>_. 0) 16 (bytes_of ''a{%d}b'')) 16 1 4 64
    = Some (write_bytes (write_bytes (\<lambda>_. 0) 16 (bytes_of ''a{%d}b'')) 64 (bytes_of ''{%d}'' @ [0]))"
  using strslice_correct [of "write_bytes (\<lambda>_. 0) 16 (bytes_of ''a{%d}b'')" 16 "bytes_of ''a{%d}b''" 1 4 64]
  by (simp add: bytes_of_def disjoint_regions_def in_region_def)

text \<open>Concatenation in place (\<open>strcat(d, a, d)\<close>, as in \<open>page_fault\<close>) appends the string, and also
  stores a NUL \<open>length a\<close> bytes beyond the terminator of the result.\<close>

theorem strcat_in_place_spills:
  assumes "cstr_at m dest xs" and "cstr_at m app ys" and "xs \<noteq> []" and "ys \<noteq> []"
    and "length xs + 2 * length ys < 2147483647"
    and "disjoint_regions dest (length xs + 2 * length ys + 2) app (Suc (length ys))"
  shows "strcat m dest app dest
    = Some ((write_bytes m dest (xs @ ys @ [0]))(dest + of_nat (length xs + 2 * length ys + 1) := 0))"
  using assms by (rule strcat_in_place)

lemma strcat_in_place_spills_witness:
  "strcat (write_bytes (write_bytes (\<lambda>_. 7) 16 (bytes_of ''ab'' @ [0])) 64 (bytes_of ''cd'' @ [0])) 16 64 16
    = Some ((write_bytes (write_bytes (write_bytes (\<lambda>_. 7) 16 (bytes_of ''ab'' @ [0])) 64 (bytes_of ''cd'' @ [0]))
        16 (bytes_of ''abcd'' @ [0]))(23 := 0))"
  using strcat_in_place_spills
    [of "write_bytes (write_bytes (\<lambda>_. 7) 16 (bytes_of ''ab'' @ [0])) 64 (bytes_of ''cd'' @ [0])"
      16 "bytes_of ''ab''" 64 "bytes_of ''cd''"]
  by (simp add: bytes_of_def disjoint_regions_def in_region_def)

text \<open>\<open>strcpy\<close> copies the characters of a non-empty string but not its NUL, and returns the
  character that lies after the copy instead of the destination.\<close>

theorem strcpy_no_terminator:
  assumes "cstr_at m src (x # xs)" and "length xs < 4294967294"
    and "disjoint_regions dest (Suc (length xs)) src (Suc (Suc (length xs)))"
  shows "strcpy m dest src =
    Some (write_bytes m dest (x # xs), sx8 (m (dest + of_nat (Suc (length xs)))))"
proof -
  have "\<not> in_region (dest + of_nat (Suc (length xs))) dest (Suc (length xs))"
    using assms(2) by (simp add: in_region_def unat_of_nat_u32 del: of_nat_Suc)
  then show ?thesis
    using strcpy_loop_write [OF assms] assms(2)
    by (simp add: strcpy_def write_bytes_outside del: of_nat_Suc write_bytes.simps)
qed

lemma strcpy_no_terminator_witness:
  "strcpy (write_bytes (\<lambda>_. 7) 16 (bytes_of ''ab'' @ [0])) 64 16
    = Some (write_bytes (write_bytes (\<lambda>_. 7) 16 (bytes_of ''ab'' @ [0])) 64 (bytes_of ''ab''), 7)"
  using strcpy_no_terminator
    [of "write_bytes (\<lambda>_. 7) 16 (bytes_of ''ab'' @ [0])" 16 "0x61" "bytes_of ''b''" 64]
  by (simp add: bytes_of_def disjoint_regions_def in_region_def sx8_def)

end
