(* ===== verification/Vga.thy ===== *)
theory Vga
  imports KCommon
begin

text \<open>
  The text-mode display of src/vga.c: the frame buffer is the memory at 0xB8000 (two bytes a cell,
  character and attribute, 80 columns, 25 rows), the cursor a signed 16-bit global that every
  operation also sends to the controller's ports. \<open>int\<close> counters that cannot overflow are of type
  \<open>int\<close> or \<open>nat\<close>; a \<open>char *\<close> argument is an address.
\<close>

section \<open>State and cell operations\<close>

record vga = machine +
  cursor_pos :: u16

abbreviation fb :: u32 where "fb \<equiv> 0xB8000"
abbreviation FB_COMMAND_PORT :: u16 where "FB_COMMAND_PORT \<equiv> 0x3D4"
abbreviation FB_DATA_PORT :: u16 where "FB_DATA_PORT \<equiv> 0x3D5"
abbreviation FB_HIGH_BYTE_COMMAND :: u8 where "FB_HIGH_BYTE_COMMAND \<equiv> 14"
abbreviation FB_LOW_BYTE_COMMAND :: u8 where "FB_LOW_BYTE_COMMAND \<equiv> 15"

text \<open>The four port writes with which three functions end.\<close>

definition fb_send_cursor :: "'a vga_scheme \<Rightarrow> 'a vga_scheme" where
  "fb_send_cursor s =
     (let s1 = outb FB_COMMAND_PORT FB_HIGH_BYTE_COMMAND s;
          s2 = outb FB_DATA_PORT (ucast (drop_bit 8 (cursor_pos s1) AND 0x00FF)) s1;
          s3 = outb FB_COMMAND_PORT FB_LOW_BYTE_COMMAND s2
      in outb FB_DATA_PORT (ucast (cursor_pos s3 AND 0x00FF)) s3)"

definition fb_move_cursor :: "u16 \<Rightarrow> 'a vga_scheme \<Rightarrow> 'a vga_scheme" where
  "fb_move_cursor pos s = fb_send_cursor (s\<lparr>cursor_pos := pos\<rparr>)"

definition get_cursor_pos :: "'a vga_scheme \<Rightarrow> u16" where
  "get_cursor_pos s = cursor_pos s"

definition fb_row_column_to_index :: "u32 \<Rightarrow> u32 \<Rightarrow> u16" where
  "fb_row_column_to_index column row = lo16 (row * 80 + column)"

definition fb_move_cursor_col_row :: "u16 \<Rightarrow> u16 \<Rightarrow> 'a vga_scheme \<Rightarrow> 'a vga_scheme" where
  "fb_move_cursor_col_row pos_x pos_y s =
     fb_send_cursor (s\<lparr>cursor_pos := fb_row_column_to_index (ucast pos_x) (ucast pos_y)\<rparr>)"

definition fb_get_row :: "u32 \<Rightarrow> u32" where
  "fb_get_row i = c_div i 80"

definition fb_get_current_row :: "'a vga_scheme \<Rightarrow> u32" where
  "fb_get_current_row s = fb_get_row (sx16 (cursor_pos s))"

definition fb_move_cursor_to_start_of_row :: "'a vga_scheme \<Rightarrow> 'a vga_scheme" where
  "fb_move_cursor_to_start_of_row s = fb_move_cursor_col_row 0 (lo16 (fb_get_current_row s)) s"

definition fb_attr :: "u8 \<Rightarrow> u8 \<Rightarrow> u8" where
  "fb_attr fg bg = push_bit 4 (fg AND 0x0F) OR (bg AND 0x0F)"

definition fb_write_cell :: "u32 \<Rightarrow> u8 \<Rightarrow> u8 \<Rightarrow> u8 \<Rightarrow> 'a machine_scheme \<Rightarrow> 'a machine_scheme" where
  "fb_write_cell i c fg bg s =
     (let i2 = i * 2
      in store8 (fb + (i2 + 1)) (fb_attr fg bg) (store8 (fb + i2) c s))"

section \<open>Rows and rectangles\<close>

fun fb_clear_row_loop :: "nat \<Rightarrow> u32 \<Rightarrow> u8 \<Rightarrow> u8 \<Rightarrow> 'a machine_scheme \<Rightarrow> 'a machine_scheme" where
  "fb_clear_row_loop 0 i fg bg s = s"
| "fb_clear_row_loop (Suc n) i fg bg s = fb_clear_row_loop n (i + 1) fg bg (fb_write_cell i 0x20 fg bg s)"

definition fb_clear_row :: "u32 \<Rightarrow> u8 \<Rightarrow> u8 \<Rightarrow> 'a machine_scheme \<Rightarrow> 'a machine_scheme" where
  "fb_clear_row r fg bg s = fb_clear_row_loop 80 (80 * r) fg bg s"

definition fb_clear :: "u8 \<Rightarrow> u8 \<Rightarrow> 'a machine_scheme \<Rightarrow> 'a machine_scheme" where
  "fb_clear fg bg s = for_n 0 25 (\<lambda>row. fb_clear_row (of_nat row) fg bg) s"

definition fb_write_frect ::
  "u8 \<Rightarrow> u32 \<Rightarrow> u32 \<Rightarrow> u32 \<Rightarrow> u32 \<Rightarrow> u8 \<Rightarrow> u8 \<Rightarrow> 'a machine_scheme \<Rightarrow> 'a machine_scheme" where
  "fb_write_frect c x y width height fg bg s =
     for_n 0 (unat width) (\<lambda>cx. for_n 0 (unat height) (\<lambda>cy s.
       let cell = (y + of_nat cy) * 80 + (of_nat cx + x)
       in fb_write_cell cell c fg bg s)) s"

definition fb_write_rect ::
  "u8 \<Rightarrow> u32 \<Rightarrow> u32 \<Rightarrow> u32 \<Rightarrow> u32 \<Rightarrow> u8 \<Rightarrow> u8 \<Rightarrow> 'a machine_scheme \<Rightarrow> 'a machine_scheme" where
  "fb_write_rect c x y width height fg bg s =
     for_n 0 (unat width) (\<lambda>cx. for_n 0 (unat height) (\<lambda>cy s.
       if cy = 0 \<or> of_nat cy = height - 1 \<or> cx = 0 \<or> of_nat cx = width - 1
       then let cell = (y + of_nat cy) * 80 + (of_nat cx + x)
            in fb_write_cell cell c fg bg s
       else s)) s"

definition fb_clear_rect :: "u32 \<Rightarrow> u32 \<Rightarrow> u32 \<Rightarrow> u32 \<Rightarrow> u8 \<Rightarrow> 'a machine_scheme \<Rightarrow> 'a machine_scheme" where
  "fb_clear_rect x y width height color s = fb_write_frect 0x20 x y width height color color s"

definition fb_get_char :: "u16 \<Rightarrow> 'a machine_scheme \<Rightarrow> u8" where
  "fb_get_char i s = mem s (fb + ucast i * 2)"

definition fb_get_attributes :: "u16 \<Rightarrow> 'a machine_scheme \<Rightarrow> u8" where
  "fb_get_attributes i s = mem s (fb + (ucast i * 2 + 1))"

definition fb_get_char_rc :: "u32 \<Rightarrow> u32 \<Rightarrow> 'a machine_scheme \<Rightarrow> u8" where
  "fb_get_char_rc x y s = mem s (fb + ucast (fb_row_column_to_index x y))"

definition fb_get_attributes_rc :: "u32 \<Rightarrow> u32 \<Rightarrow> 'a machine_scheme \<Rightarrow> u8" where
  "fb_get_attributes_rc x y s = mem s (fb + (ucast (fb_row_column_to_index x y) + 1))"

text \<open>
  \<open>fb_copy_row\<close> runs 81 times; both indices are post-incremented by the character assignment, so
  the attribute assignment of the same round already concerns the next cell.
\<close>

fun fb_copy_row_loop :: "nat \<Rightarrow> u16 \<Rightarrow> u16 \<Rightarrow> 'a machine_scheme \<Rightarrow> 'a machine_scheme" where
  "fb_copy_row_loop 0 row_out_start row_in_start s = s"
| "fb_copy_row_loop (Suc n) row_out_start row_in_start s =
     (let s1 = store8 (fb + ucast row_out_start * 2) (mem s (fb + ucast row_in_start * 2)) s;
          row_out = row_out_start + 1;
          row_in = row_in_start + 1;
          s2 = store8 (fb + (ucast row_out * 2 + 1)) (mem s1 (fb + (ucast row_in * 2 + 1))) s1
      in fb_copy_row_loop n row_out row_in s2)"

definition fb_copy_row :: "int \<Rightarrow> int \<Rightarrow> 'a machine_scheme \<Rightarrow> 'a machine_scheme" where
  "fb_copy_row from' to s =
     (if from' < 0 \<or> from' > 25 \<or> to < 0 \<or> to > 25 then s
      else fb_copy_row_loop 81 (fb_row_column_to_index 0 (of_int to))
             (fb_row_column_to_index 0 (of_int from')) s)"

function fb_shift_down_loop :: "int \<Rightarrow> int \<Rightarrow> 'a machine_scheme \<Rightarrow> 'a machine_scheme" where
  "fb_shift_down_loop row from' s =
     (if row \<ge> from' then fb_shift_down_loop (row - 1) from' (fb_copy_row row (row + 1) s) else s)"
  by pat_completeness auto
termination
  by (relation "measure (\<lambda>(row, from', s). nat (row + 1 - from'))") auto

declare fb_shift_down_loop.simps [simp del]

definition fb_shift_down :: "int \<Rightarrow> 'a machine_scheme \<Rightarrow> 'a machine_scheme" where
  "fb_shift_down from' s = fb_shift_down_loop 25 from' s"

definition fb_scroll :: "'a machine_scheme \<Rightarrow> 'a machine_scheme" where
  "fb_scroll s =
     (let s1 = for_n 1 24 (\<lambda>row. fb_copy_row (int row) (int row - 1)) s;
          color = mem s1 (fb + 3999)
      in fb_clear_row 24 color color s1)"

section \<open>Moving the cursor\<close>

lemma cursor_store8 [simp]: "cursor_pos (store8 a v s) = cursor_pos s"
  by (simp add: store8_def)

lemma cursor_outb [simp]: "cursor_pos (outb p v s) = cursor_pos s"
  by (simp add: outb_def)

lemma cursor_fb_write_cell [simp]: "cursor_pos (fb_write_cell i c fg bg s) = cursor_pos s"
  by (simp add: fb_write_cell_def Let_def)

lemma cursor_fb_clear_row_loop [simp]: "cursor_pos (fb_clear_row_loop n i fg bg s) = cursor_pos s"
  by (induction n arbitrary: i s) auto

lemma cursor_fb_clear_row [simp]: "cursor_pos (fb_clear_row r fg bg s) = cursor_pos s"
  by (simp add: fb_clear_row_def)

lemma cursor_fb_copy_row_loop [simp]: "cursor_pos (fb_copy_row_loop n i j s) = cursor_pos s"
  by (induction n arbitrary: i j s) (auto simp: Let_def)

lemma cursor_fb_copy_row [simp]: "cursor_pos (fb_copy_row i j s) = cursor_pos s"
  by (simp add: fb_copy_row_def)

lemma cursor_fb_shift_down_loop [simp]: "cursor_pos (fb_shift_down_loop row from' s) = cursor_pos s"
  by (induction row from' s rule: fb_shift_down_loop.induct) (subst fb_shift_down_loop.simps, auto)

lemma cursor_fb_shift_down [simp]: "cursor_pos (fb_shift_down from' s) = cursor_pos s"
  by (simp add: fb_shift_down_def)

lemma cursor_fb_scroll [simp]: "cursor_pos (fb_scroll s) = cursor_pos s"
  by (simp add: fb_scroll_def Let_def for_n_frame [where f = cursor_pos])

text \<open>The loops that add the offset one by one.\<close>

function fb_offset_up :: "u16 \<Rightarrow> u32 \<Rightarrow> u16" where
  "fb_offset_up cursor offset = (if 0 <s offset then fb_offset_up (cursor + 1) (offset - 1) else cursor)"
  by pat_completeness auto
termination
  by (relation "measure (\<lambda>(cursor, offset). nat (sint offset))")
    (auto simp: word_sless_alt sint_dec_pos_u32)

function fb_offset_down :: "u16 \<Rightarrow> u32 \<Rightarrow> u16" where
  "fb_offset_down cursor offset = (if offset <s 0 then fb_offset_down (cursor - 1) (offset + 1) else cursor)"
  by pat_completeness auto
termination
  by (relation "measure (\<lambda>(cursor, offset). nat (- sint offset))")
    (auto simp: word_sless_alt sint_inc_neg_u32)

declare fb_offset_up.simps [simp del] fb_offset_down.simps [simp del]

text \<open>The two loops that bring the cursor back onto the screen.\<close>

lemma sint_minus_80_u16: "2000 < sint c \<Longrightarrow> sint (c - 80 :: u16) = sint c - 80"
  using sint_lt [of c] by (simp add: sint_word_diff signed_take_bit_int_eq_self)

lemma sint_plus_80_u16: "sint c < 0 \<Longrightarrow> sint (c + 80 :: u16) = sint c + 80"
  using sint_ge [of c] by (simp add: sint_word_add signed_take_bit_int_eq_self)

function fb_scroll_to_cursor :: "'a vga_scheme \<Rightarrow> 'a vga_scheme" where
  "fb_scroll_to_cursor s =
     (if sint (cursor_pos s) > 2000
      then fb_scroll_to_cursor (fb_scroll (s\<lparr>cursor_pos := cursor_pos s - 80\<rparr>))
      else s)"
  by pat_completeness auto
termination
  by (relation "measure (\<lambda>s. nat (sint (cursor_pos s)))") (auto simp: sint_minus_80_u16)

function fb_shift_to_cursor :: "'a vga_scheme \<Rightarrow> 'a vga_scheme" where
  "fb_shift_to_cursor s =
     (if sint (cursor_pos s) < 0
      then fb_shift_to_cursor (fb_shift_down 25 (s\<lparr>cursor_pos := cursor_pos s + 80\<rparr>))
      else s)"
  by pat_completeness auto
termination
  by (relation "measure (\<lambda>s. nat (- sint (cursor_pos s)))") (auto simp: sint_plus_80_u16)

declare fb_scroll_to_cursor.simps [simp del] fb_shift_to_cursor.simps [simp del]

definition fb_offset_cursor :: "u32 \<Rightarrow> 'a vga_scheme \<Rightarrow> 'a vga_scheme" where
  "fb_offset_cursor offset s =
     (let s1 = (if 0 <s offset then s\<lparr>cursor_pos := fb_offset_up (cursor_pos s) offset\<rparr>
                else s\<lparr>cursor_pos := fb_offset_down (cursor_pos s) offset\<rparr>)
      in fb_send_cursor (fb_shift_to_cursor (fb_scroll_to_cursor s1)))"

section \<open>Printing\<close>

definition fb_print_cell :: "u8 \<Rightarrow> u8 \<Rightarrow> u8 \<Rightarrow> 'a vga_scheme \<Rightarrow> 'a vga_scheme" where
  "fb_print_cell c fg bg s = fb_offset_cursor 1 (fb_write_cell (sx16 (cursor_pos s)) c fg bg s)"

partial_function (option) fb_write_str ::
  "u32 \<Rightarrow> u32 \<Rightarrow> u8 \<Rightarrow> u8 \<Rightarrow> 'a machine_scheme \<Rightarrow> 'a machine_scheme option" where
  "fb_write_str i str fg bg s =
     (if mem s str \<noteq> 0
      then fb_write_str (i + 1) (str + 1) fg bg (fb_write_cell i (mem s str) fg bg s)
      else Some s)"

fun fb_write_lstr_loop ::
  "nat \<Rightarrow> u32 \<Rightarrow> u32 \<Rightarrow> u8 \<Rightarrow> u8 \<Rightarrow> 'a machine_scheme \<Rightarrow> 'a machine_scheme" where
  "fb_write_lstr_loop 0 i str fg bg s = s"
| "fb_write_lstr_loop (Suc n) i str fg bg s =
     fb_write_lstr_loop n (i + 1) (str + 1) fg bg (fb_write_cell i (mem s str) fg bg s)"

definition fb_write_lstr ::
  "u32 \<Rightarrow> u32 \<Rightarrow> u32 \<Rightarrow> u8 \<Rightarrow> u8 \<Rightarrow> 'a machine_scheme \<Rightarrow> 'a machine_scheme" where
  "fb_write_lstr i str length' fg bg s = fb_write_lstr_loop (nat (sint length')) i str fg bg s"

definition fb_print_lstr :: "u32 \<Rightarrow> u32 \<Rightarrow> u8 \<Rightarrow> u8 \<Rightarrow> 'a vga_scheme \<Rightarrow> 'a vga_scheme" where
  "fb_print_lstr str length' fg bg s =
     fb_offset_cursor length' (fb_write_lstr (sx16 (cursor_pos s)) str length' fg bg s)"

definition fb_print_str :: "u32 \<Rightarrow> u8 \<Rightarrow> u8 \<Rightarrow> 'a vga_scheme \<Rightarrow> 'a vga_scheme option" where
  "fb_print_str str fg bg s =
     do {
       l1 \<leftarrow> strlen (mem s) str;
       let s1 = fb_write_lstr (sx16 (cursor_pos s)) str l1 fg bg s;
       l2 \<leftarrow> strlen (mem s1) str;
       Some (fb_offset_cursor l2 s1)
     }"

section \<open>Formatted printing\<close>

partial_function (option) find_close :: "memory \<Rightarrow> u32 \<Rightarrow> u32 \<Rightarrow> u32 option" where
  "find_close m str cursor =
     (if m (str + cursor) \<noteq> 0x7D then find_close m str (cursor + 1) else Some cursor)"

definition hint_d :: string where "hint_d = ''{%d}''"
definition hint_n :: string where "hint_n = ''{%'' @ [CHR 0x0A] @ ''}''"
definition hint_h :: string where "hint_h = ''{%h}''"

definition nth_arg :: "u32 list \<Rightarrow> nat \<Rightarrow> u32 option" where
  "nth_arg args i = (if i < length args then Some (args ! i) else None)"

text \<open>
  The body of the \<open>if\<close> for a hint that runs from \<open>opener\<close> to \<open>cursor\<close>. The array \<open>typeHint\<close> has
  \<open>cursor - opener + 1\<close> elements; both \<open>strslice\<close> and the assignment after it store a NUL one past
  its end. Reading an argument that is not there has no defined result.
\<close>

definition fb_print_hint ::
  "image \<Rightarrow> u32 \<Rightarrow> u32 \<Rightarrow> u32 \<Rightarrow> u32 list \<Rightarrow> nat \<Rightarrow> u8 \<Rightarrow> u8 \<Rightarrow> 'a vga_scheme \<Rightarrow> 'a vga_scheme option"
  where
  "fb_print_hint img str opener cursor args hintIndex fg bg s =
     do {
       let typeHint = local_addr img ''typeHint'';
       let intAsString = local_addr img ''intAsString'';
       m1 \<leftarrow> strslice (mem s) str opener cursor typeHint;
       let m2 = m1(typeHint + (cursor - opener + 1) := 0);
       let s2 = s\<lparr>mem := m2\<rparr>;
       c1 \<leftarrow> strcmp m2 typeHint (lit_addr img hint_d);
       if c1 = 0 then
         do {
           v \<leftarrow> nth_arg args hintIndex;
           let s3 = s2\<lparr>mem := int_to_str m2 v intAsString\<rparr>;
           l \<leftarrow> strlen (mem s3) intAsString;
           Some (fb_print_lstr intAsString l fg bg s3)
         }
       else
         do {
           c2 \<leftarrow> strcmp m2 typeHint (lit_addr img hint_n);
           if c2 = 0 then Some (fb_move_cursor_to_start_of_row (fb_offset_cursor 80 s2))
           else
             do {
               c3 \<leftarrow> strcmp m2 typeHint (lit_addr img hint_h);
               if c3 = 0 then
                 do {
                   v \<leftarrow> nth_arg args hintIndex;
                   let s3 = s2\<lparr>mem := int_to_hex m2 v intAsString\<rparr>;
                   l \<leftarrow> strlen (mem s3) intAsString;
                   Some (fb_print_lstr intAsString l fg bg s3)
                 }
               else
                 do {
                   let s3 = fb_print_cell 0x3F fg bg s2;
                   l \<leftarrow> strlen (mem s3) typeHint;
                   Some (fb_print_lstr typeHint l fg bg s3)
                 }
             }
         }
     }"

partial_function (option) fb_fprint_loop ::
  "image \<Rightarrow> u32 \<Rightarrow> u32 list \<Rightarrow> u8 \<Rightarrow> u8 \<Rightarrow> u32 \<Rightarrow> nat \<Rightarrow> 'a vga_scheme \<Rightarrow> 'a vga_scheme option" where
  "fb_fprint_loop img str args fg bg cursor hintIndex s =
     (let c = mem s (str + cursor) in
      if c \<noteq> 0 then
        if c = 0x7B \<and> mem s (str + (cursor + 1)) = 0x25 then
          do {
            close \<leftarrow> find_close (mem s) str cursor;
            s1 \<leftarrow> fb_print_hint img str cursor close args hintIndex fg bg s;
            fb_fprint_loop img str args fg bg (close + 1) (Suc hintIndex) s1
          }
        else fb_fprint_loop img str args fg bg (cursor + 1) hintIndex (fb_print_cell c fg bg s)
      else Some s)"

definition fb_fprint_str ::
  "image \<Rightarrow> u32 \<Rightarrow> u32 list \<Rightarrow> u8 \<Rightarrow> u8 \<Rightarrow> 'a vga_scheme \<Rightarrow> 'a vga_scheme option" where
  "fb_fprint_str img str args fg bg s = fb_fprint_loop img str args fg bg 0 0 s"

end
