(* ===== verification/Vga_Screen.thy ===== *)
theory Vga_Screen
  imports Vga
begin

text \<open>
  What the operations of src/vga.c do to the screen, read as a function from cell numbers to
  characters and attributes: clearing, copying and scrolling rows, shifting down, and bringing the
  cursor back onto the screen. The frames state that nothing outside the display memory changes.
\<close>

section \<open>Frames: what a display operation may change\<close>

text \<open>
  \<open>mem_frame P s s'\<close>: \<open>s'\<close> differs from \<open>s\<close> in memory only, and there only at addresses in \<open>P\<close>.
  \<open>vga_frame P s s'\<close> also allows a new cursor position and output to the cursor ports. Both compose.
\<close>

definition mem_frame :: "(u32 \<Rightarrow> bool) \<Rightarrow> 'a machine_scheme \<Rightarrow> 'a machine_scheme \<Rightarrow> bool" where
  "mem_frame P s s' \<longleftrightarrow> (\<exists>m. s' = s\<lparr>mem := m\<rparr> \<and> (\<forall>a. \<not> P a \<longrightarrow> m a = mem s a))"

text \<open>Output to the two cursor ports only.\<close>

definition cursor_events :: "io_event list \<Rightarrow> bool" where
  "cursor_events evs \<longleftrightarrow> (\<forall>e \<in> set evs. \<exists>v. e = Out FB_COMMAND_PORT v \<or> e = Out FB_DATA_PORT v)"

definition vga_frame :: "(u32 \<Rightarrow> bool) \<Rightarrow> 'a vga_scheme \<Rightarrow> 'a vga_scheme \<Rightarrow> bool" where
  "vga_frame P s s' \<longleftrightarrow>
     (\<exists>m evs c. s' = s\<lparr>mem := m, trace := evs @ trace s, cursor_pos := c\<rparr> \<and> cursor_events evs
        \<and> (\<forall>a. \<not> P a \<longrightarrow> m a = mem s a))"

lemma cursor_events_simps [simp]:
  "cursor_events []" "cursor_events (xs @ ys) \<longleftrightarrow> cursor_events xs \<and> cursor_events ys"
  "cursor_events (e # xs) \<longleftrightarrow> (\<exists>v. e = Out FB_COMMAND_PORT v \<or> e = Out FB_DATA_PORT v) \<and> cursor_events xs"
  by (auto simp: cursor_events_def)

text \<open>The 32 KiB of text-mode display memory.\<close>

definition fb_window :: "u32 \<Rightarrow> bool" where
  "fb_window a \<longleftrightarrow> in_region a fb 0x8000"

lemma mem_frame_refl [simp, intro]: "mem_frame P s s"
  unfolding mem_frame_def by (rule exI [of _ "mem s"]) simp

lemma mem_frame_trans [trans]:
  "mem_frame P s s1 \<Longrightarrow> mem_frame P s1 s2 \<Longrightarrow> mem_frame P s s2"
  unfolding mem_frame_def by auto

lemma vga_frame_refl [simp, intro]: "vga_frame P s s"
  unfolding vga_frame_def
  by (rule exI [of _ "mem s"], rule exI [of _ "[]"], rule exI [of _ "cursor_pos s"]) simp

lemma vga_frameI:
  "s' = s\<lparr>mem := m, trace := evs @ trace s, cursor_pos := c\<rparr> \<Longrightarrow> cursor_events evs \<Longrightarrow>
   (\<And>a. \<not> P a \<Longrightarrow> m a = mem s a) \<Longrightarrow> vga_frame P s s'"
  unfolding vga_frame_def by blast

lemma vga_frame_trans [trans]:
  assumes "vga_frame P s s1" and "vga_frame P s1 s2"
  shows "vga_frame P s s2"
proof -
  from assms(1) obtain m t c where 1: "s1 = s\<lparr>mem := m, trace := t @ trace s, cursor_pos := c\<rparr>" "cursor_events t"
    "\<And>a. \<not> P a \<Longrightarrow> m a = mem s a"
    unfolding vga_frame_def by blast
  from assms(2) obtain m' t' c' where 2: "s2 = s1\<lparr>mem := m', trace := t' @ trace s1, cursor_pos := c'\<rparr>" "cursor_events t'"
    "\<And>a. \<not> P a \<Longrightarrow> m' a = mem s1 a"
    unfolding vga_frame_def by blast
  show ?thesis by (rule vga_frameI [where m = m' and evs = "t' @ t" and c = c']) (use 1 2 in simp_all)
qed

lemma mem_frame_vga: "mem_frame P s s' \<Longrightarrow> vga_frame P s s'"
  unfolding mem_frame_def vga_frame_def
  by (elim exE, rule exI, rule exI [of _ "[]"], rule exI [of _ "cursor_pos s"]) auto

lemma mem_frame_mono: "mem_frame P s s' \<Longrightarrow> (\<And>a. P a \<Longrightarrow> Q a) \<Longrightarrow> mem_frame Q s s'"
  unfolding mem_frame_def by blast

lemma vga_frame_mono: "vga_frame P s s' \<Longrightarrow> (\<And>a. P a \<Longrightarrow> Q a) \<Longrightarrow> vga_frame Q s s'"
  unfolding vga_frame_def by blast

lemma vga_frameD: "vga_frame P s s' \<Longrightarrow> \<not> P a \<Longrightarrow> mem s' a = mem s a"
  unfolding vga_frame_def by auto

lemma mem_frame_trace: "mem_frame P s s' \<Longrightarrow> trace s' = trace s"
  unfolding mem_frame_def by auto

lemma mem_frame_for_n:
  "(\<And>i s. a \<le> i \<Longrightarrow> i < a + n \<Longrightarrow> mem_frame P s (body i s)) \<Longrightarrow> mem_frame P s (for_n a n body s)"
  by (rule for_n_inv [where P = "mem_frame P s"]) (auto intro: mem_frame_trans)

lemma mem_frame_store8 [intro]: "P a \<Longrightarrow> mem_frame P s (store8 a v s)"
  unfolding mem_frame_def store8_def by (rule exI [of _ "(mem s)(a := v)"]) auto

section \<open>The screen as a function of the cell number\<close>

text \<open>
  The display memory holds 16384 cells, the visible screen is the first 2000. A state is read as
  the function from a cell number to its character and attribute.
\<close>

type_synonym screen = "nat \<Rightarrow> u8 \<times> u8"

definition char_addr :: "nat \<Rightarrow> u32" where "char_addr k = fb + of_nat (2 * k)"
definition attr_addr :: "nat \<Rightarrow> u32" where "attr_addr k = fb + of_nat (2 * k + 1)"

definition screen :: "'a machine_scheme \<Rightarrow> screen" where
  "screen s = (\<lambda>k. if k < 16384 then (mem s (char_addr k), mem s (attr_addr k)) else (0, 0))"

lemma addr_inj [simp]:
  assumes "j < 16384" "k < 16384"
  shows "char_addr j = char_addr k \<longleftrightarrow> j = k" "attr_addr j = attr_addr k \<longleftrightarrow> j = k"
    "char_addr j \<noteq> attr_addr k" "attr_addr j \<noteq> char_addr k"
proof -
  have *: "fb + of_nat a = fb + of_nat b \<longleftrightarrow> a = b" if "a < 32768" "b < 32768" for a b
    using that by (simp add: of_nat_u32_inj del: of_nat_mult)
  have "2 * j \<noteq> 2 * k + 1" "2 * j + 1 \<noteq> 2 * k" by presburger+
  then show "char_addr j = char_addr k \<longleftrightarrow> j = k" "attr_addr j = attr_addr k \<longleftrightarrow> j = k"
    "char_addr j \<noteq> attr_addr k" "attr_addr j \<noteq> char_addr k"
    unfolding char_addr_def attr_addr_def using assms by (subst *; simp)+
qed

lemma addr_window [simp]: "k < 16384 \<Longrightarrow> fb_window (char_addr k)" "k < 16384 \<Longrightarrow> fb_window (attr_addr k)"
  unfolding fb_window_def char_addr_def attr_addr_def by (rule in_region_offset; simp)+

lemma cell_index:
  "fb + of_nat k * 2 = char_addr k" "fb + (of_nat k * 2 + 1) = attr_addr k"
  by (simp_all add: char_addr_def attr_addr_def algebra_simps)

lemma screen_cong: "mem s = mem s' \<Longrightarrow> screen s = screen s'"
  by (simp add: screen_def fun_eq_iff)

lemma screen_outb [simp]: "screen (outb p v s) = screen s"
  by (rule screen_cong) simp

lemma screen_cursor [simp]: "screen (s\<lparr>cursor_pos := c\<rparr>) = screen s"
  by (rule screen_cong) simp

lemma screen_store_char:
  "k < 16384 \<Longrightarrow> screen (store8 (char_addr k) v s) = (screen s)(k := (v, snd (screen s k)))"
  by (auto simp: screen_def fun_eq_iff)

lemma screen_store_attr:
  "k < 16384 \<Longrightarrow> screen (store8 (attr_addr k) v s) = (screen s)(k := (fst (screen s k), v))"
  by (auto simp: screen_def fun_eq_iff)

lemma screen_read:
  "k < 16384 \<Longrightarrow> mem s (char_addr k) = fst (screen s k)"
  "k < 16384 \<Longrightarrow> mem s (attr_addr k) = snd (screen s k)"
  by (simp_all add: screen_def)

lemma fb_write_cell_eq:
  "fb_write_cell (of_nat k) c fg bg s = store8 (attr_addr k) (fb_attr fg bg) (store8 (char_addr k) c s)"
  by (simp only: fb_write_cell_def Let_def cell_index)

lemma fb_write_cell_screen:
  "k < 16384 \<Longrightarrow> screen (fb_write_cell (of_nat k) c fg bg s) = (screen s)(k := (c, fb_attr fg bg))"
  by (simp add: fb_write_cell_eq screen_store_char screen_store_attr)

lemma fb_write_cell_frame: "k < 16384 \<Longrightarrow> mem_frame fb_window s (fb_write_cell (of_nat k) c fg bg s)"
  unfolding fb_write_cell_eq by (rule mem_frame_trans [OF mem_frame_store8 mem_frame_store8]) simp_all

section \<open>Clearing\<close>

lemma fb_clear_row_loop_screen:
  "k + n \<le> 16384 \<Longrightarrow>
   screen (fb_clear_row_loop n (of_nat k) fg bg s) =
     (\<lambda>j. if k \<le> j \<and> j < k + n then (0x20, fb_attr fg bg) else screen s j)"
proof (induction n arbitrary: k s)
  case (Suc n)
  have "screen (fb_clear_row_loop (Suc n) (of_nat k) fg bg s)
      = screen (fb_clear_row_loop n (of_nat (Suc k)) fg bg (fb_write_cell (of_nat k) 0x20 fg bg s))"
    by (simp add: add.commute)
  with Suc.prems show ?case
    by (auto simp: Suc.IH fb_write_cell_screen fun_eq_iff simp del: of_nat_Suc)
qed (auto simp: fun_eq_iff)

lemma fb_clear_row_loop_frame:
  "k + n \<le> 16384 \<Longrightarrow> mem_frame fb_window s (fb_clear_row_loop n (of_nat k) fg bg s)"
proof (induction n arbitrary: k s)
  case (Suc n)
  have "mem_frame fb_window s (fb_write_cell (of_nat k) 0x20 fg bg s)"
    using Suc.prems by (intro fb_write_cell_frame) simp
  also have "mem_frame fb_window \<dots> (fb_clear_row_loop n (of_nat (Suc k)) fg bg (fb_write_cell (of_nat k) 0x20 fg bg s))"
    using Suc.prems by (intro Suc.IH) simp
  finally show ?case by (simp add: add.commute)
qed auto

lemma fb_clear_row_screen:
  "r < 200 \<Longrightarrow> screen (fb_clear_row (of_nat r) fg bg s) =
     (\<lambda>j. if 80 * r \<le> j \<and> j < 80 * r + 80 then (0x20, fb_attr fg bg) else screen s j)"
  using fb_clear_row_loop_screen [of "80 * r" 80] by (simp add: fb_clear_row_def)

lemma fb_clear_row_frame: "r < 200 \<Longrightarrow> mem_frame fb_window s (fb_clear_row (of_nat r) fg bg s)"
  using fb_clear_row_loop_frame [of "80 * r" 80] by (simp add: fb_clear_row_def)

lemma fb_clear_screen_loop:
  "n \<le> 25 \<Longrightarrow> screen (for_n 0 n (\<lambda>row. fb_clear_row (of_nat row) fg bg) s) =
     (\<lambda>j. if j < 80 * n then (0x20, fb_attr fg bg) else screen s j)"
  by (induction n) (auto simp: for_n_Suc_end fb_clear_row_screen fun_eq_iff simp del: for_n.simps(2))

lemma fb_clear_screen:
  "screen (fb_clear fg bg s) = (\<lambda>j. if j < 2000 then (0x20, fb_attr fg bg) else screen s j)"
  by (simp add: fb_clear_def fb_clear_screen_loop del: for_n.simps)

lemma fb_clear_frame: "mem_frame fb_window s (fb_clear fg bg s)"
  unfolding fb_clear_def by (rule mem_frame_for_n) (auto intro: fb_clear_row_frame)

section \<open>Copying rows\<close>

text \<open>The copy loop on screens: characters of the cell, attributes of the next cell.\<close>

definition copy_cell :: "nat \<Rightarrow> nat \<Rightarrow> screen \<Rightarrow> screen" where
  "copy_cell j i S =
     (let S1 = S(j := (fst (S i), snd (S j)))
      in S1(Suc j := (fst (S1 (Suc j)), snd (S1 (Suc i)))))"

fun copy_cells :: "nat \<Rightarrow> nat \<Rightarrow> nat \<Rightarrow> screen \<Rightarrow> screen" where
  "copy_cells 0 j i S = S"
| "copy_cells (Suc n) j i S = copy_cells n (Suc j) (Suc i) (copy_cell j i S)"

lemma ucast_u16: "k < 65536 \<Longrightarrow> (ucast (of_nat k :: u16) :: u32) = of_nat k"
  by (simp add: unsigned_of_nat take_bit_nat_eq_self)

lemma copy_cell_addrs:
  assumes "k < 16383"
  shows "fb + ucast (of_nat k :: u16) * 2 = char_addr k"
    "fb + (ucast (of_nat k + 1 :: u16) * 2 + 1) = attr_addr (Suc k)"
proof -
  have 1: "(ucast (of_nat k :: u16) :: u32) = of_nat k" using assms by (simp add: ucast_u16)
  show "fb + ucast (of_nat k :: u16) * 2 = char_addr k" unfolding 1 by (rule cell_index)
  have 2: "(ucast (of_nat k + 1 :: u16) :: u32) = of_nat (Suc k)"
    using assms ucast_u16 [of "Suc k"] by (simp add: add.commute)
  show "fb + (ucast (of_nat k + 1 :: u16) * 2 + 1) = attr_addr (Suc k)" unfolding 2 by (rule cell_index)
qed

lemma fb_copy_row_loop_Suc:
  assumes "j < 16383" "i < 16383"
  shows "fb_copy_row_loop (Suc n) (of_nat j) (of_nat i) s =
    (let s1 = store8 (char_addr j) (mem s (char_addr i)) s;
         s2 = store8 (attr_addr (Suc j)) (mem s1 (attr_addr (Suc i))) s1
     in fb_copy_row_loop n (of_nat (Suc j)) (of_nat (Suc i)) s2)"
  by (simp only: fb_copy_row_loop.simps Let_def copy_cell_addrs [OF assms(1)] copy_cell_addrs [OF assms(2)]
      of_nat_Suc add.commute [of 1])

lemma fb_copy_row_loop_screen:
  "j + n < 16384 \<Longrightarrow> i + n < 16384 \<Longrightarrow>
   screen (fb_copy_row_loop n (of_nat j) (of_nat i) s) = copy_cells n j i (screen s)"
proof (induction n arbitrary: j i s)
  case (Suc n)
  then show ?case
    by (subst fb_copy_row_loop_Suc)
      (simp_all add: Let_def screen_store_char screen_store_attr screen_read copy_cell_def fun_upd_def del: of_nat_Suc fb_copy_row_loop.simps)
qed simp

lemma fb_copy_row_loop_frame:
  "j + n < 16384 \<Longrightarrow> i + n < 16384 \<Longrightarrow> mem_frame fb_window s (fb_copy_row_loop n (of_nat j) (of_nat i) s)"
proof (induction n arbitrary: j i s)
  case (Suc n)
  let ?s1 = "store8 (char_addr j) (mem s (char_addr i)) s"
  let ?s2 = "store8 (attr_addr (Suc j)) (mem ?s1 (attr_addr (Suc i))) ?s1"
  have "mem_frame fb_window s ?s2"
    using Suc.prems by (intro mem_frame_trans [OF mem_frame_store8 mem_frame_store8]) simp_all
  also have "mem_frame fb_window ?s2 (fb_copy_row_loop n (of_nat (Suc j)) (of_nat (Suc i)) ?s2)"
    using Suc.prems by (intro Suc.IH) simp_all
  finally show ?case using Suc.prems by (subst fb_copy_row_loop_Suc) (simp_all only: Let_def)
qed simp

lemma row_index: "0 \<le> r \<Longrightarrow> r \<le> 25 \<Longrightarrow> fb_row_column_to_index 0 (of_int r) = of_nat (80 * nat r)"
proof -
  assume "0 \<le> r" "r \<le> 25"
  then obtain n where n: "r = int n" "n \<le> 25" by (metis nat_le_iff nat_0_le zle_int of_nat_numeral)
  have "of_int r * 80 + 0 = (of_nat (80 * n) :: u32)" by (simp add: n)
  then show ?thesis
    using n(2) by (simp add: fb_row_column_to_index_def lo16_def n(1) unsigned_of_nat take_bit_nat_eq_self del: of_nat_mult)
qed

text \<open>Copying upwards on the screen (the source lies further on) never reads a cell it has written.\<close>

lemma copy_cells_up:
  assumes "j < i"
  shows "copy_cells n j i S =
    (\<lambda>k. (fst (S (if j \<le> k \<and> k < j + n then k + (i - j) else k)),
          snd (S (if j < k \<and> k \<le> j + n then k + (i - j) else k))))"
  using assms
proof (induction n arbitrary: j i S)
  case (Suc n)
  note IH = Suc.IH [of "Suc j" "Suc i" "copy_cell j i S"]
  have "copy_cells (Suc n) j i S = (\<lambda>k. (fst (copy_cell j i S (if Suc j \<le> k \<and> k < Suc j + n then k + (Suc i - Suc j) else k)),
      snd (copy_cell j i S (if Suc j < k \<and> k \<le> Suc j + n then k + (Suc i - Suc j) else k))))"
    using Suc.prems by (simp only: copy_cells.simps IH Suc_less_eq)
  then show ?case using Suc.prems by (auto simp: copy_cell_def Let_def fun_eq_iff)
qed auto

text \<open>Copying downwards by \<open>d\<close> cells is right for the first \<open>d\<close> of them.\<close>

lemma copy_cells_down:
  assumes "n \<le> d"
  shows "copy_cells n (i + d) i S =
    (\<lambda>k. (fst (S (if i + d \<le> k \<and> k < i + d + n then k - d else k)),
          snd (S (if i + d < k \<and> k \<le> i + d + n then k - d else k))))"
  using assms
proof (induction n arbitrary: i S)
  case (Suc n)
  note IH = Suc.IH [of "Suc i" "copy_cell (i + d) i S"]
  have "copy_cells (Suc n) (i + d) i S = (\<lambda>k.
      (fst (copy_cell (i + d) i S (if Suc i + d \<le> k \<and> k < Suc i + d + n then k - d else k)),
       snd (copy_cell (i + d) i S (if Suc i + d < k \<and> k \<le> Suc i + d + n then k - d else k))))"
    using Suc.prems by (simp only: copy_cells.simps IH add_Suc [symmetric] Suc_leD)
  then show ?case using Suc.prems by (auto simp: copy_cell_def Let_def fun_eq_iff)
qed (auto simp: fun_eq_iff)

lemma copy_cells_Suc_end: "copy_cells (Suc n) j i S = copy_cell (j + n) (i + n) (copy_cells n j i S)"
  by (induction n arbitrary: j i S) simp_all

section \<open>Scrolling up\<close>

lemma fb_copy_row_screen:
  assumes "f \<le> 25" "t \<le> 25"
  shows "screen (fb_copy_row (int f) (int t) s) = copy_cells 81 (80 * t) (80 * f) (screen s)"
proof -
  have "fb_copy_row (int f) (int t) s = fb_copy_row_loop 81 (of_nat (80 * t)) (of_nat (80 * f)) s"
    using assms row_index [of "int f"] row_index [of "int t"] by (simp add: fb_copy_row_def)
  then show ?thesis using assms by (simp only:) (rule fb_copy_row_loop_screen; simp)
qed

lemma fb_copy_row_frame: "mem_frame fb_window s (fb_copy_row f t s)"
proof (cases "f < 0 \<or> f > 25 \<or> t < 0 \<or> t > 25")
  case False
  then have "fb_copy_row f t s = fb_copy_row_loop 81 (of_nat (80 * nat t)) (of_nat (80 * nat f)) s"
    using row_index [of f] row_index [of t] by (simp add: fb_copy_row_def)
  moreover have "nat f \<le> 25" "nat t \<le> 25" using False by auto
  ultimately show ?thesis by (simp only:) (rule fb_copy_row_loop_frame; simp)
qed (simp add: fb_copy_row_def)

text \<open>What \<open>fb_scroll\<close> does to the screen.\<close>

definition scroll_screen :: "screen \<Rightarrow> screen" where
  "scroll_screen S = (\<lambda>k.
     if k < 1920 then (fst (S (k + 80)), snd (S (if k = 0 then 0 else k + 80)))
     else if k < 2000 then (0x20, fb_attr (snd (S 1999)) (snd (S 1999)))
     else S k)"

lemma scroll_copy_loop:
  "n \<le> 24 \<Longrightarrow> 0 < n \<Longrightarrow> screen (for_n 1 n (\<lambda>row. fb_copy_row (int row) (int row - 1)) s) =
    (\<lambda>k. (fst (screen s (if k \<le> 80 * n then k + 80 else k)),
          snd (screen s (if 0 < k \<and> k \<le> 80 * n + 1 then k + 80 else k))))"
proof (induction n)
  case (Suc n)
  have cr: "screen (fb_copy_row (1 + int n) (int n) t) = copy_cells 81 (80 * n) (80 * Suc n) (screen t)" for t :: "'a machine_scheme"
    using fb_copy_row_screen [of "Suc n" n t] Suc.prems by simp
  show ?case
  proof (cases "n = 0")
    case True
    then show ?thesis using cr [of s] by (simp add: copy_cells_up fun_eq_iff)
  next
    case False
    then show ?thesis
      using Suc by (simp add: for_n_Suc_end cr copy_cells_up del: for_n.simps) (auto simp: fun_eq_iff)
  qed
qed simp

lemma fb_scroll_screen: "screen (fb_scroll s) = scroll_screen (screen s)"
proof -
  define s1 where "s1 = for_n 1 24 (\<lambda>row. fb_copy_row (int row) (int row - 1)) s"
  have s1: "screen s1 = (\<lambda>k. (fst (screen s (if k \<le> 1920 then k + 80 else k)),
          snd (screen s (if 0 < k \<and> k \<le> 1921 then k + 80 else k))))"
    unfolding s1_def using scroll_copy_loop [of 24 s] by simp
  have a: "fb + 3999 = attr_addr 1999" by (simp add: attr_addr_def)
  have c: "mem s1 (fb + 3999) = snd (screen s 1999)"
    unfolding a by (simp only: screen_read s1) simp
  have "screen (fb_scroll s) = screen (fb_clear_row (of_nat 24) (snd (screen s 1999)) (snd (screen s 1999)) s1)"
    unfolding fb_scroll_def Let_def s1_def [symmetric] c by simp
  also have "\<dots> = scroll_screen (screen s)"
    by (subst fb_clear_row_screen) (auto simp: s1 scroll_screen_def fun_eq_iff)
  finally show ?thesis .
qed

lemma fb_scroll_frame: "mem_frame fb_window s (fb_scroll s)"
proof -
  let ?s1 = "for_n 1 24 (\<lambda>row. fb_copy_row (int row) (int row - 1)) s"
  have "mem_frame fb_window s ?s1" by (rule mem_frame_for_n) (rule fb_copy_row_frame)
  also have "mem_frame fb_window ?s1 (fb_scroll s)"
    unfolding fb_scroll_def Let_def using fb_clear_row_frame [of 24] by simp
  finally show ?thesis .
qed

section \<open>Shifting down\<close>

text \<open>
  From row 25 on there is nothing to shift: \<open>fb_copy_row\<close> refuses the row after the last one it
  accepts, so the call \<open>fb_shift_down(FB_NUM_ROWS)\<close> of \<open>fb_offset_cursor\<close> has no effect.
\<close>

lemma fb_shift_down_last: "fb_shift_down 25 s = s"
  by (simp add: fb_shift_down_def fb_shift_down_loop.simps fb_copy_row_def)

lemma fb_shift_down_loop_frame: "mem_frame fb_window s (fb_shift_down_loop row from' s)"
proof (induction row from' s rule: fb_shift_down_loop.induct)
  case (1 row from' s)
  show ?case
  proof (cases "row \<ge> from'")
    case True
    have "mem_frame fb_window s (fb_copy_row row (row + 1) s)" by (rule fb_copy_row_frame)
    also have "mem_frame fb_window \<dots> (fb_shift_down_loop (row - 1) from' (fb_copy_row row (row + 1) s))"
      by (rule 1 [OF True])
    finally show ?thesis using True by (subst fb_shift_down_loop.simps) simp
  qed (subst fb_shift_down_loop.simps, simp)
qed

lemma fb_shift_down_frame: "mem_frame fb_window s (fb_shift_down from' s)"
  unfolding fb_shift_down_def by (rule fb_shift_down_loop_frame)

text \<open>
  One row copied down: its first 80 characters arrive, and the 81st store of the loop reads the
  first character of the destination, which by then is the first character of the source.
\<close>

lemma fb_copy_row_down_screen:
  assumes "r \<le> 24"
  shows "screen (fb_copy_row (int r) (int r + 1) s) = (\<lambda>k.
    (fst (screen s (if 80 * r + 80 \<le> k \<and> k < 80 * r + 160 then k - 80
                    else if k = 80 * r + 160 then 80 * r else k)),
     snd (screen s (if 80 * r + 80 < k \<and> k \<le> 80 * r + 160 then k - 80
                    else if k = 80 * r + 161 then 80 * r + 1 else k))))"
proof -
  have "screen (fb_copy_row (int r) (int r + 1) s) = copy_cells (Suc 80) (80 * r + 80) (80 * r) (screen s)"
    using fb_copy_row_screen [of r "Suc r" s] assms by (simp add: add.commute)
  also have "\<dots> = copy_cell (80 * r + 160) (80 * r + 80) (copy_cells 80 (80 * r + 80) (80 * r) (screen s))"
    by (subst copy_cells_Suc_end) (simp add: add.assoc)
  finally show ?thesis
    by (simp add: copy_cells_down) (auto simp: copy_cell_def Let_def fun_eq_iff)
qed

text \<open>The whole shift, on characters: every row moves down, its first column two rows.\<close>

lemma shift_down_loop_chars:
  assumes "row \<le> 24" and "r0 \<le> row + 1"
  shows "fst (screen (fb_shift_down_loop (int row) (int r0) s) k) =
    fst (screen s (if 80 * r0 + 80 \<le> k \<and> k < 80 * row + 160 then
                     if k mod 80 = 0 \<and> 80 * r0 + 160 \<le> k then k - 160 else k - 80
                   else if r0 \<le> row \<and> k = 80 * row + 160 then 80 * row else k))"
  using assms
proof (induction row arbitrary: s)
  case 0
  show ?case
  proof (cases "r0 = 0")
    case True
    have "fb_shift_down_loop (int 0) (int r0) s = fb_copy_row (int 0) (int 0 + 1) s"
      by (subst fb_shift_down_loop.simps, subst fb_shift_down_loop.simps) (simp add: True)
    then show ?thesis
      using True by (simp add: fb_copy_row_down_screen [of 0, simplified])
  next
    case False
    then have "r0 = 1" using 0 by simp
    then show ?thesis by (subst fb_shift_down_loop.simps) auto
  qed
next
  case (Suc row)
  show ?case
  proof (cases "r0 \<le> Suc row")
    case False
    then show ?thesis using Suc.prems by (subst fb_shift_down_loop.simps) auto
  next
    case True
    let ?s1 = "fb_copy_row (int (Suc row)) (int (Suc row) + 1) s"
    have eq: "fb_shift_down_loop (int (Suc row)) (int r0) s = fb_shift_down_loop (int row) (int r0) ?s1"
      using True by (subst fb_shift_down_loop.simps) simp
    have IH: "fst (screen (fb_shift_down_loop (int row) (int r0) ?s1) k) =
      fst (screen ?s1 (if 80 * r0 + 80 \<le> k \<and> k < 80 * row + 160 then
                     if k mod 80 = 0 \<and> 80 * r0 + 160 \<le> k then k - 160 else k - 80
                   else if r0 \<le> row \<and> k = 80 * row + 160 then 80 * row else k))"
      using Suc.prems True by (intro Suc.IH) auto
    have k80: "k = 80 * row + 160" if "80 dvd k" "80 * row + 160 \<le> k" "k < 80 * row + 240"
    proof -
      from that(1) obtain q where q: "k = 80 * q" by (elim dvdE)
      then have "80 * (row + 2) \<le> 80 * q" and "80 * q < 80 * (row + 3)" using that(2,3) by simp_all
      then have "q = row + 2" by simp
      then show ?thesis using q by simp
    qed
    show ?thesis
      unfolding eq IH using Suc.prems True
      by (subst fb_copy_row_down_screen) (auto dest: k80)
  qed
qed

section \<open>Moving the cursor\<close>

lemma take_bit_16_32_add: "take_bit 16 (take_bit 32 a + take_bit 32 b) = take_bit 16 (a + b :: int)"
  using take_bit_add [of 16 "take_bit 32 a" "take_bit 32 b"] take_bit_add [of 16 a b] by simp

lemma lo16_add: "lo16 (a + b) = lo16 a + lo16 b"
  unfolding lo16_def by transfer (simp add: take_bit_16_32_add)

lemma lo16_diff: "lo16 (a - b) = lo16 a - lo16 b"
  using lo16_add [of "a - b" b] by simp

lemma lo16_0: "lo16 0 = 0"
  by (simp add: lo16_def)

lemma lo16_1: "lo16 1 = 1"
  by (simp add: lo16_def)

lemma fb_offset_up_eq: "0 \<le> sint offset \<Longrightarrow> fb_offset_up c offset = c + lo16 offset"
proof (induction c offset rule: fb_offset_up.induct)
  case (1 c offset)
  then show ?case
    by (subst fb_offset_up.simps) (auto simp: word_sless_alt sint_dec_pos_u32 lo16_diff lo16_1 lo16_0 order_antisym)
qed

lemma fb_offset_down_eq: "sint offset \<le> 0 \<Longrightarrow> fb_offset_down c offset = c + lo16 offset"
proof (induction c offset rule: fb_offset_down.induct)
  case (1 c offset)
  then show ?case
    by (subst fb_offset_down.simps) (auto simp: word_sless_alt sint_inc_neg_u32 lo16_add lo16_1 lo16_0 order_antisym)
qed

lemma sint_lo16_add:
  assumes "- 32768 \<le> sint c + sint x" and "sint c + sint x < 32768"
  shows "sint (c + lo16 x) = sint c + sint x"
proof -
  have "lo16 x = word_of_int (sint x)"
    unfolding lo16_def by transfer (simp add: take_bit_signed_take_bit)
  then have "c + lo16 x = word_of_int (sint c + sint x)" by simp
  then show ?thesis using assms by (simp only: int_word_sint) simp
qed

text \<open>
  Where the cursor ends: beyond cell 2000 the screen scrolls one row at a time until it is back,
  below 0 it comes back by whole rows.
\<close>

definition scrolls :: "int \<Rightarrow> nat" where
  "scrolls t = nat ((t - 1921) div 80)"

definition wrap_cursor :: "int \<Rightarrow> int" where
  "wrap_cursor t = (if t < 0 then t mod 80 else t - 80 * int (scrolls t))"

lemma scrolls_small: "t \<le> 2000 \<Longrightarrow> scrolls t = 0"
  by (simp add: scrolls_def)

lemma scrolls_step: "2000 < t \<Longrightarrow> scrolls t = Suc (scrolls (t - 80))"
  unfolding scrolls_def by (subst Suc_nat_eq_nat_zadd1) (auto simp: div_add_self2 [symmetric] intro: arg_cong [where f = nat])

lemma wrap_cursor_range: "0 \<le> wrap_cursor t" "wrap_cursor t \<le> 2000"
  unfolding wrap_cursor_def scrolls_def by (cases "t < 0"; simp; linarith)+

lemma fb_scroll_to_cursor_spec:
  "screen (fb_scroll_to_cursor s) = (scroll_screen ^^ scrolls (sint (cursor_pos s))) (screen s)
   \<and> sint (cursor_pos (fb_scroll_to_cursor s)) = sint (cursor_pos s) - 80 * int (scrolls (sint (cursor_pos s)))
   \<and> vga_frame fb_window s (fb_scroll_to_cursor s) \<and> trace (fb_scroll_to_cursor s) = trace s"
proof (induction s rule: fb_scroll_to_cursor.induct)
  case (1 s)
  show ?case
  proof (cases "2000 < sint (cursor_pos s)")
    case False
    then show ?thesis by (subst (1 2 3 4) fb_scroll_to_cursor.simps) (simp add: scrolls_small)
  next
    case True
    let ?s1 = "fb_scroll (s\<lparr>cursor_pos := cursor_pos s - 80\<rparr>)"
    have eq: "fb_scroll_to_cursor s = fb_scroll_to_cursor ?s1"
      using True by (subst fb_scroll_to_cursor.simps) simp
    have c: "sint (cursor_pos ?s1) = sint (cursor_pos s) - 80"
      using True by (simp add: sint_minus_80_u16)
    have sc: "screen ?s1 = scroll_screen (screen s)" by (simp add: fb_scroll_screen)
    have mf: "mem_frame fb_window (s\<lparr>cursor_pos := cursor_pos s - 80\<rparr>) ?s1" by (rule fb_scroll_frame)
    have "vga_frame fb_window s (s\<lparr>cursor_pos := cursor_pos s - 80\<rparr>)"
      by (rule vga_frameI [where m = "mem s" and evs = "[]"]) auto
    also note mem_frame_vga [OF mf]
    also have "vga_frame fb_window ?s1 (fb_scroll_to_cursor ?s1)" using 1 [OF True] by blast
    finally have f: "vga_frame fb_window s (fb_scroll_to_cursor ?s1)" .
    show ?thesis
      using 1 [OF True] f mem_frame_trace [OF mf] True unfolding eq c sc
      by (simp add: scrolls_step funpow_swap1)
  qed
qed

lemma neg_row: "(t :: int) < 0 \<Longrightarrow> (if t + 80 < 0 then (t + 80) mod 80 else t + 80) = t mod 80"
  using mod_add_self2 [of t 80] mod_pos_pos_trivial [of "t + 80" 80] by auto

lemma fb_shift_to_cursor_spec:
  "screen (fb_shift_to_cursor s) = screen s
   \<and> sint (cursor_pos (fb_shift_to_cursor s))
       = (if sint (cursor_pos s) < 0 then sint (cursor_pos s) mod 80 else sint (cursor_pos s))
   \<and> vga_frame (\<lambda>_. False) s (fb_shift_to_cursor s) \<and> trace (fb_shift_to_cursor s) = trace s"
proof (induction s rule: fb_shift_to_cursor.induct)
  case (1 s)
  show ?case
  proof (cases "sint (cursor_pos s) < 0")
    case False
    then show ?thesis by (subst (1 2 3 4) fb_shift_to_cursor.simps) simp
  next
    case True
    let ?s1 = "s\<lparr>cursor_pos := cursor_pos s + 80\<rparr>"
    have eq: "fb_shift_to_cursor s = fb_shift_to_cursor ?s1"
      using True by (subst fb_shift_to_cursor.simps) (simp add: fb_shift_down_last)
    have c: "sint (cursor_pos ?s1) = sint (cursor_pos s) + 80"
      using True by (simp add: sint_plus_80_u16)
    have IH: "screen (fb_shift_to_cursor ?s1) = screen ?s1"
      "sint (cursor_pos (fb_shift_to_cursor ?s1)) = (if sint (cursor_pos ?s1) < 0 then sint (cursor_pos ?s1) mod 80 else sint (cursor_pos ?s1))"
      "vga_frame (\<lambda>_. False) ?s1 (fb_shift_to_cursor ?s1)" "trace (fb_shift_to_cursor ?s1) = trace ?s1"
      using 1 [OF True] by (auto simp: fb_shift_down_last)
    have "vga_frame (\<lambda>_. False) s ?s1"
      by (rule vga_frameI [where m = "mem s" and evs = "[]"]) auto
    also note IH(3)
    finally have f: "vga_frame (\<lambda>_. False) s (fb_shift_to_cursor ?s1)" .
    have "sint (cursor_pos (fb_shift_to_cursor ?s1)) = sint (cursor_pos s) mod 80"
      using True neg_row [OF True] unfolding IH(2) c by simp
    then show ?thesis using IH f True unfolding eq by simp
  qed
qed
end
