(* ===== verification/Vga_Print.thy ===== *)
theory Vga_Print
  imports Vga_Screen
begin

text \<open>
  The cursor and the printing functions of src/vga.c: what the cursor registers of the display
  controller hold, where an offset leaves the cursor, and what printing a text does to the abstract
  display (the screen and the cursor position).
\<close>

lemma mem_frameD: "mem_frame P s s' \<Longrightarrow> \<not> P a \<Longrightarrow> mem s' a = mem s a"
  unfolding mem_frame_def by auto

section \<open>The hardware cursor\<close>

text \<open>
  The cursor registers of the display controller, as the commands of src/vga.c name them: the last
  byte sent to the data port after command 14 is the high byte of the position, after command 15
  the low byte. The state is the selected register and the two bytes.
\<close>

fun crtc_step :: "io_event \<Rightarrow> u8 \<times> u8 \<times> u8 \<Rightarrow> u8 \<times> u8 \<times> u8" where
  "crtc_step (Out p v) (sel, hi, lo) =
     (if p = FB_COMMAND_PORT then (v, hi, lo)
      else if p = FB_DATA_PORT \<and> sel = FB_HIGH_BYTE_COMMAND then (sel, v, lo)
      else if p = FB_DATA_PORT \<and> sel = FB_LOW_BYTE_COMMAND then (sel, hi, v)
      else (sel, hi, lo))"
| "crtc_step (In p v) r = r"

definition hw_cursor :: "io_event list \<Rightarrow> u16" where
  "hw_cursor t = (case foldr crtc_step t (0, 0, 0) of (sel, hi, lo) \<Rightarrow> push_bit 8 (ucast hi) OR ucast lo)"

lemma join_bytes_u16: "push_bit 8 (ucast (ucast (drop_bit 8 c AND 255) :: u8)) OR ucast (ucast (c AND 255) :: u8) = (c :: u16)"
proof -
  have m: "(255 :: u16) = mask 8" by (simp add: mask_eq_exp_minus_1)
  show ?thesis unfolding m by (rule bit_word_eqI) (auto simp: bit_simps)
qed

lemma fb_send_cursor_hw: "hw_cursor (trace (fb_send_cursor s)) = cursor_pos s"
  by (cases "foldr crtc_step (trace s) (0, 0, 0)") (simp add: fb_send_cursor_def Let_def hw_cursor_def join_bytes_u16)

lemma fb_send_cursor_simps [simp]:
  "mem (fb_send_cursor s) = mem s" "cursor_pos (fb_send_cursor s) = cursor_pos s"
  by (simp_all add: fb_send_cursor_def Let_def)

lemma fb_send_cursor_screen [simp]: "screen (fb_send_cursor s) = screen s"
  by (rule screen_cong) simp

lemma fb_send_cursor_frame: "vga_frame P s (fb_send_cursor s)"
  by (rule vga_frameI [where m = "mem s" and c = "cursor_pos s" and
        evs = "[Out FB_DATA_PORT (ucast (cursor_pos s AND 0x00FF)), Out FB_COMMAND_PORT FB_LOW_BYTE_COMMAND,
          Out FB_DATA_PORT (ucast (drop_bit 8 (cursor_pos s) AND 0x00FF)), Out FB_COMMAND_PORT FB_HIGH_BYTE_COMMAND]"])
    (simp_all add: fb_send_cursor_def Let_def outb_def)

lemma set_cursor_frame: "vga_frame P s (s\<lparr>cursor_pos := c\<rparr>)"
  by (rule vga_frameI [where m = "mem s" and c = c and evs = "[]"]) simp_all

lemma fb_move_cursor_simps [simp]:
  "mem (fb_move_cursor c s) = mem s" "cursor_pos (fb_move_cursor c s) = c"
  by (simp_all add: fb_move_cursor_def)

lemma fb_move_cursor_screen [simp]: "screen (fb_move_cursor c s) = screen s"
  by (rule screen_cong) simp

lemma fb_move_cursor_frame: "vga_frame P s (fb_move_cursor c s)"
  unfolding fb_move_cursor_def by (rule vga_frame_trans [OF set_cursor_frame fb_send_cursor_frame])

section \<open>Offsetting the cursor\<close>

lemma fb_offset_cursor_spec:
  assumes t: "t = sint (cursor_pos s) + sint offset" and "- 32768 \<le> t" and "t < 32768"
  shows "screen (fb_offset_cursor offset s) = (scroll_screen ^^ scrolls t) (screen s)"
    and "sint (cursor_pos (fb_offset_cursor offset s)) = wrap_cursor t"
    and "vga_frame fb_window s (fb_offset_cursor offset s)"
    and "hw_cursor (trace (fb_offset_cursor offset s)) = cursor_pos (fb_offset_cursor offset s)"
proof -
  define s1 where "s1 = (if 0 <s offset then s\<lparr>cursor_pos := fb_offset_up (cursor_pos s) offset\<rparr>
      else s\<lparr>cursor_pos := fb_offset_down (cursor_pos s) offset\<rparr>)"
  have "cursor_pos s1 = cursor_pos s + lo16 offset"
    by (simp add: s1_def fb_offset_up_eq fb_offset_down_eq word_sless_alt)
  then have c1: "sint (cursor_pos s1) = t"
    using assms by (simp add: sint_lo16_add)
  have sc1: "screen s1 = screen s" by (simp add: s1_def)
  have f1: "vga_frame fb_window s s1" by (auto simp: s1_def intro: set_cursor_frame)
  define s2 where "s2 = fb_scroll_to_cursor s1"
  note 2 = fb_scroll_to_cursor_spec [of s1, folded s2_def, unfolded c1 sc1]
  have t2: "sint (cursor_pos s2) = t - 80 * int (scrolls t)" using 2 by simp
  note 3 = fb_shift_to_cursor_spec [of s2, unfolded t2]
  have eq: "fb_offset_cursor offset s = fb_send_cursor (fb_shift_to_cursor s2)"
    by (simp add: fb_offset_cursor_def Let_def s1_def s2_def)
  show "screen (fb_offset_cursor offset s) = (scroll_screen ^^ scrolls t) (screen s)"
    using 2 3 by (simp add: eq)
  have neg: "t < 0 \<Longrightarrow> scrolls t = 0" by (rule scrolls_small) simp
  have pos: "\<not> t < 0 \<Longrightarrow> 0 \<le> t - 80 * int (scrolls t)"
    using wrap_cursor_range(1) [of t] by (simp add: wrap_cursor_def)
  show "sint (cursor_pos (fb_offset_cursor offset s)) = wrap_cursor t"
    using 3 neg pos by (auto simp: eq wrap_cursor_def not_less)
  have "vga_frame fb_window s2 (fb_shift_to_cursor s2)"
    using 3 vga_frame_mono by blast
  then show "vga_frame fb_window s (fb_offset_cursor offset s)"
    unfolding eq using 2 f1 fb_send_cursor_frame vga_frame_trans by blast
  show "hw_cursor (trace (fb_offset_cursor offset s)) = cursor_pos (fb_offset_cursor offset s)"
    unfolding eq by (simp add: fb_send_cursor_hw)
qed

text \<open>Whatever the offset, the cursor ends between 0 and 2000, one past the last cell included.\<close>

lemma fb_offset_cursor_range:
  "0 \<le> sint (cursor_pos (fb_offset_cursor offset s))" "sint (cursor_pos (fb_offset_cursor offset s)) \<le> 2000"
proof -
  define s1 where "s1 = (if 0 <s offset then s\<lparr>cursor_pos := fb_offset_up (cursor_pos s) offset\<rparr>
      else s\<lparr>cursor_pos := fb_offset_down (cursor_pos s) offset\<rparr>)"
  define s2 where "s2 = fb_scroll_to_cursor s1"
  have eq: "fb_offset_cursor offset s = fb_send_cursor (fb_shift_to_cursor s2)"
    by (simp add: fb_offset_cursor_def Let_def s1_def s2_def)
  note 2 = fb_scroll_to_cursor_spec [of s1, folded s2_def]
  note 3 = fb_shift_to_cursor_spec [of s2]
  have le: "sint (cursor_pos s2) \<le> 2000"
    using 2 scrolls_small [of "sint (cursor_pos s1)"] wrap_cursor_range(2) [of "sint (cursor_pos s1)"]
    by (cases "sint (cursor_pos s1) < 0") (auto simp: wrap_cursor_def)
  show "0 \<le> sint (cursor_pos (fb_offset_cursor offset s))" "sint (cursor_pos (fb_offset_cursor offset s)) \<le> 2000"
    using 3 le pos_mod_bound [of 80 "sint (cursor_pos s2)"] by (auto simp: eq intro: order_trans less_imp_le)
qed

lemma fb_offset_cursor_frame: "vga_frame fb_window s (fb_offset_cursor offset s)"
proof -
  define s1 where "s1 = (if 0 <s offset then s\<lparr>cursor_pos := fb_offset_up (cursor_pos s) offset\<rparr>
      else s\<lparr>cursor_pos := fb_offset_down (cursor_pos s) offset\<rparr>)"
  have "vga_frame fb_window s s1" by (auto simp: s1_def intro: set_cursor_frame)
  also have "vga_frame fb_window s1 (fb_scroll_to_cursor s1)" using fb_scroll_to_cursor_spec by blast
  also have "vga_frame fb_window \<dots> (fb_shift_to_cursor \<dots>)"
    using fb_shift_to_cursor_spec vga_frame_mono by blast
  also note fb_send_cursor_frame
  finally show ?thesis by (simp add: fb_offset_cursor_def Let_def s1_def)
qed

section \<open>Printing\<close>

text \<open>The cell the cursor is on, and the abstract display: the screen and the cursor.\<close>

type_synonym display = "screen \<times> int"

definition display :: "'a vga_scheme \<Rightarrow> display" where
  "display s = (screen s, sint (cursor_pos s))"

definition put_text :: "nat \<Rightarrow> u8 list \<Rightarrow> u8 \<Rightarrow> screen \<Rightarrow> screen" where
  "put_text k bs attr S = (\<lambda>j. if k \<le> j \<and> j < k + length bs then (bs ! (j - k), attr) else S j)"

definition advance :: "int \<Rightarrow> display \<Rightarrow> display" where
  "advance d D = ((scroll_screen ^^ scrolls (snd D + d)) (fst D), wrap_cursor (snd D + d))"

definition print_text :: "u8 list \<Rightarrow> u8 \<Rightarrow> display \<Rightarrow> display" where
  "print_text bs attr D = advance (int (length bs)) (put_text (nat (snd D)) bs attr (fst D), snd D)"

lemma cell_of_cursor:
  assumes "0 \<le> sint c"
  shows "sx16 c = of_nat (nat (sint c))" and "nat (sint c) < 32768"
proof -
  have "sint (sx16 c) = sint c"
    by (simp add: sx16_def) (transfer, simp add: signed_take_bit_take_bit)
  moreover have "sx16 c = word_of_int (sint (sx16 c))" by simp
  ultimately have "sx16 c = word_of_int (sint c)" by (simp only:)
  then show "sx16 c = of_nat (nat (sint c))" using assms by simp
  show "nat (sint c) < 32768" using sint_lt [of c] assms by simp
qed

lemma put_text_Cons: "put_text k (b # bs) attr S = put_text (Suc k) bs attr (S(k := (b, attr)))"
  by (auto simp: put_text_def fun_eq_iff nth_Cons')

lemma fb_write_lstr_loop_screen:
  assumes "k + n \<le> 16384" and "n \<le> 32768" and "\<And>a. in_region a str n \<Longrightarrow> \<not> fb_window a"
  shows "screen (fb_write_lstr_loop n (of_nat k) str fg bg s) =
      put_text k (read_bytes (mem s) str n) (fb_attr fg bg) (screen s)
    \<and> mem_frame fb_window s (fb_write_lstr_loop n (of_nat k) str fg bg s)"
  using assms
proof (induction n arbitrary: k str s)
  case 0
  then show ?case by (auto simp: put_text_def fun_eq_iff)
next
  case (Suc n)
  let ?s1 = "fb_write_cell (of_nat k) (mem s str) fg bg s"
  have sub: "in_region a (str + 1) n \<Longrightarrow> in_region a str (Suc n)" for a
    using Suc.prems(2) by (intro in_region_Suc) auto
  have f: "mem_frame fb_window s ?s1" using Suc.prems by (intro fb_write_cell_frame) simp
  have r: "read_bytes (mem ?s1) (str + 1) n = read_bytes (mem s) (str + 1) n"
    using Suc.prems sub mem_frameD [OF f] by (intro read_bytes_outside) auto
  have eq: "fb_write_lstr_loop (Suc n) (of_nat k) str fg bg s = fb_write_lstr_loop n (of_nat (Suc k)) (str + 1) fg bg ?s1"
    by (simp add: add.commute)
  have "screen (fb_write_lstr_loop n (of_nat (Suc k)) (str + 1) fg bg ?s1) =
      put_text (Suc k) (read_bytes (mem ?s1) (str + 1) n) (fb_attr fg bg) (screen ?s1)
    \<and> mem_frame fb_window ?s1 (fb_write_lstr_loop n (of_nat (Suc k)) (str + 1) fg bg ?s1)"
    using Suc.prems sub by (intro Suc.IH) auto
  then show ?case
    unfolding eq using Suc.prems f
    by (auto simp: r put_text_Cons fb_write_cell_screen intro: mem_frame_trans)
qed

text \<open>A string the display does not overwrite while it is printed.\<close>

definition off_screen :: "u32 \<Rightarrow> nat \<Rightarrow> bool" where
  "off_screen p n \<longleftrightarrow> disjoint_regions p n fb 0x8000"

lemma off_screenD: "off_screen p n \<Longrightarrow> in_region a p n \<Longrightarrow> \<not> fb_window a"
  unfolding off_screen_def fb_window_def by (rule disjoint_regionsD)

lemma fb_print_lstr_spec:
  assumes "0 \<le> sint (cursor_pos s)" and "nat (sint (cursor_pos s)) + n \<le> 16384" and "off_screen str n"
  shows "display (fb_print_lstr str (of_nat n) fg bg s) =
      print_text (read_bytes (mem s) str n) (fb_attr fg bg) (display s)"
    and "vga_frame fb_window s (fb_print_lstr str (of_nat n) fg bg s)"
proof -
  let ?k = "nat (sint (cursor_pos s))"
  let ?s1 = "fb_write_lstr (sx16 (cursor_pos s)) str (of_nat n) fg bg s"
  have n: "sint (of_nat n :: u32) = int n" using assms(2) by (simp add: sint_of_nat_u32)
  have eq: "?s1 = fb_write_lstr_loop n (of_nat ?k) str fg bg s"
    using cell_of_cursor(1) [OF assms(1)] by (simp add: fb_write_lstr_def n)
  have s1: "screen ?s1 = put_text ?k (read_bytes (mem s) str n) (fb_attr fg bg) (screen s)"
    and f: "mem_frame fb_window s ?s1"
    unfolding eq using fb_write_lstr_loop_screen [of ?k n str] assms(2) off_screenD [OF assms(3)] by auto
  have c: "cursor_pos ?s1 = cursor_pos s" using f by (auto simp: mem_frame_def)
  have "- 32768 \<le> sint (cursor_pos ?s1) + sint (of_nat n :: u32)" "sint (cursor_pos ?s1) + sint (of_nat n :: u32) < 32768"
    using assms(1,2) unfolding c n by linarith+
  note o = fb_offset_cursor_spec [OF refl this, unfolded c n s1]
  show "display (fb_print_lstr str (of_nat n) fg bg s) =
      print_text (read_bytes (mem s) str n) (fb_attr fg bg) (display s)"
    unfolding fb_print_lstr_def display_def o(1,2) by (simp add: print_text_def advance_def)
  show "vga_frame fb_window s (fb_print_lstr str (of_nat n) fg bg s)"
    unfolding fb_print_lstr_def using mem_frame_vga [OF f] o(3) vga_frame_trans by blast
qed

lemma fb_print_cell_spec:
  assumes "0 \<le> sint (cursor_pos s)" and "nat (sint (cursor_pos s)) < 16384"
  shows "display (fb_print_cell c fg bg s) = print_text [c] (fb_attr fg bg) (display s)"
    and "vga_frame fb_window s (fb_print_cell c fg bg s)"
proof -
  let ?k = "nat (sint (cursor_pos s))"
  let ?s1 = "fb_write_cell (sx16 (cursor_pos s)) c fg bg s"
  have s1: "screen ?s1 = (screen s)(?k := (c, fb_attr fg bg))" and f: "mem_frame fb_window s ?s1"
    unfolding cell_of_cursor(1) [OF assms(1)] using assms(2) fb_write_cell_screen fb_write_cell_frame by blast+
  have "- 32768 \<le> sint (cursor_pos ?s1) + sint (1 :: u32)" "sint (cursor_pos ?s1) + sint (1 :: u32) < 32768"
    using assms(1,2) by simp_all
  note o = fb_offset_cursor_spec [OF refl this, unfolded s1]
  have p: "put_text ?k [c] (fb_attr fg bg) (screen s) = (screen s)(?k := (c, fb_attr fg bg))"
    by (auto simp: put_text_def fun_eq_iff)
  show "display (fb_print_cell c fg bg s) = print_text [c] (fb_attr fg bg) (display s)"
    unfolding fb_print_cell_def display_def o(1,2) by (simp add: print_text_def advance_def p)
  show "vga_frame fb_window s (fb_print_cell c fg bg s)"
    unfolding fb_print_cell_def using mem_frame_vga [OF f] o(3) vga_frame_trans by blast
qed

lemma fb_print_str_spec:
  assumes "0 \<le> sint (cursor_pos s)" and "nat (sint (cursor_pos s)) + length bs \<le> 16384"
    and "cstr_at (mem s) str bs" and "off_screen str (Suc (length bs))"
  obtains s' where "fb_print_str str fg bg s = Some s'"
    and "display s' = print_text bs (fb_attr fg bg) (display s)" and "vga_frame fb_window s s'"
    and "s' = fb_print_lstr str (of_nat (length bs)) fg bg s"
proof -
  have off: "off_screen str (length bs)"
    using assms(4) disjoint_regions_mono unfolding off_screen_def by (metis le_SucI order_refl)
  let ?s1 = "fb_write_lstr (sx16 (cursor_pos s)) str (of_nat (length bs)) fg bg s"
  have n: "sint (of_nat (length bs) :: u32) = int (length bs)" using assms(2) by (simp add: sint_of_nat_u32)
  have f: "mem_frame fb_window s ?s1"
    using fb_write_lstr_loop_screen [of "nat (sint (cursor_pos s))" "length bs" str] assms(2) off_screenD [OF off]
    by (auto simp: fb_write_lstr_def n cell_of_cursor(1) [OF assms(1)])
  then have "cstr_at (mem ?s1) str bs"
    using off_screenD [OF assms(4)] mem_frameD [OF f] assms(2)
    by (intro cstr_at_cong [OF assms(3)]) auto
  then have "fb_print_str str fg bg s = Some (fb_print_lstr str (of_nat (length bs)) fg bg s)"
    using strlen_cstr [OF assms(3)] strlen_cstr [of "mem ?s1" str bs]
    by (simp add: fb_print_str_def fb_print_lstr_def)
  moreover have "read_bytes (mem s) str (length bs) = bs"
    using assms(3) by (simp add: cstr_at_iff)
  ultimately show ?thesis using that fb_print_lstr_spec [OF assms(1,2) off] by simp
qed

end
