(* ===== verification/Vga_Fprint.thy ===== *)
theory Vga_Fprint
  imports Vga_Print KString_More
begin

text \<open>
  \<open>fb_fprint_str\<close> of src/vga.c against a description of formats: the loop that scans the format,
  slices the hints out and compares them prints exactly what the items of the format stand for, and
  writes to the display and its two local arrays only.
\<close>

section \<open>Formats\<close>

text \<open>A format is a sequence of plain characters and hints; a hint that is none of the three known
  ones is printed as it stands behind a question mark.\<close>

datatype fmt = Chr u8 | Dec | Hex | Newline | Other "u8 list"

fun fmt_bytes :: "fmt \<Rightarrow> u8 list" where
  "fmt_bytes (Chr c) = [c]"
| "fmt_bytes Dec = bytes_of hint_d"
| "fmt_bytes Hex = bytes_of hint_h"
| "fmt_bytes Newline = bytes_of hint_n"
| "fmt_bytes (Other t) = [0x7B, 0x25] @ t @ [0x7D]"

fun fmt_ok :: "fmt \<Rightarrow> bool" where
  "fmt_ok (Chr c) \<longleftrightarrow> c \<noteq> 0 \<and> c \<noteq> 0x7B"
| "fmt_ok (Other t) \<longleftrightarrow> 0 \<notin> set t \<and> 0x7D \<notin> set t \<and> t \<notin> {[0x64], [0x68], [0x0A]}"
| "fmt_ok _ \<longleftrightarrow> True"

definition format_bytes :: "fmt list \<Rightarrow> u8 list" where
  "format_bytes fs = concat (map fmt_bytes fs)"

fun is_hint :: "fmt \<Rightarrow> bool" where
  "is_hint (Chr c) \<longleftrightarrow> False"
| "is_hint _ \<longleftrightarrow> True"

fun takes_arg :: "fmt \<Rightarrow> bool" where
  "takes_arg Dec \<longleftrightarrow> True"
| "takes_arg Hex \<longleftrightarrow> True"
| "takes_arg _ \<longleftrightarrow> False"

text \<open>What one item does to the display; every hint, also one without argument, counts one argument.\<close>

definition newline :: "display \<Rightarrow> display" where
  "newline D = (let (S, c) = advance 80 D in (S, 80 * (c div 80)))"

fun show_item :: "fmt \<Rightarrow> u32 \<Rightarrow> u8 \<Rightarrow> display \<Rightarrow> display" where
  "show_item (Chr c) v attr D = print_text [c] attr D"
| "show_item Dec v attr D = print_text (int_text v) attr D"
| "show_item Hex v attr D = print_text (hex_nibbles v 8) attr D"
| "show_item Newline v attr D = newline D"
| "show_item (Other t) v attr D = print_text (fmt_bytes (Other t)) attr (print_text [0x3F] attr D)"

fun show_format :: "fmt list \<Rightarrow> u32 list \<Rightarrow> nat \<Rightarrow> u8 \<Rightarrow> display \<Rightarrow> display" where
  "show_format [] args i attr D = D"
| "show_format (f # fs) args i attr D =
     show_format fs args (if is_hint f then Suc i else i) attr
       (show_item f (if i < length args then args ! i else 0) attr D)"

fun args_ok :: "fmt list \<Rightarrow> u32 list \<Rightarrow> nat \<Rightarrow> bool" where
  "args_ok [] args i \<longleftrightarrow> True"
| "args_ok (f # fs) args i \<longleftrightarrow>
     (takes_arg f \<longrightarrow> i < length args) \<and> args_ok fs args (if is_hint f then Suc i else i)"

text \<open>
  The layout the call relies on: the format and the literals are apart from the display memory and
  from the local arrays. The array \<open>typeHint\<close> is given the bytes the code really uses, one more
  than it declares.
\<close>

definition fprint_layout :: "image \<Rightarrow> u32 \<Rightarrow> nat \<Rightarrow> bool" where
  "fprint_layout img str n \<longleftrightarrow>
     off_screen (local_addr img ''typeHint'') (Suc n) \<and> off_screen (local_addr img ''intAsString'') 12
     \<and> (\<forall>(p, k) \<in> set [(str, Suc n), (lit_addr img hint_d, 5), (lit_addr img hint_n, 5), (lit_addr img hint_h, 5)].
          off_screen p k \<and> disjoint_regions (local_addr img ''typeHint'') (Suc n) p k
          \<and> disjoint_regions (local_addr img ''intAsString'') 12 p k)"

definition fprint_writes :: "image \<Rightarrow> nat \<Rightarrow> u32 \<Rightarrow> bool" where
  "fprint_writes img n a \<longleftrightarrow> fb_window a \<or> in_region a (local_addr img ''typeHint'') (Suc n)
     \<or> in_region a (local_addr img ''intAsString'') 12"

definition fprint_ready :: "image \<Rightarrow> memory \<Rightarrow> u32 \<Rightarrow> u8 list \<Rightarrow> bool" where
  "fprint_ready img m str bs \<longleftrightarrow>
     fprint_layout img str (length bs) \<and> cstr_at m str bs
     \<and> literals_loaded img m [hint_d, hint_n, hint_h]"

lemma layout_protected:
  assumes "fprint_layout img str n"
    and "(p, k) \<in> set [(str, Suc n), (lit_addr img hint_d, 5), (lit_addr img hint_n, 5), (lit_addr img hint_h, 5)]"
    and "in_region a p k"
  shows "\<not> fprint_writes img n a"
proof -
  note all = assms(1) [unfolded fprint_layout_def, THEN conjunct2, THEN conjunct2, rule_format, OF assms(2), unfolded prod.case]
  have "\<not> fb_window a" by (rule off_screenD [OF all [THEN conjunct1] assms(3)])
  moreover have "\<not> in_region a (local_addr img ''typeHint'') (Suc n)"
    by (rule disjoint_regionsD [OF disjoint_regions_sym [OF all [THEN conjunct2, THEN conjunct1]] assms(3)])
  moreover have "\<not> in_region a (local_addr img ''intAsString'') 12"
    by (rule disjoint_regionsD [OF disjoint_regions_sym [OF all [THEN conjunct2, THEN conjunct2]] assms(3)])
  ultimately show ?thesis unfolding fprint_writes_def by blast
qed

lemma length_hints [simp]: "length hint_d = 4" "length hint_n = 4" "length hint_h = 4"
  by (simp_all add: hint_d_def hint_n_def hint_h_def)

lemma fprint_ready_frame:
  assumes "fprint_ready img m str bs" and "\<And>a. \<not> fprint_writes img (length bs) a \<Longrightarrow> m' a = m a"
    and "length bs < 4294967295"
  shows "fprint_ready img m' str bs"
proof -
  have l: "fprint_layout img str (length bs)" using assms(1) by (simp add: fprint_ready_def)
  have keep: "m' a = m a"
    if "(p, k) \<in> set [(str, Suc (length bs)), (lit_addr img hint_d, 5), (lit_addr img hint_n, 5), (lit_addr img hint_h, 5)]"
      and "in_region a p k" for a p k
    by (rule assms(2)) (rule layout_protected [OF l that])
  have s: "cstr_at m' str bs"
  proof (rule cstr_at_cong)
    show "cstr_at m str bs" using assms(1) by (simp add: fprint_ready_def)
    show "m' a = m a" if "in_region a str (Suc (length bs))" for a
      by (rule keep [OF _ that]) simp
  qed (rule assms(3))
  have "cstr_at m' (lit_addr img h) (bytes_of h)" if h: "h \<in> set [hint_d, hint_n, hint_h]" for h
  proof (rule cstr_at_cong)
    show "cstr_at m (lit_addr img h) (bytes_of h)"
      using assms(1) h unfolding fprint_ready_def literals_loaded_def by blast
    have k: "Suc (length (bytes_of h)) = 5" using h by auto
    show "m' a = m a" if "in_region a (lit_addr img h) (Suc (length (bytes_of h)))" for a
      by (rule keep [OF _ that [unfolded k]]) (use h in auto)
    show "length (bytes_of h) < 4294967295" using k by simp
  qed
  with s l show ?thesis by (simp only: fprint_ready_def literals_loaded_def) blast
qed

definition on_screen :: "display \<Rightarrow> bool" where
  "on_screen D \<longleftrightarrow> 0 \<le> snd D \<and> snd D \<le> 2000"

lemma on_screen_advance [simp]: "on_screen (advance d D)"
  using wrap_cursor_range by (simp add: on_screen_def advance_def)

lemma on_screen_print [simp]: "on_screen (print_text bs attr D)"
  by (simp add: print_text_def)

lemma on_screen_newline [simp]: "on_screen (newline D)"
proof -
  obtain S c where e: "advance 80 D = (S, c)" by (cases "advance 80 D")
  have "on_screen (S, c)" unfolding e [symmetric] by simp
  then have "0 \<le> 80 * (c div 80) \<and> 80 * (c div 80) \<le> 2000"
    unfolding on_screen_def snd_conv by presburger
  then show ?thesis unfolding newline_def e Let_def prod.case on_screen_def snd_conv .
qed

lemma on_screen_show_item [simp]: "on_screen (show_item f v attr D)"
  by (cases f) auto

lemma screen_scratch:
  assumes "\<And>a. fb_window a \<Longrightarrow> mem s' a = mem s a"
  shows "screen s' = screen s"
  using assms by (auto simp: screen_def fun_eq_iff)

section \<open>Hints\<close>

lemma fb_start_of_row_spec:
  assumes "on_screen (display s)"
  shows "display (fb_move_cursor_to_start_of_row s) = (screen s, 80 * (sint (cursor_pos s) div 80))"
    and "vga_frame P s (fb_move_cursor_to_start_of_row s)"
    and "on_screen (display (fb_move_cursor_to_start_of_row s))"
proof -
  have r: "0 \<le> sint (cursor_pos s)" "sint (cursor_pos s) \<le> 2000"
    using assms by (simp_all add: on_screen_def display_def)
  define n where "n = nat (sint (cursor_pos s))"
  have n: "n \<le> 2000" "sint (cursor_pos s) = int n" using r by (simp_all add: n_def)
  have sx: "sx16 (cursor_pos s) = of_nat n" using cell_of_cursor(1) r by (simp add: n_def)
  have q: "fb_get_current_row s = of_nat (n div 80)"
  proof -
    have "int n sdiv 80 = int (n div 80)"
      by (cases "n = 0") (simp_all add: signed_divide_int_def sgn_if zdiv_int)
    then show ?thesis
      using n(1) by (simp add: fb_get_current_row_def fb_get_row_def sx c_div_def sint_of_nat_u32)
  qed
  have ix: "fb_row_column_to_index (ucast (0 :: u16)) (ucast (lo16 (of_nat (n div 80)))) = of_nat (80 * (n div 80))"
  proof -
    have "(ucast (lo16 (of_nat (n div 80))) :: u32) = of_nat (n div 80)"
      using n(1) by (simp add: lo16_def unsigned_of_nat take_bit_nat_eq_self unsigned_ucast_eq)
    then show ?thesis
      using row_index [of "int (n div 80)"] n(1) by (simp add: fb_row_column_to_index_def)
  qed
  have eq: "fb_move_cursor_to_start_of_row s = fb_send_cursor (s\<lparr>cursor_pos := of_nat (80 * (n div 80))\<rparr>)"
    by (simp only: fb_move_cursor_to_start_of_row_def fb_move_cursor_col_row_def q ix)
  have "80 * (n div 80) < 32768" using n(1) by linarith
  then have "sint (of_nat (80 * (n div 80)) :: u16) = 80 * (int n div 80)"
    by (simp add: signed_of_nat signed_take_bit_int_eq_self del: of_nat_mult) (simp add: zdiv_int)
  then show D: "display (fb_move_cursor_to_start_of_row s) = (screen s, 80 * (sint (cursor_pos s) div 80))"
    unfolding eq by (simp add: display_def n(2) del: of_nat_mult)
  show "vga_frame P s (fb_move_cursor_to_start_of_row s)"
    unfolding eq using set_cursor_frame fb_send_cursor_frame vga_frame_trans by blast
  have "int n div 80 \<le> 2000 div 80" using n(1) by (intro zdiv_mono1) simp_all
  then have "0 \<le> 80 * (int n div 80) \<and> 80 * (int n div 80) \<le> 2000" by simp
  then show "on_screen (display (fb_move_cursor_to_start_of_row s))"
    unfolding D on_screen_def snd_conv n(2) .
qed

lemma fb_newline_spec:
  assumes "on_screen (display s)"
  shows "display (fb_move_cursor_to_start_of_row (fb_offset_cursor 80 s)) = newline (display s)"
    and "vga_frame fb_window s (fb_move_cursor_to_start_of_row (fb_offset_cursor 80 s))"
proof -
  let ?s1 = "fb_offset_cursor 80 s"
  have "- 32768 \<le> sint (cursor_pos s) + sint (80 :: u32)" "sint (cursor_pos s) + sint (80 :: u32) < 32768"
    using assms by (simp_all add: on_screen_def display_def)
  note o = fb_offset_cursor_spec [OF refl this]
  have D1: "display ?s1 = advance 80 (display s)" using o(1,2) by (simp add: display_def advance_def)
  have on1: "on_screen (display ?s1)" unfolding D1 by simp
  show "display (fb_move_cursor_to_start_of_row ?s1) = newline (display s)"
    unfolding newline_def D1 [symmetric] fb_start_of_row_spec(1) [OF on1] by (simp add: display_def)
  show "vga_frame fb_window s (fb_move_cursor_to_start_of_row ?s1)"
    using o(3) fb_start_of_row_spec(2) [OF on1] by (rule vga_frame_trans)
qed

lemma find_close_found:
  assumes "o' \<le> c" and "m (str + of_nat c) = 0x7D" and "\<And>j. o' \<le> j \<Longrightarrow> j < c \<Longrightarrow> m (str + of_nat j) \<noteq> 0x7D"
  shows "find_close m str (of_nat o') = Some (of_nat c)"
  using assms
proof (induction "c - o'" arbitrary: o')
  case 0
  then show ?case by (subst find_close.simps) simp
next
  case (Suc d)
  then have "find_close m str (of_nat (Suc o')) = Some (of_nat c)" by (intro Suc.hyps(1)) auto
  then show ?case using Suc by (subst find_close.simps) (simp add: add.commute)
qed


lemma fmt_bytes_nonzero: "fmt_ok f \<Longrightarrow> 0 \<notin> set (fmt_bytes f)"
  by (cases f) (auto simp: hint_d_def hint_n_def hint_h_def bytes_of_def)

lemma fmt_bytes_hint:
  "is_hint f \<Longrightarrow> \<exists>t. fmt_bytes f = [0x7B, 0x25] @ t @ [0x7D] \<and> (fmt_ok f \<longrightarrow> 0x7D \<notin> set t)"
  by (cases f) (auto simp: hint_d_def hint_n_def hint_h_def bytes_of_def)

lemma fmt_bytes_eq:
  assumes "fmt_ok f"
  shows "fmt_bytes f = bytes_of hint_d \<longleftrightarrow> f = Dec" "fmt_bytes f = bytes_of hint_n \<longleftrightarrow> f = Newline"
    "fmt_bytes f = bytes_of hint_h \<longleftrightarrow> f = Hex"
  using assms by (cases f; simp add: hint_d_def hint_n_def hint_h_def bytes_of_def)+

lemma vga_frame_mem: "(\<And>a. \<not> P a \<Longrightarrow> m a = mem s a) \<Longrightarrow> vga_frame P s (s\<lparr>mem := m\<rparr>)"
  by (rule vga_frameI [where m = m and c = "cursor_pos s" and evs = "[]"]) simp_all

lemma display_mem: "(\<And>a. fb_window a \<Longrightarrow> m a = mem s a) \<Longrightarrow> display (s\<lparr>mem := m\<rparr>) = display s"
  unfolding display_def by (auto intro: screen_scratch)

text \<open>Printing a string that was just written into a local array.\<close>

lemma fb_print_local:
  assumes "on_screen (display s)" and "length t \<le> 14000" and "cstr_at m p t" and "off_screen p k" and "Suc (length t) \<le> k"
    and "\<And>a. \<not> in_region a p k \<Longrightarrow> m a = mem s a"
  shows "strlen m p = Some (of_nat (length t))"
    and "display (fb_print_lstr p (of_nat (length t)) fg bg (s\<lparr>mem := m\<rparr>)) = print_text t (fb_attr fg bg) (display s)"
    and "vga_frame (\<lambda>a. fb_window a \<or> in_region a p k) s (fb_print_lstr p (of_nat (length t)) fg bg (s\<lparr>mem := m\<rparr>))"
proof -
  show "strlen m p = Some (of_nat (length t))" using assms(3) by (rule strlen_cstr)
  have "off_screen p (length t)"
    using assms(4) unfolding off_screen_def by (rule disjoint_regions_mono) (use assms(5) in auto)
  moreover have "0 \<le> sint (cursor_pos (s\<lparr>mem := m\<rparr>))" "nat (sint (cursor_pos (s\<lparr>mem := m\<rparr>))) + length t \<le> 16384"
    using assms(1,2) by (auto simp: on_screen_def display_def)
  ultimately have *: "display (fb_print_lstr p (of_nat (length t)) fg bg (s\<lparr>mem := m\<rparr>)) =
      print_text (read_bytes (mem (s\<lparr>mem := m\<rparr>)) p (length t)) (fb_attr fg bg) (display (s\<lparr>mem := m\<rparr>))"
    "vga_frame fb_window (s\<lparr>mem := m\<rparr>) (fb_print_lstr p (of_nat (length t)) fg bg (s\<lparr>mem := m\<rparr>))"
    by (simp_all only: fb_print_lstr_spec)
  have "read_bytes m p (length t) = t" using assms(3) by (simp add: cstr_at_iff)
  moreover have "display (s\<lparr>mem := m\<rparr>) = display s"
    using off_screenD [OF assms(4)] assms(6) by (intro display_mem) blast
  ultimately show "display (fb_print_lstr p (of_nat (length t)) fg bg (s\<lparr>mem := m\<rparr>)) = print_text t (fb_attr fg bg) (display s)"
    using *(1) by simp
  have "vga_frame (\<lambda>a. fb_window a \<or> in_region a p k) s (s\<lparr>mem := m\<rparr>)"
    using assms(6) by (intro vga_frame_mem) auto
  also have "vga_frame (\<lambda>a. fb_window a \<or> in_region a p k) \<dots> (fb_print_lstr p (of_nat (length t)) fg bg (s\<lparr>mem := m\<rparr>))"
    by (rule vga_frame_mono [OF *(2)]) simp
  finally show "vga_frame (\<lambda>a. fb_window a \<or> in_region a p k) s (fb_print_lstr p (of_nat (length t)) fg bg (s\<lparr>mem := m\<rparr>))" .
qed

text \<open>After \<open>strslice\<close>: the hint is in \<open>typeHint\<close> and the three comparisons say which one it is.\<close>

lemma hint_sliced:
  assumes "fprint_ready img m str bs" and "bs = pre @ fmt_bytes f @ post" and "fmt_ok f" and "is_hint f"
    and "length bs \<le> 14000"
  defines "th \<equiv> local_addr img ''typeHint''"
    and "m1 \<equiv> write_bytes m (local_addr img ''typeHint'') (fmt_bytes f @ [0])"
  shows "strslice m str (of_nat (length pre)) (of_nat (length pre + length (fmt_bytes f) - 1)) th = Some m1"
    and "m1(th + (of_nat (length pre + length (fmt_bytes f) - 1) - of_nat (length pre) + 1) := 0) = m1"
    and "cstr_at m1 th (fmt_bytes f)"
    and "fprint_ready img m1 str bs"
    and "\<not> in_region a th (Suc (length bs)) \<Longrightarrow> m1 a = m a"
    and "strcmp m1 th (lit_addr img hint_d) = Some (if f = Dec then 0 else 1)"
    and "strcmp m1 th (lit_addr img hint_n) = Some (if f = Newline then 0 else 1)"
    and "strcmp m1 th (lit_addr img hint_h) = Some (if f = Hex then 0 else 1)"
proof -
  let ?L = "length (fmt_bytes f)" and ?p = "length pre"
  obtain t where "fmt_bytes f = [0x7B, 0x25] @ t @ [0x7D]" using fmt_bytes_hint [OF assms(4)] by blast
  then have L: "0 < ?L" by simp
  have len: "?p + ?L \<le> length bs" using assms(2) by simp
  have cb: "cstr_at m str bs" and lay: "fprint_layout img str (length bs)"
    using assms(1) by (simp_all add: fprint_ready_def)
  have d0: "disjoint_regions th (Suc (length bs)) str (Suc (length bs))"
    using lay by (simp add: fprint_layout_def th_def)
  have "disjoint_regions (str + of_nat ?p) (Suc (length bs - ?p)) th (Suc (length bs))"
    by (rule disjoint_subregion [OF disjoint_regions_sym [OF d0]]) (use len assms(5) in auto)
  then have dd: "disjoint_regions th (Suc (length bs - ?p)) (str + of_nat ?p) (Suc (length bs - ?p))"
    using disjoint_regions_mono disjoint_regions_sym by (meson Suc_le_mono diff_le_self order_refl)
  have "strslice m str (of_nat ?p) (of_nat (?p + ?L - 1)) th
      = Some (write_bytes m th (take (Suc (?p + ?L - 1) - ?p) (drop ?p bs) @ [0]))"
    by (rule strslice_cstr [OF cb _ _ _ _ dd]) (use len L assms(5) in auto)
  moreover have "Suc (?p + ?L - 1) - ?p = ?L" using L by simp
  ultimately show "strslice m str (of_nat ?p) (of_nat (?p + ?L - 1)) th = Some m1"
    using assms(2) by (simp add: m1_def th_def)
  show c1: "cstr_at m1 th (fmt_bytes f)"
    unfolding m1_def th_def using len assms(5) by (intro write_cstr fmt_bytes_nonzero assms(3)) auto
  have "of_nat (?p + ?L - 1) - of_nat ?p + 1 = (of_nat ?L :: u32)"
  proof -
    obtain l where "?L = Suc l" using L by (cases ?L) auto
    then show ?thesis by simp
  qed
  then show "m1(th + (of_nat (?p + ?L - 1) - of_nat ?p + 1) := 0) = m1"
    using cstr_at_end [OF c1] by (simp add: fun_upd_idem)
  show fr: "m1 a = m a" if "\<not> in_region a th (Suc (length bs))" for a
    unfolding m1_def using that len assms(5) by (intro write_bytes_outside) (auto simp: th_def in_region_def)
  show r1: "fprint_ready img m1 str bs"
    by (rule fprint_ready_frame [OF assms(1)]) (use fr assms(5) in \<open>auto simp: fprint_writes_def th_def\<close>)
  have lit: "cstr_at m1 (lit_addr img h) (bytes_of h)" if "h \<in> set [hint_d, hint_n, hint_h]" for h
    using r1 that unfolding fprint_ready_def literals_loaded_def by blast
  note cmp = strcmp_cstr [OF c1 lit] fmt_bytes_eq [OF assms(3)]
  show "strcmp m1 th (lit_addr img hint_d) = Some (if f = Dec then 0 else 1)"
    "strcmp m1 th (lit_addr img hint_n) = Some (if f = Newline then 0 else 1)"
    "strcmp m1 th (lit_addr img hint_h) = Some (if f = Hex then 0 else 1)"
    by (simp_all add: cmp)
qed


definition hint_done :: "image \<Rightarrow> u8 list \<Rightarrow> u32 \<Rightarrow> u8 \<Rightarrow> u8 \<Rightarrow> fmt \<Rightarrow> 'a vga_scheme \<Rightarrow> 'a vga_scheme \<Rightarrow> bool" where
  "hint_done img bs v fg bg f s s' \<longleftrightarrow>
     display s' = show_item f v (fb_attr fg bg) (display s) \<and> vga_frame (fprint_writes img (length bs)) s s'"

lemma fb_print_hint_spec:
  assumes "fprint_ready img (mem s) str bs" and "bs = pre @ fmt_bytes f @ post" and "fmt_ok f" and "is_hint f"
    and "length bs \<le> 14000" and "on_screen (display s)" and "takes_arg f \<Longrightarrow> i < length args"
  shows "\<exists>s'. fb_print_hint img str (of_nat (length pre)) (of_nat (length pre + length (fmt_bytes f) - 1)) args i fg bg s = Some s'
    \<and> hint_done img bs (if i < length args then args ! i else 0) fg bg f s s'"
proof -
  define th where "th = local_addr img ''typeHint''"
  define ib where "ib = local_addr img ''intAsString''"
  define m1 where "m1 = write_bytes (mem s) th (fmt_bytes f @ [0])"
  define s2 where "s2 = s\<lparr>mem := m1\<rparr>"
  note sl = hint_sliced [OF assms(1-5), folded th_def, folded m1_def]
  let ?W = "fprint_writes img (length bs)"
  have lay: "off_screen th (Suc (length bs))" "off_screen ib 12"
    using assms(1) by (simp_all add: fprint_ready_def fprint_layout_def th_def ib_def)
  have W: "\<And>a. fb_window a \<Longrightarrow> ?W a" "\<And>a. in_region a th (Suc (length bs)) \<Longrightarrow> ?W a" "\<And>a. in_region a ib 12 \<Longrightarrow> ?W a"
    by (simp_all add: fprint_writes_def th_def ib_def)
  have f2: "vga_frame ?W s s2" unfolding s2_def using sl(5) W(2) by (intro vga_frame_mem) blast
  have D2: "display s2 = display s"
    unfolding s2_def using sl(5) off_screenD [OF lay(1)] by (intro display_mem) blast
  have on2: "on_screen (display s2)" using assms(6) by (simp add: D2)
  have mem2: "mem s2 = m1" by (simp add: s2_def)
  have arg: "nth_arg args i = Some (if i < length args then args ! i else 0)" if "takes_arg f"
    using assms(7) [OF that] by (simp add: nth_arg_def)
  have int: "strlen m' ib = Some (of_nat (length t))"
    "display (fb_print_lstr ib (of_nat (length t)) fg bg (s2\<lparr>mem := m'\<rparr>)) = print_text t (fb_attr fg bg) (display s)"
    "vga_frame ?W s (fb_print_lstr ib (of_nat (length t)) fg bg (s2\<lparr>mem := m'\<rparr>))"
    if "cstr_at m' ib t" "length t \<le> 11" "\<And>a. \<not> in_region a ib 12 \<Longrightarrow> m' a = m1 a" for m' t
  proof -
    note pl = fb_print_local [OF on2 _ that(1) lay(2), unfolded mem2]
    show "strlen m' ib = Some (of_nat (length t))" using that(1) by (rule strlen_cstr)
    show "display (fb_print_lstr ib (of_nat (length t)) fg bg (s2\<lparr>mem := m'\<rparr>)) = print_text t (fb_attr fg bg) (display s)"
      using pl(2) that(2,3) by (simp add: D2)
    have "vga_frame (\<lambda>a. fb_window a \<or> in_region a ib 12) s2 (fb_print_lstr ib (of_nat (length t)) fg bg (s2\<lparr>mem := m'\<rparr>))"
      by (rule pl(3)) (use that(2,3) in auto)
    then have "vga_frame ?W s2 (fb_print_lstr ib (of_nat (length t)) fg bg (s2\<lparr>mem := m'\<rparr>))"
      by (rule vga_frame_mono) (use W in blast)
    with f2 show "vga_frame ?W s (fb_print_lstr ib (of_nat (length t)) fg bg (s2\<lparr>mem := m'\<rparr>))"
      by (rule vga_frame_trans)
  qed
  define o' :: u32 where "o' = of_nat (length pre)"
  define c :: u32 where "c = of_nat (length pre + length (fmt_bytes f) - 1)"
  have step: "fb_print_hint img str o' c args i fg bg s =
     (if f = Dec then do { v \<leftarrow> nth_arg args i; l \<leftarrow> strlen (int_to_str m1 v ib) ib;
         Some (fb_print_lstr ib l fg bg (s2\<lparr>mem := int_to_str m1 v ib\<rparr>)) }
      else if f = Newline then Some (fb_move_cursor_to_start_of_row (fb_offset_cursor 80 s2))
      else if f = Hex then do { v \<leftarrow> nth_arg args i; l \<leftarrow> strlen (int_to_hex m1 v ib) ib;
         Some (fb_print_lstr ib l fg bg (s2\<lparr>mem := int_to_hex m1 v ib\<rparr>)) }
      else do { l \<leftarrow> strlen (mem (fb_print_cell 0x3F fg bg s2)) th;
         Some (fb_print_lstr th l fg bg (fb_print_cell 0x3F fg bg s2)) })"
    unfolding fb_print_hint_def th_def [symmetric] ib_def [symmetric] Let_def
    by (simp add: sl(1,2) [folded o'_def c_def] sl(6-8) s2_def)
  note step' = step hint_done_def
  have "\<exists>s'. fb_print_hint img str o' c args i fg bg s = Some s'
    \<and> hint_done img bs (if i < length args then args ! i else 0) fg bg f s s'"
  proof (cases f)
    case (Chr c)
    then show ?thesis using assms(4) by simp
  next
    case Dec
    have "cstr_at (int_to_str m1 v ib) ib (int_text v)" "\<And>a. \<not> in_region a ib 12 \<Longrightarrow> int_to_str m1 v ib a = m1 a" for v
      by (rule int_to_str_spec)+
    note p = int [OF this(1) int_text_length this(2)]
    show ?thesis using arg Dec p by (simp add: step' del: of_nat_add)
  next
    case Hex
    have "cstr_at (int_to_hex m1 v ib) ib (hex_nibbles v 8)" for v by (rule int_to_hex_spec)
    moreover have "\<And>a. \<not> in_region a ib 12 \<Longrightarrow> int_to_hex m1 v ib a = m1 a" for v
      by (rule int_to_hex_spec(3)) (auto dest: in_region_mono [of _ _ 9 12])
    ultimately have p: "strlen (int_to_hex m1 v ib) ib = Some (of_nat 8)"
      "display (fb_print_lstr ib (of_nat 8) fg bg (s2\<lparr>mem := int_to_hex m1 v ib\<rparr>)) = print_text (hex_nibbles v 8) (fb_attr fg bg) (display s)"
      "vga_frame ?W s (fb_print_lstr ib (of_nat 8) fg bg (s2\<lparr>mem := int_to_hex m1 v ib\<rparr>))" for v
      using int [of "int_to_hex m1 v ib" "hex_nibbles v 8"] by (auto simp: length_hex_nibbles)
    show ?thesis using arg Hex p by (simp add: step' del: of_nat_add)
  next
    case Newline
    have "vga_frame ?W s2 (fb_move_cursor_to_start_of_row (fb_offset_cursor 80 s2))"
      by (rule vga_frame_mono [OF fb_newline_spec(2) [OF on2]]) (rule W(1))
    then have "vga_frame ?W s (fb_move_cursor_to_start_of_row (fb_offset_cursor 80 s2))"
      by (rule vga_frame_trans [OF f2])
    then show ?thesis using Newline fb_newline_spec(1) [OF on2] by (simp add: step' D2 del: of_nat_add)
  next
    case (Other t)
    let ?s3 = "fb_print_cell 0x3F fg bg s2"
    have c2: "0 \<le> sint (cursor_pos s2)" "nat (sint (cursor_pos s2)) < 16384"
      using on2 by (simp_all add: on_screen_def display_def nat_less_iff)
    note 3 = fb_print_cell_spec [OF c2, of "0x3F" fg bg]
    have k3: "mem ?s3 a = m1 a" if "in_region a th (Suc (length bs))" for a
      using vga_frameD [OF 3(2)] off_screenD [OF lay(1) that] by (simp add: mem2)
    have lenf: "length (fmt_bytes f) \<le> length bs" using assms(2) by simp
    have c3: "cstr_at (mem ?s3) th (fmt_bytes f)"
      by (rule cstr_at_cong [OF sl(3)], rule k3, erule in_region_mono) (use lenf assms(5) in auto)
    have on3: "on_screen (display ?s3)" unfolding 3(1) by simp
    have l3: "length (fmt_bytes f) \<le> 14000" "Suc (length (fmt_bytes f)) \<le> Suc (length bs)"
      using lenf assms(5) by simp_all
    note p = fb_print_local [OF on3 l3(1) c3 lay(1) l3(2) refl]
    have "vga_frame ?W s ?s3"
      by (rule vga_frame_trans [OF f2 vga_frame_mono [OF 3(2)]]) (rule W(1))
    moreover have "vga_frame ?W ?s3 (fb_print_lstr th (of_nat (length (fmt_bytes f))) fg bg ?s3)"
    proof (rule vga_frame_mono)
      show "vga_frame (\<lambda>a. fb_window a \<or> in_region a th (Suc (length bs))) ?s3
          (fb_print_lstr th (of_nat (length (fmt_bytes f))) fg bg ?s3)" using p(3) by simp
    qed (use W in blast)
    ultimately have "vga_frame ?W s (fb_print_lstr th (of_nat (length (fmt_bytes f))) fg bg ?s3)"
      by (rule vga_frame_trans)
    moreover have "display (fb_print_lstr th (of_nat (length (fmt_bytes f))) fg bg ?s3)
        = print_text (fmt_bytes f) (fb_attr fg bg) (print_text [0x3F] (fb_attr fg bg) (display s))"
      using p(2) by (simp add: 3(1) D2)
    moreover have "\<exists>s'. fb_print_hint img str o' c args i fg bg s = Some s'
        \<and> s' = fb_print_lstr th (of_nat (length (fmt_bytes f))) fg bg ?s3"
      using p(1) Other by (simp add: step' del: of_nat_add)
    ultimately show ?thesis using Other by (auto simp: hint_done_def)
  qed
  then show ?thesis unfolding o'_def c_def .
qed


section \<open>The whole format\<close>

lemma fb_fprint_loop_spec:
  assumes "fprint_ready img (mem s) str bs" and "bs = pre @ format_bytes fs" and "\<forall>f \<in> set fs. fmt_ok f"
    and "length bs \<le> 14000" and "on_screen (display s)" and "args_ok fs args i"
  shows "\<exists>s'. fb_fprint_loop img str args fg bg (of_nat (length pre)) i s = Some s'
    \<and> display s' = show_format fs args i (fb_attr fg bg) (display s)
    \<and> vga_frame (fprint_writes img (length bs)) s s'"
  using assms
proof (induction fs arbitrary: pre i s)
  case Nil
  then have "mem s (str + of_nat (length pre)) = 0"
    by (auto simp: fprint_ready_def format_bytes_def dest: cstr_at_end)
  then show ?case by (subst fb_fprint_loop.simps) (auto simp: Let_def)
next
  case (Cons f fs)
  have cb: "cstr_at (mem s) str bs" using Cons.prems(1) by (simp add: fprint_ready_def)
  have bs: "bs = (pre @ fmt_bytes f) @ format_bytes fs" and bs': "bs = pre @ fmt_bytes f @ format_bytes fs"
    using Cons.prems(2) by (simp_all add: format_bytes_def)
  have nth: "mem s (str + of_nat (length pre + j)) = fmt_bytes f ! j" if "j < length (fmt_bytes f)" for j
    using cstr_at_nth [OF cb, of "length pre + j"] that by (simp add: bs nth_append del: of_nat_add)
  have rest: "\<exists>s'. fb_fprint_loop img str args fg bg (of_nat (length (pre @ fmt_bytes f))) i' s1 = Some s'
      \<and> display s' = show_format fs args i' (fb_attr fg bg) (display s1) \<and> vga_frame (fprint_writes img (length bs)) s s'"
    if f1: "vga_frame (fprint_writes img (length bs)) s s1" and "on_screen (display s1)" "args_ok fs args i'" for s1 i'
  proof -
    have "fprint_ready img (mem s1) str bs"
      using Cons.prems(4) by (intro fprint_ready_frame [OF Cons.prems(1) vga_frameD [OF f1]]) auto
    from Cons.IH [OF this bs _ Cons.prems(4) that(2,3)] Cons.prems(3) f1 show ?thesis
      using vga_frame_trans by (metis list.set_intros(2))
  qed
  show ?case
  proof (cases "is_hint f")
    case True
    obtain t where t: "fmt_bytes f = [0x7B, 0x25] @ t @ [0x7D]" "0x7D \<notin> set t"
      using fmt_bytes_hint [OF True] Cons.prems(3) by auto
    define c where "c = length pre + length (fmt_bytes f) - 1"
    have L: "length (fmt_bytes f) = length t + 3" "Suc c = length (pre @ fmt_bytes f)" by (simp_all add: t c_def)
    have ch: "mem s (str + of_nat (length pre)) = 0x7B" "mem s (str + (of_nat (length pre) + 1)) = 0x25"
      using nth [of 0] nth [of 1] by (simp_all add: t add.commute)
    have close: "find_close (mem s) str (of_nat (length pre)) = Some (of_nat c)"
    proof (rule find_close_found)
      show "length pre \<le> c" using L by simp
      show "mem s (str + of_nat c) = 0x7D"
        using nth [of "length t + 2"] L by (simp add: c_def t nth_append)
      show "mem s (str + of_nat j) \<noteq> 0x7D" if j: "length pre \<le> j" "j < c" for j
      proof -
        obtain d where d: "j = length pre + d" using j(1) le_Suc_ex by blast
        then have "d < length t + 2" using j(2) L by (simp add: c_def)
        then have "fmt_bytes f ! d \<in> set ([0x7B, 0x25] @ t)"
          using nth_mem [of d "[0x7B, 0x25] @ t"] unfolding t(1) append.assoc [symmetric]
          by (subst nth_append) (simp del: append.simps)
        then show ?thesis using nth [of d] t(2) \<open>d < length t + 2\<close> L(1) unfolding d by auto
      qed
    qed
    from fb_print_hint_spec [OF Cons.prems(1) bs' _ True Cons.prems(4,5), of i args fg bg] Cons.prems(3,6)
    obtain s1 where s1: "fb_print_hint img str (of_nat (length pre)) (of_nat c) args i fg bg s = Some s1"
      and h: "hint_done img bs (if i < length args then args ! i else 0) fg bg f s s1"
      unfolding c_def by auto
    have "fb_fprint_loop img str args fg bg (of_nat (length pre)) i s = fb_fprint_loop img str args fg bg (of_nat c + 1) (Suc i) s1"
      using ch close s1 by (subst fb_fprint_loop.simps) (simp add: Let_def)
    also have "of_nat c + 1 = (of_nat (length (pre @ fmt_bytes f)) :: u32)"
      unfolding L(2) [symmetric] by simp
    finally show ?thesis
      using rest [of s1 "Suc i"] h True Cons.prems(6) by (simp add: hint_done_def)
  next
    case False
    then obtain c where c: "f = Chr c" by (cases f) auto
    have nz: "c \<noteq> 0" "c \<noteq> 0x7B" using Cons.prems(3) c by auto
    have ch: "mem s (str + of_nat (length pre)) = c" using nth [of 0] by (simp add: c)
    have c2: "0 \<le> sint (cursor_pos s)" "nat (sint (cursor_pos s)) < 16384"
      using Cons.prems(5) by (simp_all add: on_screen_def display_def nat_less_iff)
    note p = fb_print_cell_spec [OF c2, of c fg bg]
    have f1: "vga_frame (fprint_writes img (length bs)) s (fb_print_cell c fg bg s)"
      by (rule vga_frame_mono [OF p(2)]) (simp add: fprint_writes_def)
    have "fb_fprint_loop img str args fg bg (of_nat (length pre)) i s
        = fb_fprint_loop img str args fg bg (of_nat (length (pre @ fmt_bytes f))) i (fb_print_cell c fg bg s)"
      using ch nz by (subst fb_fprint_loop.simps) (simp add: Let_def c add.commute)
    then show ?thesis
      using rest [OF f1, of i] Cons.prems(6) by (simp add: c p(1))
  qed
qed

lemma fb_fprint_str_spec:
  assumes "fprint_ready img (mem s) str (format_bytes fs)" and "\<forall>f \<in> set fs. fmt_ok f"
    and "length (format_bytes fs) \<le> 14000" and "on_screen (display s)" and "args_ok fs args 0"
  obtains s' where "fb_fprint_str img str args fg bg s = Some s'"
    and "display s' = show_format fs args 0 (fb_attr fg bg) (display s)"
    and "vga_frame (fprint_writes img (length (format_bytes fs))) s s'"
  using fb_fprint_loop_spec [of img s str "format_bytes fs" "[]" fs args 0 fg bg] assms
  by (auto simp: fb_fprint_str_def)

end
