(* ===== verification/Vga_Props.thy ===== *)
theory Vga_Props
  imports Vga_Fprint
begin

text \<open>
  The display operations as an interface for the rest of the kernel, and the properties of src/vga.c.
\<close>

section \<open>Display operations as an interface\<close>

text \<open>
  What the rest of the kernel relies on when it calls into src/vga.c: the operation writes to
  addresses in \<open>W\<close> only and leaves the cursor on the screen.
\<close>

locale screen_op =
  fixes f :: "'a vga_scheme \<Rightarrow> 'a vga_scheme" and W :: "u32 \<Rightarrow> bool"
  assumes op_frame: "vga_frame W s (f s)"
    and op_on_screen: "on_screen (display s) \<Longrightarrow> on_screen (display (f s))"
begin

lemma op_mem: "\<not> W a \<Longrightarrow> mem (f s) a = mem s a"
  by (rule vga_frameD [OF op_frame])

lemma op_more: "vga.more (f s) = vga.more s"
  using op_frame [of s] by (auto simp: vga_frame_def)

lemma op_iterate: "vga_frame W s ((f ^^ n) s)"
  by (induction n) (auto intro: vga_frame_trans op_frame)

lemma op_iterate_on_screen: "on_screen (display s) \<Longrightarrow> on_screen (display ((f ^^ n) s))"
  by (induction n) (auto intro: op_on_screen)

lemma op_for_n: "vga_frame W s (for_n a n (\<lambda>_. f) s)"
  by (rule for_n_inv [where P = "vga_frame W s"]) (auto intro: vga_frame_trans op_frame)

end

text \<open>Two operations in sequence are one.\<close>

locale screen_op_pair = fst_op: screen_op f W + snd_op: screen_op g W
  for f g :: "'a vga_scheme \<Rightarrow> 'a vga_scheme" and W :: "u32 \<Rightarrow> bool"

sublocale screen_op_pair \<subseteq> seq: screen_op "\<lambda>s. g (f s)" W
proof unfold_locales
  show "vga_frame W s (g (f s))" for s
    by (rule vga_frame_trans [OF fst_op.op_frame snd_op.op_frame])
  show "on_screen (display s) \<Longrightarrow> on_screen (display (g (f s)))" for s
    by (intro snd_op.op_on_screen fst_op.op_on_screen)
qed

lemma display_mem_frame: "mem_frame W s s' \<Longrightarrow> on_screen (display s) \<Longrightarrow> on_screen (display s')"
  by (auto simp: mem_frame_def on_screen_def display_def)

lemma on_screen_offset: "on_screen (display (fb_offset_cursor offset s))"
  by (simp add: on_screen_def display_def fb_offset_cursor_range)

interpretation clear: screen_op "fb_clear fg bg" fb_window for fg bg
  by unfold_locales (auto intro: mem_frame_vga fb_clear_frame display_mem_frame)

interpretation scroll: screen_op fb_scroll fb_window
  by unfold_locales (auto intro: mem_frame_vga fb_scroll_frame display_mem_frame)

interpretation shift: screen_op "fb_shift_down r" fb_window for r
  by unfold_locales (auto intro: mem_frame_vga fb_shift_down_frame display_mem_frame)

interpretation offset: screen_op "fb_offset_cursor d" fb_window for d
  by unfold_locales (auto intro: fb_offset_cursor_frame on_screen_offset)

interpretation clear_offset: screen_op_pair "fb_clear fg bg" "fb_offset_cursor d" fb_window for fg bg d
  by unfold_locales

section \<open>Properties\<close>

text \<open>\<open>fb_clear\<close> makes every cell of the visible screen a blank in the given colours and changes
  nothing else, in memory or on the ports.\<close>

theorem fb_clear_correct:
  "screen (fb_clear fg bg s) = (\<lambda>j. if j < 2000 then (0x20, fb_attr fg bg) else screen s j)
   \<and> mem_frame fb_window s (fb_clear fg bg s)"
  by (simp add: fb_clear_screen fb_clear_frame)

text \<open>\<open>fb_scroll\<close> moves every character and attribute up one row and blanks the last row, except
  that the attribute of the very first cell stays.\<close>

theorem fb_scroll_refines:
  "screen (fb_scroll s) = scroll_screen (screen s) \<and> mem_frame fb_window s (fb_scroll s)"
  by (simp add: fb_scroll_screen fb_scroll_frame)

text \<open>\<open>fb_shift_down\<close> does not move rows down faithfully: from the second row on, the first column
  gets the characters of two rows above, and one character is written past the screen.\<close>

theorem fb_shift_down_smears:
  assumes "r \<le> 24"
  shows "fst (screen (fb_shift_down (int r) s) k) =
    fst (screen s (if 80 * r + 80 \<le> k \<and> k < 2080 then
                     if k mod 80 = 0 \<and> 80 * r + 160 \<le> k then k - 160 else k - 80
                   else if k = 2080 then 1920 else k))"
proof -
  have "fb_shift_down (int r) s = fb_shift_down_loop (int 24) (int r) s"
    using assms by (simp add: fb_shift_down_def fb_shift_down_loop.simps [of 25] fb_copy_row_def)
  then show ?thesis using assms by (simp only:) (subst shift_down_loop_chars, auto)
qed

definition demo_state :: vga where
  "demo_state = \<lparr>mem = (\<lambda>a. ucast a), trace = [], cursor_pos = 1990\<rparr>"

lemma fb_shift_down_smears_witness:
  "fst (screen (fb_shift_down 0 demo_state) 160) = 0 \<and> fst (screen (fb_shift_down 0 demo_state) 161) = 0xA2"
  using fb_shift_down_smears [of 0 demo_state 160] fb_shift_down_smears [of 0 demo_state 161]
  by (simp add: screen_def char_addr_def demo_state_def)

text \<open>C26: whatever the offset and wherever the cursor was, \<open>fb_offset_cursor\<close> leaves it between 0 and
  2000, in the global and in the registers of the display controller; 2000 is one past the screen.\<close>

theorem fb_offset_cursor_in_range:
  "0 \<le> sint (cursor_pos (fb_offset_cursor offset s)) \<and> sint (cursor_pos (fb_offset_cursor offset s)) \<le> 2000
   \<and> hw_cursor (trace (fb_offset_cursor offset s)) = cursor_pos (fb_offset_cursor offset s)"
proof -
  have "hw_cursor (trace (fb_offset_cursor offset s)) = cursor_pos (fb_offset_cursor offset s)"
    unfolding fb_offset_cursor_def Let_def by (simp add: fb_send_cursor_hw)
  then show ?thesis by (simp add: fb_offset_cursor_range)
qed

text \<open>C28: moving the cursor by an offset scrolls one row for each row it goes beyond the last cell, and
  brings it back by whole rows, without scrolling, when it goes below 0.\<close>

theorem fb_offset_cursor_refines:
  assumes "- 32768 \<le> sint (cursor_pos s) + sint offset" and "sint (cursor_pos s) + sint offset < 32768"
  shows "display (fb_offset_cursor offset s) = advance (sint offset) (display s)
    \<and> vga_frame fb_window s (fb_offset_cursor offset s)"
  using fb_offset_cursor_spec [OF refl assms] by (simp add: display_def advance_def)

lemma fb_offset_cursor_refines_witness:
  "snd (display (fb_offset_cursor 80 demo_state)) = 1990"
  using fb_offset_cursor_refines [of demo_state 80]
  by (simp add: display_def advance_def wrap_cursor_def scrolls_def demo_state_def)

text \<open>A character printed when the cursor stands one past the screen is lost: the visible screen
  is only scrolled, and the next character goes to the second column.\<close>

theorem fb_print_cell_past_screen:
  "fst (display (fb_print_cell c fg bg (s\<lparr>cursor_pos := 2000\<rparr>)))
     = scroll_screen ((screen s)(2000 := (c, fb_attr fg bg)))
   \<and> (\<forall>k. scroll_screen ((screen s)(2000 := (c, fb_attr fg bg))) k
        = (if k = 2000 then (c, fb_attr fg bg) else scroll_screen (screen s) k))
   \<and> snd (display (fb_print_cell c fg bg (s\<lparr>cursor_pos := 2000\<rparr>))) = 1921"
proof -
  have "display (fb_print_cell c fg bg (s\<lparr>cursor_pos := 2000\<rparr>)) =
      print_text [c] (fb_attr fg bg) (display (s\<lparr>cursor_pos := 2000\<rparr>))"
    by (rule fb_print_cell_spec) simp_all
  moreover have "put_text 2000 [c] (fb_attr fg bg) (screen s) = (screen s)(2000 := (c, fb_attr fg bg))"
    by (auto simp: put_text_def fun_eq_iff)
  ultimately show ?thesis
    by (simp add: display_def print_text_def advance_def scrolls_def wrap_cursor_def scroll_screen_def)
qed

text \<open>C29: \<open>fb_print_str\<close> returns, puts the characters of the string at the cursor, advances the cursor
  by their number (scrolling as needed) and writes nowhere but to the display.\<close>

theorem fb_print_str_refines:
  assumes "on_screen (display s)" and "length bs \<le> 14000"
    and "cstr_at (mem s) str bs" and "off_screen str (Suc (length bs))"
  shows "\<exists>s'. fb_print_str str fg bg s = Some s' \<and> display s' = print_text bs (fb_attr fg bg) (display s)
    \<and> vga_frame fb_window s s'"
proof -
  have "0 \<le> sint (cursor_pos s)" "nat (sint (cursor_pos s)) + length bs \<le> 16384"
    using assms(1,2) by (auto simp: on_screen_def display_def)
  then show ?thesis using fb_print_str_spec [of s bs str fg bg] assms(3,4) by metis
qed

lemma fb_print_str_refines_witness:
  "\<exists>s'. fb_print_str 0x1000 7 0 \<lparr>mem = write_bytes (\<lambda>_. 0) 0x1000 (bytes_of ''ok''), trace = [], cursor_pos = 5\<rparr> = Some s'
     \<and> snd (display s') = 7 \<and> fst (fst (display s') 6) = 0x6B"
  using fb_print_str_refines [of "\<lparr>mem = write_bytes (\<lambda>_. 0) 0x1000 (bytes_of ''ok''), trace = [], cursor_pos = 5\<rparr>"
      "bytes_of ''ok''" "0x1000" 7 0]
  by (auto simp: display_def on_screen_def bytes_of_def off_screen_def disjoint_regions_def in_region_def
      print_text_def advance_def put_text_def scrolls_def wrap_cursor_def)

text \<open>C27: \<open>fb_fprint_str\<close> returns and prints what its format stands for: characters as they are,
  \<open>{%d}\<close> and \<open>{%h}\<close> the corresponding argument in decimal and hexadecimal, the newline hint a move to
  the start of the next row, any other hint itself behind a question mark; it writes only to the
  display and its local arrays, \<open>typeHint\<close> counted with one byte more than it declares.\<close>

theorem fb_fprint_str_refines:
  assumes "fprint_ready img (mem s) str (format_bytes fs)" and "\<forall>f \<in> set fs. fmt_ok f"
    and "length (format_bytes fs) \<le> 14000" and "on_screen (display s)" and "args_ok fs args 0"
  shows "\<exists>s'. fb_fprint_str img str args fg bg s = Some s'
    \<and> display s' = show_format fs args 0 (fb_attr fg bg) (display s)
    \<and> vga_frame (fprint_writes img (length (format_bytes fs))) s s'"
  using fb_fprint_str_spec [OF assms] by metis

definition demo_image :: image where
  "demo_image = \<lparr>lit_addr = (\<lambda>l. if l = hint_d then 0x2000 else if l = hint_n then 0x2010 else if l = hint_h then 0x2020 else 0x3000),
     sym_addr = (\<lambda>x. 0x6000),
     local_addr = (\<lambda>x. if x = ''typeHint'' then 0x4000 else 0x5000)\<rparr>"

definition demo_format :: "fmt list" where
  "demo_format = [Chr 0x6E, Chr 0x3D, Dec, Newline]"

definition demo_memory :: memory where
  "demo_memory = write_bytes (write_bytes (write_bytes (write_bytes (\<lambda>_. 0) 0x2000 (bytes_of hint_d)) 0x2010 (bytes_of hint_n))
     0x2020 (bytes_of hint_h)) 0x1000 (format_bytes demo_format)"

lemma fb_fprint_str_refines_witness:
  "\<exists>s'. fb_fprint_str demo_image 0x1000 [- 12] 7 0 \<lparr>mem = demo_memory, trace = [], cursor_pos = 5\<rparr> = Some s'
     \<and> display s' = newline (print_text (bytes_of ''-12'') 0x70 (print_text (bytes_of ''='') 0x70
         (print_text (bytes_of ''n'') 0x70 (display \<lparr>mem = demo_memory, trace = [], cursor_pos = 5\<rparr>))))"
proof -
  have t: "int_text (- 12) = bytes_of ''-12''"
    by (simp add: int_text_def decimal_def dec_digits.simps bytes_of_def)
  have r: "fprint_ready demo_image demo_memory 0x1000 (format_bytes demo_format)"
    by (simp add: fprint_ready_def fprint_layout_def literals_loaded_def off_screen_def disjoint_regions_def
        in_region_def demo_image_def demo_memory_def demo_format_def format_bytes_def hint_d_def hint_n_def
        hint_h_def bytes_of_def)
  show ?thesis
    using fb_fprint_str_refines [of demo_image "\<lparr>mem = demo_memory, trace = [], cursor_pos = 5\<rparr>" "0x1000" demo_format "[- 12]" 7 0] r
    by (auto simp: demo_format_def format_bytes_def on_screen_def display_def t fb_attr_def
        hint_d_def hint_n_def bytes_of_def)
qed

end
