(* ===== verification/Serial.thy ===== *)
theory Serial
  imports Vga_Props
begin

text \<open>
  The serial port of src/serial.c, the debug output of src/log.c on top of it, and the routines that
  put a message on the display and stay there (\<open>PANIC\<close> of src/common.c, the two informing functions
  at the end of src/vga.c). The status a poll reads comes from the device argument.
\<close>

section \<open>The serial port\<close>

record serial = vga +
  serial_open :: u8

abbreviation SERIAL_COM1_BASE :: u16 where "SERIAL_COM1_BASE \<equiv> 0x3F8"

definition serial_configure_baud_rate :: "u16 \<Rightarrow> u16 \<Rightarrow> 'a machine_scheme \<Rightarrow> 'a machine_scheme" where
  "serial_configure_baud_rate com divisor s =
     (let s1 = outb (com + 3) 0x80 s;
          s2 = outb com (ucast (drop_bit 8 divisor AND 0x00FF)) s1
      in outb com (ucast (divisor AND 0x00FF)) s2)"

definition serial_configure_line :: "u16 \<Rightarrow> 'a machine_scheme \<Rightarrow> 'a machine_scheme" where
  "serial_configure_line com s = outb (com + 3) 0x03 s"

definition serial_configure_buffers :: "u16 \<Rightarrow> 'a machine_scheme \<Rightarrow> 'a machine_scheme" where
  "serial_configure_buffers com s = outb (com + 2) 0xC7 s"

definition serial_configure_modem :: "u16 \<Rightarrow> 'a serial_scheme \<Rightarrow> 'a serial_scheme" where
  "serial_configure_modem com s = (outb (com + 4) 0x03 s)\<lparr>serial_open := 1\<rparr>"

definition serial_is_transmit_fifo_empty ::
  "device \<Rightarrow> u32 \<Rightarrow> 'a machine_scheme \<Rightarrow> u32 \<times> 'a machine_scheme" where
  "serial_is_transmit_fifo_empty dev com s =
     (let (v, s1) = inb dev (lo16 (com + 5)) s in (ucast v AND 0x20, s1))"

text \<open>The polling loop returns only if the port reports an empty queue at some time.\<close>

partial_function (option) serial_wait ::
  "device \<Rightarrow> u32 \<Rightarrow> 'a machine_scheme \<Rightarrow> 'a machine_scheme option" where
  "serial_wait dev com s =
     (let (r, s1) = serial_is_transmit_fifo_empty dev com s
      in if r = 0 then serial_wait dev com s1 else Some s1)"

partial_function (option) serial_write_loop ::
  "device \<Rightarrow> u16 \<Rightarrow> u32 \<Rightarrow> u32 \<Rightarrow> u32 \<Rightarrow> 'a machine_scheme \<Rightarrow> 'a machine_scheme option" where
  "serial_write_loop dev com c i length' s =
     (if i < length' - 1
      then do {
        s1 \<leftarrow> serial_wait dev (ucast com) s;
        serial_write_loop dev com c (i + 1) length' (outb com (mem s1 (c + i)) s1)
      }
      else Some s)"

definition serial_write ::
  "device \<Rightarrow> u16 \<Rightarrow> u32 \<Rightarrow> u32 \<Rightarrow> 'a serial_scheme \<Rightarrow> 'a serial_scheme option" where
  "serial_write dev com c length' s =
     (if serial_open s \<noteq> 0 then serial_write_loop dev com c 0 length' s else Some s)"

section \<open>Debug output\<close>

text \<open>
  The static arrays of src/log.c: \<open>_debug\<close> has nine elements, the text and its NUL, and
  \<open>CHAR_NEW_LINE\<close> is one \<open>char\<close>.
\<close>

definition debug_text :: "u8 list" where
  "debug_text = bytes_of ''[DEBUG] ''"

definition print_debug :: "image \<Rightarrow> device \<Rightarrow> u32 \<Rightarrow> u32 \<Rightarrow> 'a serial_scheme \<Rightarrow> 'a serial_scheme option" where
  "print_debug img dev str length' s =
     do {
       s1 \<leftarrow> serial_write dev SERIAL_COM1_BASE (sym_addr img ''_debug'') 9 s;
       s2 \<leftarrow> serial_write dev SERIAL_COM1_BASE str (length' + 1) s1;
       serial_write dev SERIAL_COM1_BASE (sym_addr img ''CHAR_NEW_LINE'') (1 + 1) s2
     }"

definition print_debug_str :: "image \<Rightarrow> device \<Rightarrow> u32 \<Rightarrow> 'a serial_scheme \<Rightarrow> 'a serial_scheme option" where
  "print_debug_str img dev str s =
     do {
       s1 \<leftarrow> serial_write dev SERIAL_COM1_BASE (sym_addr img ''_debug'') 9 s;
       l \<leftarrow> strlen (mem s1) str;
       s2 \<leftarrow> serial_write dev SERIAL_COM1_BASE str (l + 1) s1;
       serial_write dev SERIAL_COM1_BASE (sym_addr img ''CHAR_NEW_LINE'') (1 + 1) s2
     }"

definition print_debug_dec :: "image \<Rightarrow> device \<Rightarrow> u32 \<Rightarrow> 'a serial_scheme \<Rightarrow> 'a serial_scheme option" where
  "print_debug_dec img dev i s =
     do {
       s1 \<leftarrow> serial_write dev SERIAL_COM1_BASE (sym_addr img ''_debug'') 9 s;
       let buffer = local_addr img ''buffer'';
       let s2 = s1\<lparr>mem := int_to_str (mem s1) i buffer\<rparr>;
       l \<leftarrow> strlen (mem s2) buffer;
       s3 \<leftarrow> serial_write dev SERIAL_COM1_BASE buffer l s2;
       serial_write dev SERIAL_COM1_BASE (sym_addr img ''CHAR_NEW_LINE'') (1 + 1) s3
     }"

text \<open>A loop without effect; its counter runs to \<open>999999 * i\<close>.\<close>

definition delay :: "u32 \<Rightarrow> 's \<Rightarrow> 's" where
  "delay i s = for_n 0 (nat (sint (999999 * i))) (\<lambda>j s. s) s"

lemma delay_eq [simp]: "delay i s = s"
  unfolding delay_def by (rule for_n_inv) auto

section \<open>Messages and panic\<close>

text \<open>\<open>FB_COLOR_BLACK\<close> is 0.\<close>

abbreviation FB_COLOR_RED :: u8 where "FB_COLOR_RED \<equiv> 4"

definition fb_inform_isr_done :: "image \<Rightarrow> 'a vga_scheme \<Rightarrow> 'a vga_scheme option" where
  "fb_inform_isr_done img s =
     do {
       s1 \<leftarrow> fb_print_str (lit_addr img ''ISR loading has completed.'') 0 1
              (fb_move_cursor 0 (fb_clear 1 1 s));
       Some (delay 9 s1)
     }"

definition fb_inform_irq_done :: "image \<Rightarrow> 'a vga_scheme \<Rightarrow> 'a vga_scheme option" where
  "fb_inform_irq_done img s =
     do {
       s1 \<leftarrow> fb_print_str (lit_addr img ''IRQ loading has completed.'') 0 1
              (fb_move_cursor_col_row 0 1 s);
       Some (delay 9 s1)
     }"

text \<open>
  \<open>PANIC\<close> ends in \<open>while(1)\<close>: the state it is in from then on is the value \<open>Spins\<close>. The statement
  \<open>if(!col) col = 0\<close> changes nothing.
\<close>

datatype 's outcome = Returns 's | Spins 's

definition PANIC :: "u32 \<Rightarrow> 'a vga_scheme \<Rightarrow> 'a vga_scheme outcome option" where
  "PANIC str s =
     do {
       let s1 = fb_clear 0 0 s;
       let s2 = fb_clear FB_COLOR_RED FB_COLOR_RED s1;
       l \<leftarrow> strlen (mem s2) str;
       let col = c_div 80 2 - c_div (l + 1) 2;
       let col = (if col = 0 then 0 else col);
       let s3 = fb_move_cursor_col_row (lo16 col) (lo16 (c_div 25 2)) s2;
       s4 \<leftarrow> fb_print_str str FB_COLOR_RED 0 s3;
       Some (Spins s4)
     }"

section \<open>What reaches the wire\<close>

text \<open>The bytes sent to a data port, oldest first.\<close>

fun sent_to :: "u16 \<Rightarrow> io_event list \<Rightarrow> u8 list" where
  "sent_to p [] = []"
| "sent_to p (Out q v # t) = sent_to p t @ (if q = p then [v] else [])"
| "sent_to p (In q v # t) = sent_to p t"

text \<open>Every byte sent to the port follows a status read that reported an empty queue.\<close>

fun paced :: "u16 \<Rightarrow> io_event list \<Rightarrow> bool" where
  "paced p (Out q v # t) \<longleftrightarrow>
     (q = p \<longrightarrow> (case t of In q' r # t' \<Rightarrow> q' = p + 5 \<and> r AND 0x20 \<noteq> 0 | _ \<Rightarrow> False)) \<and> paced p t"
| "paced p (In q v # t) \<longleftrightarrow> paced p t"
| "paced p [] \<longleftrightarrow> True"

text \<open>A port that, polled long enough, reports an empty queue.\<close>

definition poll :: "device \<Rightarrow> u16 \<Rightarrow> io_event list \<Rightarrow> io_event list" where
  "poll dev p t = In p (dev t p) # t"

definition drains :: "device \<Rightarrow> u16 \<Rightarrow> bool" where
  "drains dev com \<longleftrightarrow> (\<forall>t. \<exists>n. dev ((poll dev (com + 5) ^^ n) t) (com + 5) AND 0x20 \<noteq> 0)"

definition trace_frame :: "'a machine_scheme \<Rightarrow> 'a machine_scheme \<Rightarrow> bool" where
  "trace_frame s s' \<longleftrightarrow> (\<exists>t. s' = s\<lparr>trace := t\<rparr>)"

lemma trace_frame_refl [simp, intro]: "trace_frame s s"
  unfolding trace_frame_def by (rule exI [of _ "trace s"]) simp

lemma trace_frame_trans [trans]: "trace_frame s s1 \<Longrightarrow> trace_frame s1 s2 \<Longrightarrow> trace_frame s s2"
  unfolding trace_frame_def by auto

lemma trace_frame_mem: "trace_frame s s' \<Longrightarrow> mem s' = mem s"
  unfolding trace_frame_def by auto

lemma trace_frame_outb: "trace_frame s (outb p v s)"
  unfolding trace_frame_def outb_def by blast

lemma line_status_port: "lo16 (ucast com + 5) = com + 5"
proof -
  have "lo16 (ucast com) = com" unfolding lo16_def by transfer simp
  then show ?thesis by (simp add: lo16_add) (simp add: lo16_def)
qed

lemma status_bit: "(ucast v AND 0x20 :: u32) = 0 \<longleftrightarrow> v AND 0x20 = (0 :: u8)"
proof -
  have "(ucast v AND 0x20 :: u32) = ucast (v AND 0x20)" by (simp add: unsigned_and_eq)
  also have "\<dots> = 0 \<longleftrightarrow> v AND 0x20 = (0 :: u8)" by transfer simp
  finally show ?thesis .
qed

lemma serial_wait_ready:
  assumes "dev ((poll dev (com + 5) ^^ n) (trace s)) (com + 5) AND 0x20 \<noteq> 0"
  shows "\<exists>s' r t. serial_wait dev (ucast com) s = Some s' \<and> trace_frame s s' \<and> trace s' = In (com + 5) r # t
    \<and> r AND 0x20 \<noteq> 0 \<and> sent_to com t = sent_to com (trace s) \<and> (paced com (trace s) \<longrightarrow> paced com t)"
  using assms
proof (induction n arbitrary: s)
  case 0
  then show ?case
    by (subst serial_wait.simps)
      (auto simp: serial_is_transmit_fifo_empty_def inb_def Let_def line_status_port status_bit trace_frame_def)
next
  case (Suc n)
  let ?v = "dev (trace s) (com + 5)"
  let ?s1 = "s\<lparr>trace := In (com + 5) ?v # trace s\<rparr>"
  show ?case
  proof (cases "?v AND 0x20 = 0")
    case False
    then show ?thesis
      by (subst serial_wait.simps)
        (auto simp: serial_is_transmit_fifo_empty_def inb_def Let_def line_status_port status_bit trace_frame_def)
  next
    case True
    have eq: "serial_wait dev (ucast com) s = serial_wait dev (ucast com) ?s1"
      using True by (subst serial_wait.simps)
        (simp add: serial_is_transmit_fifo_empty_def inb_def Let_def line_status_port status_bit)
    have "dev ((poll dev (com + 5) ^^ n) (trace ?s1)) (com + 5) AND 0x20 \<noteq> 0"
      using Suc.prems by (simp only: funpow_Suc_right comp_apply poll_def [of _ _ "trace s"]) simp
    from Suc.IH [OF this] show ?thesis
      unfolding eq by (auto simp: trace_frame_def)
  qed
qed

text \<open>\<open>serial_write\<close> for \<open>n\<close> characters is the call with length \<open>n + 1\<close>.\<close>

lemma serial_write_loop_spec:
  assumes "drains dev com" and "n < 4294967296" and "i \<le> n"
  shows "\<exists>s'. serial_write_loop dev com c (of_nat i) (of_nat n + 1) s = Some s' \<and> trace_frame s s'
    \<and> sent_to com (trace s') = sent_to com (trace s) @ read_bytes (mem s) (c + of_nat i) (n - i)
    \<and> (paced com (trace s) \<longrightarrow> paced com (trace s'))"
  using assms(3)
proof (induction "n - i" arbitrary: i s)
  case 0
  then show ?case by (subst serial_write_loop.simps) auto
next
  case (Suc d)
  then have i: "i < n" by simp
  have lt: "of_nat i < (of_nat n + 1 - 1 :: u32)"
    using i assms(2) by (simp add: word_less_nat_alt unat_of_nat_u32)
  obtain k where k: "dev ((poll dev (com + 5) ^^ k) (trace s)) (com + 5) AND 0x20 \<noteq> 0"
    using assms(1) unfolding drains_def by blast
  from serial_wait_ready [where dev = dev and com = com and s = s, OF this] obtain s1 r t where s1: "serial_wait dev (ucast com) s = Some s1" "trace_frame s s1"
    "trace s1 = In (com + 5) r # t" "r AND 0x20 \<noteq> 0" "sent_to com t = sent_to com (trace s)"
    "paced com (trace s) \<longrightarrow> paced com t" by blast
  let ?s2 = "outb com (mem s1 (c + of_nat i)) s1"
  have eq: "serial_write_loop dev com c (of_nat i) (of_nat n + 1) s
      = serial_write_loop dev com c (of_nat (Suc i)) (of_nat n + 1) ?s2"
    using lt s1(1) by (subst serial_write_loop.simps) (simp add: add.commute)
  have "d = n - Suc i" "Suc i \<le> n" using Suc.hyps(2) i by auto
  from Suc.hyps(1) [OF this, of ?s2] obtain s' where s': "serial_write_loop dev com c (of_nat (Suc i)) (of_nat n + 1) ?s2 = Some s'"
    "trace_frame ?s2 s'" "sent_to com (trace s') = sent_to com (trace ?s2) @ read_bytes (mem ?s2) (c + of_nat (Suc i)) (n - Suc i)"
    "paced com (trace ?s2) \<longrightarrow> paced com (trace s')" by blast
  have m: "mem s1 = mem s" by (rule trace_frame_mem [OF s1(2)])
  have "n - i = Suc (n - Suc i)" using i by simp
  then have rd: "read_bytes (mem s) (c + of_nat i) (n - i) = mem s (c + of_nat i) # read_bytes (mem s) (c + of_nat (Suc i)) (n - Suc i)"
    by (simp add: add.assoc add.commute [of 1])
  have "trace_frame s s'"
    by (rule trace_frame_trans [OF trace_frame_trans [OF s1(2) trace_frame_outb] s'(2)])
  moreover have "sent_to com (trace s') = sent_to com (trace s) @ read_bytes (mem s) (c + of_nat i) (n - i)"
    using s'(3) unfolding rd by (simp add: s1 m)
  moreover have "paced com (trace s) \<longrightarrow> paced com (trace s')"
    using s1 s'(4) by simp
  ultimately show ?case using s'(1) unfolding eq by blast
qed


lemma serial_write_spec:
  assumes "drains dev com" and "n < 4294967296" and "serial_open s \<noteq> 0"
  obtains s' where "serial_write dev com c (of_nat n + 1) s = Some s'" and "trace_frame s s'"
    and "sent_to com (trace s') = sent_to com (trace s) @ read_bytes (mem s) c n"
    and "paced com (trace s) \<longrightarrow> paced com (trace s')" and "serial_open s' \<noteq> 0"
proof -
  obtain s' where s': "serial_write_loop dev com c 0 (of_nat n + 1) s = Some s'" "trace_frame s s'"
    "sent_to com (trace s') = sent_to com (trace s) @ read_bytes (mem s) c n"
    "paced com (trace s) \<longrightarrow> paced com (trace s')"
    using serial_write_loop_spec [OF assms(1,2), of 0 c s] by auto
  moreover have "serial_open s' = serial_open s" using s'(2) by (auto simp: trace_frame_def)
  ultimately show ?thesis using that assms(3) by (simp add: serial_write_def)
qed

text \<open>The static data of src/log.c in memory.\<close>

definition log_data :: "image \<Rightarrow> memory \<Rightarrow> bool" where
  "log_data img m \<longleftrightarrow> read_bytes m (sym_addr img ''_debug'') 8 = debug_text \<and> m (sym_addr img ''CHAR_NEW_LINE'') = 0x0A"

text \<open>The three writes the debug functions share.\<close>

lemma debug_writes:
  assumes "drains dev SERIAL_COM1_BASE" and "serial_open s \<noteq> 0" and "log_data img (mem s)" and "n < 4294967296"
  obtains s1 s2 s3 where "serial_write dev SERIAL_COM1_BASE (sym_addr img ''_debug'') 9 s = Some s1"
    and "mem s1 = mem s"
    and "serial_write dev SERIAL_COM1_BASE str (of_nat n + 1) s1 = Some s2"
    and "serial_write dev SERIAL_COM1_BASE (sym_addr img ''CHAR_NEW_LINE'') (1 + 1) s2 = Some s3"
    and "trace_frame s s3"
    and "sent_to SERIAL_COM1_BASE (trace s3) =
      sent_to SERIAL_COM1_BASE (trace s) @ debug_text @ read_bytes (mem s) str n @ [0x0A]"
    and "paced SERIAL_COM1_BASE (trace s) \<longrightarrow> paced SERIAL_COM1_BASE (trace s3)"
proof -
  obtain s1 where s1: "serial_write dev SERIAL_COM1_BASE (sym_addr img ''_debug'') (of_nat 8 + 1) s = Some s1"
    "trace_frame s s1" "sent_to SERIAL_COM1_BASE (trace s1) = sent_to SERIAL_COM1_BASE (trace s) @ read_bytes (mem s) (sym_addr img ''_debug'') 8"
    "paced SERIAL_COM1_BASE (trace s) \<longrightarrow> paced SERIAL_COM1_BASE (trace s1)" "serial_open s1 \<noteq> 0"
    by (rule serial_write_spec [where n = 8 and c = "sym_addr img ''_debug''", OF assms(1) _ assms(2)]) auto
  obtain s2 where s2: "serial_write dev SERIAL_COM1_BASE str (of_nat n + 1) s1 = Some s2"
    "trace_frame s1 s2" "sent_to SERIAL_COM1_BASE (trace s2) = sent_to SERIAL_COM1_BASE (trace s1) @ read_bytes (mem s1) str n"
    "paced SERIAL_COM1_BASE (trace s1) \<longrightarrow> paced SERIAL_COM1_BASE (trace s2)" "serial_open s2 \<noteq> 0"
    by (rule serial_write_spec [where c = str, OF assms(1,4) s1(5)]) auto
  obtain s3 where s3: "serial_write dev SERIAL_COM1_BASE (sym_addr img ''CHAR_NEW_LINE'') (of_nat 1 + 1) s2 = Some s3"
    "trace_frame s2 s3" "sent_to SERIAL_COM1_BASE (trace s3) = sent_to SERIAL_COM1_BASE (trace s2) @ read_bytes (mem s2) (sym_addr img ''CHAR_NEW_LINE'') 1"
    "paced SERIAL_COM1_BASE (trace s2) \<longrightarrow> paced SERIAL_COM1_BASE (trace s3)" "serial_open s3 \<noteq> 0"
    by (rule serial_write_spec [where n = 1 and c = "sym_addr img ''CHAR_NEW_LINE''", OF assms(1) _ s2(5)]) auto
  have m: "mem s1 = mem s" "mem s2 = mem s"
    using trace_frame_mem [OF s1(2)] trace_frame_mem [OF s2(2)] by simp_all
  show ?thesis
  proof (rule that)
    show "serial_write dev SERIAL_COM1_BASE (sym_addr img ''_debug'') 9 s = Some s1" using s1(1) by simp
    show "serial_write dev SERIAL_COM1_BASE (sym_addr img ''CHAR_NEW_LINE'') (1 + 1) s2 = Some s3" using s3(1) by simp
    show "trace_frame s s3" by (rule trace_frame_trans [OF trace_frame_trans [OF s1(2) s2(2)] s3(2)])
    show "sent_to SERIAL_COM1_BASE (trace s3) =
        sent_to SERIAL_COM1_BASE (trace s) @ debug_text @ read_bytes (mem s) str n @ [0x0A]"
      using assms(3) by (simp add: s1(3) s2(3) s3(3) m log_data_def)
    show "paced SERIAL_COM1_BASE (trace s) \<longrightarrow> paced SERIAL_COM1_BASE (trace s3)"
      using s1(4) s2(4) s3(4) by blast
  qed (use m s2 in simp_all)
qed

section \<open>Properties\<close>

text \<open>C39: on a port that keeps draining, \<open>serial_write\<close> with an argument \<open>length\<close> returns after sending the
  first \<open>length - 1\<close> bytes at the given address, so one byte less than the length that its comment asks for,
  each after a status read that reported an empty queue, and changes nothing else. For length 0 the bound
  wraps around and 4294967295 bytes are sent.\<close>

theorem serial_write_transmits:
  assumes "drains dev com" and "serial_open s \<noteq> 0"
  shows "\<exists>s'. serial_write dev com c length' s = Some s' \<and> trace_frame s s'
    \<and> sent_to com (trace s') = sent_to com (trace s) @ read_bytes (mem s) c (unat (length' - 1))
    \<and> (paced com (trace s) \<longrightarrow> paced com (trace s'))"
proof -
  have "unat (length' - 1) < 4294967296" by (rule unat_u32_less)
  from serial_write_spec [OF assms(1) this assms(2), of c] show ?thesis by auto
qed

lemma read_bytes_numeral:
  "read_bytes m p (numeral k) = m p # read_bytes m (p + 1) (pred_numeral k)"
  by (simp add: numeral_eq_Suc)

definition ready_device :: device where
  "ready_device = (\<lambda>t p. if p = SERIAL_COM1_BASE + 5 then 0x60 else 0)"

lemma ready_device_drains: "drains ready_device SERIAL_COM1_BASE"
  unfolding drains_def ready_device_def by (intro allI exI [of _ 0]) simp

definition demo_serial :: serial where
  "demo_serial = \<lparr>mem = write_bytes (write_bytes (write_bytes (\<lambda>_. 0) 0x1000 (bytes_of ''hi''))
       0x2000 debug_text) 0x3000 [0x0A], trace = [], cursor_pos = 0, serial_open = 1\<rparr>"

definition demo_log_image :: image where
  "demo_log_image = \<lparr>lit_addr = (\<lambda>_. 0x5000),
     sym_addr = (\<lambda>x. if x = ''_debug'' then 0x2000 else 0x3000), local_addr = (\<lambda>_. 0x4000)\<rparr>"

lemma serial_write_transmits_witness:
  "\<exists>s'. serial_write ready_device SERIAL_COM1_BASE 0x1000 3 demo_serial = Some s'
    \<and> sent_to SERIAL_COM1_BASE (trace s') = bytes_of ''hi'' \<and> paced SERIAL_COM1_BASE (trace s')"
  using serial_write_transmits [OF ready_device_drains, of demo_serial "0x1000" 3]
  by (auto simp: demo_serial_def bytes_of_def debug_text_def read_bytes_numeral)

text \<open>\<open>print_debug_str\<close> sends the prefix, the string and a newline.\<close>

theorem print_debug_str_transmits:
  assumes "drains dev SERIAL_COM1_BASE" and "serial_open s \<noteq> 0" and "log_data img (mem s)"
    and "cstr_at (mem s) str bs" and "length bs < 4294967296"
  shows "\<exists>s'. print_debug_str img dev str s = Some s' \<and> trace_frame s s'
    \<and> sent_to SERIAL_COM1_BASE (trace s') = sent_to SERIAL_COM1_BASE (trace s) @ debug_text @ bs @ [0x0A]"
proof -
  obtain s1 s2 s3 where s: "serial_write dev SERIAL_COM1_BASE (sym_addr img ''_debug'') 9 s = Some s1"
    "mem s1 = mem s" "serial_write dev SERIAL_COM1_BASE str (of_nat (length bs) + 1) s1 = Some s2"
    "serial_write dev SERIAL_COM1_BASE (sym_addr img ''CHAR_NEW_LINE'') (1 + 1) s2 = Some s3" "trace_frame s s3"
    "sent_to SERIAL_COM1_BASE (trace s3) =
      sent_to SERIAL_COM1_BASE (trace s) @ debug_text @ read_bytes (mem s) str (length bs) @ [0x0A]"
    by (rule debug_writes [OF assms(1-3,5)])
  have "strlen (mem s1) str = Some (of_nat (length bs))" using assms(4) by (simp add: s(2) strlen_cstr)
  then have "print_debug_str img dev str s = Some s3"
    using s(1,3,4) by (simp add: print_debug_str_def)
  moreover have "read_bytes (mem s) str (length bs) = bs" using assms(4) by (simp add: cstr_at_iff)
  ultimately show ?thesis using s(5,6) by simp
qed

lemma print_debug_str_transmits_witness:
  "\<exists>s'. print_debug_str demo_log_image ready_device 0x1000 demo_serial = Some s'
    \<and> sent_to SERIAL_COM1_BASE (trace s') = bytes_of ''[DEBUG] hi'' @ [0x0A]"
  using print_debug_str_transmits [OF ready_device_drains, of demo_serial demo_log_image "0x1000" "bytes_of ''hi''"]
  by (auto simp: demo_serial_def bytes_of_def debug_text_def log_data_def demo_log_image_def read_bytes_numeral)

text \<open>\<open>print_debug_dec\<close> loses the last character of the number: it passes the length of the text
  where \<open>serial_write\<close> expects one more. The buffer must be apart from the static data.\<close>

theorem print_debug_dec_drops_last_digit:
  assumes "drains dev SERIAL_COM1_BASE" and "serial_open s \<noteq> 0" and "log_data img (mem s)"
    and "\<not> in_region (sym_addr img ''CHAR_NEW_LINE'') (local_addr img ''buffer'') 12"
  shows "\<exists>s'. print_debug_dec img dev i s = Some s'
    \<and> sent_to SERIAL_COM1_BASE (trace s') =
        sent_to SERIAL_COM1_BASE (trace s) @ debug_text @ butlast (int_text i) @ [0x0A]"
proof -
  let ?b = "local_addr img ''buffer''" and ?com = SERIAL_COM1_BASE
  obtain s1 where s1: "serial_write dev ?com (sym_addr img ''_debug'') (of_nat 8 + 1) s = Some s1"
    "trace_frame s s1" "sent_to ?com (trace s1) = sent_to ?com (trace s) @ read_bytes (mem s) (sym_addr img ''_debug'') 8"
    "serial_open s1 \<noteq> 0"
    by (rule serial_write_spec [where n = 8 and c = "sym_addr img ''_debug''", OF assms(1) _ assms(2)]) auto
  have m1: "mem s1 = mem s" by (rule trace_frame_mem [OF s1(2)])
  define s2 where "s2 = s1\<lparr>mem := int_to_str (mem s1) i ?b\<rparr>"
  have c: "cstr_at (mem s2) ?b (int_text i)" by (simp add: s2_def int_to_str_spec)
  have ne: "int_text i \<noteq> []"
    by (simp add: int_text_def decimal_def bytes_of_def dec_digits.simps)
  define n where "n = length (int_text i) - 1"
  have n: "Suc n = length (int_text i)" using ne by (simp add: n_def)
  then have sn: "(of_nat (length (int_text i)) :: u32) = of_nat n + 1" by (metis add.commute of_nat_Suc)
  have "n < 4294967296" "serial_open s2 \<noteq> 0" using int_text_length [of i] n s1(4) by (simp_all add: s2_def)
  from serial_write_spec [OF assms(1) this] obtain s3 where s3: "serial_write dev ?com ?b (of_nat n + 1) s2 = Some s3"
    "trace_frame s2 s3" "sent_to ?com (trace s3) = sent_to ?com (trace s2) @ read_bytes (mem s2) ?b n" "serial_open s3 \<noteq> 0"
    by metis
  obtain s4 where s4: "serial_write dev ?com (sym_addr img ''CHAR_NEW_LINE'') (of_nat 1 + 1) s3 = Some s4"
    "sent_to ?com (trace s4) = sent_to ?com (trace s3) @ read_bytes (mem s3) (sym_addr img ''CHAR_NEW_LINE'') 1"
    by (rule serial_write_spec [where n = 1 and c = "sym_addr img ''CHAR_NEW_LINE''", OF assms(1) _ s3(4)]) auto
  have nl: "mem s3 (sym_addr img ''CHAR_NEW_LINE'') = 0x0A"
    using assms(3,4) trace_frame_mem [OF s3(2)] m1 by (simp add: s2_def int_to_str_spec(2) log_data_def)
  have "read_bytes (mem s2) ?b (length (int_text i)) = int_text i" using c by (simp add: cstr_at_iff)
  then have "read_bytes (mem s2) ?b n = butlast (int_text i)"
    unfolding n [symmetric] read_bytes_snoc by (metis butlast_snoc)
  moreover have "strlen (int_to_str (mem s1) i ?b) ?b = Some (of_nat (length (int_text i)))"
    using strlen_cstr [OF c] by (simp add: s2_def)
  then have "print_debug_dec img dev i s = Some s4"
    using s1(1) s3(1) s4(1) unfolding sn [symmetric] s2_def by (simp add: print_debug_dec_def Let_def)
  moreover have "trace s2 = trace s1" by (simp add: s2_def)
  moreover have "sent_to ?com (trace s1) = sent_to ?com (trace s) @ debug_text"
    using assms(3) by (simp only: s1(3) log_data_def)
  ultimately show ?thesis
    by (simp add: s3(3) s4(2) nl)
qed

lemma print_debug_dec_drops_last_digit_witness:
  "\<exists>s'. print_debug_dec demo_log_image ready_device 120 demo_serial = Some s'
    \<and> sent_to SERIAL_COM1_BASE (trace s') = bytes_of ''[DEBUG] 12'' @ [0x0A]"
proof -
  have "int_text 120 = bytes_of ''120''"
    by (simp add: int_text_def decimal_def dec_digits.simps bytes_of_def)
  then show ?thesis
    using print_debug_dec_drops_last_digit [OF ready_device_drains, of demo_serial demo_log_image 120]
    by (auto simp: demo_serial_def bytes_of_def debug_text_def log_data_def demo_log_image_def in_region_def read_bytes_numeral)
qed

end
