(* ===== verification/Messages.thy ===== *)
theory Messages
  imports Serial
begin

text \<open>
  What \<open>PANIC\<close> and the two informing functions of src/vga.c leave on the display.
\<close>

section \<open>Panic\<close>

lemma lo16_of_nat: "lo16 (of_nat n) = of_nat n"
proof -
  have "of_nat n = (word_of_int (int n) :: u32)" "of_nat n = (word_of_int (int n) :: u16)" by simp_all
  then show ?thesis unfolding lo16_def by (simp only:) (transfer, simp)
qed

lemma lo16_ucast: "lo16 (ucast c) = c"
  unfolding lo16_def by transfer simp

lemma sint_of_nat_u16: "n < 32768 \<Longrightarrow> sint (of_nat n :: u16) = int n"
  by (simp add: signed_of_nat signed_take_bit_int_eq_self)

lemma fb_row_column_to_index_lo16:
  "fb_row_column_to_index (ucast (lo16 x)) (ucast (lo16 y)) = lo16 (y * 80 + x)"
proof -
  have "lo16 (a * 80) = lo16 a * 80" for a :: u32
  proof -
    have "lo16 (a * of_nat n) = lo16 a * of_nat n" for n
      by (induction n) (simp_all add: lo16_0 distrib_left lo16_add)
    from this [of 80] show ?thesis by simp
  qed
  then show ?thesis by (simp add: fb_row_column_to_index_def lo16_add lo16_ucast)
qed

lemma panic_column:
  assumes "n \<le> 1998"
  shows "lo16 (c_div 25 2 * 80 + (c_div 80 2 - c_div (of_nat n + 1) 2)) = of_nat (1000 - (n + 1) div 2)"
proof -
  have "int (n + 1) sdiv 2 = int ((n + 1) div 2)"
    by (simp add: signed_divide_int_def sgn_if zdiv_int)
  moreover have "sint (of_nat n + 1 :: u32) = int (n + 1)"
    using assms sint_of_nat_u32 [of "n + 1"] by (simp add: add.commute)
  ultimately have "c_div (of_nat n + 1) 2 = of_nat ((n + 1) div 2)"
    by (simp add: c_div_def del: of_nat_add)
  moreover have "c_div 25 2 = 12" "c_div 80 2 = 40"
    by (simp_all add: c_div_def)
  ultimately have "c_div 25 2 * 80 + (c_div 80 2 - c_div (of_nat n + 1) 2) = (1000 - of_nat ((n + 1) div 2) :: u32)"
    by simp
  also have "\<dots> = of_nat (1000 - (n + 1) div 2)"
    using assms by (subst of_nat_diff) auto
  finally show ?thesis by (simp only: lo16_of_nat)
qed

definition blank_screen :: "u8 \<Rightarrow> screen \<Rightarrow> screen" where
  "blank_screen attr S = (\<lambda>j. if j < 2000 then (0x20, attr) else S j)"

lemma fb_clear_blank: "screen (fb_clear fg bg s) = blank_screen (fb_attr fg bg) (screen s)"
  by (simp add: fb_clear_screen blank_screen_def)

lemma fb_move_cursor_col_row_spec:
  "display (fb_move_cursor_col_row (lo16 x) (lo16 y) s) = (screen s, sint (lo16 (y * 80 + x)))"
  "vga_frame P s (fb_move_cursor_col_row (lo16 x) (lo16 y) s)"
  unfolding fb_move_cursor_col_row_def fb_row_column_to_index_lo16
  by (simp_all add: display_def vga_frame_trans [OF set_cursor_frame fb_send_cursor_frame])

lemma PANIC_spec:
  assumes "cstr_at (mem s) str bs" and "length bs \<le> 1998" and "off_screen str (Suc (length bs))"
  obtains s' where "PANIC str s = Some (Spins s')" and "vga_frame fb_window s s'"
    and "display s' = print_text bs (fb_attr 4 0)
      (blank_screen (fb_attr 4 4) (screen s), int (1000 - (length bs + 1) div 2))"
proof -
  define s2 where "s2 = fb_clear 4 4 (fb_clear 0 0 s)"
  define s3 where "s3 = fb_move_cursor_col_row (lo16 (c_div 80 2 - c_div (of_nat (length bs) + 1) 2)) (lo16 (c_div 25 2)) s2"
  have f2: "vga_frame fb_window s s2"
    unfolding s2_def by (rule vga_frame_trans [OF clear.op_frame clear.op_frame])
  have sc2: "screen s2 = blank_screen (fb_attr 4 4) (screen s)"
    by (auto simp: s2_def fb_clear_blank blank_screen_def)
  have D3: "display s3 = (blank_screen (fb_attr 4 4) (screen s), int (1000 - (length bs + 1) div 2))"
    unfolding s3_def fb_move_cursor_col_row_spec sc2 panic_column [OF assms(2)]
    by (subst sint_of_nat_u16) auto
  have f3: "vga_frame fb_window s s3"
    unfolding s3_def by (rule vga_frame_trans [OF f2 fb_move_cursor_col_row_spec(2)])
  have k: "cstr_at m str bs" if "\<And>a. \<not> fb_window a \<Longrightarrow> m a = mem s a" for m
    using that off_screenD [OF assms(3)] assms(2) by (intro cstr_at_cong [OF assms(1)]) auto
  have c2: "cstr_at (mem s2) str bs" and c3: "cstr_at (mem s3) str bs"
    using k vga_frameD [OF f2] vga_frameD [OF f3] by blast+
  have "0 \<le> sint (cursor_pos s3)" "nat (sint (cursor_pos s3)) + length bs \<le> 16384"
    using D3 assms(2) by (auto simp: display_def)
  from fb_print_str_spec [OF this c3 assms(3)] obtain s4 where s4: "fb_print_str str 4 0 s3 = Some s4"
    "display s4 = print_text bs (fb_attr 4 0) (display s3)" "vga_frame fb_window s3 s4" by metis
  have z: "(if c = 0 then 0 else c) = c" for c :: u32 by simp
  have "PANIC str s = Some (Spins s4)"
    using strlen_cstr [OF c2] s4(1) unfolding PANIC_def Let_def s2_def [symmetric] z
    by (simp add: s3_def)
  then show ?thesis using that s4(2,3) D3 vga_frame_trans [OF f3] by simp
qed

text \<open>\<open>PANIC\<close> turns the screen red, prints the message centred in row 12 (cell 1000 is its
  middle) and stays in that state.\<close>

theorem PANIC_shows_message:
  assumes "cstr_at (mem s) str bs" and "length bs \<le> 1998" and "off_screen str (Suc (length bs))"
  shows "\<exists>s'. PANIC str s = Some (Spins s') \<and> vga_frame fb_window s s'
    \<and> display s' = print_text bs (fb_attr 4 0)
        (blank_screen (fb_attr 4 4) (screen s), int (1000 - (length bs + 1) div 2))"
  using PANIC_spec [OF assms] by metis

lemma PANIC_shows_message_witness:
  "\<exists>s'. PANIC 0x1000 demo_serial = Some (Spins s') \<and> fst (display s') 999 = (0x68, fb_attr 4 0)
     \<and> fst (display s') 1000 = (0x69, fb_attr 4 0) \<and> fst (display s') 0 = (0x20, fb_attr 4 4)"
  using PANIC_shows_message [of demo_serial "0x1000" "bytes_of ''hi''"]
  by (auto simp: demo_serial_def bytes_of_def debug_text_def off_screen_def disjoint_regions_def in_region_def
      print_text_def advance_def scrolls_def put_text_def blank_screen_def)

section \<open>Informing about progress\<close>

lemma fb_inform_spec:
  assumes "cstr_at (mem s) (lit_addr img msg) (bytes_of msg)" and "length msg \<le> 100"
    and "off_screen (lit_addr img msg) (Suc (length msg))" and f: "vga_frame fb_window s s1" and on: "on_screen (display s1)"
  obtains s' where "fb_print_str (lit_addr img msg) 0 1 s1 = Some s'" and "vga_frame fb_window s s'"
    and "display s' = print_text (bytes_of msg) 1 (display s1)"
proof -
  have "cstr_at (mem s1) (lit_addr img msg) (bytes_of msg)"
    using vga_frameD [OF f] off_screenD [OF assms(3)] assms(2) by (intro cstr_at_cong [OF assms(1)]) auto
  moreover have "0 \<le> sint (cursor_pos s1)" "nat (sint (cursor_pos s1)) + length (bytes_of msg) \<le> 16384"
    using on assms(2) by (auto simp: on_screen_def display_def)
  moreover have "off_screen (lit_addr img msg) (Suc (length (bytes_of msg)))" using assms(3) by simp
  ultimately show ?thesis
    using that vga_frame_trans [OF f] by (elim fb_print_str_spec [of s1 "bytes_of msg" _ 0 1]) (auto simp: fb_attr_def)
qed

lemma fb_inform_isr_done_spec:
  assumes "cstr_at (mem s) (lit_addr img ''ISR loading has completed.'') (bytes_of ''ISR loading has completed.'')"
    and "off_screen (lit_addr img ''ISR loading has completed.'') 27"
  shows "\<exists>s'. fb_inform_isr_done img s = Some s' \<and> vga_frame fb_window s s'
    \<and> display s' = print_text (bytes_of ''ISR loading has completed.'') 1 (blank_screen 0x11 (screen s), 0)"
proof -
  let ?s1 = "fb_move_cursor 0 (fb_clear 1 1 s)"
  have f: "vga_frame fb_window s ?s1"
    by (rule vga_frame_trans [OF clear.op_frame fb_move_cursor_frame])
  have D: "display ?s1 = (blank_screen 0x11 (screen s), 0)"
    by (simp add: display_def fb_clear_blank fb_attr_def)
  show ?thesis
    by (rule fb_inform_spec [OF assms(1) _ _ f]) (use assms(2) D in \<open>auto simp: fb_inform_isr_done_def on_screen_def eval_nat_numeral\<close>)
qed

lemma fb_inform_irq_done_spec:
  assumes "cstr_at (mem s) (lit_addr img ''IRQ loading has completed.'') (bytes_of ''IRQ loading has completed.'')"
    and "off_screen (lit_addr img ''IRQ loading has completed.'') 27"
  shows "\<exists>s'. fb_inform_irq_done img s = Some s' \<and> vga_frame fb_window s s'
    \<and> display s' = print_text (bytes_of ''IRQ loading has completed.'') 1 (screen s, 80)"
proof -
  let ?s1 = "fb_move_cursor_col_row 0 1 s"
  have one: "?s1 = fb_move_cursor_col_row (lo16 0) (lo16 1) s" by (simp add: lo16_def)
  have f: "vga_frame fb_window s ?s1" unfolding one by (rule fb_move_cursor_col_row_spec)
  have D: "display ?s1 = (screen s, 80)"
    unfolding one fb_move_cursor_col_row_spec by (simp add: lo16_def)
  show ?thesis
    by (rule fb_inform_spec [OF assms(1) _ _ f]) (use assms(2) D in \<open>auto simp: fb_inform_irq_done_def on_screen_def eval_nat_numeral\<close>)
qed

end
