(* ===== verification/Kmemory.thy ===== *)
theory Kmemory
  imports Messages
begin

text \<open>
  The placement allocator of src/kmemory.c, the interface its users rely on, and the proof that the
  allocator provides it as long as the address space is not exhausted.
\<close>

section \<open>The placement allocator\<close>

record kmem = serial +
  placement_address :: u32

definition store32 :: "u32 \<Rightarrow> u32 \<Rightarrow> memory \<Rightarrow> memory" where
  "store32 p v m =
     write_bytes m p [ucast v, ucast (drop_bit 8 v), ucast (drop_bit 16 v), ucast (drop_bit 24 v)]"

definition kmalloc_int :: "u32 \<Rightarrow> u32 \<Rightarrow> u32 \<Rightarrow> 'a kmem_scheme \<Rightarrow> u32 \<times> 'a kmem_scheme" where
  "kmalloc_int sz align phys s =
     (let s1 = (if align = 1 \<and> placement_address s AND 0x00000FFF \<noteq> 0
                then s\<lparr>placement_address := (placement_address s AND 0xFFFFF000) + 0x1000\<rparr>
                else s);
          s2 = (if phys \<noteq> 0 then s1\<lparr>mem := store32 phys (placement_address s1) (mem s1)\<rparr> else s1);
          tmp = placement_address s2
      in (tmp, s2\<lparr>placement_address := placement_address s2 + sz\<rparr>))"

definition kmalloc_a :: "u32 \<Rightarrow> 'a kmem_scheme \<Rightarrow> u32 \<times> 'a kmem_scheme" where
  "kmalloc_a sz = kmalloc_int sz 1 0"

definition kmalloc_p :: "u32 \<Rightarrow> u32 \<Rightarrow> 'a kmem_scheme \<Rightarrow> u32 \<times> 'a kmem_scheme" where
  "kmalloc_p sz phys = kmalloc_int sz 0 phys"

definition kmalloc_ap :: "u32 \<Rightarrow> u32 \<Rightarrow> 'a kmem_scheme \<Rightarrow> u32 \<times> 'a kmem_scheme" where
  "kmalloc_ap sz phys = kmalloc_int sz 1 phys"

definition kmalloc :: "u32 \<Rightarrow> 'a kmem_scheme \<Rightarrow> u32 \<times> 'a kmem_scheme" where
  "kmalloc sz = kmalloc_int sz 0 0"

section \<open>Allocation as an interface\<close>

text \<open>
  What a user of an allocator relies on, for requests of type \<open>'r\<close>: a request of \<open>need r\<close> bytes that
  fits below \<open>limit\<close> gets a block between the old and the new top. The top rises by at most
  \<open>need r + slack r\<close>.
\<close>

locale allocator =
  fixes alloc :: "'r \<Rightarrow> 's \<Rightarrow> u32 \<times> 's" and top :: "'s \<Rightarrow> nat"
    and need :: "'r \<Rightarrow> nat" and slack :: "'r \<Rightarrow> nat" and limit :: nat
  assumes alloc_block: "top s + slack r + need r < limit \<Longrightarrow> alloc r s = (p, s') \<Longrightarrow>
      top s \<le> unat p \<and> unat p + need r = top s' \<and> top s' \<le> top s + slack r + need r"
begin

fun allocs :: "'r list \<Rightarrow> 's \<Rightarrow> (u32 \<times> nat) list \<times> 's" where
  "allocs [] s = ([], s)"
| "allocs (r # rs) s =
     (let (p, s1) = alloc r s; (bs, s2) = allocs rs s1 in ((p, need r) # bs, s2))"

definition total :: "'r list \<Rightarrow> nat" where
  "total rs = sum_list (map (\<lambda>r. slack r + need r) rs)"

lemma allocs_above:
  "top s + total rs < limit \<Longrightarrow> allocs rs s = (bs, s') \<Longrightarrow>
   top s \<le> top s' \<and> top s' \<le> top s + total rs \<and> (\<forall>(p, n) \<in> set bs. top s \<le> unat p \<and> unat p + n \<le> top s')"
proof (induction rs arbitrary: s bs)
  case Nil
  then show ?case by (auto simp: total_def)
next
  case (Cons r rs)
  obtain p s1 where 1: "alloc r s = (p, s1)" by fastforce
  obtain bs1 where 2: "allocs rs s1 = (bs1, s')" and bs: "bs = (p, need r) # bs1"
    using Cons.prems(2) 1 by (auto split: prod.splits)
  have fit: "top s + slack r + need r < limit" using Cons.prems(1) by (simp add: total_def)
  note b = alloc_block [OF fit 1]
  have "top s1 + total rs < limit" using b Cons.prems(1) by (simp add: total_def)
  note rest = Cons.IH [OF this 2]
  have t: "total (r # rs) = slack r + need r + total rs" by (simp add: total_def)
  have "top s \<le> top s1" "top s1 \<le> top s + slack r + need r" using b by auto
  with rest b show ?case
    unfolding bs t by (auto split: prod.splits intro: order_trans)
qed

lemma allocs_ordered:
  "top s + total rs < limit \<Longrightarrow> allocs rs s = (bs, s') \<Longrightarrow>
   sorted_wrt (\<lambda>(p, n) (q, k). unat p + n \<le> unat q) bs"
proof (induction rs arbitrary: s bs)
  case Nil
  then show ?case by simp
next
  case (Cons r rs)
  obtain p s1 where 1: "alloc r s = (p, s1)" by fastforce
  obtain bs1 where 2: "allocs rs s1 = (bs1, s')" and bs: "bs = (p, need r) # bs1"
    using Cons.prems(2) 1 by (auto split: prod.splits)
  have fit: "top s + slack r + need r < limit" using Cons.prems(1) by (simp add: total_def)
  note b = alloc_block [OF fit 1]
  have "top s1 + total rs < limit" using b Cons.prems(1) by (simp add: total_def)
  then show ?case
    using Cons.IH [OF _ 2] allocs_above [OF _ 2] b unfolding bs by fastforce
qed

lemma allocs_disjoint:
  assumes "top s + total rs < limit" and "limit \<le> 4294967296" and "allocs rs s = (bs, s')"
    and "i < j" and "j < length bs" and "bs ! i = (p, n)" and "bs ! j = (q, k)"
  shows "disjoint_regions p n q k"
proof (rule disjoint_regionsI)
  have le: "unat p + n \<le> unat q"
    using sorted_wrt_nth_less [OF allocs_ordered [OF assms(1,3)] assms(4,5)] assms(6,7) by simp
  have top: "unat q + k < 4294967296"
    using allocs_above [OF assms(1,3)] nth_mem [OF assms(5)] assms(1,2,7) by fastforce
  fix a assume "in_region a p n"
  then obtain x where x: "x < n" "a = p + of_nat x" by (rule in_regionE)
  have ap: "unat a = unat p + x"
    using x le top by (simp add: unat_word_ariths unat_of_nat_u32)
  show "\<not> in_region a q k"
  proof
    assume "in_region a q k"
    then obtain y where y: "y < k" "a = q + of_nat y" by (rule in_regionE)
    then have "unat a = unat q + y" using top by (simp add: unat_word_ariths unat_of_nat_u32)
    then show False using ap x(1) le by simp
  qed
qed

end

text \<open>One request: size, alignment flag, and where to store the physical address.\<close>

record request =
  req_size :: u32
  req_align :: u32
  req_phys :: u32

lemma align_up:
  assumes "x AND 0xFFF \<noteq> (0 :: u32)" and "unat x + 4095 < 4294967296"
  shows "unat ((x AND 0xFFFFF000) + 0x1000) = unat x + (4096 - unat x mod 4096)"
    and "((x AND 0xFFFFF000) + 0x1000) AND 0xFFF = 0"
proof -
  have m: "(0xFFF :: u32) = mask 12" "(0xFFFFF000 :: u32) = NOT (mask 12)"
    by (simp_all add: mask_eq_exp_minus_1)
  have lo: "unat (x AND mask 12) = unat x mod 4096"
    unfolding take_bit_eq_mask [symmetric] by (simp add: unsigned_take_bit_eq take_bit_nat_def)
  have "(x AND mask 12) AND (x AND NOT (mask 12)) = 0" "(x AND mask 12) OR (x AND NOT (mask 12)) = x"
    by (rule bit_word_eqI; auto simp: bit_simps)+
  then have "x = (x AND mask 12) + (x AND NOT (mask 12))"
    using word_plus_and_or [of "x AND mask 12" "x AND NOT (mask 12)"] by simp
  then have "x AND NOT (mask 12) = x - (x AND mask 12)" by (metis add_diff_cancel_left')
  moreover have "unat (x - (x AND mask 12)) = unat x - unat x mod 4096"
    unfolding lo [symmetric] by (rule unat_sub) (rule word_and_le2)
  ultimately have hi: "unat (x AND NOT (mask 12)) = unat x - unat x mod 4096" by simp
  have nz: "unat x mod 4096 \<noteq> 0"
    using assms(1) unfolding m lo [symmetric] by (simp add: unat_eq_0)
  have le: "unat x mod 4096 \<le> unat x" by simp
  have "unat ((x AND NOT (mask 12)) + 0x1000) = unat x - unat x mod 4096 + 4096"
    using assms(2) nz le by (simp add: unat_word_ariths hi)
  then show u: "unat ((x AND 0xFFFFF000) + 0x1000) = unat x + (4096 - unat x mod 4096)"
    unfolding m using le mod_less_divisor [of 4096 "unat x"] by simp
  have "unat x + (4096 - unat x mod 4096) = 4096 * (unat x div 4096 + 1)"
  proof -
    have lt: "unat x mod 4096 < 4096" by simp
    then show ?thesis unfolding distrib_left using mult_div_mod_eq [of 4096 "unat x"] by linarith
  qed
  then have "unat (((x AND 0xFFFFF000) + 0x1000) AND mask 12) = 0"
    unfolding take_bit_eq_mask [symmetric] by (simp add: unsigned_take_bit_eq take_bit_nat_def u)
  then show "((x AND 0xFFFFF000) + 0x1000) AND 0xFFF = 0"
    unfolding m(1) by (simp add: unat_eq_0)
qed


section \<open>The kernel's allocator satisfies the interface\<close>

definition kmalloc_request :: "request \<Rightarrow> 'a kmem_scheme \<Rightarrow> u32 \<times> 'a kmem_scheme" where
  "kmalloc_request r = kmalloc_int (req_size r) (req_align r) (req_phys r)"

definition kmem_top :: "'a kmem_scheme \<Rightarrow> nat" where
  "kmem_top s = unat (placement_address s)"

definition align_slack :: "request \<Rightarrow> nat" where
  "align_slack r = (if req_align r = 1 then 4095 else 0)"

lemma kmalloc_int_block:
  assumes "kmem_top s + (if align = 1 then 4095 else 0) + unat sz < 4294967296"
    and "kmalloc_int sz align phys s = (p, s')"
  shows "kmem_top s \<le> unat p" and "unat p + unat sz = kmem_top s'"
    and "kmem_top s' \<le> kmem_top s + (if align = 1 then 4095 else 0) + unat sz"
    and "align = 1 \<Longrightarrow> p AND 0xFFF = 0"
proof -
  let ?x = "placement_address s"
  let ?p = "if align = 1 \<and> ?x AND 0xFFF \<noteq> 0 then (?x AND 0xFFFFF000) + 0x1000 else ?x"
  have p: "p = ?p" and s': "placement_address s' = ?p + sz"
    using assms(2) by (auto simp: kmalloc_int_def Let_def split: if_splits)
  have up: "unat ?p \<le> unat ?x + (if align = 1 then 4095 else 0)" "unat ?x \<le> unat ?p" "align = 1 \<Longrightarrow> ?p AND 0xFFF = 0"
  proof -
    have "unat ?p \<le> unat ?x + (if align = 1 then 4095 else 0) \<and> unat ?x \<le> unat ?p \<and> (align = 1 \<longrightarrow> ?p AND 0xFFF = 0)"
    proof (cases "align = 1 \<and> ?x AND 0xFFF \<noteq> 0")
      case True
      then have b: "unat ?x + 4095 < 4294967296" using assms(1) by (simp add: kmem_top_def)
      have "unat ?x mod 4096 \<noteq> 0"
      proof
        assume z: "unat ?x mod 4096 = 0"
        have m: "(0xFFF :: u32) = mask 12" by (simp add: mask_eq_exp_minus_1)
        have "unat (?x AND mask 12) = 0"
          unfolding take_bit_eq_mask [symmetric] by (simp add: unsigned_take_bit_eq take_bit_nat_def z)
        then show False using True unfolding m by (simp add: unat_eq_0)
      qed
      then show ?thesis using True align_up [OF conjunct2 [OF True] b] by auto
    qed auto
    then show "unat ?p \<le> unat ?x + (if align = 1 then 4095 else 0)" "unat ?x \<le> unat ?p" "align = 1 \<Longrightarrow> ?p AND 0xFFF = 0"
      by blast+
  qed
  show "kmem_top s \<le> unat p" unfolding kmem_top_def p by (rule up(2))
  show "align = 1 \<Longrightarrow> p AND 0xFFF = 0" unfolding p by (rule up(3))
  have "unat (?p + sz) = unat ?p + unat sz"
    using up(1) assms(1) by (subst unat_word_ariths) (auto simp: kmem_top_def)
  then show u: "unat p + unat sz = kmem_top s'" unfolding kmem_top_def p s' by simp
  show "kmem_top s' \<le> kmem_top s + (if align = 1 then 4095 else 0) + unat sz"
    unfolding u [symmetric] p using up(1) by (simp add: kmem_top_def)
qed

interpretation kernel: allocator kmalloc_request kmem_top "\<lambda>r. unat (req_size r)" align_slack 4294967296
proof unfold_locales
  fix s :: "'a kmem_scheme" and r p s'
  assume "kmem_top s + align_slack r + unat (req_size r) < 4294967296" "kmalloc_request r s = (p, s')"
  then show "kmem_top s \<le> unat p \<and> unat p + unat (req_size r) = kmem_top s' \<and> kmem_top s' \<le> kmem_top s + align_slack r + unat (req_size r)"
    using kmalloc_int_block [of s "req_align r" "req_size r" "req_phys r" p s']
    by (simp add: kmalloc_request_def align_slack_def)
qed

interpretation unaligned: allocator kmalloc kmem_top unat "\<lambda>_. 0" 4294967296
proof unfold_locales
  fix s :: "'a kmem_scheme" and sz p s'
  assume "kmem_top s + 0 + unat sz < 4294967296" "kmalloc sz s = (p, s')"
  then show "kmem_top s \<le> unat p \<and> unat p + unat sz = kmem_top s' \<and> kmem_top s' \<le> kmem_top s + 0 + unat sz"
    using kmalloc_int_block [of s 0 sz 0 p s'] by (simp add: kmalloc_def)
qed

interpretation page: allocator kmalloc_a kmem_top unat "\<lambda>_. 4095" 4294967296
proof unfold_locales
  fix s :: "'a kmem_scheme" and sz p s'
  assume "kmem_top s + 4095 + unat sz < 4294967296" "kmalloc_a sz s = (p, s')"
  then show "kmem_top s \<le> unat p \<and> unat p + unat sz = kmem_top s' \<and> kmem_top s' \<le> kmem_top s + 4095 + unat sz"
    using kmalloc_int_block [of s 1 sz 0 p s'] by (simp add: kmalloc_a_def)
qed

section \<open>Properties\<close>

text \<open>C36: any sequence of allocation requests that fits below 4 GiB yields pairwise disjoint blocks.\<close>

theorem kmalloc_blocks_disjoint:
  assumes "kmem_top s + kernel.total rs < 4294967296" and "kernel.allocs rs s = (bs, s')"
    and "i < j" and "j < length bs" and "bs ! i = (p, n)" and "bs ! j = (q, k)"
  shows "disjoint_regions p n q k"
  using kernel.allocs_disjoint [OF assms(1) _ assms(2-)] by simp

definition demo_kmem :: kmem where
  "demo_kmem = \<lparr>mem = (\<lambda>_. 0), trace = [], cursor_pos = 0, serial_open = 0, placement_address = 0x101234\<rparr>"

lemma kmalloc_blocks_disjoint_witness:
  "fst (kernel.allocs [\<lparr>req_size = 16, req_align = 0, req_phys = 0\<rparr>, \<lparr>req_size = 4096, req_align = 1, req_phys = 0x8000\<rparr>] demo_kmem)
     = [(0x101234, 16), (0x102000, 4096)] \<and> disjoint_regions 0x101234 16 0x102000 4096"
proof -
  have e: "kernel.allocs [\<lparr>req_size = 16, req_align = 0, req_phys = 0\<rparr>, \<lparr>req_size = 4096, req_align = 1, req_phys = 0x8000\<rparr>] demo_kmem
      = ([(0x101234, 16), (0x102000, 4096)], demo_kmem\<lparr>mem := store32 0x8000 0x102000 (\<lambda>_. 0), placement_address := 0x103000\<rparr>)"
    by (simp add: kernel.allocs.simps kmalloc_request_def kmalloc_int_def demo_kmem_def Let_def)
  show ?thesis
    using kmalloc_blocks_disjoint [OF _ e, of 0 1 "0x101234" 16 "0x102000" 4096] e
    by (simp add: kernel.total_def align_slack_def kmem_top_def demo_kmem_def)
qed

text \<open>A page-aligned request gets a block on a page boundary; \<open>*phys\<close> receives its address, and no
  other byte of memory changes.\<close>

theorem kmalloc_ap_correct:
  assumes "kmem_top s + 4095 + unat sz < 4294967296" and "phys \<noteq> 0"
  shows "\<exists>p s'. kmalloc_ap sz phys s = (p, s') \<and> p AND 0xFFF = 0 \<and> kmem_top s \<le> unat p
    \<and> unat p + unat sz = kmem_top s' \<and> mem s' = store32 phys p (mem s) \<and> load32 (mem s') phys = p"
proof -
  obtain p s' where e: "kmalloc_int sz 1 phys s = (p, s')" by fastforce
  then have m: "mem s' = store32 phys p (mem s)"
    using assms(2) by (auto simp: kmalloc_int_def Let_def)
  have "load32 (store32 phys p (mem s)) phys = p"
  proof (rule bit_word_eqI)
    fix n assume "n < LENGTH(32)"
    then show "bit (load32 (store32 phys p (mem s)) phys) n = bit p n"
      by (cases "24 \<le> n"; cases "16 \<le> n") (auto simp: load32_def store32_def bit_simps)
  qed
  with kmalloc_int_block [of s 1 sz phys, OF _ e] assms(1) e m show ?thesis
    by (simp add: kmalloc_ap_def)
qed

lemma kmalloc_ap_correct_witness:
  "\<exists>p s'. kmalloc_ap 0x1000 0x8000 demo_kmem = (p, s') \<and> p AND 0xFFF = 0 \<and> load32 (mem s') 0x8000 = p"
  using kmalloc_ap_correct [of demo_kmem "0x1000" "0x8000"] by (auto simp: kmem_top_def demo_kmem_def)

text \<open>\<open>kmalloc\<close> does not check the end of the address space: a request that does not fit still
  returns the old top, and the new top has wrapped around below it.\<close>

theorem kmalloc_wraps:
  assumes "4294967296 \<le> kmem_top s + unat sz"
  shows "\<exists>s'. kmalloc sz s = (placement_address s, s') \<and> kmem_top s' < kmem_top s"
proof -
  have "unat (placement_address s + sz) = kmem_top s + unat sz - 4294967296"
    using assms unat_u32_less [of sz] unat_u32_less [of "placement_address s"]
    by (simp add: unat_word_ariths kmem_top_def mod_if)
  moreover have "unat sz < 4294967296" by (rule unat_u32_less)
  ultimately show ?thesis
    using assms by (auto simp: kmalloc_def kmalloc_int_def kmem_top_def)
qed

lemma kmalloc_wraps_witness:
  "\<exists>s'. kmalloc 0xFFF00000 demo_kmem = (0x101234, s') \<and> kmem_top s' < 0x101234"
  using kmalloc_wraps [of demo_kmem "0xFFF00000"] by (simp add: kmem_top_def demo_kmem_def)

end
