(* ===== verification/Descriptors.thy ===== *)
theory Descriptors
  imports Kmemory
begin

text \<open>
  The segment and interrupt descriptor tables (src/mem.c, src/interrupt_table.c): the structures with
  their fields, the routines that fill them, and the processor's reading of their packed bytes. Entry
  points and tables have the addresses the linker gave them.
\<close>

section \<open>Segment descriptors\<close>

record gdt_entry =
  limit_low :: u16
  base_low :: u16
  base_middle :: u8
  gdt_access :: u8
  granularity :: u8
  base_high :: u8

text \<open>The operand of \<open>lgdt\<close> and \<open>lidt\<close>; both pointer structures of the source have this shape.\<close>

record table_ptr =
  tab_limit :: u16
  tab_base :: u32

record idt_entry =
  base_lo :: u16
  sel :: u16
  always0 :: u8
  flags :: u8
  base_hi :: u16

text \<open>The functions that are ever stored in \<open>interrupt_handlers\<close>, and the null pointer.\<close>

datatype isr_t = NULL | timer_callback | keyboard_callback | page_fault

record descr = kmem +
  gdt_entries :: "gdt_entry list"
  gdt_ptr :: table_ptr
  gdtr :: table_ptr
  idt_entries :: "idt_entry list"
  idt_ptr :: table_ptr
  idtr :: table_ptr
  interrupt_handlers :: "isr_t list"

definition gdt_set_gate :: "nat \<Rightarrow> u32 \<Rightarrow> u32 \<Rightarrow> u8 \<Rightarrow> u8 \<Rightarrow> 'a descr_scheme \<Rightarrow> 'a descr_scheme" where
  "gdt_set_gate num base limit access gran s =
     (let e = gdt_entries s ! num;
          e = e\<lparr>base_low := lo16 (base AND 0xFFFF)\<rparr>;
          e = e\<lparr>base_middle := lo8 (drop_bit 16 base AND 0xFF)\<rparr>;
          e = e\<lparr>base_high := lo8 (drop_bit 24 base AND 0xFF)\<rparr>;
          e = e\<lparr>limit_low := lo16 (limit AND 0xFFFF)\<rparr>;
          e = e\<lparr>granularity := lo8 (drop_bit 16 limit AND 0x0F)\<rparr>;
          e = e\<lparr>granularity := granularity e OR (gran AND 0xF0)\<rparr>;
          e = e\<lparr>gdt_access := access\<rparr>
      in s\<lparr>gdt_entries := (gdt_entries s)[num := e]\<rparr>)"

text \<open>\<open>load_gdt\<close> of src/gdt.s loads the table register from its argument.\<close>

definition load_gdt :: "table_ptr \<Rightarrow> 'a descr_scheme \<Rightarrow> 'a descr_scheme" where
  "load_gdt p s = s\<lparr>gdtr := p\<rparr>"

definition init_gdt :: "image \<Rightarrow> 'a descr_scheme \<Rightarrow> 'a descr_scheme" where
  "init_gdt img s =
     (let s1 = s\<lparr>gdt_ptr := \<lparr>tab_limit = 8 * 5 - 1, tab_base = sym_addr img ''gdt_entries''\<rparr>\<rparr>;
          s2 = gdt_set_gate 0 0 0 0 0 s1;
          s3 = gdt_set_gate 1 0 0xFFFFFFFF 0x9A 0xCF s2;
          s4 = gdt_set_gate 2 0 0xFFFFFFFF 0x92 0xCF s3;
          s5 = gdt_set_gate 3 0 0xFFFFFFFF 0xFA 0xCF s4;
          s6 = gdt_set_gate 4 0 0xFFFFFFFF 0xF2 0xCF s5
      in load_gdt (gdt_ptr s6) s6)"

section \<open>Interrupt gates\<close>

definition idt_msg :: string where
  "idt_msg = ''Loading IDT #{%d}{%'' @ [CHR 0x0A] @ ''}''"

definition idt_set_gate ::
  "image \<Rightarrow> u8 \<Rightarrow> u32 \<Rightarrow> u16 \<Rightarrow> u8 \<Rightarrow> 'a descr_scheme \<Rightarrow> 'a descr_scheme option" where
  "idt_set_gate img num base sel' flags' s =
     (let e = idt_entries s ! unat num;
          e = e\<lparr>base_lo := lo16 (base AND 0xFFFF)\<rparr>;
          e = e\<lparr>base_hi := lo16 (drop_bit 16 base AND 0xFFFF)\<rparr>;
          e = e\<lparr>sel := sel'\<rparr>;
          e = e\<lparr>always0 := 0\<rparr>;
          e = e\<lparr>flags := flags'\<rparr>
      in fb_fprint_str img (lit_addr img idt_msg) [ucast num] 0 4
           (s\<lparr>idt_entries := (idt_entries s)[unat num := e]\<rparr>))"

text \<open>The calls of \<open>init_idt\<close> in their order: vector and entry point of src/interrupt.s.\<close>

definition idt_gates :: "(u8 \<times> string) list" where
  "idt_gates =
    [(0, ''isr0''), (1, ''isr1''), (2, ''isr2''), (3, ''isr3''), (4, ''isr4''), (5, ''isr5''),
     (6, ''isr6''), (7, ''isr7''), (8, ''isr8''), (9, ''isr9''), (10, ''isr10''), (11, ''isr11''),
     (12, ''isr12''), (13, ''isr13''), (14, ''isr14''), (15, ''isr15''), (16, ''isr16''),
     (17, ''isr17''), (18, ''isr18''), (19, ''isr19''), (20, ''isr20''), (21, ''isr21''),
     (22, ''isr22''), (23, ''isr23''), (24, ''isr24''), (25, ''isr25''), (26, ''isr26''),
     (27, ''isr27''), (28, ''isr28''), (29, ''isr29''), (30, ''isr30''), (31, ''isr31''),
     (32, ''irq0''), (33, ''irq1''), (34, ''irq2''), (35, ''irq3''), (36, ''irq4''), (37, ''irq5''),
     (38, ''irq6''), (39, ''irq7''), (40, ''irq8''), (41, ''irq9''), (42, ''irq10''), (43, ''irq11''),
     (44, ''irq12''), (45, ''irq13''), (46, ''irq14''), (47, ''irq15'')]"

fun set_gates :: "image \<Rightarrow> (u8 \<times> string) list \<Rightarrow> 'a descr_scheme \<Rightarrow> 'a descr_scheme option" where
  "set_gates img [] s = Some s"
| "set_gates img ((n, f) # gs) s =
     do { s1 \<leftarrow> idt_set_gate img n (sym_addr img f) 0x08 0x8E s; set_gates img gs s1 }"

definition load_idt :: "table_ptr \<Rightarrow> 'a descr_scheme \<Rightarrow> 'a descr_scheme" where
  "load_idt p s = s\<lparr>idtr := p\<rparr>"

abbreviation PIC1_COMMAND :: u16 where "PIC1_COMMAND \<equiv> 0x20"
abbreviation PIC1_DATA :: u16 where "PIC1_DATA \<equiv> 0x21"
abbreviation PIC2_COMMAND :: u16 where "PIC2_COMMAND \<equiv> 0xA0"
abbreviation PIC2_DATA :: u16 where "PIC2_DATA \<equiv> 0xA1"

definition zero_gate :: idt_entry where
  "zero_gate = \<lparr>base_lo = 0, sel = 0, always0 = 0, flags = 0, base_hi = 0\<rparr>"

definition init_pics :: "'a machine_scheme \<Rightarrow> 'a machine_scheme" where
  "init_pics s =
     (let s = outb PIC1_COMMAND 0x11 s; s = outb PIC2_COMMAND 0x11 s;
          s = outb PIC1_DATA 0x20 s; s = outb PIC2_DATA 0x28 s;
          s = outb PIC1_DATA 0x04 s; s = outb PIC2_DATA 0x02 s;
          s = outb PIC1_DATA 0x01 s; s = outb PIC2_DATA 0x01 s;
          s = outb PIC1_DATA 0x0 s
      in outb PIC2_DATA 0x0 s)"

definition init_idt :: "image \<Rightarrow> 'a descr_scheme \<Rightarrow> 'a descr_scheme option" where
  "init_idt img s =
     (let s1 = s\<lparr>idt_ptr := \<lparr>tab_limit = 8 * 256 - 1, tab_base = sym_addr img ''idt_entries''\<rparr>\<rparr>;
          s2 = s1\<lparr>idt_entries := replicate 256 zero_gate\<rparr>;
          s3 = init_pics s2
      in do { s4 \<leftarrow> set_gates img idt_gates s3; Some (load_idt (idt_ptr s4) s4) })"

definition idt_ptr_msg :: string where
  "idt_ptr_msg = ''Loading IDT Pointer#{%d}{%'' @ [CHR 0x0A] @ ''}''"

definition load_idt_c :: "image \<Rightarrow> 'a descr_scheme \<Rightarrow> 'a descr_scheme option" where
  "load_idt_c img s =
     do {
       s1 \<leftarrow> fb_fprint_str img (lit_addr img idt_ptr_msg) [sym_addr img ''idt_ptr''] 0 4 s;
       Some (load_idt (idt_ptr s1) s1)
     }"

definition init_descriptor_tables :: "image \<Rightarrow> 'a descr_scheme \<Rightarrow> 'a descr_scheme option" where
  "init_descriptor_tables img s =
     do {
       s1 \<leftarrow> init_idt img (init_gdt img s);
       Some (s1\<lparr>interrupt_handlers := replicate 256 NULL\<rparr>)
     }"

section \<open>What the processor reads\<close>

text \<open>The packed layout of the structures and the processor's reading of the eight bytes.\<close>

definition gdt_entry_bytes :: "gdt_entry \<Rightarrow> u8 list" where
  "gdt_entry_bytes e =
     [ucast (limit_low e), ucast (drop_bit 8 (limit_low e)), ucast (base_low e), ucast (drop_bit 8 (base_low e)),
      base_middle e, gdt_access e, granularity e, base_high e]"

definition idt_entry_bytes :: "idt_entry \<Rightarrow> u8 list" where
  "idt_entry_bytes e =
     [ucast (base_lo e), ucast (drop_bit 8 (base_lo e)), ucast (sel e), ucast (drop_bit 8 (sel e)),
      always0 e, flags e, ucast (base_hi e), ucast (drop_bit 8 (base_hi e))]"

definition byte_at :: "u8 list \<Rightarrow> nat \<Rightarrow> nat \<Rightarrow> u32" where
  "byte_at bs i k = push_bit k (ucast (bs ! i))"

definition seg_base :: "u8 list \<Rightarrow> u32" where
  "seg_base d = byte_at d 2 0 OR byte_at d 3 8 OR byte_at d 4 16 OR byte_at d 7 24"

definition seg_limit :: "u8 list \<Rightarrow> u32" where
  "seg_limit d = byte_at d 0 0 OR byte_at d 1 8 OR push_bit 16 (ucast (d ! 6) AND 0x0F)"

text \<open>With the granularity bit set the limit counts 4 KiB pages.\<close>

definition seg_last_byte :: "u8 list \<Rightarrow> u32" where
  "seg_last_byte d = (if bit (d ! 6) 7 then push_bit 12 (seg_limit d) OR 0xFFF else seg_limit d)"

definition gate_offset :: "u8 list \<Rightarrow> u32" where
  "gate_offset d = byte_at d 0 0 OR byte_at d 1 8 OR byte_at d 6 16 OR byte_at d 7 24"

definition gate_selector :: "u8 list \<Rightarrow> u32" where
  "gate_selector d = byte_at d 2 0 OR byte_at d 3 8"

definition gate_present :: "u8 list \<Rightarrow> bool" where
  "gate_present d \<longleftrightarrow> bit (d ! 5) 7"

text \<open>Type 14: an interrupt gate of 32 bits; the processor disables interrupts on entry.\<close>

definition gate_is_interrupt32 :: "u8 list \<Rightarrow> bool" where
  "gate_is_interrupt32 d \<longleftrightarrow> d ! 5 AND 0x1F = 0x0E"

lemma word_masks: "(0xFF :: u32) = mask 8" "(0xFFFF :: u32) = mask 16" "(0xF :: u32) = mask 4" "(0xF :: u8) = mask 4"
  "(0xF0 :: u8) = push_bit 4 (mask 4)"
  by (simp_all add: mask_eq_exp_minus_1)

lemma gdt_set_gate_entry:
  assumes "num < length (gdt_entries s)"
    and d_def: "d = gdt_entry_bytes (gdt_entries (gdt_set_gate num base limit access gran s) ! num)"
  shows "seg_base d = base" and "seg_limit d = take_bit 20 limit" and "d ! 5 = access"
    and "d ! 6 AND 0xF0 = gran AND 0xF0"
proof -
  have d: "d = [ucast (lo16 (limit AND 0xFFFF)), ucast (drop_bit 8 (lo16 (limit AND 0xFFFF))),
      ucast (lo16 (base AND 0xFFFF)), ucast (drop_bit 8 (lo16 (base AND 0xFFFF))),
      lo8 (drop_bit 16 base AND 0xFF), access, lo8 (drop_bit 16 limit AND 0x0F) OR (gran AND 0xF0),
      lo8 (drop_bit 24 base AND 0xFF)]"
    using assms(1) by (simp add: d_def gdt_set_gate_def gdt_entry_bytes_def Let_def)
  show "d ! 5 = access" by (simp add: d)
  show "seg_base d = base"
  proof (rule bit_word_eqI)
    fix n assume "n < LENGTH(32)"
    then consider "n < 8" | "8 \<le> n" "n < 16" | "16 \<le> n" "n < 24" | "24 \<le> n" by fastforce
    then show "bit (seg_base d) n = bit base n"
      using \<open>n < LENGTH(32)\<close> unfolding d seg_base_def byte_at_def word_masks lo16_def lo8_def
      by cases (auto simp: bit_simps)
  qed
  show "seg_limit d = take_bit 20 limit"
  proof (rule bit_word_eqI)
    fix n assume "n < LENGTH(32)"
    then consider "n < 8" | "8 \<le> n" "n < 16" | "16 \<le> n" "n < 20" | "20 \<le> n" by fastforce
    then show "bit (seg_limit d) n = bit (take_bit 20 limit) n"
      using \<open>n < LENGTH(32)\<close> unfolding d seg_limit_def byte_at_def word_masks lo16_def lo8_def
      by cases (auto simp: bit_simps)
  qed
  show "d ! 6 AND 0xF0 = gran AND 0xF0"
    unfolding d word_masks lo8_def by (rule bit_word_eqI) (auto simp: bit_simps)
qed


section \<open>Installing the gates\<close>

definition gate_of :: "u32 \<Rightarrow> u16 \<Rightarrow> u8 \<Rightarrow> idt_entry" where
  "gate_of base sel' flags' =
     \<lparr>base_lo = lo16 (base AND 0xFFFF), sel = sel', always0 = 0, flags = flags',
       base_hi = lo16 (drop_bit 16 base AND 0xFFFF)\<rparr>"

lemma gate_of_decoded:
  "gate_offset (idt_entry_bytes (gate_of base sel' flags')) = base"
  "gate_selector (idt_entry_bytes (gate_of base sel' flags')) = ucast sel'"
  "idt_entry_bytes (gate_of base sel' flags') ! 5 = flags'"
proof -
  have d: "idt_entry_bytes (gate_of base sel' flags') =
      [ucast (lo16 (base AND 0xFFFF)), ucast (drop_bit 8 (lo16 (base AND 0xFFFF))), ucast sel', ucast (drop_bit 8 sel'),
       0, flags', ucast (lo16 (drop_bit 16 base AND 0xFFFF)), ucast (drop_bit 8 (lo16 (drop_bit 16 base AND 0xFFFF)))]"
    by (simp add: gate_of_def idt_entry_bytes_def)
  show "idt_entry_bytes (gate_of base sel' flags') ! 5 = flags'" by (simp add: d)
  show "gate_offset (idt_entry_bytes (gate_of base sel' flags')) = base"
  proof (rule bit_word_eqI)
    fix n assume "n < LENGTH(32)"
    then consider "n < 8" | "8 \<le> n" "n < 16" | "16 \<le> n" "n < 24" | "24 \<le> n" by fastforce
    then show "bit (gate_offset (idt_entry_bytes (gate_of base sel' flags'))) n = bit base n"
      using \<open>n < LENGTH(32)\<close> unfolding d gate_offset_def byte_at_def word_masks lo16_def lo8_def
      by cases (auto simp: bit_simps)
  qed
  show "gate_selector (idt_entry_bytes (gate_of base sel' flags')) = ucast sel'"
  proof (rule bit_word_eqI)
    fix n assume "n < LENGTH(32)"
    then consider "n < 8" | "8 \<le> n" "n < 16" | "16 \<le> n" by fastforce
    then show "bit (gate_selector (idt_entry_bytes (gate_of base sel' flags'))) n = bit (ucast sel' :: u32) n"
      using \<open>n < LENGTH(32)\<close> unfolding d gate_selector_def byte_at_def
      by cases (auto simp: bit_simps dest: bit_imp_le_length)
  qed
qed

text \<open>What the messages of this file need: their literal and the layout of the formatted print.\<close>

definition msg_fmt :: "string \<Rightarrow> fmt list" where
  "msg_fmt t = map Chr (bytes_of t) @ [Dec, Newline]"

lemma msg_fmt_bytes:
  "bytes_of idt_msg = format_bytes (msg_fmt ''Loading IDT #'')"
  "bytes_of idt_ptr_msg = format_bytes (msg_fmt ''Loading IDT Pointer#'')"
  by (simp_all add: msg_fmt_def format_bytes_def idt_msg_def idt_ptr_msg_def bytes_of_def hint_d_def hint_n_def)

definition can_print :: "image \<Rightarrow> string \<Rightarrow> 'a vga_scheme \<Rightarrow> bool" where
  "can_print img msg s \<longleftrightarrow> fprint_ready img (mem s) (lit_addr img msg) (bytes_of msg) \<and> on_screen (display s)"

definition print_writes :: "image \<Rightarrow> string \<Rightarrow> u32 \<Rightarrow> bool" where
  "print_writes img msg = fprint_writes img (length msg)"

lemma on_screen_cursor: "on_screen (display s) \<longleftrightarrow> 0 \<le> sint (cursor_pos s) \<and> sint (cursor_pos s) \<le> 2000"
  by (simp add: on_screen_def display_def)

lemma can_print_cong: "mem s' = mem s \<Longrightarrow> cursor_pos s' = cursor_pos s \<Longrightarrow> can_print img msg s' = can_print img msg s"
  by (simp add: can_print_def on_screen_cursor)

lemma can_print_frame:
  assumes "can_print img msg s" and "length msg < 1000" and "vga_frame (print_writes img msg) s s'" and "on_screen (display s')"
  shows "can_print img msg s'"
  using assms fprint_ready_frame [of img "mem s" "lit_addr img msg" "bytes_of msg" "mem s'"] vga_frameD [OF assms(3)]
  by (simp add: can_print_def print_writes_def)

lemma show_format_on_screen: "on_screen D \<Longrightarrow> on_screen (show_format fs args i attr D)"
  by (induction fs arbitrary: i D) auto

lemma args_ok_chars: "args_ok (map Chr cs @ fs) args i \<longleftrightarrow> args_ok fs args i"
  by (induction cs) auto

lemma print_msg:
  assumes "can_print img msg s" and "bytes_of msg = format_bytes (msg_fmt t)" and "length msg \<le> 100"
    and "\<forall>c \<in> set (bytes_of t). c \<noteq> 0 \<and> c \<noteq> 0x7B"
  obtains s' where "fb_fprint_str img (lit_addr img msg) [v] fg bg s = Some s'"
    and "vga_frame (print_writes img msg) s s'" and "on_screen (display s')" and "can_print img msg s'"
proof -
  have len: "length (format_bytes (msg_fmt t)) \<le> 14000"
    using assms(3) by (simp flip: assms(2))
  have ok: "\<forall>f \<in> set (msg_fmt t). fmt_ok f" using assms(4) by (auto simp: msg_fmt_def)
  have args: "args_ok (msg_fmt t) [v] 0" by (simp add: msg_fmt_def args_ok_chars)
  obtain s' where s': "fb_fprint_str img (lit_addr img msg) [v] fg bg s = Some s'"
    "display s' = show_format (msg_fmt t) [v] 0 (fb_attr fg bg) (display s)"
    "vga_frame (fprint_writes img (length (format_bytes (msg_fmt t)))) s s'"
    using fb_fprint_str_spec [OF _ ok len _ args, of img s "lit_addr img msg" fg bg] assms(1,2)
    by (metis can_print_def)
  have "length (format_bytes (msg_fmt t)) = length msg" by (simp flip: assms(2))
  then have f: "vga_frame (print_writes img msg) s s'" using s'(3) by (simp add: print_writes_def)
  moreover have on: "on_screen (display s')"
    unfolding s'(2) using assms(1) by (simp add: can_print_def show_format_on_screen)
  ultimately show ?thesis using that s'(1) can_print_frame [OF assms(1) _ f on] assms(3) by simp
qed

lemma gate_of_update:
  "e\<lparr>base_lo := lo16 (base AND 0xFFFF), base_hi := lo16 (drop_bit 16 base AND 0xFFFF), sel := sel',
     always0 := 0, flags := flags'\<rparr> = gate_of base sel' flags'" for e :: idt_entry
  by (cases e) (simp add: gate_of_def)

lemma idt_set_gate_spec:
  assumes "can_print img idt_msg s"
  obtains s' where "idt_set_gate img num base sel' flags' s = Some s'"
    and "vga_frame (print_writes img idt_msg) (s\<lparr>idt_entries := (idt_entries s)[unat num := gate_of base sel' flags']\<rparr>) s'"
    and "can_print img idt_msg s'"
proof -
  let ?s1 = "s\<lparr>idt_entries := (idt_entries s)[unat num := gate_of base sel' flags']\<rparr>"
  have c1: "can_print img idt_msg ?s1"
    using assms by (subst can_print_cong) simp_all
  have eq: "idt_set_gate img num base sel' flags' s = fb_fprint_str img (lit_addr img idt_msg) [ucast num] 0 4 ?s1"
    by (simp add: idt_set_gate_def Let_def gate_of_update)
  show ?thesis
    using print_msg [OF c1 msg_fmt_bytes(1), of "ucast num" 0 4] that
    unfolding eq by (auto simp: idt_msg_def bytes_of_def)
qed

lemma vga_frame_more: "vga_frame P s s' \<Longrightarrow> vga.more s' = vga.more s"
  by (auto simp: vga_frame_def)

lemma vga_frame_descr:
  fixes s s' :: "'a descr_scheme"
  assumes "vga_frame P s s'"
  shows "idt_entries s' = idt_entries s" "gdt_entries s' = gdt_entries s" "idt_ptr s' = idt_ptr s" "gdt_ptr s' = gdt_ptr s"
    "idtr s' = idtr s" "gdtr s' = gdtr s" "interrupt_handlers s' = interrupt_handlers s"
    "placement_address s' = placement_address s" "serial_open s' = serial_open s" "descr.more s' = descr.more s"
  using assms by (auto simp: vga_frame_def)

lemma set_gates_spec:
  assumes "can_print img idt_msg s" and "distinct (map fst gs)" and "\<forall>(n, f) \<in> set gs. unat n < length (idt_entries s)"
  shows "\<exists>s' es. set_gates img gs s = Some s' \<and> can_print img idt_msg s'
    \<and> vga_frame (print_writes img idt_msg) (s\<lparr>idt_entries := es\<rparr>) s' \<and> length es = length (idt_entries s)
    \<and> (\<forall>(n, f) \<in> set gs. es ! unat n = gate_of (sym_addr img f) 0x08 0x8E)
    \<and> (\<forall>n. n \<notin> unat ` fst ` set gs \<longrightarrow> es ! n = idt_entries s ! n)"
  using assms
proof (induction gs arbitrary: s)
  case Nil
  have "vga_frame (print_writes img idt_msg) (s\<lparr>idt_entries := idt_entries s\<rparr>) s" by simp
  with Nil show ?case by (intro exI [of _ s] exI [of _ "idt_entries s"]) simp
next
  case (Cons g gs)
  obtain n f where g: "g = (n, f)" by fastforce
  let ?es = "(idt_entries s)[unat n := gate_of (sym_addr img f) 0x08 0x8E]"
  obtain s1 where s1: "idt_set_gate img n (sym_addr img f) 0x08 0x8E s = Some s1"
    "vga_frame (print_writes img idt_msg) (s\<lparr>idt_entries := ?es\<rparr>) s1" "can_print img idt_msg s1"
    using idt_set_gate_spec [OF Cons.prems(1)] by metis
  have e1: "idt_entries s1 = ?es" using vga_frame_descr(1) [OF s1(2)] by simp
  have "\<forall>(n, f) \<in> set gs. unat n < length (idt_entries s1)" using Cons.prems(3) by (simp add: e1)
  from Cons.IH [OF s1(3) _ this] Cons.prems(2) obtain s' es where s':
    "set_gates img gs s1 = Some s'" "can_print img idt_msg s'" "vga_frame (print_writes img idt_msg) (s1\<lparr>idt_entries := es\<rparr>) s'"
    "length es = length (idt_entries s1)" "\<forall>(n, f) \<in> set gs. es ! unat n = gate_of (sym_addr img f) 0x08 0x8E"
    "\<forall>n. n \<notin> unat ` fst ` set gs \<longrightarrow> es ! n = idt_entries s1 ! n"
    by auto
  have "vga_frame (print_writes img idt_msg) (s\<lparr>idt_entries := es\<rparr>) (s1\<lparr>idt_entries := es\<rparr>)"
  proof -
    obtain m evs c where "s1 = s\<lparr>idt_entries := ?es, mem := m, trace := evs @ trace s, cursor_pos := c\<rparr>" "cursor_events evs"
      "\<And>a. \<not> print_writes img idt_msg a \<Longrightarrow> m a = mem s a"
      using s1(2) unfolding vga_frame_def by auto
    then show ?thesis by (intro vga_frameI [where m = m and evs = evs and c = c]) simp_all
  qed
  then have fr: "vga_frame (print_writes img idt_msg) (s\<lparr>idt_entries := es\<rparr>) s'"
    using s'(3) by (rule vga_frame_trans)
  have "unat n \<notin> unat ` fst ` set gs" using Cons.prems(2) g by (force simp: word_unat_eq_iff [symmetric])
  then have "es ! unat n = ?es ! unat n" using s'(6) by (simp add: e1)
  then have n: "es ! unat n = gate_of (sym_addr img f) 0x08 0x8E"
    using Cons.prems(3) g by simp
  have "es ! m = idt_entries s ! m" if "m \<notin> unat ` fst ` set (g # gs)" for m
  proof -
    have "m \<noteq> unat n" "m \<notin> unat ` fst ` set gs" using that g by auto
    then show ?thesis using s'(6) by (simp add: e1)
  qed
  with s1(1) s'(1,2,4,5) fr n g show ?case
    by (intro exI [of _ s'] exI [of _ es]) (simp add: e1)
qed

text \<open>The writes to a set of ports, oldest first.\<close>

definition writes_to :: "u16 list \<Rightarrow> io_event list \<Rightarrow> io_event list" where
  "writes_to ps t = rev (filter (\<lambda>e. case e of Out p v \<Rightarrow> p \<in> set ps | In p v \<Rightarrow> False) t)"

lemma writes_to_simps [simp]:
  "writes_to ps [] = []" "writes_to ps (In p v # t) = writes_to ps t"
  "writes_to ps (Out p v # t) = writes_to ps t @ (if p \<in> set ps then [Out p v] else [])"
  by (simp_all add: writes_to_def)

lemma writes_to_frame:
  assumes "vga_frame P s s'" and "FB_COMMAND_PORT \<notin> set ps" and "FB_DATA_PORT \<notin> set ps"
  shows "writes_to ps (trace s') = writes_to ps (trace s)"
proof -
  obtain evs where evs: "trace s' = evs @ trace s" "cursor_events evs" using assms(1) by (auto simp: vga_frame_def)
  have "filter (\<lambda>e. case e of Out p v \<Rightarrow> p \<in> set ps | In p v \<Rightarrow> False) evs = []"
    using evs(2) assms(2,3) by (induction evs) auto
  then show ?thesis by (simp add: writes_to_def evs(1))
qed

abbreviation pic_ports :: "u16 list" where "pic_ports \<equiv> [PIC1_COMMAND, PIC1_DATA, PIC2_COMMAND, PIC2_DATA]"

definition pic_setup :: "io_event list" where
  "pic_setup =
     [Out PIC1_COMMAND 0x11, Out PIC2_COMMAND 0x11, Out PIC1_DATA 0x20, Out PIC2_DATA 0x28, Out PIC1_DATA 4,
      Out PIC2_DATA 2, Out PIC1_DATA 1, Out PIC2_DATA 1, Out PIC1_DATA 0, Out PIC2_DATA 0]"

lemma idt_gates_vectors: "map (unat \<circ> fst) idt_gates = [0..<48]"
  by (simp add: idt_gates_def upt_rec)

lemma init_idt_spec:
  assumes "can_print img idt_msg s"
  obtains s' where "init_idt img s = Some s'" and "can_print img idt_msg s'"
    and "length (idt_entries s') = 256"
    and "\<forall>(n, f) \<in> set idt_gates. idt_entries s' ! unat n = gate_of (sym_addr img f) 0x08 0x8E"
    and "\<forall>n. 48 \<le> n \<longrightarrow> n < 256 \<longrightarrow> idt_entries s' ! n = zero_gate"
    and "idtr s' = \<lparr>tab_limit = 2047, tab_base = sym_addr img ''idt_entries''\<rparr>"
    and "writes_to pic_ports (trace s') = writes_to pic_ports (trace s) @ pic_setup"
    and "gdt_entries s' = gdt_entries s" and "gdtr s' = gdtr s"
    and "serial_open s' = serial_open s" and "placement_address s' = placement_address s"
    and "\<And>a. \<not> print_writes img idt_msg a \<Longrightarrow> mem s' a = mem s a" and "descr.more s' = descr.more s"
proof -
  define s3 where "s3 = init_pics (s\<lparr>idt_ptr := \<lparr>tab_limit = 8 * 256 - 1, tab_base = sym_addr img ''idt_entries''\<rparr>,
      idt_entries := replicate 256 zero_gate\<rparr>)"
  have m3: "mem s3 = mem s" "cursor_pos s3 = cursor_pos s" "idt_entries s3 = replicate 256 zero_gate"
    "idt_ptr s3 = \<lparr>tab_limit = 2047, tab_base = sym_addr img ''idt_entries''\<rparr>"
    "writes_to pic_ports (trace s3) = writes_to pic_ports (trace s) @ pic_setup"
         apply (simp_all add: s3_def init_pics_def Let_def pic_setup_def)
     apply (simp_all add: outb_def)
    done
  have r3: "gdt_entries s3 = gdt_entries s" "gdtr s3 = gdtr s" "serial_open s3 = serial_open s"
    "placement_address s3 = placement_address s" "descr.more s3 = descr.more s"
    by (simp_all add: s3_def init_pics_def outb_def Let_def)
  have c3: "can_print img idt_msg s3" using assms m3 by (subst can_print_cong) simp_all
  have v: "unat ` fst ` set idt_gates = {0..<48}"
    using arg_cong [OF idt_gates_vectors, of set] by (simp add: image_image)
  have dist: "distinct (map fst idt_gates)"
  proof -
    have "distinct (map unat (map fst idt_gates))" unfolding map_map idt_gates_vectors by simp
    then show ?thesis using distinct_map [of unat "map fst idt_gates"] by blast
  qed
  have "\<forall>(n, f) \<in> set idt_gates. unat n < length (idt_entries s3)"
  proof clarify
    fix n f assume "(n, f) \<in> set idt_gates"
    then have "unat n \<in> unat ` fst ` set idt_gates" by force
    then show "unat n < length (idt_entries s3)" unfolding v m3(3) by simp
  qed
  from set_gates_spec [OF c3 dist this] obtain s4 es where s4: "set_gates img idt_gates s3 = Some s4" "can_print img idt_msg s4"
    "vga_frame (print_writes img idt_msg) (s3\<lparr>idt_entries := es\<rparr>) s4" "length es = 256"
    "\<forall>(n, f) \<in> set idt_gates. es ! unat n = gate_of (sym_addr img f) 0x08 0x8E"
    "\<forall>n. n \<notin> {0..<48} \<longrightarrow> es ! n = replicate 256 zero_gate ! n"
    unfolding v m3(3) by auto
  note f4 = vga_frame_descr [OF s4(3), simplified]
  let ?s' = "load_idt (idt_ptr s4) s4"
  have i: "init_idt img s = Some ?s'"
    using s4(1) by (simp add: init_idt_def Let_def s3_def)
  have sm: "mem ?s' = mem s4" "trace ?s' = trace s4"
    by (simp_all add: load_idt_def)
  show ?thesis
  proof (rule that [OF i])
    show "can_print img idt_msg ?s'" using s4(2) by (subst can_print_cong) (simp_all add: load_idt_def)
    show "length (idt_entries ?s') = 256" "idtr ?s' = \<lparr>tab_limit = 2047, tab_base = sym_addr img ''idt_entries''\<rparr>"
      "gdt_entries ?s' = gdt_entries s" "gdtr ?s' = gdtr s" "serial_open ?s' = serial_open s"
      "placement_address ?s' = placement_address s" "descr.more ?s' = descr.more s"
      by (simp_all add: load_idt_def f4 s4(4) m3 r3)
    show "\<forall>(n, f) \<in> set idt_gates. idt_entries ?s' ! unat n = gate_of (sym_addr img f) 0x08 0x8E"
      using s4(5) by (simp add: load_idt_def f4)
    show "\<forall>n. 48 \<le> n \<longrightarrow> n < 256 \<longrightarrow> idt_entries ?s' ! n = zero_gate"
      using s4(6) by (simp add: load_idt_def f4)
    have "writes_to pic_ports (trace s4) = writes_to pic_ports (trace s3)"
      using writes_to_frame [OF s4(3), of pic_ports] by simp
    then show "writes_to pic_ports (trace ?s') = writes_to pic_ports (trace s) @ pic_setup"
      by (simp add: sm m3)
    show "mem ?s' a = mem s a" if "\<not> print_writes img idt_msg a" for a
      using vga_frameD [OF s4(3) that] by (simp add: sm m3)
  qed
qed


section \<open>Properties\<close>

text \<open>A descriptor set by \<open>gdt_set_gate\<close> is read back by the processor as the given base, the low 20
  bits of the limit, the access byte and the four flag bits.\<close>

theorem gdt_set_gate_correct:
  assumes "num < length (gdt_entries s)"
    and "d = gdt_entry_bytes (gdt_entries (gdt_set_gate num base limit access gran s) ! num)"
  shows "seg_base d = base \<and> seg_limit d = take_bit 20 limit \<and> d ! 5 = access \<and> d ! 6 AND 0xF0 = gran AND 0xF0"
  using gdt_set_gate_entry [OF assms] by simp

definition zero_segment :: gdt_entry where
  "zero_segment = \<lparr>limit_low = 0, base_low = 0, base_middle = 0, gdt_access = 0, granularity = 0, base_high = 0\<rparr>"

definition demo_descr :: descr where
  "demo_descr = \<lparr>mem = (\<lambda>_. 0), trace = [], cursor_pos = 0, serial_open = 0, placement_address = 0x200000,
     gdt_entries = replicate 5 zero_segment, gdt_ptr = \<lparr>tab_limit = 0, tab_base = 0\<rparr>, gdtr = \<lparr>tab_limit = 0, tab_base = 0\<rparr>,
     idt_entries = [], idt_ptr = \<lparr>tab_limit = 0, tab_base = 0\<rparr>, idtr = \<lparr>tab_limit = 0, tab_base = 0\<rparr>,
     interrupt_handlers = []\<rparr>"

lemma gdt_set_gate_correct_witness:
  "seg_base (gdt_entry_bytes (gdt_entries (gdt_set_gate 2 0x12345678 0xABCDE 0x92 0xCF demo_descr) ! 2)) = 0x12345678"
  using gdt_set_gate_correct [of 2 demo_descr _ "0x12345678" "0xABCDE" "0x92" "0xCF", OF _ refl] by (simp add: demo_descr_def)

text \<open>\<open>init_gdt\<close> loads a table of a null descriptor and four segments that all start at 0 and end at
  the last byte of the 4 GiB address space: code and data, for the kernel and for user mode.\<close>

theorem init_gdt_flat:
  assumes "length (gdt_entries s) = 5"
  shows "map (\<lambda>e. let d = gdt_entry_bytes e in (seg_base d, seg_last_byte d, d ! 5)) (gdt_entries (init_gdt img s))
      = [(0, 0, 0), (0, 0xFFFFFFFF, 0x9A), (0, 0xFFFFFFFF, 0x92), (0, 0xFFFFFFFF, 0xFA), (0, 0xFFFFFFFF, 0xF2)]
    \<and> gdtr (init_gdt img s) = \<lparr>tab_limit = 39, tab_base = sym_addr img ''gdt_entries''\<rparr>"
proof -
  obtain a b c d e where l: "gdt_entries s = [a, b, c, d, e]"
    using assms by (auto simp: length_Suc_conv eval_nat_numeral)
  show ?thesis
    by (simp add: init_gdt_def Let_def gdt_set_gate_def load_gdt_def l lo16_def lo8_def gdt_entry_bytes_def
        seg_base_def seg_last_byte_def seg_limit_def byte_at_def)
qed

lemma init_gdt_flat_witness:
  "map (\<lambda>e. let d = gdt_entry_bytes e in (seg_base d, seg_last_byte d, d ! 5))
     (gdt_entries (init_gdt demo_image demo_descr)) ! 1 = (0, 0xFFFFFFFF, 0x9A)"
proof -
  have "length (gdt_entries demo_descr) = 5" by (simp add: demo_descr_def)
  from init_gdt_flat [OF this, of demo_image] show ?thesis by simp
qed

text \<open>The entry point that a vector is meant for: the exceptions have theirs in the order of their numbers, the
  lines of the two interrupt controllers follow from 32 on.\<close>

definition vector_digits :: "nat \<Rightarrow> string" where
  "vector_digits n = (if n < 10 then [''0123456789'' ! n] else [''0123456789'' ! (n div 10), ''0123456789'' ! (n mod 10)])"

definition vector_entry :: "nat \<Rightarrow> string" where
  "vector_entry v = (if v < 32 then ''isr'' @ vector_digits v else ''irq'' @ vector_digits (v - 32))"

lemma idt_gates_entries: "idt_gates = map (\<lambda>v. (of_nat v, vector_entry v)) [0..<48]"
  by (simp add: idt_gates_def vector_entry_def vector_digits_def upt_rec)

text \<open>C30: \<open>init_idt\<close> returns, and then every vector below 32 has a present 32-bit interrupt gate in the kernel's
  code segment to the exception entry with its number (\<open>isr0\<close> to \<open>isr31\<close>), every vector from 32 to 47 one to the entry
  of its interrupt line (\<open>irq0\<close> to \<open>irq15\<close>), every other vector is absent, and the table register covers all 256 entries.\<close>

theorem init_idt_installs_gates:
  assumes "can_print img idt_msg s"
  shows "\<exists>s'. init_idt img s = Some s'
    \<and> (\<forall>v < 48. let d = idt_entry_bytes (idt_entries s' ! v) in
         gate_present d \<and> gate_is_interrupt32 d \<and> gate_selector d = 8
         \<and> gate_offset d = sym_addr img (if v < 32 then ''isr'' @ vector_digits v else ''irq'' @ vector_digits (v - 32)))
    \<and> (\<forall>n. 48 \<le> n \<longrightarrow> n < 256 \<longrightarrow> \<not> gate_present (idt_entry_bytes (idt_entries s' ! n)))
    \<and> idtr s' = \<lparr>tab_limit = 2047, tab_base = sym_addr img ''idt_entries''\<rparr>"
proof -
  obtain s' where s': "init_idt img s = Some s'"
    "\<forall>(n, f) \<in> set idt_gates. idt_entries s' ! unat n = gate_of (sym_addr img f) 0x08 0x8E"
    "\<forall>n. 48 \<le> n \<longrightarrow> n < 256 \<longrightarrow> idt_entries s' ! n = zero_gate"
    "idtr s' = \<lparr>tab_limit = 2047, tab_base = sym_addr img ''idt_entries''\<rparr>"
    by (rule init_idt_spec [OF assms]) (rule that; assumption)
  have e: "idt_entries s' ! v = gate_of (sym_addr img (vector_entry v)) 0x08 0x8E" if "v < 48" for v
  proof -
    have "(of_nat v, vector_entry v) \<in> set idt_gates" using that unfolding idt_gates_entries by force
    moreover have "unat (of_nat v :: u8) = v" using that by (simp add: unat_of_nat take_bit_nat_eq_self)
    ultimately show ?thesis using bspec [OF s'(2), of "(of_nat v, vector_entry v)"] by simp
  qed
  have z: "\<not> gate_present (idt_entry_bytes zero_gate)"
    by (simp add: gate_present_def idt_entry_bytes_def zero_gate_def)
  show ?thesis
    using s' e z
    by (intro exI [of _ s']) (simp add: gate_of_decoded gate_present_def gate_is_interrupt32_def vector_entry_def Let_def)
qed

definition demo_idt_image :: image where
  "demo_idt_image = \<lparr>lit_addr = (\<lambda>l. if l = hint_d then 0x2000 else if l = hint_n then 0x2010 else if l = hint_h then 0x2020 else 0x1000),
     sym_addr = (\<lambda>x. if x = ''isr3'' then 0x100300 else if x = ''irq1'' then 0x100400 else 0x6000),
     local_addr = (\<lambda>x. if x = ''typeHint'' then 0x4000 else 0x5000)\<rparr>"

definition demo_boot :: descr where
  "demo_boot = demo_descr\<lparr>mem := write_bytes (write_bytes (write_bytes (write_bytes (\<lambda>_. 0) 0x2000 (bytes_of hint_d))
     0x2010 (bytes_of hint_n)) 0x2020 (bytes_of hint_h)) 0x1000 (bytes_of idt_msg)\<rparr>"

lemma demo_boot_can_print: "can_print demo_idt_image idt_msg demo_boot"
proof -
  have a: "lit_addr demo_idt_image hint_d = 0x2000" "lit_addr demo_idt_image hint_n = 0x2010" "lit_addr demo_idt_image hint_h = 0x2020"
    "local_addr demo_idt_image ''typeHint'' = 0x4000" "local_addr demo_idt_image ''intAsString'' = 0x5000"
    "lit_addr demo_idt_image idt_msg = 0x1000"
    by (simp_all add: demo_idt_image_def idt_msg_def hint_d_def hint_n_def hint_h_def)
  have l: "length (bytes_of idt_msg) = 21" by (simp add: idt_msg_def)
  have lay: "fprint_layout demo_idt_image 0x1000 (length (bytes_of idt_msg))"
    unfolding fprint_layout_def a l by (simp add: off_screen_def disjoint_regions_def in_region_def)
  have m: "mem demo_boot = write_bytes (write_bytes (write_bytes (write_bytes (\<lambda>_. 0) 0x2000 (bytes_of hint_d))
     0x2010 (bytes_of hint_n)) 0x2020 (bytes_of hint_h)) 0x1000 (bytes_of idt_msg)" by (simp add: demo_boot_def)
  have c: "cstr_at (mem demo_boot) 0x1000 (bytes_of idt_msg)" "cstr_at (mem demo_boot) 0x2000 (bytes_of hint_d)"
    "cstr_at (mem demo_boot) 0x2010 (bytes_of hint_n)" "cstr_at (mem demo_boot) 0x2020 (bytes_of hint_h)"
    unfolding m by (simp_all add: idt_msg_def hint_d_def hint_n_def hint_h_def bytes_of_def)
  have "cursor_pos demo_boot = 0" by (simp add: demo_boot_def demo_descr_def)
  then show ?thesis
    using lay c unfolding can_print_def fprint_ready_def literals_loaded_def on_screen_cursor a by (simp add: a)
qed

lemma init_idt_installs_gates_witness:
  "\<exists>s'. init_idt demo_idt_image demo_boot = Some s'
    \<and> gate_offset (idt_entry_bytes (idt_entries s' ! 3)) = 0x100300
    \<and> gate_offset (idt_entry_bytes (idt_entries s' ! 33)) = 0x100400
    \<and> \<not> gate_present (idt_entry_bytes (idt_entries s' ! 128))"
proof -
  have a: "sym_addr demo_idt_image (''isr'' @ vector_digits 3) = 0x100300" "sym_addr demo_idt_image (''irq'' @ vector_digits (33 - 32)) = 0x100400"
    by (simp_all add: demo_idt_image_def vector_digits_def)
  obtain s' where s': "init_idt demo_idt_image demo_boot = Some s'"
    "\<forall>v < 48. let d = idt_entry_bytes (idt_entries s' ! v) in
         gate_present d \<and> gate_is_interrupt32 d \<and> gate_selector d = 8
         \<and> gate_offset d = sym_addr demo_idt_image (if v < 32 then ''isr'' @ vector_digits v else ''irq'' @ vector_digits (v - 32))"
    "\<forall>n. 48 \<le> n \<longrightarrow> n < 256 \<longrightarrow> \<not> gate_present (idt_entry_bytes (idt_entries s' ! n))"
    using init_idt_installs_gates [OF demo_boot_can_print] by blast
  have "gate_offset (idt_entry_bytes (idt_entries s' ! 3)) = 0x100300" "gate_offset (idt_entry_bytes (idt_entries s' ! 33)) = 0x100400"
    using s'(2) [rule_format, of 3] s'(2) [rule_format, of 33] a by (simp_all add: Let_def)
  then show ?thesis using s'(1,3) by (intro exI [of _ s']) simp
qed

text \<open>\<open>init_idt\<close> initialises both interrupt controllers in the order they require (ICW1 to ICW4),
  with the vectors moved to 32 and 40, the cascade on line 2, and every line unmasked.\<close>

theorem init_idt_programs_pics:
  assumes "can_print img idt_msg s"
  shows "\<exists>s'. init_idt img s = Some s' \<and> writes_to pic_ports (trace s') = writes_to pic_ports (trace s) @ pic_setup"
  using init_idt_spec [OF assms] by metis

lemma init_idt_programs_pics_witness:
  "\<exists>s'. init_idt demo_idt_image demo_boot = Some s' \<and> writes_to pic_ports (trace s') = pic_setup"
  using init_idt_programs_pics [OF demo_boot_can_print] by (simp add: demo_boot_def demo_descr_def)

end
