(* ===== verification/Interrupts.thy ===== *)
theory Interrupts
  imports Descriptors
begin

text \<open>
  Interrupt dispatch (src/isr.c), what an interrupt keeps when its handlers keep it, and the timer
  (src/timer.c).
\<close>

section \<open>Interrupt dispatch\<close>

record registers =
  ds :: u32
  edi :: u32
  esi :: u32
  ebp :: u32
  useless_value :: u32
  ebx :: u32
  edx :: u32
  ecx :: u32
  eax :: u32
  int_no :: u32
  err_code :: u32
  eip :: u32
  cs :: u32
  eflags :: u32
  esp :: u32
  ss :: u32

text \<open>
  A call through \<open>interrupt_handlers\<close>. What the stored functions do is the argument \<open>call\<close>, given
  when all handlers are defined; a handler can also stay in an endless loop. An index beyond the 256
  elements has no defined result.
\<close>

type_synonym 's handler_call = "isr_t \<Rightarrow> registers \<Rightarrow> 's \<Rightarrow> 's outcome option"

definition call_handler :: "'a descr_scheme handler_call \<Rightarrow> registers \<Rightarrow> 'a descr_scheme \<Rightarrow> 'a descr_scheme outcome option" where
  "call_handler call regs s =
     (if unat (int_no regs) < length (interrupt_handlers s)
      then let handler = interrupt_handlers s ! unat (int_no regs)
           in if handler \<noteq> NULL then call handler regs s else Some (Returns s)
      else None)"

definition isr_handler :: "'a descr_scheme handler_call \<Rightarrow> registers \<Rightarrow> 'a descr_scheme \<Rightarrow> 'a descr_scheme outcome option" where
  "isr_handler call regs s = call_handler call regs s"

definition irq_handler :: "'a descr_scheme handler_call \<Rightarrow> registers \<Rightarrow> 'a descr_scheme \<Rightarrow> 'a descr_scheme outcome option" where
  "irq_handler call regs s =
     (let s1 = (if int_no regs \<ge> 40 then outb 0xA0 0x20 s else s);
          s2 = outb 0x20 0x20 s1
      in call_handler call regs s2)"

definition register_interrupt_handler :: "u8 \<Rightarrow> isr_t \<Rightarrow> 'a descr_scheme \<Rightarrow> 'a descr_scheme" where
  "register_interrupt_handler n handler s =
     s\<lparr>interrupt_handlers := (interrupt_handlers s)[unat n := handler]\<rparr>"

text \<open>
  What an interrupt keeps when every stored handler keeps it: an invariant \<open>inv\<close> that port output does
  not disturb and that knows the table to have 256 entries.
\<close>

locale dispatcher =
  fixes call :: "'a descr_scheme handler_call" and inv :: "'a descr_scheme \<Rightarrow> bool"
  assumes inv_handlers: "inv s \<Longrightarrow> length (interrupt_handlers s) = 256"
    and inv_outb: "inv s \<Longrightarrow> inv (outb p v s)"
    and handler_keeps: "inv s \<Longrightarrow> h \<in> set (interrupt_handlers s) \<Longrightarrow> h \<noteq> NULL \<Longrightarrow>
      \<exists>s'. call h regs s = Some (Returns s') \<and> inv s'"
begin

lemma call_keeps:
  assumes "inv s" and "unat (int_no regs) < 256"
  shows "\<exists>s'. call_handler call regs s = Some (Returns s') \<and> inv s'"
proof -
  have l: "unat (int_no regs) < length (interrupt_handlers s)" using assms inv_handlers by simp
  then have "interrupt_handlers s ! unat (int_no regs) \<in> set (interrupt_handlers s)" by simp
  with handler_keeps [OF assms(1) this] l assms(1) show ?thesis
    by (auto simp: call_handler_def Let_def)
qed

lemma isr_keeps:
  "inv s \<Longrightarrow> unat (int_no regs) < 256 \<Longrightarrow> \<exists>s'. isr_handler call regs s = Some (Returns s') \<and> inv s'"
  unfolding isr_handler_def by (rule call_keeps)

lemma irq_keeps:
  assumes "inv s" and "unat (int_no regs) < 256"
  shows "\<exists>s'. irq_handler call regs s = Some (Returns s') \<and> inv s'"
  unfolding irq_handler_def Let_def
  by (rule call_keeps) (use assms in \<open>auto intro: inv_outb\<close>)

end

section \<open>Formatted messages in general\<close>

lemma print_fmt:
  assumes "can_print img msg s" and "bytes_of msg = format_bytes fs" and "length msg \<le> 100"
    and "\<forall>f \<in> set fs. fmt_ok f" and "args_ok fs args 0"
  obtains s' where "fb_fprint_str img (lit_addr img msg) args fg bg s = Some s'"
    and "vga_frame (print_writes img msg) s s'" and "on_screen (display s')" and "can_print img msg s'"
    and "display s' = show_format fs args 0 (fb_attr fg bg) (display s)"
proof -
  have len: "length (format_bytes fs) \<le> 14000"
    using assms(3) by (simp flip: assms(2))
  obtain s' where s': "fb_fprint_str img (lit_addr img msg) args fg bg s = Some s'"
    "display s' = show_format fs args 0 (fb_attr fg bg) (display s)"
    "vga_frame (fprint_writes img (length (format_bytes fs))) s s'"
    using fb_fprint_str_spec [OF _ assms(4) len _ assms(5), of img s "lit_addr img msg" fg bg] assms(1,2)
    by (metis can_print_def)
  have "length (format_bytes fs) = length msg" by (simp flip: assms(2))
  then have f: "vga_frame (print_writes img msg) s s'" using s'(3) by (simp add: print_writes_def)
  moreover have on: "on_screen (display s')"
    unfolding s'(2) using assms(1) by (simp add: can_print_def show_format_on_screen)
  ultimately show ?thesis using that s'(1,2) can_print_frame [OF assms(1) _ f on] assms(3) by simp
qed

section \<open>The timer\<close>

record timer = descr +
  tick :: u32

definition timer_tick :: "registers \<Rightarrow> 'a timer_scheme \<Rightarrow> 'a timer_scheme" where
  "timer_tick regs s = s\<lparr>tick := tick s + 1\<rparr>"

definition timer_msg :: string where
  "timer_msg = ''Initializing Timer {%d} -> {%'' @ [CHR 0x0A] @ ''}''"

text \<open>A division by zero raises an exception; the result is then undefined.\<close>

definition init_timer :: "image \<Rightarrow> u32 \<Rightarrow> 'a timer_scheme \<Rightarrow> 'a timer_scheme option" where
  "init_timer img frequency s =
     do {
       s1 \<leftarrow> fb_fprint_str img (lit_addr img timer_msg) [frequency] 1 1 s;
       let s2 = register_interrupt_handler 32 timer_callback s1;
       if frequency = 0 then None
       else
         let divisor = 1193180 div frequency;
             s3 = outb 0x43 0x36 s2;
             l = lo8 (divisor AND 0xFF);
             h = lo8 (drop_bit 8 divisor AND 0xFF);
             s4 = outb 0x40 l s3
         in Some (outb 0x40 h s4)
     }"

definition timer_fmt :: "fmt list" where
  "timer_fmt = map Chr (bytes_of ''Initializing Timer '') @ [Dec] @ map Chr (bytes_of '' -> '') @ [Newline]"

lemma timer_fmt_bytes: "bytes_of timer_msg = format_bytes timer_fmt"
  by (simp add: timer_fmt_def format_bytes_def timer_msg_def bytes_of_def hint_d_def hint_n_def)

lemma timer_fmt_ok: "\<forall>f \<in> set timer_fmt. fmt_ok f" "args_ok timer_fmt [v] 0" "length timer_msg \<le> 100"
  by (simp_all add: timer_fmt_def args_ok_chars bytes_of_def timer_msg_def)

text \<open>What the interval timer makes of the bytes: command 0x36 selects channel 0, low byte then high.\<close>

definition pit_writes :: "u32 \<Rightarrow> io_event list" where
  "pit_writes d = [Out 0x43 0x36, Out 0x40 (lo8 (d AND 0xFF)), Out 0x40 (lo8 (drop_bit 8 d AND 0xFF))]"

definition pit_reload :: "io_event list \<Rightarrow> nat" where
  "pit_reload t = (case rev t of Out p h # Out q l # _ \<Rightarrow> unat l + 256 * unat h | _ \<Rightarrow> 0)"

lemma unat_lo8_mask: "unat (lo8 (x AND 0xFF)) = unat x mod 256"
proof -
  have m: "(0xFF :: u32) = mask 8" by (simp add: mask_eq_exp_minus_1)
  have "lo8 (take_bit 8 x) = ucast x" unfolding lo8_def by transfer simp
  then show ?thesis
    unfolding m take_bit_eq_mask [symmetric]
    by (simp add: lo8_def unsigned_ucast_eq unsigned_take_bit_eq take_bit_nat_def)
qed

lemma pit_reload_writes: "pit_reload (pit_writes d) = unat d mod 65536"
proof -
  have "unat (lo8 (drop_bit 8 d AND 0xFF)) = unat d div 256 mod 256"
    unfolding unat_lo8_mask by (simp add: unat_drop_bit_eq drop_bit_nat_def)
  moreover have "unat d mod 256 + 256 * (unat d div 256 mod 256) = unat d mod 65536"
    using mod_mult2_eq [of "unat d" 256 256] by simp
  ultimately show ?thesis by (simp add: pit_reload_def pit_writes_def unat_lo8_mask)
qed

lemma writes_to_pit: "writes_to [0x40, 0x43] (rev (pit_writes d) @ t) = writes_to [0x40, 0x43] t @ pit_writes d"
  by (simp add: pit_writes_def)

lemma init_timer_spec:
  assumes "can_print img timer_msg s" and "f \<noteq> 0"
  obtains s1 where "init_timer img f s = Some (register_interrupt_handler 32 timer_callback
      (s1\<lparr>trace := rev (pit_writes (1193180 div f)) @ trace s1\<rparr>))"
    and "vga_frame (print_writes img timer_msg) s s1" and "on_screen (display s1)"
proof -
  obtain s1 where s1: "fb_fprint_str img (lit_addr img timer_msg) [f] 1 1 s = Some s1"
    "vga_frame (print_writes img timer_msg) s s1" "on_screen (display s1)"
    by (rule print_fmt [OF assms(1) timer_fmt_bytes timer_fmt_ok(3,1,2)])
  have "init_timer img f s = Some (register_interrupt_handler 32 timer_callback
      (s1\<lparr>trace := rev (pit_writes (1193180 div f)) @ trace s1\<rparr>))"
    using s1(1) assms(2)
    by (simp add: init_timer_def Let_def register_interrupt_handler_def outb_def pit_writes_def)
  then show ?thesis using that s1 by blast
qed

section \<open>Properties\<close>

text \<open>Every interrupt request is acknowledged before its handler runs, at the slave controller first
  when it came through it, and at the master always.\<close>

theorem irq_handler_acknowledges:
  "\<exists>s1. irq_handler call regs s = call_handler call regs s1
    \<and> trace s1 = (if 40 \<le> int_no regs then [Out 0x20 0x20, Out 0xA0 0x20] else [Out 0x20 0x20]) @ trace s
    \<and> s1\<lparr>trace := trace s\<rparr> = s"
  by (rule exI [of _ "outb 0x20 0x20 (if 40 \<le> int_no regs then outb 0xA0 0x20 s else s)"])
    (simp add: irq_handler_def Let_def outb_def)

text \<open>\<open>init_timer\<close> installs the tick handler on vector 32 and programs a reload value \<open>d\<close> that is
  the whole quotient of the timer's clock by the frequency, provided the frequency is at least 19.\<close>

theorem init_timer_programs_pit:
  assumes "can_print img timer_msg s" and "19 \<le> f" and "f \<le> 1193180" and "length (interrupt_handlers s) = 256"
  shows "\<exists>s' d. init_timer img f s = Some s' \<and> interrupt_handlers s' ! 32 = timer_callback
    \<and> writes_to [0x40, 0x43] (trace s') = writes_to [0x40, 0x43] (trace s) @ pit_writes d
    \<and> pit_reload (pit_writes d) * unat f \<le> 1193180 \<and> 1193180 < (pit_reload (pit_writes d) + 1) * unat f"
proof -
  have "f \<noteq> 0" using assms(2) by (auto simp: word_le_nat_alt)
  from init_timer_spec [OF assms(1) this] obtain s1 where s1: "init_timer img f s = Some (register_interrupt_handler 32 timer_callback
      (s1\<lparr>trace := rev (pit_writes (1193180 div f)) @ trace s1\<rparr>))"
    "vga_frame (print_writes img timer_msg) s s1" by metis
  let ?d = "1193180 div f"
  have d: "unat ?d = 1193180 div unat f" by (simp add: unat_div)
  have f: "19 \<le> unat f" using assms(2) by (simp add: word_le_nat_alt)
  then have "1193180 div unat f \<le> 1193180 div 19" by (intro div_le_mono2) auto
  then have r: "pit_reload (pit_writes ?d) = 1193180 div unat f" by (simp add: pit_reload_writes d)
  have "1193180 div unat f * unat f \<le> 1193180" by simp
  moreover have "1193180 < (1193180 div unat f + 1) * unat f"
    using div_mult_mod_eq [of 1193180 "unat f"] mod_less_divisor [of "unat f" 1193180] f
    unfolding distrib_right by linarith
  moreover have "writes_to [0x40, 0x43] (trace s1) = writes_to [0x40, 0x43] (trace s)"
    using writes_to_frame [OF s1(2), of "[0x40, 0x43]"] by simp
  moreover have "interrupt_handlers s1 = interrupt_handlers s" by (rule vga_frame_descr [OF s1(2)])
  ultimately show ?thesis
    using assms(4) unfolding s1(1)
    by (intro exI conjI) (auto simp: register_interrupt_handler_def r writes_to_pit)
qed

definition demo_timer :: timer where
  "demo_timer = \<lparr>mem = write_bytes (write_bytes (write_bytes (write_bytes (\<lambda>_. 0) 0x2000 (bytes_of hint_d))
     0x2010 (bytes_of hint_n)) 0x2020 (bytes_of hint_h)) 0x1000 (bytes_of timer_msg), trace = [], cursor_pos = 0,
     serial_open = 0, placement_address = 0x200000, gdt_entries = [], gdt_ptr = \<lparr>tab_limit = 0, tab_base = 0\<rparr>,
     gdtr = \<lparr>tab_limit = 0, tab_base = 0\<rparr>, idt_entries = [], idt_ptr = \<lparr>tab_limit = 0, tab_base = 0\<rparr>,
     idtr = \<lparr>tab_limit = 0, tab_base = 0\<rparr>, interrupt_handlers = replicate 256 NULL, tick = 0\<rparr>"

lemma demo_timer_can_print: "can_print demo_idt_image timer_msg demo_timer"
proof -
  have a: "lit_addr demo_idt_image hint_d = 0x2000" "lit_addr demo_idt_image hint_n = 0x2010" "lit_addr demo_idt_image hint_h = 0x2020"
    "local_addr demo_idt_image ''typeHint'' = 0x4000" "local_addr demo_idt_image ''intAsString'' = 0x5000"
    "lit_addr demo_idt_image timer_msg = 0x1000"
    by (simp_all add: demo_idt_image_def timer_msg_def hint_d_def hint_n_def hint_h_def)
  have l: "length (bytes_of timer_msg) = 31" by (simp add: timer_msg_def)
  have lay: "fprint_layout demo_idt_image 0x1000 (length (bytes_of timer_msg))"
    unfolding fprint_layout_def a l by (simp add: off_screen_def disjoint_regions_def in_region_def)
  have m: "mem demo_timer = write_bytes (write_bytes (write_bytes (write_bytes (\<lambda>_. 0) 0x2000 (bytes_of hint_d))
     0x2010 (bytes_of hint_n)) 0x2020 (bytes_of hint_h)) 0x1000 (bytes_of timer_msg)" by (simp add: demo_timer_def)
  have c: "cstr_at (mem demo_timer) 0x1000 (bytes_of timer_msg)" "cstr_at (mem demo_timer) 0x2000 (bytes_of hint_d)"
    "cstr_at (mem demo_timer) 0x2010 (bytes_of hint_n)" "cstr_at (mem demo_timer) 0x2020 (bytes_of hint_h)"
    unfolding m by (simp_all add: timer_msg_def hint_d_def hint_n_def hint_h_def bytes_of_def)
  have "cursor_pos demo_timer = 0" by (simp add: demo_timer_def)
  then show ?thesis
    using lay c unfolding can_print_def fprint_ready_def literals_loaded_def on_screen_cursor a by (simp add: a)
qed

lemma init_timer_programs_pit_witness:
  "\<exists>s' d. init_timer demo_idt_image 50 demo_timer = Some s' \<and> interrupt_handlers s' ! 32 = timer_callback
    \<and> pit_reload (pit_writes d) * 50 \<le> 1193180 \<and> 1193180 < (pit_reload (pit_writes d) + 1) * 50"
proof -
  have "length (interrupt_handlers demo_timer) = 256" by (simp add: demo_timer_def)
  from init_timer_programs_pit [OF demo_timer_can_print _ _ this, of 50] show ?thesis by auto
qed

text \<open>Below 19 Hz the quotient does not fit into the 16 bits that are sent, and the timer gets it
  modulo 65536; no frequency is refused.\<close>

theorem init_timer_truncates_divisor:
  assumes "can_print img timer_msg s" and "f \<noteq> 0"
  shows "\<exists>s'. init_timer img f s = Some s'
    \<and> writes_to [0x40, 0x43] (trace s') = writes_to [0x40, 0x43] (trace s) @ pit_writes (1193180 div f)
    \<and> pit_reload (pit_writes (1193180 div f)) = (1193180 div unat f) mod 65536"
proof -
  obtain s1 where s1: "init_timer img f s = Some (register_interrupt_handler 32 timer_callback
      (s1\<lparr>trace := rev (pit_writes (1193180 div f)) @ trace s1\<rparr>))"
    "vga_frame (print_writes img timer_msg) s s1" using init_timer_spec [OF assms] by metis
  have "writes_to [0x40, 0x43] (trace s1) = writes_to [0x40, 0x43] (trace s)"
    using writes_to_frame [OF s1(2), of "[0x40, 0x43]"] by simp
  then show ?thesis
    unfolding s1(1) by (intro exI conjI) (auto simp: register_interrupt_handler_def writes_to_pit pit_reload_writes unat_div)
qed

lemma init_timer_truncates_divisor_witness:
  "\<exists>s'. init_timer demo_idt_image 18 demo_timer = Some s' \<and> pit_reload (pit_writes (1193180 div 18)) = 751"
  using init_timer_truncates_divisor [OF demo_timer_can_print, of 18] by auto

end
