(* ===== verification/Paging.thy ===== *)
theory Paging
  imports Interrupts
begin

text \<open>
  Paging (src/paging.c): the two directories and two tables, the routine that fills them and turns
  paging on, and the handler of page faults; then the processor's two-level translation through the
  tables, by which the setup is judged. The tables are the global arrays of the source, each a list of
  1024 words; the control registers are fields.
\<close>

section \<open>Tables and control registers\<close>

record paging = timer +
  kernel_page_directory :: "u32 list"
  kernel_page_table :: "u32 list"
  other_page_directory :: "u32 list"
  other_page_table :: "u32 list"
  directories :: "u32 list"
  cr0 :: u32
  cr2 :: u32
  cr3 :: u32

definition loadPageDirectory :: "u32 \<Rightarrow> 'a paging_scheme \<Rightarrow> 'a paging_scheme" where
  "loadPageDirectory pd s = s\<lparr>cr3 := pd\<rparr>"

definition enablePaging :: "'a paging_scheme \<Rightarrow> 'a paging_scheme" where
  "enablePaging s = s\<lparr>cr0 := cr0 s OR 0x80000000\<rparr>"

definition enable_paging :: "'a paging_scheme \<Rightarrow> 'a paging_scheme" where
  "enable_paging s = (let c = cr0 s; c = c OR 0x80000000 in s\<lparr>cr0 := c\<rparr>)"

definition pd_msg :: string where "pd_msg = ''Loading Page Directory {%h}''"

definition switch_page_directory :: "image \<Rightarrow> u32 \<Rightarrow> 'a paging_scheme \<Rightarrow> 'a paging_scheme option" where
  "switch_page_directory img pd s =
     do {
       s1 \<leftarrow> fb_fprint_str img (lit_addr img pd_msg) [pd] 0 15 s;
       let s2 = fb_move_cursor_to_start_of_row (fb_offset_cursor 79 s1);
       Some (loadPageDirectory pd s2)
     }"

definition switch_page_directory_i :: "image \<Rightarrow> u32 \<Rightarrow> 'a paging_scheme \<Rightarrow> 'a paging_scheme option" where
  "switch_page_directory_i img i s =
     (if unat i < length (directories s) then switch_page_directory img (directories s ! unat i) s else None)"

text \<open>A line of the setup: text, then \<open>step\<close> cells on, then the start of that row.\<close>

definition paging_line :: "image \<Rightarrow> string \<Rightarrow> u32 \<Rightarrow> 'a vga_scheme \<Rightarrow> 'a vga_scheme option" where
  "paging_line img msg step s =
     do {
       s1 \<leftarrow> fb_print_str (lit_addr img msg) 0 15 s;
       Some (fb_move_cursor_to_start_of_row (fb_offset_cursor step s1))
     }"

definition clear_directories :: "'a paging_scheme \<Rightarrow> 'a paging_scheme" where
  "clear_directories s =
     for_n 0 1024 (\<lambda>i s.
       s\<lparr>kernel_page_directory := (kernel_page_directory s)[i := 0x00000002],
         other_page_directory := (other_page_directory s)[i := 0x00000002]\<rparr>) s"

definition fill_tables :: "'a paging_scheme \<Rightarrow> 'a paging_scheme" where
  "fill_tables s =
     for_n 0 1024 (\<lambda>j s.
       s\<lparr>kernel_page_table := (kernel_page_table s)[j := (of_nat j * 0x1000) OR 3],
         other_page_table := (other_page_table s)[j := (of_nat j * 0x1000) OR 3]\<rparr>) s"

definition initialise_paging :: "image \<Rightarrow> 'a paging_scheme \<Rightarrow> 'a paging_scheme option" where
  "initialise_paging img s =
     do {
       let s = fb_move_cursor 0 (fb_clear 0 0 s);
       s \<leftarrow> paging_line img ''Setting up Paging...'' 80 s;
       s \<leftarrow> paging_line img ''Page Directory Setup...'' 79 s;
       let s = clear_directories s;
       let s = s\<lparr>directories := (directories s)[0 := sym_addr img ''kernel_page_directory'']\<rparr>;
       let s = s\<lparr>directories := (directories s)[1 := sym_addr img ''other_page_directory'']\<rparr>;
       let s = delay 9 s;
       s \<leftarrow> paging_line img ''Page Table Setup...'' 79 s;
       let s = fill_tables s;
       let s = delay 9 s;
       s \<leftarrow> paging_line img ''Insert Page Table -> Page Directory...'' 79 s;
       let s = s\<lparr>kernel_page_directory := (kernel_page_directory s)[0 := sym_addr img ''kernel_page_table'' OR 3]\<rparr>;
       let s = s\<lparr>other_page_directory := (other_page_directory s)[0 := sym_addr img ''other_page_table'' OR 3]\<rparr>;
       let s = delay 3 (delay 9 s);
       s \<leftarrow> switch_page_directory_i img 0 s;
       let s = delay 9 s;
       s \<leftarrow> paging_line img ''Enabling Paging Mode...'' 79 s;
       let s = delay 3 s;
       let s = enablePaging s;
       let s = delay 3 s;
       paging_line img ''Done?...'' 79 s
     }"

section \<open>Page faults\<close>

text \<open>The literals that \<open>page_fault\<close> appends; \<open>message\<close> is a local array of 64 bytes, \<open>hex\<close> of 9.\<close>

definition store_text :: "u32 \<Rightarrow> string \<Rightarrow> nat \<Rightarrow> memory \<Rightarrow> memory" where
  "store_text p t n m = write_bytes m p (bytes_of t @ replicate (n - length t) 0)"

definition append_if :: "image \<Rightarrow> bool \<Rightarrow> string \<Rightarrow> u32 \<Rightarrow> memory \<Rightarrow> memory option" where
  "append_if img c t message m = (if c then strcat m message (lit_addr img t) message else Some m)"

definition page_fault_handler :: "image \<Rightarrow> registers \<Rightarrow> 'a paging_scheme \<Rightarrow> 'a paging_scheme outcome option" where
  "page_fault_handler img regs s =
     do {
       let faulting_address = cr2 s;
       let present = (if err_code regs AND 0x1 = 0 then 1 else 0 :: u32);
       let rw = err_code regs AND 0x2;
       let us = err_code regs AND 0x4;
       let reserved = err_code regs AND 0x8;
       let message = local_addr img ''message'';
       let m = store_text message ''Page Fault ( '' 64 (mem s);
       m \<leftarrow> append_if img (present \<noteq> 0) ''present '' message m;
       m \<leftarrow> append_if img (rw \<noteq> 0) ''read-only '' message m;
       m \<leftarrow> append_if img (us \<noteq> 0) ''user-mode '' message m;
       m \<leftarrow> append_if img (reserved \<noteq> 0) ''reserved '' message m;
       m \<leftarrow> strcat m message (lit_addr img '') at 0x'') message;
       let hex = local_addr img ''hex'';
       let m = int_to_hex m faulting_address hex;
       m \<leftarrow> strcat m message hex message;
       PANIC message (s\<lparr>mem := m\<rparr>)
     }"

section \<open>Address translation\<close>

text \<open>
  The processor's two-level walk over the tables of the model: the word at a physical address that lies
  in one of the four arrays.
\<close>

definition table_word :: "u32 \<Rightarrow> u32 list \<Rightarrow> u32 \<Rightarrow> u32 option" where
  "table_word base tab a =
     (let i = unat (a - base) div 4 in if unat (a - base) mod 4 = 0 \<and> i < length tab then Some (tab ! i) else None)"

definition phys_word :: "image \<Rightarrow> 'a paging_scheme \<Rightarrow> u32 \<Rightarrow> u32 option" where
  "phys_word img s a =
     (case table_word (sym_addr img ''kernel_page_directory'') (kernel_page_directory s) a of Some v \<Rightarrow> Some v
      | None \<Rightarrow> (case table_word (sym_addr img ''other_page_directory'') (other_page_directory s) a of Some v \<Rightarrow> Some v
      | None \<Rightarrow> (case table_word (sym_addr img ''kernel_page_table'') (kernel_page_table s) a of Some v \<Rightarrow> Some v
      | None \<Rightarrow> table_word (sym_addr img ''other_page_table'') (other_page_table s) a)))"

definition walk :: "image \<Rightarrow> 'a paging_scheme \<Rightarrow> u32 \<Rightarrow> u32 option" where
  "walk img s va =
     do {
       pde \<leftarrow> phys_word img s ((cr3 s AND 0xFFFFF000) + 4 * drop_bit 22 va);
       if bit pde 0 then
         do {
           pte \<leftarrow> phys_word img s ((pde AND 0xFFFFF000) + 4 * (drop_bit 12 va AND 0x3FF));
           if bit pte 0 then Some ((pte AND 0xFFFFF000) OR (va AND 0xFFF)) else None
         }
       else None
     }"

definition translate :: "image \<Rightarrow> 'a paging_scheme \<Rightarrow> u32 \<Rightarrow> u32 option" where
  "translate img s va = (if bit (cr0 s) 31 then walk img s va else Some va)"

text \<open>Where the linker put the tables: on page boundaries and on different pages.\<close>

definition tables_linked :: "image \<Rightarrow> bool" where
  "tables_linked img \<longleftrightarrow>
     (let ts = map (sym_addr img) [''kernel_page_directory'', ''other_page_directory'', ''kernel_page_table'', ''other_page_table'']
      in distinct ts \<and> (\<forall>t \<in> set ts. t AND 0xFFF = 0))"

text \<open>Tables that map the first 4 MiB to themselves through page table \<open>pt\<close>.\<close>

definition identity_table :: "u32 list" where
  "identity_table = map (\<lambda>j. (of_nat j * 0x1000) OR 3) [0..<1024]"

definition one_entry_directory :: "u32 \<Rightarrow> u32 list" where
  "one_entry_directory pt = (pt OR 3) # replicate 1023 2"

definition tables_ready :: "image \<Rightarrow> 'a paging_scheme \<Rightarrow> bool" where
  "tables_ready img s \<longleftrightarrow>
     kernel_page_directory s = one_entry_directory (sym_addr img ''kernel_page_table'')
     \<and> other_page_directory s = one_entry_directory (sym_addr img ''other_page_table'')
     \<and> kernel_page_table s = identity_table \<and> other_page_table s = identity_table
     \<and> length (directories s) = 1024 \<and> directories s ! 0 = sym_addr img ''kernel_page_directory''
     \<and> directories s ! 1 = sym_addr img ''other_page_directory''"

lemma page_aligned: "t AND 0xFFF = (0 :: u32) \<Longrightarrow> unat t mod 4096 = 0"
proof -
  have m: "(0xFFF :: u32) = mask 12" by (simp add: mask_eq_exp_minus_1)
  assume "t AND 0xFFF = 0"
  then have "unat (take_bit 12 t) = 0" unfolding m take_bit_eq_mask by simp
  then show ?thesis by (simp add: unsigned_take_bit_eq take_bit_nat_def)
qed

lemma table_word_hit:
  assumes "length tab = 1024" and "i < 1024"
  shows "table_word base tab (base + 4 * of_nat i) = Some (tab ! i)"
proof -
  have "unat (base + 4 * of_nat i - base) = 4 * i"
    using assms(2) unat_of_nat_u32 [of "4 * i"] by simp
  then show ?thesis using assms by (simp add: table_word_def Let_def)
qed

lemma table_word_miss:
  assumes "t AND 0xFFF = 0" and "base AND 0xFFF = 0" and "t \<noteq> base" and "length tab = 1024" and "i < 1024"
  shows "table_word base tab (t + 4 * of_nat i) = None"
proof (rule ccontr)
  assume "table_word base tab (t + 4 * of_nat i) \<noteq> None"
  then have lt: "unat (t + 4 * of_nat i - base) < 4096"
    using assms(4) by (auto simp: table_word_def Let_def split: if_splits)
  define k where "k = unat (t - base)"
  have "(t - base) AND 0xFFF = 0"
  proof -
    have m: "(0xFFF :: u32) = mask 12" by (simp add: mask_eq_exp_minus_1)
    have "take_bit 12 t = 0" "take_bit 12 base = 0" using assms(1,2) unfolding m take_bit_eq_mask by simp_all
    then have "take_bit 12 (t - base) = 0" unfolding take_bit_eq_0_iff by (rule dvd_diff)
    then show ?thesis unfolding m take_bit_eq_mask .
  qed
  then have k: "k mod 4096 = 0" unfolding k_def by (rule page_aligned)
  have k0: "k \<noteq> 0" using assms(3) by (simp add: k_def unat_eq_0)
  have kl: "k < 4294967296" unfolding k_def by (rule unat_u32_less)
  obtain q where q: "k = 4096 * q" using k by (metis mod_0_imp_dvd dvdE)
  then have "0 < q" "q < 1048576" using k0 kl by simp_all
  then have "k \<ge> 4096" "k + 4096 \<le> 4294967296" unfolding q by simp_all
  moreover have "unat (t + 4 * of_nat i - base) = (k + 4 * i) mod 4294967296"
  proof -
    have "t + 4 * of_nat i - base = (t - base) + of_nat (4 * i)" by simp
    then show ?thesis using assms(5) by (simp only: unat_word_ariths unat_of_nat_u32 k_def) simp
  qed
  ultimately show False using lt assms(5) by simp
qed


lemma entry_bits:
  assumes "t AND 0xFFF = (0 :: u32)"
  shows "(t OR 3) AND 0xFFFFF000 = t" and "bit (t OR 3) 0" and "t AND 0xFFFFF000 = t"
proof -
  have m: "(0xFFF :: u32) = mask 12" "(0xFFFFF000 :: u32) = NOT (mask 12)" by (simp_all add: mask_eq_exp_minus_1)
  have z: "12 \<le> n" if "bit t n" for n
  proof (rule ccontr)
    assume "\<not> 12 \<le> n"
    then have "bit (t AND 0xFFF) n \<longleftrightarrow> bit t n" unfolding m by (simp add: bit_simps)
    then show False using that by (simp add: assms)
  qed
  have three: "(3 :: u32) = mask 2" by (simp add: mask_eq_exp_minus_1)
  show "(t OR 3) AND 0xFFFFF000 = t"
    unfolding m three by (intro bit_word_eqI) (use z in \<open>fastforce simp: bit_simps not_le dest: leD\<close>)
  show "bit (t OR 3) 0" by (simp add: bit_simps)
  show "t AND 0xFFFFF000 = t"
    unfolding m by (intro bit_word_eqI) (use z in \<open>fastforce simp: bit_simps not_le dest: leD\<close>)
qed

lemma page_number_aligned: "(of_nat j * 0x1000 :: u32) AND 0xFFF = 0"
proof -
  have m: "(0xFFF :: u32) = mask 12" by (simp add: mask_eq_exp_minus_1)
  have "(2 :: u32) ^ 12 dvd of_nat j * 0x1000" by simp
  then show ?thesis unfolding m take_bit_eq_mask [symmetric] take_bit_eq_0_iff .
qed

lemma low_address:
  assumes "va < (0x400000 :: u32)"
  shows "drop_bit 22 va = 0" and "unat (drop_bit 12 va AND 0x3FF) < 1024"
    and "(of_nat (unat (drop_bit 12 va AND 0x3FF)) * 0x1000) OR (va AND 0xFFF) = va"
proof -
  have u: "unat va < 4194304" using assms by (simp add: word_less_nat_alt)
  have "unat (drop_bit 22 va) = 0" using u by (simp add: unat_drop_bit_eq drop_bit_nat_def)
  then show d: "drop_bit 22 va = 0" by (simp add: unat_eq_0)
  have m: "(0x3FF :: u32) = mask 10" "(0xFFF :: u32) = mask 12" by (simp_all add: mask_eq_exp_minus_1)
  show "unat (drop_bit 12 va AND 0x3FF) < 1024"
    unfolding m take_bit_eq_mask [symmetric] by (simp add: unsigned_take_bit_eq take_bit_nat_def)
  have z: "n - 12 < 10" if "bit va n" "12 \<le> n" for n
  proof (rule ccontr)
    assume "\<not> n - 12 < 10"
    then have "bit va n = bit (drop_bit 22 va) (n - 22)" by (simp add: bit_simps)
    then show False using that by (simp add: d)
  qed
  have p: "x * 0x1000 = push_bit 12 x" for x :: u32 by (simp add: push_bit_eq_mult)
  show "(of_nat (unat (drop_bit 12 va AND 0x3FF)) * 0x1000) OR (va AND 0xFFF) = va"
    unfolding p m using z by (intro bit_word_eqI) (auto simp: bit_simps)
qed

lemma high_address:
  assumes "\<not> va < (0x400000 :: u32)"
  obtains i where "drop_bit 22 va = of_nat (Suc i)" and "Suc i < 1024"
proof -
  have "\<not> unat va < 4194304" using assms by (simp add: word_less_nat_alt)
  then have "unat (drop_bit 22 va) \<noteq> 0" by (simp add: unat_drop_bit_eq drop_bit_nat_def div_eq_0_iff)
  moreover have "unat (drop_bit 22 va) < 1024"
    using unat_u32_less [of va] by (simp add: unat_drop_bit_eq drop_bit_nat_def less_mult_imp_div_less)
  moreover have "drop_bit 22 va = of_nat (unat (drop_bit 22 va))" by simp
  ultimately show ?thesis using that by (metis not0_implies_Suc)
qed

text \<open>One of the two tables is loaded.\<close>

lemma phys_word_tables:
  assumes "tables_linked img" and "tables_ready img s" and "i < 1024"
  shows "phys_word img s (sym_addr img ''kernel_page_directory'' + 4 * of_nat i) = Some (one_entry_directory (sym_addr img ''kernel_page_table'') ! i)"
    and "phys_word img s (sym_addr img ''other_page_directory'' + 4 * of_nat i) = Some (one_entry_directory (sym_addr img ''other_page_table'') ! i)"
    and "phys_word img s (sym_addr img ''kernel_page_table'' + 4 * of_nat i) = Some (identity_table ! i)"
    and "phys_word img s (sym_addr img ''other_page_table'' + 4 * of_nat i) = Some (identity_table ! i)"
proof -
  let ?a = "sym_addr img ''kernel_page_directory''" and ?b = "sym_addr img ''other_page_directory''"
    and ?c = "sym_addr img ''kernel_page_table''" and ?d = "sym_addr img ''other_page_table''"
  have al: "?a AND 0xFFF = 0" "?b AND 0xFFF = 0" "?c AND 0xFFF = 0" "?d AND 0xFFF = 0"
    and ne: "?a \<noteq> ?b" "?a \<noteq> ?c" "?a \<noteq> ?d" "?b \<noteq> ?c" "?b \<noteq> ?d" "?c \<noteq> ?d"
    using assms(1) by (auto simp: tables_linked_def Let_def)
  have len: "length (kernel_page_directory s) = 1024" "length (other_page_directory s) = 1024"
    "length (kernel_page_table s) = 1024" "length (other_page_table s) = 1024"
    using assms(2) by (simp_all add: tables_ready_def one_entry_directory_def identity_table_def)
  have kpd: "kernel_page_directory s = one_entry_directory ?c" and opd: "other_page_directory s = one_entry_directory ?d"
    and kpt: "kernel_page_table s = identity_table" and opt: "other_page_table s = identity_table"
    using assms(2) by (simp_all add: tables_ready_def)
  note miss = table_word_miss [OF _ _ _ _ assms(3)]
  have h: "table_word b tab (b + 4 * of_nat i) = Some (tab ! i)" if "length tab = 1024" for b tab
    using that assms(3) by (rule table_word_hit)
  have la: "length (one_entry_directory t) = 1024" "length identity_table = 1024" for t
    by (simp_all add: one_entry_directory_def identity_table_def)
  show "phys_word img s (?a + 4 * of_nat i) = Some (one_entry_directory ?c ! i)"
    unfolding phys_word_def kpd by (simp add: h la)
  have "table_word ?a (kernel_page_directory s) (?b + 4 * of_nat i) = None"
    by (rule miss) (use al ne len in auto)
  then show "phys_word img s (?b + 4 * of_nat i) = Some (one_entry_directory ?d ! i)"
    unfolding phys_word_def opd by (simp add: h la)
  have "table_word ?a (kernel_page_directory s) (?c + 4 * of_nat i) = None"
    "table_word ?b (other_page_directory s) (?c + 4 * of_nat i) = None"
    by (rule miss; use al ne len in auto)+
  then show "phys_word img s (?c + 4 * of_nat i) = Some (identity_table ! i)"
    unfolding phys_word_def kpt by (simp add: h la)
  have "table_word ?a (kernel_page_directory s) (?d + 4 * of_nat i) = None"
    "table_word ?b (other_page_directory s) (?d + 4 * of_nat i) = None"
    "table_word ?c (kernel_page_table s) (?d + 4 * of_nat i) = None"
    by (rule miss; use al ne len in auto)+
  then show "phys_word img s (?d + 4 * of_nat i) = Some (identity_table ! i)"
    unfolding phys_word_def opt by (simp add: h la)
qed

lemma walk_identity:
  assumes "tables_linked img" and "tables_ready img s"
    and "cr3 s = sym_addr img ''kernel_page_directory'' \<or> cr3 s = sym_addr img ''other_page_directory''"
  shows "walk img s va = (if va < 0x400000 then Some va else None)"
proof -
  obtain pd pt where pd: "cr3 s = pd" "pd AND 0xFFF = 0" "pt AND 0xFFF = 0"
    and w: "\<And>i. i < 1024 \<Longrightarrow> phys_word img s (pd + 4 * of_nat i) = Some (one_entry_directory pt ! i)"
    "\<And>i. i < 1024 \<Longrightarrow> phys_word img s (pt + 4 * of_nat i) = Some (identity_table ! i)"
    using assms(3)
  proof (elim disjE)
    assume "cr3 s = sym_addr img ''kernel_page_directory''"
    then show ?thesis
      using assms(1) phys_word_tables(1,3) [OF assms(1,2)]
      by (intro that [of "sym_addr img ''kernel_page_directory''" "sym_addr img ''kernel_page_table''"])
        (auto simp: tables_linked_def Let_def)
  next
    assume "cr3 s = sym_addr img ''other_page_directory''"
    then show ?thesis
      using assms(1) phys_word_tables(2,4) [OF assms(1,2)]
      by (intro that [of "sym_addr img ''other_page_directory''" "sym_addr img ''other_page_table''"])
        (auto simp: tables_linked_def Let_def)
  qed
  have "pd AND 0xFFFFF000 = pd" using pd(2) by (rule entry_bits(3))
  then have base: "cr3 s AND 0xFFFFF000 = pd" by (simp add: pd(1))
  show ?thesis
  proof (cases "va < 0x400000")
    case True
    let ?i = "unat (drop_bit 12 va AND 0x3FF)"
    note la = low_address [OF True]
    have "phys_word img s (pd + 4 * drop_bit 22 va) = Some (pt OR 3)"
      using w(1) [of 0] by (simp add: la(1) one_entry_directory_def)
    moreover have "phys_word img s (pt + 4 * (drop_bit 12 va AND 0x3FF)) = Some ((of_nat ?i * 0x1000) OR 3)"
      using w(2) [OF la(2)] la(2) by (simp add: identity_table_def)
    ultimately show ?thesis
      using True la(3) entry_bits [OF page_number_aligned, of ?i]
      by (simp add: walk_def base entry_bits [OF pd(3)])
  next
    case False
    then obtain i where i: "drop_bit 22 va = of_nat (Suc i)" "Suc i < 1024" by (rule high_address)
    have "phys_word img s (pd + 4 * drop_bit 22 va) = Some 2"
      using w(1) [OF i(2)] i by (simp add: one_entry_directory_def)
    then show ?thesis using False by (simp add: walk_def base)
  qed
qed


section \<open>Setting up\<close>

text \<open>What the routines need of memory and the cursor: every literal in its place, out of reach of what
  printing writes.\<close>

definition paging_texts :: "string list" where
  "paging_texts = [''Setting up Paging...'', ''Page Directory Setup...'', ''Page Table Setup...'',
     ''Insert Page Table -> Page Directory...'', ''Enabling Paging Mode...'', ''Done?...'']"

definition text_apart :: "image \<Rightarrow> memory \<Rightarrow> string \<Rightarrow> bool" where
  "text_apart img m t \<longleftrightarrow> cstr_at m (lit_addr img t) (bytes_of t)
     \<and> off_screen (lit_addr img t) (Suc (length t))
     \<and> disjoint_regions (lit_addr img t) (Suc (length t)) (local_addr img ''typeHint'') (Suc (length pd_msg))
     \<and> disjoint_regions (lit_addr img t) (Suc (length t)) (local_addr img ''intAsString'') 12"

definition paging_ready :: "image \<Rightarrow> 'a vga_scheme \<Rightarrow> bool" where
  "paging_ready img s \<longleftrightarrow> can_print img pd_msg s \<and> list_all (text_apart img (mem s)) paging_texts"

lemma paging_ready_cong: "mem s' = mem s \<Longrightarrow> cursor_pos s' = cursor_pos s \<Longrightarrow> paging_ready img s' = paging_ready img s"
  using can_print_cong [of s' s] by (simp add: paging_ready_def)

lemma text_apart_frame:
  assumes "text_apart img m t" and "length t \<le> 100" and "\<And>a. \<not> print_writes img pd_msg a \<Longrightarrow> m' a = m a"
  shows "text_apart img m' t"
proof -
  have r: "off_screen (lit_addr img t) (Suc (length t))"
    "disjoint_regions (lit_addr img t) (Suc (length t)) (local_addr img ''typeHint'') (Suc (length pd_msg))"
    "disjoint_regions (lit_addr img t) (Suc (length t)) (local_addr img ''intAsString'') 12"
    and c: "cstr_at m (lit_addr img t) (bytes_of t)"
    using assms(1) by (simp_all add: text_apart_def)
  have "m' a = m a" if "in_region a (lit_addr img t) (Suc (length t))" for a
    using assms(3) [of a] off_screenD [OF r(1) that] disjoint_regionsD [OF r(2) that] disjoint_regionsD [OF r(3) that]
    by (simp add: print_writes_def fprint_writes_def)
  then have "cstr_at m' (lit_addr img t) (bytes_of t)"
    using assms(2) by (intro cstr_at_cong [OF c]) auto
  with r show ?thesis by (simp add: text_apart_def)
qed

lemma paging_texts_short: "t \<in> set paging_texts \<Longrightarrow> length t \<le> 100" "length pd_msg < 100"
  by (auto simp: paging_texts_def pd_msg_def)

lemma paging_ready_frame:
  assumes "paging_ready img s" and "vga_frame (print_writes img pd_msg) s s'" and "on_screen (display s')"
  shows "paging_ready img s'"
  using assms can_print_frame [of img pd_msg s s'] text_apart_frame [OF _ paging_texts_short(1) vga_frameD [OF assms(2)]]
    paging_texts_short(2)
  by (auto simp: paging_ready_def list_all_iff)

lemma window_frame: "vga_frame fb_window s s' \<Longrightarrow> vga_frame (print_writes img msg) s s'"
  by (erule vga_frame_mono) (simp add: print_writes_def fprint_writes_def)

lemma next_row_spec:
  "vga_frame fb_window s (fb_move_cursor_to_start_of_row (fb_offset_cursor d s))"
  "on_screen (display (fb_move_cursor_to_start_of_row (fb_offset_cursor d s)))"
proof -
  have on: "on_screen (display (fb_offset_cursor d s))"
    unfolding on_screen_cursor using fb_offset_cursor_range by blast
  show "vga_frame fb_window s (fb_move_cursor_to_start_of_row (fb_offset_cursor d s))"
    using fb_offset_cursor_frame fb_start_of_row_spec(2) [OF on] by (rule vga_frame_trans)
  show "on_screen (display (fb_move_cursor_to_start_of_row (fb_offset_cursor d s)))"
    by (rule fb_start_of_row_spec(3) [OF on])
qed

text \<open>Every printing step of the setup keeps the readiness and touches the display and the hint buffers only.\<close>

lemma paging_line_spec:
  assumes "paging_ready img s" and "t \<in> set paging_texts"
  obtains s' where "paging_line img t d s = Some s'" and "vga_frame (print_writes img pd_msg) s s'" and "paging_ready img s'"
proof -
  have a: "text_apart img (mem s) t" and on: "on_screen (display s)"
    using assms by (auto simp: paging_ready_def list_all_iff can_print_def)
  have c: "cstr_at (mem s) (lit_addr img t) (bytes_of t)" "off_screen (lit_addr img t) (Suc (length t))"
    using a by (simp_all add: text_apart_def)
  have "0 \<le> sint (cursor_pos s)" "nat (sint (cursor_pos s)) + length (bytes_of t) \<le> 16384"
    "off_screen (lit_addr img t) (Suc (length (bytes_of t)))"
    using on c(2) paging_texts_short(1) [OF assms(2)] by (auto simp: on_screen_cursor nat_le_iff)
  from fb_print_str_spec [OF this(1,2) c(1) this(3)]
  obtain s1 where s1: "fb_print_str (lit_addr img t) 0 15 s = Some s1" "vga_frame fb_window s s1" by metis
  let ?s' = "fb_move_cursor_to_start_of_row (fb_offset_cursor d s1)"
  have "paging_line img t d s = Some ?s'" using s1(1) by (simp add: paging_line_def)
  moreover have f: "vga_frame (print_writes img pd_msg) s ?s'"
    using vga_frame_trans [OF s1(2) next_row_spec(1)] by (rule window_frame)
  moreover have "paging_ready img ?s'"
    using paging_ready_frame [OF assms(1) f] next_row_spec(2) by blast
  ultimately show ?thesis by (rule that)
qed

definition pd_fmt :: "fmt list" where
  "pd_fmt = map Chr (bytes_of ''Loading Page Directory '') @ [Hex]"

lemma pd_fmt_bytes: "bytes_of pd_msg = format_bytes pd_fmt"
  by (simp add: pd_fmt_def format_bytes_def pd_msg_def bytes_of_def hint_h_def)

lemma pd_fmt_ok: "\<forall>f \<in> set pd_fmt. fmt_ok f" "args_ok pd_fmt [v] 0" "length pd_msg \<le> 100"
  by (simp_all add: pd_fmt_def args_ok_chars bytes_of_def pd_msg_def)

lemma switch_page_directory_spec:
  assumes "paging_ready img s"
  obtains s' where "switch_page_directory img pd s = Some (s'\<lparr>cr3 := pd\<rparr>)"
    and "vga_frame (print_writes img pd_msg) s s'" and "paging_ready img s'"
proof -
  have c: "can_print img pd_msg s" using assms by (simp add: paging_ready_def)
  obtain s1 where s1: "fb_fprint_str img (lit_addr img pd_msg) [pd] 0 15 s = Some s1"
    "vga_frame (print_writes img pd_msg) s s1"
    by (rule print_fmt [OF c pd_fmt_bytes pd_fmt_ok(3,1,2)])
  let ?s' = "fb_move_cursor_to_start_of_row (fb_offset_cursor 79 s1)"
  have f: "vga_frame (print_writes img pd_msg) s ?s'"
    using s1(2) window_frame [OF next_row_spec(1)] by (rule vga_frame_trans)
  show ?thesis
    by (rule that [OF _ f paging_ready_frame [OF assms f next_row_spec(2)]])
      (simp add: switch_page_directory_def s1(1) loadPageDirectory_def)
qed


text \<open>The two loops fill whole arrays.\<close>

lemma fill_step:
  "n < length xs \<Longrightarrow> (map g [0..<n] @ drop n xs)[n := g n] = map g [0..<Suc n] @ drop (Suc n) xs"
  by (simp add: list_update_append upd_conv_take_nth_drop)

lemma clear_directories_eq:
  assumes "length (kernel_page_directory s) = 1024" and "length (other_page_directory s) = 1024"
  shows "clear_directories s = s\<lparr>kernel_page_directory := replicate 1024 2, other_page_directory := replicate 1024 2\<rparr>"
proof -
  let ?body = "\<lambda>i s. s\<lparr>kernel_page_directory := (kernel_page_directory s)[i := 0x00000002],
    other_page_directory := (other_page_directory s)[i := 0x00000002]\<rparr>"
  have "for_n 0 n ?body s = s\<lparr>kernel_page_directory := map (\<lambda>_. 2) [0..<n] @ drop n (kernel_page_directory s),
      other_page_directory := map (\<lambda>_. 2) [0..<n] @ drop n (other_page_directory s)\<rparr>" if "n \<le> 1024" for n
    using that
  proof (induction n)
    case (Suc n)
    then show ?case using assms fill_step [where g = "\<lambda>_. 2 :: u32"] by (simp add: for_n_Suc_end del: for_n.simps(2) upt_Suc)
  qed simp
  from this [of 1024] show ?thesis using assms by (simp add: clear_directories_def map_replicate_const)
qed

lemma fill_tables_eq:
  assumes "length (kernel_page_table s) = 1024" and "length (other_page_table s) = 1024"
  shows "fill_tables s = s\<lparr>kernel_page_table := identity_table, other_page_table := identity_table\<rparr>"
proof -
  let ?g = "\<lambda>j. (of_nat j * 0x1000) OR (3 :: u32)"
  let ?body = "\<lambda>j s. s\<lparr>kernel_page_table := (kernel_page_table s)[j := ?g j], other_page_table := (other_page_table s)[j := ?g j]\<rparr>"
  have "for_n 0 n ?body s = s\<lparr>kernel_page_table := map ?g [0..<n] @ drop n (kernel_page_table s),
      other_page_table := map ?g [0..<n] @ drop n (other_page_table s)\<rparr>" if "n \<le> 1024" for n
    using that
  proof (induction n)
    case (Suc n)
    then show ?case using assms fill_step [where g = ?g] by (simp add: for_n_Suc_end del: for_n.simps(2) upt_Suc)
  qed simp
  from this [of 1024] show ?thesis using assms by (simp add: fill_tables_def identity_table_def)
qed

lemma vga_frame_paging:
  fixes s s' :: "'a paging_scheme"
  assumes "vga_frame P s s'"
  shows "kernel_page_directory s' = kernel_page_directory s" "kernel_page_table s' = kernel_page_table s"
    "other_page_directory s' = other_page_directory s" "other_page_table s' = other_page_table s"
    "directories s' = directories s" "cr0 s' = cr0 s" "cr2 s' = cr2 s" "cr3 s' = cr3 s"
    "tick s' = tick s" "paging.more s' = paging.more s"
  using assms by (auto simp: vga_frame_def)

definition arrays_sized :: "'a paging_scheme \<Rightarrow> bool" where
  "arrays_sized s \<longleftrightarrow> length (kernel_page_directory s) = 1024 \<and> length (other_page_directory s) = 1024
     \<and> length (kernel_page_table s) = 1024 \<and> length (other_page_table s) = 1024 \<and> length (directories s) = 1024"

text \<open>The fields below the paging tables, which the setup keeps.\<close>

definition keeps_below :: "'a paging_scheme \<Rightarrow> 'a paging_scheme \<Rightarrow> bool" where
  "keeps_below s s' \<longleftrightarrow> tick s' = tick s \<and> interrupt_handlers s' = interrupt_handlers s \<and> idt_entries s' = idt_entries s
     \<and> idtr s' = idtr s \<and> gdt_entries s' = gdt_entries s \<and> gdtr s' = gdtr s \<and> paging.more s' = paging.more s"

lemma vga_frame_keeps_below: "vga_frame P s s' \<Longrightarrow> keeps_below s s'"
  using vga_frame_descr [of P s s'] vga_frame_paging [of P s s'] by (simp add: keeps_below_def)

lemma initialise_paging_spec:
  assumes "arrays_sized s" and "paging_ready img (fb_move_cursor 0 (fb_clear 0 0 s))"
  obtains s' where "initialise_paging img s = Some s'" and "tables_ready img s'"
    and "cr3 s' = sym_addr img ''kernel_page_directory''" and "cr0 s' = cr0 s OR 0x80000000"
    and "paging_ready img s'" and "keeps_below s s'"
    and "\<And>a. \<not> print_writes img pd_msg a \<Longrightarrow> mem s' a = mem s a"
proof -
  define s0 where "s0 = fb_move_cursor 0 (fb_clear 0 0 s)"
  have f0: "vga_frame fb_window s s0"
    unfolding s0_def by (rule vga_frame_trans [OF clear.op_frame fb_move_cursor_frame])
  have r0: "paging_ready img s0" using assms(2) by (simp add: s0_def)
  obtain s1 where s1: "paging_line img ''Setting up Paging...'' 80 s0 = Some s1"
    "vga_frame (print_writes img pd_msg) s0 s1" "paging_ready img s1"
    by (rule paging_line_spec [OF r0, of "''Setting up Paging...''" 80]) (simp add: paging_texts_def)
  obtain s2 where s2: "paging_line img ''Page Directory Setup...'' 79 s1 = Some s2"
    "vga_frame (print_writes img pd_msg) s1 s2" "paging_ready img s2"
    by (rule paging_line_spec [OF s1(3), of "''Page Directory Setup...''" 79]) (simp add: paging_texts_def)
  note e2 = vga_frame_paging [OF f0] vga_frame_paging [OF s1(2)] vga_frame_paging [OF s2(2)]
  define s3 where "s3 = s2\<lparr>kernel_page_directory := replicate 1024 2, other_page_directory := replicate 1024 2,
    directories := (directories s2)[0 := sym_addr img ''kernel_page_directory'', 1 := sym_addr img ''other_page_directory'']\<rparr>"
  have r3: "paging_ready img s3" using s2(3) paging_ready_cong [of s3 s2] by (simp add: s3_def)
  have c: "clear_directories s2 = s2\<lparr>kernel_page_directory := replicate 1024 2, other_page_directory := replicate 1024 2\<rparr>"
    using assms(1) e2 by (intro clear_directories_eq) (simp_all add: arrays_sized_def)
  obtain s4 where s4: "paging_line img ''Page Table Setup...'' 79 s3 = Some s4"
    "vga_frame (print_writes img pd_msg) s3 s4" "paging_ready img s4"
    by (rule paging_line_spec [OF r3, of "''Page Table Setup...''" 79]) (simp add: paging_texts_def)
  define s5 where "s5 = s4\<lparr>kernel_page_table := identity_table, other_page_table := identity_table\<rparr>"
  have fl: "fill_tables s4 = s5"
    unfolding s5_def using assms(1) e2 vga_frame_paging [OF s4(2)]
    by (intro fill_tables_eq) (simp_all add: arrays_sized_def s3_def)
  have r5: "paging_ready img s5" using s4(3) paging_ready_cong [of s5 s4] by (simp add: s5_def)
  obtain s6 where s6: "paging_line img ''Insert Page Table -> Page Directory...'' 79 s5 = Some s6"
    "vga_frame (print_writes img pd_msg) s5 s6" "paging_ready img s6"
    by (rule paging_line_spec [OF r5, of "''Insert Page Table -> Page Directory...''" 79]) (simp add: paging_texts_def)
  define s7 where "s7 = s6\<lparr>kernel_page_directory := (kernel_page_directory s6)[0 := sym_addr img ''kernel_page_table'' OR 3],
    other_page_directory := (other_page_directory s6)[0 := sym_addr img ''other_page_table'' OR 3]\<rparr>"
  have r7: "paging_ready img s7" using s6(3) paging_ready_cong [of s7 s6] by (simp add: s7_def)
  obtain s8 where s8: "switch_page_directory img (directories s7 ! 0) s7 = Some (s8\<lparr>cr3 := directories s7 ! 0\<rparr>)"
    "vga_frame (print_writes img pd_msg) s7 s8" "paging_ready img s8"
    by (rule switch_page_directory_spec [OF r7])
  have r8: "paging_ready img (s8\<lparr>cr3 := directories s7 ! 0\<rparr>)" using s8(3) paging_ready_cong [of "s8\<lparr>cr3 := directories s7 ! 0\<rparr>" s8] by simp
  obtain s9 where s9: "paging_line img ''Enabling Paging Mode...'' 79 (s8\<lparr>cr3 := directories s7 ! 0\<rparr>) = Some s9"
    "vga_frame (print_writes img pd_msg) (s8\<lparr>cr3 := directories s7 ! 0\<rparr>) s9" "paging_ready img s9"
    by (rule paging_line_spec [OF r8, of "''Enabling Paging Mode...''" 79]) (simp add: paging_texts_def)
  have r10: "paging_ready img (enablePaging s9)" using s9(3) paging_ready_cong [of "enablePaging s9" s9] by (simp add: enablePaging_def)
  obtain s11 where s11: "paging_line img ''Done?...'' 79 (enablePaging s9) = Some s11"
    "vga_frame (print_writes img pd_msg) (enablePaging s9) s11" "paging_ready img s11"
    by (rule paging_line_spec [OF r10, of "''Done?...''" 79]) (simp add: paging_texts_def)
  note e = vga_frame_paging [OF s4(2)] vga_frame_paging [OF s6(2)] vga_frame_paging [OF s8(2)]
    vga_frame_paging [OF s9(2)] vga_frame_paging [OF s11(2)]
  have len: "length (directories s7) = 1024"
    using e2 e assms(1) by (simp add: s7_def s5_def s3_def arrays_sized_def)
  have ne: "directories s6 \<noteq> []" using len by (auto simp: s7_def)
  have d: "delay i = (\<lambda>s. s)" for i by (simp add: fun_eq_iff)
  have rep: "(replicate 1024 2)[0 := v] = v # replicate 1023 (2 :: u32)" for v
    using replicate_Suc [of 1023 "2 :: u32"] by simp
  have ans: "initialise_paging img s = Some s11"
    using s1(1) s2(1) s4(1) s6(1) s8(1) s9(1) s11(1) len
    unfolding initialise_paging_def Let_def d s0_def [symmetric]
    by (simp add: c fl s7_def [symmetric] s3_def [symmetric] switch_page_directory_i_def ne del: One_nat_def)
  show ?thesis
  proof (rule that [OF ans])
    show "tables_ready img s11"
      using e e2 assms(1) unfolding tables_ready_def one_entry_directory_def
      by (simp add: enablePaging_def s7_def s5_def s3_def rep arrays_sized_def)
    show "cr3 s11 = sym_addr img ''kernel_page_directory''" "cr0 s11 = cr0 s OR 0x80000000"
      using e e2 assms(1) by (simp_all add: enablePaging_def s7_def s5_def s3_def arrays_sized_def)
    show "paging_ready img s11" by (rule s11(3))
    show "mem s11 a = mem s a" if "\<not> print_writes img pd_msg a" for a
      using vga_frameD [OF window_frame [OF f0] that] vga_frameD [OF s1(2) that] vga_frameD [OF s2(2) that]
        vga_frameD [OF s4(2) that] vga_frameD [OF s6(2) that] vga_frameD [OF s8(2) that]
        vga_frameD [OF s9(2) that] vga_frameD [OF s11(2) that]
      by (simp add: enablePaging_def s7_def s5_def s3_def)
    show "keeps_below s s11"
      using vga_frame_keeps_below [OF f0] vga_frame_keeps_below [OF s1(2)] vga_frame_keeps_below [OF s2(2)]
        vga_frame_keeps_below [OF s4(2)] vga_frame_keeps_below [OF s6(2)] vga_frame_keeps_below [OF s8(2)]
        vga_frame_keeps_below [OF s9(2)] vga_frame_keeps_below [OF s11(2)]
      by (simp add: keeps_below_def enablePaging_def s7_def s5_def s3_def)
  qed
qed


section \<open>The page-fault message\<close>

definition fault_text :: "u32 \<Rightarrow> u32 \<Rightarrow> u8 list" where
  "fault_text err addr = bytes_of ''Page Fault ( '' @ (if err AND 1 = 0 then bytes_of ''present '' else [])
     @ (if err AND 2 \<noteq> 0 then bytes_of ''read-only '' else []) @ (if err AND 4 \<noteq> 0 then bytes_of ''user-mode '' else [])
     @ (if err AND 8 \<noteq> 0 then bytes_of ''reserved '' else []) @ bytes_of '') at 0x'' @ hex_nibbles addr 8"

text \<open>The message so far, with all changes to memory inside the 80 bytes from its start.\<close>

definition message_is :: "memory \<Rightarrow> u32 \<Rightarrow> u8 list \<Rightarrow> memory \<Rightarrow> bool" where
  "message_is m0 p xs m \<longleftrightarrow> cstr_at m p xs \<and> (\<forall>a. \<not> in_region a p 80 \<longrightarrow> m a = m0 a)"

definition fault_literals :: "string list" where
  "fault_literals = [''present '', ''read-only '', ''user-mode '', ''reserved '', '') at 0x'']"

definition fault_ready :: "image \<Rightarrow> memory \<Rightarrow> bool" where
  "fault_ready img m \<longleftrightarrow> off_screen (local_addr img ''message'') 80
     \<and> disjoint_regions (local_addr img ''message'') 80 (local_addr img ''hex'') 9
     \<and> list_all (\<lambda>t. cstr_at m (lit_addr img t) (bytes_of t)
          \<and> disjoint_regions (local_addr img ''message'') 80 (lit_addr img t) (Suc (length t))) fault_literals"

lemma strcat_message:
  assumes "message_is m0 p xs m" and "cstr_at m0 q ys" and "disjoint_regions p 80 q (Suc (length ys))"
    and "xs \<noteq> []" and "ys \<noteq> []" and "length xs + 2 * length ys + 2 \<le> 80"
  obtains m' where "strcat m p q p = Some m'" and "message_is m0 p (xs @ ys) m'"
proof -
  have x: "cstr_at m p xs" and out: "\<And>a. \<not> in_region a p 80 \<Longrightarrow> m a = m0 a"
    using assms(1) by (auto simp: message_is_def)
  have "m a = m0 a" if "in_region a q (Suc (length ys))" for a
    using out disjoint_regionsD [OF assms(3)] that by blast
  then have y: "cstr_at m q ys" using assms(6) by (intro cstr_at_cong [OF assms(2)]) auto
  let ?m1 = "write_bytes m p (xs @ ys @ [0])"
  let ?m2 = "?m1(p + of_nat (length xs + 2 * length ys + 1) := 0)"
  have d: "disjoint_regions p (length xs + 2 * length ys + 2) q (Suc (length ys))"
    using assms(3,6) disjoint_regions_mono by blast
  have eq: "strcat m p q p = Some ?m2"
    using strcat_in_place [OF x y assms(4,5) _ d] assms(6) by simp
  have nz: "0 \<notin> set (xs @ ys)" using x y by (auto simp: cstr_at_iff)
  have c1: "cstr_at ?m1 p (xs @ ys)" using write_cstr [OF nz, of m p] assms(6) by simp
  have "cstr_at ?m2 p (xs @ ys)"
  proof (rule cstr_at_cong [OF c1])
    fix a assume "in_region a p (Suc (length (xs @ ys)))"
    then have "a \<noteq> p + of_nat (length xs + 2 * length ys + 1)"
      using assms(5,6) by (auto simp: in_region_def unat_of_nat_u32 simp del: of_nat_add of_nat_Suc of_nat_mult)
    then show "?m2 a = ?m1 a" by simp
  qed (use assms(6) in simp)
  moreover have "?m2 a = m0 a" if "\<not> in_region a p 80" for a
  proof -
    have "a \<noteq> p + of_nat (length xs + 2 * length ys + 1)"
      using that assms(6) by (auto simp: in_region_def unat_of_nat_u32 simp del: of_nat_add of_nat_Suc of_nat_mult)
    moreover have "\<not> in_region a p (length (xs @ ys @ [0]))" using that assms(6) by (auto simp: in_region_def)
    then have "?m1 a = m a" using assms(6) by (intro write_bytes_outside) auto
    ultimately show ?thesis using out [OF that] by simp
  qed
  ultimately show ?thesis using that [OF eq] by (simp add: message_is_def)
qed


lemma append_if_message:
  assumes "message_is m0 p xs m" and "fault_ready img m0" and "t \<in> set fault_literals" and p: "p = local_addr img ''message''"
    and "xs \<noteq> []" and "length xs + 2 * length t + 2 \<le> 80"
  obtains m' where "append_if img c t p m = Some m'" and "message_is m0 p (xs @ (if c then bytes_of t else [])) m'"
proof (cases c)
  case True
  have "cstr_at m0 (lit_addr img t) (bytes_of t)" "disjoint_regions p 80 (lit_addr img t) (Suc (length (bytes_of t)))"
    using assms(2,3) p by (auto simp: fault_ready_def list_all_iff)
  moreover have "bytes_of t \<noteq> []" using assms(3) by (auto simp: fault_literals_def bytes_of_def)
  ultimately show ?thesis
    by (rule strcat_message [OF assms(1) _ _ assms(5)]) (use assms(6) that True in \<open>auto simp: append_if_def\<close>)
next
  case False
  then show ?thesis using that [of m] assms(1) by (simp add: append_if_def)
qed

lemma store_message:
  assumes "length t < 64" and "0 \<notin> set (bytes_of t)"
  shows "message_is m p (bytes_of t) (store_text p t 64 m)"
proof -
  define k where "k = 63 - length t"
  have k: "64 - length t = Suc k" using assms(1) by (simp add: k_def)
  have eq: "bytes_of t @ replicate (64 - length t) 0 = (bytes_of t @ [0]) @ replicate k 0" unfolding k by simp
  have l: "length (bytes_of t @ replicate (64 - length t) 0) = 64" using assms(1) by simp
  have c: "cstr_at (write_bytes m p (bytes_of t @ [0])) p (bytes_of t)"
    using assms by (intro write_cstr) auto
  have "cstr_at (store_text p t 64 m) p (bytes_of t)"
    unfolding store_text_def eq write_bytes_append [of m p "bytes_of t @ [0]"]
  proof (rule cstr_at_cong [OF c])
    fix a assume a: "in_region a p (Suc (length (bytes_of t)))"
    have "\<not> in_region a (p + of_nat (length (bytes_of t @ [0]))) k"
    proof
      assume "in_region a (p + of_nat (length (bytes_of t @ [0]))) k"
      moreover obtain d where d: "a = p + of_nat d" "unat (a - p) = d" by (rule addr_offsetE)
      moreover have "d < Suc (length t)" using a d(2) by (simp add: in_region_def)
      ultimately show False
        using not_in_region_before [of d "Suc (length t)" k p] assms(1) by (simp add: k_def)
    qed
    then show "write_bytes (write_bytes m p (bytes_of t @ [0])) (p + of_nat (length (bytes_of t @ [0]))) (replicate k 0) a
        = write_bytes m p (bytes_of t @ [0]) a"
      by (intro write_bytes_outside) (simp_all add: k_def)
  qed (use assms(1) in simp)
  moreover have "store_text p t 64 m a = m a" if "\<not> in_region a p 80" for a
    unfolding store_text_def using that l by (intro write_bytes_outside) (auto simp: in_region_def)
  ultimately show ?thesis by (simp add: message_is_def)
qed


lemma page_fault_spec:
  assumes "fault_ready img (mem s)"
  obtains s' m' where "page_fault_handler img regs s = Some (Spins s')" and "vga_frame fb_window (s\<lparr>mem := m'\<rparr>) s'"
    and "display s' = print_text (fault_text (err_code regs) (cr2 s)) (fb_attr 4 0)
      (blank_screen (fb_attr 4 4) (screen (s\<lparr>mem := m'\<rparr>)),
       int (1000 - (length (fault_text (err_code regs) (cr2 s)) + 1) div 2))"
    and "cstr_at m' (local_addr img ''message'') (fault_text (err_code regs) (cr2 s))"
    and "\<And>a. \<not> in_region a (local_addr img ''message'') 80 \<Longrightarrow> \<not> in_region a (local_addr img ''hex'') 9 \<Longrightarrow> m' a = mem s a"
proof -
  let ?p = "local_addr img ''message''" and ?e = "err_code regs" and ?h = "local_addr img ''hex''"
  define c1 c2 c3 c4 where "c1 \<longleftrightarrow> ?e AND 1 = 0" and "c2 \<longleftrightarrow> ?e AND 2 \<noteq> 0" and "c3 \<longleftrightarrow> ?e AND 4 \<noteq> 0" and "c4 \<longleftrightarrow> ?e AND 8 \<noteq> 0"
  note cs = c1_def [symmetric] c2_def [symmetric] c3_def [symmetric] c4_def [symmetric]
  define x0 where "x0 = bytes_of ''Page Fault ( ''"
  define x1 where "x1 = x0 @ (if c1 then bytes_of ''present '' else [])"
  define x2 where "x2 = x1 @ (if c2 then bytes_of ''read-only '' else [])"
  define x3 where "x3 = x2 @ (if c3 then bytes_of ''user-mode '' else [])"
  define x4 where "x4 = x3 @ (if c4 then bytes_of ''reserved '' else [])"
  define x5 where "x5 = x4 @ bytes_of '') at 0x''"
  have ne: "x0 \<noteq> []" "x1 \<noteq> []" "x2 \<noteq> []" "x3 \<noteq> []" "x4 \<noteq> []" "x5 \<noteq> []"
    by (simp_all add: x5_def x4_def x3_def x2_def x1_def x0_def bytes_of_def)
  have len: "length x0 = 13" "length x1 \<le> 21" "length x2 \<le> 31" "length x3 \<le> 41" "length x4 \<le> 50" "length x5 \<le> 57"
    by (simp_all add: x5_def x4_def x3_def x2_def x1_def x0_def bytes_of_def)
  have m0: "message_is (mem s) ?p x0 (store_text ?p ''Page Fault ( '' 64 (mem s))"
    unfolding x0_def by (rule store_message) (simp_all add: bytes_of_def)
  obtain m1 where m1: "append_if img c1 ''present '' ?p (store_text ?p ''Page Fault ( '' 64 (mem s)) = Some m1" "message_is (mem s) ?p x1 m1"
    unfolding x1_def by (rule append_if_message [OF m0 assms _ refl ne(1), of "''present ''" c1]) (use len in \<open>auto simp: fault_literals_def\<close>)
  obtain m2 where m2: "append_if img c2 ''read-only '' ?p m1 = Some m2" "message_is (mem s) ?p x2 m2"
    unfolding x2_def by (rule append_if_message [OF m1(2) assms _ refl ne(2), of "''read-only ''" c2]) (use len in \<open>auto simp: fault_literals_def\<close>)
  obtain m3 where m3: "append_if img c3 ''user-mode '' ?p m2 = Some m3" "message_is (mem s) ?p x3 m3"
    unfolding x3_def by (rule append_if_message [OF m2(2) assms _ refl ne(3), of "''user-mode ''" c3]) (use len in \<open>auto simp: fault_literals_def\<close>)
  obtain m4 where m4: "append_if img c4 ''reserved '' ?p m3 = Some m4" "message_is (mem s) ?p x4 m4"
    unfolding x4_def by (rule append_if_message [OF m3(2) assms _ refl ne(4), of "''reserved ''" c4]) (use len in \<open>auto simp: fault_literals_def\<close>)
  obtain m5 where m5: "append_if img True '') at 0x'' ?p m4 = Some m5" "message_is (mem s) ?p (x4 @ (if True then bytes_of '') at 0x'' else [])) m5"
    by (rule append_if_message [OF m4(2) assms _ refl ne(5), of "'') at 0x''" True]) (use len in \<open>auto simp: fault_literals_def\<close>)
  have m5': "message_is (mem s) ?p x5 m5" using m5(2) by (simp add: x5_def)
  define m6 where "m6 = int_to_hex m5 (cr2 s) ?h"
  have dh: "disjoint_regions ?p 80 ?h 9" and off: "off_screen ?p 80" using assms by (simp_all add: fault_ready_def)
  have c5: "cstr_at m5 ?p x5" using m5' by (simp add: message_is_def)
  have "m6 a = m5 a" if "in_region a ?p 80" for a
    unfolding m6_def using disjoint_regionsD [OF dh that] by (rule int_to_hex_spec(3))
  then have mm: "message_is m6 ?p x5 m6"
    unfolding message_is_def using len by (auto intro!: cstr_at_cong [OF c5] simp: in_region_def)
  have hc: "cstr_at m6 ?h (hex_nibbles (cr2 s) 8)" unfolding m6_def by (rule int_to_hex_spec(1))
  have hn: "hex_nibbles (cr2 s) 8 \<noteq> []" by (simp flip: length_greater_0_conv)
  obtain m7 where m7: "strcat m6 ?p ?h ?p = Some m7" "message_is m6 ?p (x5 @ hex_nibbles (cr2 s) 8) m7"
    by (rule strcat_message [OF mm hc _ ne(6) hn]) (use dh len in simp_all)
  have ft: "fault_text ?e (cr2 s) = x5 @ hex_nibbles (cr2 s) 8"
    unfolding fault_text_def cs x5_def x4_def x3_def x2_def x1_def x0_def by (simp only: append_assoc)
  have l: "length (fault_text ?e (cr2 s)) \<le> 65" unfolding ft using len by simp
  have c7: "cstr_at m7 ?p (fault_text ?e (cr2 s))" using m7(2) by (simp add: ft message_is_def)
  have o: "off_screen ?p (Suc (length (fault_text ?e (cr2 s))))"
    unfolding off_screen_def by (rule disjoint_regions_mono [OF off [unfolded off_screen_def]]) (use l in auto)
  have a5: "strcat m4 ?p (lit_addr img '') at 0x'') ?p = Some m5" using m5(1) by (simp add: append_if_def)
  have cp: "(if ?e AND 1 = 0 then 1 else 0 :: u32) \<noteq> 0 \<longleftrightarrow> c1" by (simp add: c1_def)
  obtain s' where s': "PANIC ?p (s\<lparr>mem := m7\<rparr>) = Some (Spins s')" "vga_frame fb_window (s\<lparr>mem := m7\<rparr>) s'"
    "display s' = print_text (fault_text ?e (cr2 s)) (fb_attr 4 0)
      (blank_screen (fb_attr 4 4) (screen (s\<lparr>mem := m7\<rparr>)), int (1000 - (length (fault_text ?e (cr2 s)) + 1) div 2))"
    by (rule PANIC_spec [of "s\<lparr>mem := m7\<rparr>" ?p "fault_text ?e (cr2 s)"]) (use c7 o l in auto)
  have "page_fault_handler img regs s = Some (Spins s')"
    unfolding page_fault_handler_def Let_def cp
    by (simp add: cs m1(1) m2(1) m3(1) m4(1) a5 m6_def [symmetric] m7(1) s'(1))
  moreover have "m7 a = mem s a" if "\<not> in_region a ?p 80" "\<not> in_region a ?h 9" for a
    using m7(2) m5' that int_to_hex_spec(3) [OF that(2), of m5 "cr2 s"] by (simp add: message_is_def m6_def)
  ultimately show ?thesis using s'(2,3) c7 by (intro that) blast+
qed


section \<open>Properties\<close>

text \<open>C14: \<open>initialise_paging\<close> returns with paging enabled and the first 4 MiB mapped to themselves,
  every other address unmapped; loading the other directory afterwards keeps the mapping.\<close>

theorem paging_identity_mapping:
  assumes "arrays_sized s" and "paging_ready img (fb_move_cursor 0 (fb_clear 0 0 s))" and "tables_linked img"
  shows "\<exists>s' s''. initialise_paging img s = Some s' \<and> bit (cr0 s') 31
    \<and> (\<forall>va. translate img s' va = (if va < 0x400000 then Some va else None))
    \<and> switch_page_directory_i img 1 s' = Some s'' \<and> cr3 s'' = sym_addr img ''other_page_directory''
    \<and> (\<forall>va. translate img s'' va = (if va < 0x400000 then Some va else None))"
proof -
  obtain s' where s': "initialise_paging img s = Some s'" "tables_ready img s'"
    "cr3 s' = sym_addr img ''kernel_page_directory''" "cr0 s' = cr0 s OR 0x80000000" "paging_ready img s'"
    using initialise_paging_spec [OF assms(1,2)] by metis
  obtain s2 where s2: "switch_page_directory img (directories s' ! 1) s' = Some (s2\<lparr>cr3 := directories s' ! 1\<rparr>)"
    "vga_frame (print_writes img pd_msg) s' s2"
    using switch_page_directory_spec [OF s'(5)] by metis
  let ?s'' = "s2\<lparr>cr3 := directories s' ! 1\<rparr>"
  have d: "length (directories s') = 1024" "directories s' ! 1 = sym_addr img ''other_page_directory''"
    using s'(2) by (simp_all add: tables_ready_def)
  have b: "bit (cr0 s') 31" "bit (cr0 ?s'') 31"
    using vga_frame_paging(6) [OF s2(2)] by (simp_all add: s'(4) bit_simps)
  have t: "tables_ready img ?s''"
    using s'(2) vga_frame_paging [OF s2(2)] by (simp add: tables_ready_def)
  have "translate img s' va = (if va < 0x400000 then Some va else None)" for va
    using walk_identity [OF assms(3) s'(2)] s'(3) b(1) by (simp add: translate_def)
  moreover have "translate img ?s'' va = (if va < 0x400000 then Some va else None)" for va
    using walk_identity [OF assms(3) t] d(2) b(2) by (simp add: translate_def)
  moreover have "switch_page_directory_i img 1 s' = Some ?s''"
    using s2(1) d(1) by (simp add: switch_page_directory_i_def)
  ultimately show ?thesis
    using s'(1) b d by (intro exI [of _ s'] exI [of _ ?s'']) simp
qed

lemma fault_text_length:
  "length (fault_text err addr) = 28 + (if err AND 1 = 0 then 8 else 0) + (if err AND 2 \<noteq> 0 then 10 else 0)
    + (if err AND 4 \<noteq> 0 then 10 else 0) + (if err AND 8 \<noteq> 0 then 9 else 0)"
  by (simp add: fault_text_def bytes_of_def)


definition demo_regs :: "u32 \<Rightarrow> registers" where
  "demo_regs err = \<lparr>ds = 0, edi = 0, esi = 0, ebp = 0, useless_value = 0, ebx = 0, edx = 0, ecx = 0, eax = 0,
     int_no = 14, err_code = err, eip = 0, cs = 8, eflags = 0, esp = 0, ss = 0\<rparr>"

definition demo_texts :: "string list" where
  "demo_texts = [hint_d, hint_n, hint_h, pd_msg] @ paging_texts @ fault_literals
     @ [idt_msg, timer_msg, '' '', ''    '', ''Serial Open!'', ''[DEBUG] '', [CHR 0x0A]]"

definition demo_paging_image :: image where
  "demo_paging_image = \<lparr>
     lit_addr = (\<lambda>t. case map_of (zip demo_texts [0..<22]) t of
        Some i \<Rightarrow> 0x2000 + 0x40 * of_nat i | None \<Rightarrow> 0),
     sym_addr = (\<lambda>t. if t = ''kernel_page_directory'' then 0x10000 else if t = ''other_page_directory'' then 0x12000
        else if t = ''kernel_page_table'' then 0x11000 else if t = ''other_page_table'' then 0x13000
        else if t = ''boot_message'' then 0x2000 + 0x40 * 19 else if t = ''_debug'' then 0x2000 + 0x40 * 20
        else if t = ''CHAR_NEW_LINE'' then 0x2000 + 0x40 * 21 else 0x20000),
     local_addr = (\<lambda>t. if t = ''typeHint'' then 0x4000 else if t = ''intAsString'' then 0x5000
        else if t = ''message'' then 0x6000 else 0x7000)\<rparr>"

definition demo_paging_memory :: memory where
  "demo_paging_memory a =
     (let i = unat (a - 0x2000) div 64; j = unat (a - 0x2000) mod 64
      in if 0x2000 \<le> a \<and> i < 22 \<and> j < length (demo_texts ! i) then bytes_of (demo_texts ! i) ! j else 0)"

definition demo_paging :: paging where
  "demo_paging = \<lparr>mem = demo_paging_memory, trace = [], cursor_pos = 0,
     serial_open = 0, placement_address = 0x200000, gdt_entries = [], gdt_ptr = \<lparr>tab_limit = 0, tab_base = 0\<rparr>,
     gdtr = \<lparr>tab_limit = 0, tab_base = 0\<rparr>, idt_entries = [], idt_ptr = \<lparr>tab_limit = 0, tab_base = 0\<rparr>,
     idtr = \<lparr>tab_limit = 0, tab_base = 0\<rparr>, interrupt_handlers = replicate 256 NULL, tick = 0,
     kernel_page_directory = replicate 1024 0, kernel_page_table = replicate 1024 0,
     other_page_directory = replicate 1024 0, other_page_table = replicate 1024 0, directories = replicate 1024 0,
     cr0 = 1, cr2 = 0xC0DE0042, cr3 = 0\<rparr>"


lemma demo_texts_fit: "list_all (\<lambda>t. length t < 63 \<and> list_all (\<lambda>c. c \<noteq> 0) (bytes_of t)) demo_texts"
  by (simp add: demo_texts_def paging_texts_def fault_literals_def hint_d_def hint_n_def hint_h_def pd_msg_def
    idt_msg_def timer_msg_def bytes_of_def)

lemma demo_text_at:
  assumes "i < 22"
  shows "cstr_at demo_paging_memory (0x2000 + 0x40 * of_nat i) (bytes_of (demo_texts ! i))"
proof -
  have "length demo_texts = 22" by (simp add: demo_texts_def paging_texts_def fault_literals_def)
  then have t: "length (demo_texts ! i) < 63" "0 \<notin> set (bytes_of (demo_texts ! i))"
    using demo_texts_fit assms by (auto simp: list_all_iff)
  have m: "demo_paging_memory (0x2000 + 0x40 * of_nat i + of_nat j)
      = (if j < length (demo_texts ! i) then bytes_of (demo_texts ! i) ! j else 0)" if "j < 63" for j
  proof -
    have n: "64 * i + j < 1408" using assms that by simp
    have "0x2000 + 0x40 * of_nat i + of_nat j - 0x2000 = (of_nat (64 * i + j) :: u32)" by simp
    then have u: "unat (0x2000 + 0x40 * of_nat i + of_nat j - 0x2000 :: u32) = 64 * i + j"
      using n by (simp only: unat_of_nat_u32)
    have "0x2000 + 0x40 * of_nat i + of_nat j = (of_nat (0x2000 + (64 * i + j)) :: u32)" by simp
    moreover have "unat (of_nat (0x2000 + (64 * i + j)) :: u32) = 0x2000 + (64 * i + j)"
      using n by (subst unat_of_nat_u32) simp_all
    ultimately have "0x2000 \<le> (0x2000 + 0x40 * of_nat i + of_nat j :: u32)" by (simp add: word_le_nat_alt del: of_nat_add)
    moreover have "(64 * i + j) div 64 = i" "(64 * i + j) mod 64 = j" using that by simp_all
    ultimately show ?thesis unfolding demo_paging_memory_def u Let_def using assms by simp
  qed
  show ?thesis
    using t m by (auto simp: cstr_at_iff nth_read_bytes intro!: nth_equalityI)
qed

lemmas demo_addrs = demo_paging_image_def paging_texts_def fault_literals_def hint_d_def hint_n_def hint_h_def pd_msg_def
  idt_msg_def timer_msg_def

lemma demo_lit_addr:
  "lit_addr demo_paging_image (demo_texts ! i) = 0x2000 + 0x40 * of_nat i" if "i < 22"
proof -
  have d: "distinct demo_texts" "length demo_texts = 22"
    by (simp_all add: demo_texts_def demo_addrs)
  have "map_of (zip demo_texts [0..<22]) (demo_texts ! i) = Some ([0..<22] ! i)"
    using d that by (intro map_of_zip_nth) simp_all
  then show ?thesis using that by (simp add: demo_paging_image_def)
qed

lemma demo_literal:
  assumes "t \<in> set demo_texts"
  shows "cstr_at demo_paging_memory (lit_addr demo_paging_image t) (bytes_of t)"
    and "0x2000 \<le> lit_addr demo_paging_image t" and "lit_addr demo_paging_image t < 0x2600" and "length t < 63"
proof -
  have l: "length demo_texts = 22" by (simp add: demo_texts_def paging_texts_def fault_literals_def)
  then obtain i where i: "i < 22" "t = demo_texts ! i" using assms by (metis in_set_conv_nth)
  show "cstr_at demo_paging_memory (lit_addr demo_paging_image t) (bytes_of t)"
    using demo_text_at [OF i(1)] demo_lit_addr [OF i(1)] i(2) by simp
  have "lit_addr demo_paging_image t = of_nat (0x2000 + 64 * i)" using demo_lit_addr [OF i(1)] i(2) by simp
  then have "unat (lit_addr demo_paging_image t) = 0x2000 + 64 * i" using i(1) by (simp add: unat_of_nat_u32 del: of_nat_add of_nat_mult)
  then show "0x2000 \<le> lit_addr demo_paging_image t" "lit_addr demo_paging_image t < 0x2600"
    using i(1) by (simp_all add: word_le_nat_alt word_less_nat_alt)
  show "length t < 63" using demo_texts_fit i l by (simp add: list_all_length)
qed


lemma disjoint_regions_ordered:
  "unat p + n \<le> unat q \<Longrightarrow> unat q + k \<le> 4294967296 \<Longrightarrow> disjoint_regions p n q k"
  by (rule disjoint_regionsI) (auto simp: in_region_def unat_sub_if' split: if_splits)

lemma demo_apart:
  assumes "t \<in> set demo_texts" and "n \<le> 64"
  shows "unat p \<ge> 0x3000 \<Longrightarrow> unat p + k \<le> 4294967296 \<Longrightarrow> disjoint_regions (lit_addr demo_paging_image t) n p k"
  using demo_literal(3) [OF assms(1)] assms(2) by (intro disjoint_regions_ordered) (simp_all add: word_less_nat_alt)

lemma demo_locals:
  "local_addr demo_paging_image ''typeHint'' = 0x4000" "local_addr demo_paging_image ''intAsString'' = 0x5000"
  "local_addr demo_paging_image ''message'' = 0x6000" "local_addr demo_paging_image ''hex'' = 0x7000"
  by (simp_all add: demo_paging_image_def)

lemma demo_fault_ready: "fault_ready demo_paging_image demo_paging_memory"
proof -
  have "cstr_at demo_paging_memory (lit_addr demo_paging_image t) (bytes_of t)
      \<and> disjoint_regions 0x6000 80 (lit_addr demo_paging_image t) (Suc (length t))" if "t \<in> set fault_literals" for t
  proof -
    have t: "t \<in> set demo_texts" using that by (simp add: demo_texts_def)
    have "disjoint_regions (lit_addr demo_paging_image t) (Suc (length t)) 0x6000 80"
      by (rule demo_apart [OF t]) (use demo_literal(4) [OF t] in simp_all)
    then show ?thesis using demo_literal(1) [OF t] by (simp add: disjoint_regions_sym)
  qed
  then show ?thesis
    unfolding fault_ready_def demo_locals list_all_iff by (simp add: off_screen_def disjoint_regions_ordered)
qed

lemma demo_paging_ready: "paging_ready demo_paging_image s"
  if "mem s = demo_paging_memory" and "on_screen (display s)"
proof -
  have a: "off_screen (lit_addr demo_paging_image t) n"
    "disjoint_regions (lit_addr demo_paging_image t) n 0x4000 (Suc (length pd_msg))"
    "disjoint_regions (lit_addr demo_paging_image t) n 0x5000 12" if "t \<in> set demo_texts" "n \<le> 64" for t n
    unfolding off_screen_def by (rule demo_apart [OF that]; simp add: pd_msg_def)+
  have "text_apart demo_paging_image (mem s) t" if "t \<in> set paging_texts" for t
  proof -
    have t: "t \<in> set demo_texts" using that by (simp add: demo_texts_def)
    have "Suc (length t) \<le> 64" using demo_literal(4) [OF t] by simp
    note at = a [OF t this]
    show ?thesis
      unfolding text_apart_def demo_locals \<open>mem s = demo_paging_memory\<close> using at demo_literal(1) [OF t] by simp
  qed
  moreover have "can_print demo_paging_image pd_msg s"
  proof -
    have h: "hint_d \<in> set demo_texts" "hint_n \<in> set demo_texts" "hint_h \<in> set demo_texts" "pd_msg \<in> set demo_texts"
      by (simp_all add: demo_texts_def)
    have l: "length pd_msg = 27" by (simp add: pd_msg_def)
    have "fprint_layout demo_paging_image (lit_addr demo_paging_image pd_msg) (length (bytes_of pd_msg))"
      unfolding fprint_layout_def demo_locals
      using a [OF h(1), of 5] a [OF h(2), of 5] a [OF h(3), of 5] a [OF h(4), of 28]
      by (auto simp: l disjoint_regions_sym off_screen_def disjoint_regions_ordered)
    then show ?thesis
      using demo_literal(1) [OF h(1)] demo_literal(1) [OF h(2)] demo_literal(1) [OF h(3)] demo_literal(1) [OF h(4)] that
      by (simp add: can_print_def fprint_ready_def literals_loaded_def)
  qed
  ultimately show ?thesis by (simp add: paging_ready_def list_all_iff)
qed

lemma paging_identity_mapping_witness:
  "\<exists>s' s''. initialise_paging demo_paging_image demo_paging = Some s' \<and> translate demo_paging_image s' 0x3FFFFF = Some 0x3FFFFF
     \<and> translate demo_paging_image s' 0x400000 = None
     \<and> switch_page_directory_i demo_paging_image 1 s' = Some s'' \<and> translate demo_paging_image s'' 0xB8000 = Some 0xB8000"
proof -
  let ?s = "fb_move_cursor 0 (fb_clear 0 0 demo_paging)"
  have on: "on_screen (display demo_paging)" "on_screen (display ?s)"
    by (simp_all add: on_screen_def display_def demo_paging_def)
  have "paging_ready demo_paging_image demo_paging"
    using on(1) by (intro demo_paging_ready) (simp_all add: demo_paging_def)
  then have r: "paging_ready demo_paging_image ?s"
    by (rule paging_ready_frame [OF _ window_frame [OF vga_frame_trans [OF clear.op_frame fb_move_cursor_frame]] on(2)])
  have a: "arrays_sized demo_paging" by (simp add: arrays_sized_def demo_paging_def)
  have l: "tables_linked demo_paging_image" by (simp add: tables_linked_def demo_paging_image_def)
  from paging_identity_mapping [OF a r l] show ?thesis by (auto 0 3)
qed


end
