(* ===== verification/Keyboard.thy ===== *)
theory Keyboard
  imports Paging
begin

text \<open>
  The keyboard (src/keyboard.c): what a scan code means, the state of the modifier keys, and the
  interrupt handler that edits the display. \<open>char\<close> is signed on this target, so a scan code above
  0x7F is negative when it is compared with an \<open>int\<close>.
\<close>

section \<open>Scan codes\<close>

record keyboard_event =
  released :: u8
  scancode :: u8
  rscancode :: u8
  is_shift :: u8
  is_ctrl :: u8
  is_return :: u8
  is_tab :: u8
  is_pad :: u8
  is_pad_0 :: u8
  is_pad_1 :: u8
  is_pad_2 :: u8
  is_pad_3 :: u8
  is_pad_4 :: u8
  is_pad_5 :: u8
  is_pad_6 :: u8
  is_pad_7 :: u8
  is_pad_8 :: u8
  is_pad_9 :: u8
  is_pad_return :: u8
  is_pad_backslash :: u8
  is_pad_asterix :: u8
  is_pad_period :: u8
  is_pad_minus :: u8
  is_pad_plus :: u8
  is_capslock :: u8
  is_numeric :: u8
  is_minus :: u8
  is_equals :: u8
  is_open_brace :: u8
  is_close_brace :: u8
  is_arrow_left :: u8
  is_arrow_up :: u8
  is_arrow_down :: u8
  is_arrow_right :: u8
  is_comma :: u8
  is_period :: u8
  is_forwardslash :: u8
  is_colon :: u8
  is_quote :: u8
  is_pipe :: u8
  is_backtick :: u8
  is_command :: u8
  is_command_b :: u8
  is_page_up :: u8
  is_page_down :: u8
  is_home :: u8
  is_end :: u8
  is_insert :: u8
  is_delete :: u8
  is_backspace :: u8
  is_numlock :: u8
  is_escape :: u8
  is_space :: u8
  is_alt :: u8
  sidedness :: u8
  repeating :: u8
  key :: u8

record keyboard = paging +
  KB_SHIFT :: u8
  KB_CTRL :: u8
  KB_ALT :: u8
  KB_NUMLOCK :: u8

abbreviation KBD_DATA_PORT :: u16 where "KBD_DATA_PORT \<equiv> 0x60"
abbreviation KBD_RELEASE :: u32 where "KBD_RELEASE \<equiv> 0x80"

definition truth :: "bool \<Rightarrow> u8" where
  "truth b = (if b then 1 else 0)"

text \<open>The comparison with a code or the code of its release, as most initialisers have it.\<close>

definition is_key :: "u8 \<Rightarrow> u32 \<Rightarrow> u8" where
  "is_key sc code = truth (sx8 sc = code \<or> sx8 sc = code + KBD_RELEASE)"

text \<open>A \<open>switch\<close> that returns a constant for each case is a table with a default.\<close>

definition switch :: "(u8 \<times> u8) list \<Rightarrow> u8 \<Rightarrow> u8 \<Rightarrow> u8" where
  "switch tab dflt code = (case map_of tab code of Some v \<Rightarrow> v | None \<Rightarrow> dflt)"

definition get_numeric :: "u8 \<Rightarrow> u8" where
  "get_numeric code = switch [(0x02, 1), (0x03, 2), (0x04, 3), (0x05, 4), (0x06, 5), (0x07, 6), (0x08, 7),
     (0x09, 8), (0x0A, 9), (0x0B, 0)] (- 1) code"

definition get_is_pad :: "u8 \<Rightarrow> u8" where
  "get_is_pad code = switch (map (\<lambda>c. (c, 1)) [0x47, 0x4B, 0x4F, 0x45, 0x48, 0x4C, 0x50, 0x52, 0x46, 0x49, 0x4D,
     0x51, 0x53, 0x54, 0x37, 0x4E]) 0 code"

definition get_scancode_sidedness :: "u8 \<Rightarrow> u8" where
  "get_scancode_sidedness code = switch [(0x2A, 0), (0x1D, 0), (0x38, 0), (0x36, 1)] (- 1) code"

text \<open>The event that \<open>read_scan_code\<close> makes of the byte it has read.\<close>

definition scan_event :: "u8 \<Rightarrow> keyboard_event" where
  "scan_event sc =
     (let k = \<lparr>released = lo8 (sx8 sc AND KBD_RELEASE),
            scancode = sc,
            rscancode = 0,
            is_shift = 0,
            is_ctrl = truth (sx8 sc = 0x1D \<or> sx8 sc = 0x9D),
            is_return = is_key sc 0x1C,
            is_tab = 0,
            is_pad = 0,
            is_pad_0 = is_key sc 0x52,
            is_pad_1 = is_key sc 0x4F,
            is_pad_2 = is_key sc 0x50,
            is_pad_3 = is_key sc 0x51,
            is_pad_4 = is_key sc 0x4B,
            is_pad_5 = is_key sc 0x4C,
            is_pad_6 = is_key sc 0x4D,
            is_pad_7 = is_key sc 0x47,
            is_pad_8 = is_key sc 0x48,
            is_pad_9 = is_key sc 0x49,
            is_pad_return = 0,
            is_pad_backslash = 0,
            is_pad_asterix = is_key sc 0x37,
            is_pad_period = is_key sc 0x53,
            is_pad_minus = is_key sc 0x4A,
            is_pad_plus = is_key sc 0x4E,
            is_capslock = is_key sc 0x3A,
            is_numeric = 0,
            is_minus = is_key sc 0x0C,
            is_equals = is_key sc 0x0D,
            is_open_brace = is_key sc 0x1A,
            is_close_brace = is_key sc 0x1B,
            is_arrow_left = is_key sc 0x4B,
            is_arrow_up = is_key sc 0x48,
            is_arrow_down = is_key sc 0x50,
            is_arrow_right = is_key sc 0x4D,
            is_comma = is_key sc 0x33,
            is_period = is_key sc 0x34,
            is_forwardslash = is_key sc 0x35,
            is_colon = is_key sc 0x27,
            is_quote = is_key sc 0x28,
            is_pipe = is_key sc 0x2B,
            is_backtick = is_key sc 0x29,
            is_command = truth (sx8 sc = 0),
            is_command_b = truth (sx8 sc = 0),
            is_page_up = is_key sc 0x49,
            is_page_down = is_key sc 0x51,
            is_home = is_key sc 0x47,
            is_end = is_key sc 0x4F,
            is_insert = is_key sc 0x52,
            is_delete = is_key sc 0x53,
            is_backspace = is_key sc 0x0E,
            is_numlock = is_key sc 0x45,
            is_escape = is_key sc 0x01,
            is_space = is_key sc 0x39,
            is_alt = truth (sx8 sc = 0x38 \<or> sx8 sc = 0xB8),
            sidedness = 0,
            repeating = 0,
            key = 0\<rparr>;
          k = (if sx8 sc AND 0x80 \<noteq> 0 then k\<lparr>rscancode := lo8 (sx8 sc - 0x80)\<rparr> else k\<lparr>rscancode := sc\<rparr>);
          k = (if scancode k = 0x0F \<or> scancode k = 0x80 then k\<lparr>is_tab := 1, rscancode := 0x0F\<rparr> else k);
          k = k\<lparr>is_numeric := truth (- 1 <s sx8 (get_numeric (rscancode k)))\<rparr>;
          k = k\<lparr>sidedness := get_scancode_sidedness (rscancode k)\<rparr>
      in k\<lparr>is_shift := truth (rscancode k = 0x2A \<or> rscancode k = 0x36)\<rparr>)"

definition read_scan_code :: "device \<Rightarrow> 'a machine_scheme \<Rightarrow> keyboard_event \<times> 'a machine_scheme" where
  "read_scan_code dev s = (let (sc, s1) = inb dev KBD_DATA_PORT s in (scan_event sc, s1))"

section \<open>Characters\<close>

definition digit_chars :: "(u8 \<times> u8) list" where
  "digit_chars =
    [(0x02, 0x31), (0x03, 0x32), (0x04, 0x33), (0x05, 0x34), (0x06, 0x35), (0x07, 0x36),
     (0x08, 0x37), (0x09, 0x38), (0x0A, 0x39), (0x0B, 0x30)]"

definition shifted_digit_chars :: "(u8 \<times> u8) list" where
  "shifted_digit_chars =
    [(0x02, 0x21), (0x03, 0x40), (0x04, 0x23), (0x05, 0x24), (0x06, 0x25), (0x07, 0x5E),
     (0x08, 0x26), (0x09, 0x2A), (0x0A, 0x28), (0x0B, 0x29)]"

definition upper_chars :: "(u8 \<times> u8) list" where
  "upper_chars =
    [(0x10, 0x51), (0x11, 0x57), (0x12, 0x45), (0x13, 0x52), (0x14, 0x54), (0x15, 0x59),
     (0x16, 0x55), (0x17, 0x49), (0x18, 0x4F), (0x19, 0x50), (0x1E, 0x41), (0x1F, 0x53),
     (0x20, 0x44), (0x21, 0x46), (0x22, 0x47), (0x23, 0x48), (0x24, 0x4A), (0x25, 0x4B),
     (0x26, 0x4C), (0x2C, 0x5A), (0x2D, 0x58), (0x2E, 0x43), (0x2F, 0x56), (0x30, 0x42),
     (0x31, 0x4E), (0x32, 0x4D)]"

definition lower_chars :: "(u8 \<times> u8) list" where
  "lower_chars =
    [(0x10, 0x71), (0x11, 0x77), (0x12, 0x65), (0x13, 0x72), (0x14, 0x74), (0x15, 0x79),
     (0x16, 0x75), (0x17, 0x69), (0x18, 0x6F), (0x19, 0x70), (0x1E, 0x61), (0x1F, 0x73),
     (0x20, 0x64), (0x21, 0x66), (0x22, 0x67), (0x23, 0x68), (0x24, 0x6A), (0x25, 0x6B),
     (0x26, 0x6C), (0x2C, 0x7A), (0x2D, 0x78), (0x2E, 0x63), (0x2F, 0x76), (0x30, 0x62),
     (0x31, 0x6E), (0x32, 0x6D)]"

definition scancode_to_char :: "u8 \<Rightarrow> 'a keyboard_scheme \<Rightarrow> u8" where
  "scancode_to_char code s = (if KB_SHIFT s \<noteq> 0 then switch upper_chars 0 code else switch lower_chars 0 code)"

definition compute_key :: "keyboard_event \<Rightarrow> 'a keyboard_scheme \<Rightarrow> u8 \<times> 'a keyboard_scheme" where
  "compute_key k s =
    (if is_shift k \<noteq> 0 then
       (0, if scancode k = 0xAA \<or> scancode k = 0xB6 then fb_write_cell 1 0x73 0 15 (s\<lparr>KB_SHIFT := 0\<rparr>)
           else (fb_write_cell 1 0x53 0 15 s)\<lparr>KB_SHIFT := 1\<rparr>)
     else if is_ctrl k \<noteq> 0 then (0, s\<lparr>KB_CTRL := truth (released k = 0)\<rparr>)
     else if is_alt k \<noteq> 0 then (0, s\<lparr>KB_ALT := truth (released k = 0)\<rparr>)
     else if is_numeric k \<noteq> 0 then
       (if KB_SHIFT s = 0 then switch digit_chars 0x3D (rscancode k)
        else switch shifted_digit_chars 0x2D (rscancode k), s)
     else if is_minus k \<noteq> 0 then (if KB_SHIFT s \<noteq> 0 then 0x5F else 0x2D, s)
     else if is_equals k \<noteq> 0 then (if KB_SHIFT s \<noteq> 0 then 0x2B else 0x3D, s)
     else if is_forwardslash k \<noteq> 0 then (if KB_SHIFT s \<noteq> 0 then 0x3F else 0x2F, s)
     else if is_open_brace k \<noteq> 0 then (if KB_SHIFT s \<noteq> 0 then 0x7B else 0x5B, s)
     else if is_close_brace k \<noteq> 0 then (if KB_SHIFT s \<noteq> 0 then 0x7D else 0x5D, s)
     else if is_comma k \<noteq> 0 then (if KB_SHIFT s \<noteq> 0 then 0x3C else 0x2C, s)
     else if is_period k \<noteq> 0 then (if KB_SHIFT s \<noteq> 0 then 0x3E else 0x2E, s)
     else if is_colon k \<noteq> 0 then (if KB_SHIFT s \<noteq> 0 then 0x3A else 0x3B, s)
     else if is_quote k \<noteq> 0 then (if KB_SHIFT s \<noteq> 0 then 0x3F else 0x2F, s)
     else if is_pipe k \<noteq> 0 then (if KB_SHIFT s \<noteq> 0 then 0x7C else 0x5C, s)
     else if is_backtick k \<noteq> 0 then (if KB_SHIFT s \<noteq> 0 then 0x7E else 0x60, s)
     else if is_backtick k \<noteq> 0 then (if KB_SHIFT s \<noteq> 0 then 0x7E else 0x60, s)
     else if is_space k \<noteq> 0 then (0x20, s)
     else if is_escape k \<noteq> 0 then (0, s)
     else if is_backspace k \<noteq> 0 then (0, s)
     else if is_return k \<noteq> 0 then (0, s)
     else if is_tab k \<noteq> 0 then (0, s)
     else if is_delete k \<noteq> 0 then (0, s)
     else if is_arrow_left k \<noteq> 0 then (0, s)
     else if is_arrow_right k \<noteq> 0 then (0, s)
     else if is_arrow_up k \<noteq> 0 then (0, s)
     else if is_arrow_down k \<noteq> 0 then (0, s)
     else (scancode_to_char (rscancode k) s, s))"

section \<open>The interrupt handler\<close>

definition kbd_tab :: string where "kbd_tab = ''    ''"

definition keyboard_interrupt :: "image \<Rightarrow> device \<Rightarrow> registers \<Rightarrow> 'a keyboard_scheme \<Rightarrow> 'a keyboard_scheme option" where
  "keyboard_interrupt img dev regs s =
     (let (k, s1) = read_scan_code dev s; (ch, s2) = compute_key k s1
      in if ch = 0 then
           if is_backspace k \<noteq> 0 then
             Some (fb_offset_cursor (- 1) (fb_print_cell 0x20 0 15 (fb_offset_cursor (- 1) s2)))
           else if is_return k \<noteq> 0 then
             let s3 = fb_offset_cursor 80 s2; s4 = fb_shift_down (sint (fb_get_current_row s3)) s3
             in Some (fb_move_cursor_to_start_of_row s4)
           else if is_tab k \<noteq> 0 then fb_print_str (lit_addr img kbd_tab) 0 15 s2
           else if is_delete k \<noteq> 0 then Some (fb_print_cell 0x20 0 15 (fb_offset_cursor (- 1) s2))
           else if is_arrow_left k \<noteq> 0 then Some (fb_offset_cursor (- 1) s2)
           else if is_arrow_right k \<noteq> 0 then Some (fb_offset_cursor 1 s2)
           else if is_arrow_up k \<noteq> 0 then Some (fb_offset_cursor (- 80) s2)
           else if is_arrow_down k \<noteq> 0 then Some (fb_offset_cursor 80 s2)
           else if is_escape k \<noteq> 0 then switch_page_directory_i img 1 s2
           else Some s2
         else if released k \<noteq> 0 then Some s2 else Some (fb_print_cell ch 0 15 s2))"

definition init_keyboard :: "'a descr_scheme \<Rightarrow> 'a descr_scheme" where
  "init_keyboard s = register_interrupt_handler 33 keyboard_callback s"

section \<open>What the codes mean\<close>

lemma truth_simps [simp]: "truth b = 0 \<longleftrightarrow> \<not> b" "truth b = 1 \<longleftrightarrow> b"
  by (simp_all add: truth_def)

text \<open>With a signed \<open>char\<close> the comparison with the code of the release never succeeds.\<close>

lemma sx8_eq: "sx8 sc = c \<longleftrightarrow> sc = lo8 c \<and> sx8 (lo8 c) = c"
  using lo8_sx8 [of sc] by auto

lemma is_key_eq:
  assumes "sx8 (lo8 c) = c" and "sx8 (lo8 (c + 0x80)) \<noteq> c + 0x80"
  shows "is_key sc c = truth (sc = lo8 c)"
proof -
  have "sx8 sc \<noteq> c + 0x80" using assms(2) sx8_eq [of sc "c + 0x80"] by blast
  moreover have "sx8 sc = c \<longleftrightarrow> sc = lo8 c" using assms(1) sx8_eq [of sc c] by blast
  ultimately show ?thesis by (simp add: is_key_def)
qed

text \<open>The code without its release bit; the byte 0x80 is taken for a tab.\<close>

definition base_code :: "u8 \<Rightarrow> u8" where
  "base_code sc = (if sc = 0x80 then 0x0F else sc AND 0x7F)"

lemma release_masks: "(0x80 :: u8) = 2 ^ 7" "(0x80 :: u32) = 2 ^ 7" "(0x7F :: u8) = mask 7"
  by (simp_all add: mask_eq_exp_minus_1)

lemma bit_release: "bit (0x80 :: u8) n \<longleftrightarrow> n = 7"
  unfolding release_masks bit_exp_iff by auto

lemma release_bit:
  "sx8 sc AND 0x80 = 0 \<longleftrightarrow> \<not> bit sc 7" "lo8 (sx8 sc AND 0x80) = sc AND 0x80"
  "\<not> bit sc 7 \<Longrightarrow> sc AND 0x7F = sc" "bit sc 7 \<Longrightarrow> lo8 (sx8 sc - 0x80) = sc AND 0x7F"
proof -
  show "sx8 sc AND 0x80 = 0 \<longleftrightarrow> \<not> bit sc 7"
    unfolding release_masks and_exp_eq_0_iff_not_bit by (simp add: sx8_def bit_simps)
  show "lo8 (sx8 sc AND 0x80) = sc AND 0x80"
    unfolding release_masks lo8_def sx8_def by (rule bit_word_eqI) (auto simp: bit_simps min_def dest: top_bit)
  have s: "n < 7" if "bit sc n" "n \<noteq> 7" for n
    using bit_imp_le_length [OF that(1)] that(2) by simp
  show l: "sc AND 0x7F = sc" if "\<not> bit sc 7"
    unfolding release_masks using that s by (intro bit_word_eqI) (auto simp: bit_simps)
  show "lo8 (sx8 sc - 0x80) = sc AND 0x7F" if "bit sc 7"
  proof -
    have "lo8 (sx8 sc - 0x80) = lo8 (sx8 sc) - 0x80"
      unfolding lo8_def by (rule word_uint_eqI) (simp add: uint_word_ariths unsigned_ucast_eq take_bit_eq_mod mod_simps mod_mod_cancel)
    moreover have "sc AND 0x80 = 0x80"
      using that by (intro bit_word_eqI) (metis bit_and_iff bit_release)
    moreover have "(sc AND 0x80) + (sc AND 0x7F) = sc"
    proof -
      have "(sc AND 0x80) AND (sc AND 0x7F) = (sc AND sc) AND (0x80 AND 0x7F)" by (simp only: ac_simps)
      then have "(sc AND 0x80) AND (sc AND 0x7F) = 0" by simp
      then have "(sc AND 0x80) + (sc AND 0x7F) = (sc AND 0x80) OR (sc AND 0x7F)"
        using word_plus_and_or [of "sc AND 0x80" "sc AND 0x7F"] by simp
      also have "\<dots> = sc AND (0x80 OR 0x7F)" by (simp only: and.commute [of sc] bit.conj_disj_distrib2)
      also have "(0x80 OR 0x7F :: u8) = - 1" by simp
      also have "sc AND - 1 = sc" by simp
      finally show ?thesis .
    qed
    ultimately show ?thesis using lo8_sx8 [of sc] by (metis add_diff_cancel_left')
  qed
qed

lemma scan_event_codes:
  "released (scan_event sc) = sc AND 0x80" "scancode (scan_event sc) = sc" "rscancode (scan_event sc) = base_code sc"
proof -
  show "released (scan_event sc) = sc AND 0x80" "scancode (scan_event sc) = sc"
    by (simp_all add: scan_event_def Let_def release_bit)
  have "(0x0F :: u8) AND 0x7F = 0x0F" by simp
  then show "rscancode (scan_event sc) = base_code sc"
    using release_bit(1,3,4) [of sc] by (auto simp: scan_event_def Let_def base_code_def)
qed

lemma scan_event_keys:
  "is_return (scan_event sc) = truth (sc = 0x1C)"
  "is_minus (scan_event sc) = truth (sc = 0x0C)"
  "is_equals (scan_event sc) = truth (sc = 0x0D)"
  "is_open_brace (scan_event sc) = truth (sc = 0x1A)"
  "is_close_brace (scan_event sc) = truth (sc = 0x1B)"
  "is_arrow_left (scan_event sc) = truth (sc = 0x4B)"
  "is_arrow_up (scan_event sc) = truth (sc = 0x48)"
  "is_arrow_down (scan_event sc) = truth (sc = 0x50)"
  "is_arrow_right (scan_event sc) = truth (sc = 0x4D)"
  "is_comma (scan_event sc) = truth (sc = 0x33)"
  "is_period (scan_event sc) = truth (sc = 0x34)"
  "is_forwardslash (scan_event sc) = truth (sc = 0x35)"
  "is_colon (scan_event sc) = truth (sc = 0x27)"
  "is_quote (scan_event sc) = truth (sc = 0x28)"
  "is_pipe (scan_event sc) = truth (sc = 0x2B)"
  "is_backtick (scan_event sc) = truth (sc = 0x29)"
  "is_delete (scan_event sc) = truth (sc = 0x53)"
  "is_backspace (scan_event sc) = truth (sc = 0x0E)"
  "is_escape (scan_event sc) = truth (sc = 0x01)"
  "is_space (scan_event sc) = truth (sc = 0x39)"
  by (simp_all add: scan_event_def Let_def is_key_eq sx8_def lo8_def)

lemma scan_event_modifiers:
  "is_shift (scan_event sc) = truth (base_code sc = 0x2A \<or> base_code sc = 0x36)"
  "is_ctrl (scan_event sc) = truth (sc = 0x1D)" "is_alt (scan_event sc) = truth (sc = 0x38)"
  "is_tab (scan_event sc) = truth (sc = 0x0F \<or> sc = 0x80)"
  "is_numeric (scan_event sc) = truth (- 1 <s sx8 (get_numeric (base_code sc)))"
proof -
  show "is_ctrl (scan_event sc) = truth (sc = 0x1D)" "is_alt (scan_event sc) = truth (sc = 0x38)"
    using sx8_eq [of sc "0x1D"] sx8_eq [of sc "0x9D"] sx8_eq [of sc "0x38"] sx8_eq [of sc "0xB8"]
    by (simp_all add: scan_event_def Let_def) (simp_all add: sx8_def lo8_def)
  show "is_tab (scan_event sc) = truth (sc = 0x0F \<or> sc = 0x80)"
    by (simp add: scan_event_def Let_def truth_def)
  have "is_shift (scan_event sc) = truth (rscancode (scan_event sc) = 0x2A \<or> rscancode (scan_event sc) = 0x36)"
    "is_numeric (scan_event sc) = truth (- 1 <s sx8 (get_numeric (rscancode (scan_event sc))))"
    by (simp_all add: scan_event_def Let_def)
  then show "is_shift (scan_event sc) = truth (base_code sc = 0x2A \<or> base_code sc = 0x36)"
    "is_numeric (scan_event sc) = truth (- 1 <s sx8 (get_numeric (base_code sc)))"
    by (simp_all add: scan_event_codes)
qed

lemma numeric_codes:
  "- 1 <s sx8 (get_numeric c) \<longleftrightarrow> c \<in> {0x02, 0x03, 0x04, 0x05, 0x06, 0x07, 0x08, 0x09, 0x0A, 0x0B}"
proof -
  have "sx8 (- 1) = - 1" unfolding sx8_def by (rule bit_word_eqI) (simp add: bit_simps min_def)
  then show ?thesis by (simp add: get_numeric_def switch_def word_sless_alt) (simp add: sx8_def)
qed

lemmas scan_event_simps = scan_event_codes scan_event_keys scan_event_modifiers numeric_codes

text \<open>The layout the tables are meant to follow: four rows of a US keyboard, plain and shifted.\<close>

definition key_rows :: "(nat \<times> string \<times> string) list" where
  "key_rows =
    [(0x02, ''1234567890-='', ''!@#$%^&*()_+''), (0x10, ''qwertyuiop[]'', ''QWERTYUIOP{}''),
     (0x1E, ''asdfghjkl;'' @ [CHR 0x27, CHR 0x60], ''ASDFGHJKL:'' @ [CHR 0x22] @ ''~''),
     (0x2B, [CHR 0x5C] @ ''zxcvbnm,./'', ''|ZXCVBNM<>?''), (0x39, '' '', '' '')]"

definition us_char :: "bool \<Rightarrow> u8 \<Rightarrow> u8" where
  "us_char shifted sc =
     foldr (\<lambda>(k, lower, upper) c.
       if k \<le> unat sc \<and> unat sc < k + length lower
       then bytes_of (if shifted then upper else lower) ! (unat sc - k) else c) key_rows 0"


lemmas key_simps = compute_key_def scan_event_simps base_code_def switch_def
  scancode_to_char_def digit_chars_def shifted_digit_chars_def upper_chars_def lower_chars_def

lemmas us_simps = us_char_def key_rows_def bytes_of_def


text \<open>Shift, control and alt apart, every key but one gives the character of the layout.\<close>

definition plain_key :: "u8 \<Rightarrow> bool" where
  "plain_key sc \<longleftrightarrow> \<not> bit sc 7 \<and> sc \<notin> {0x2A, 0x36, 0x1D, 0x38}"

definition key_ok :: "'a keyboard_scheme \<Rightarrow> nat \<Rightarrow> bool" where
  "key_ok s n \<longleftrightarrow> of_nat n \<in> {0x2A, 0x36, 0x1D, 0x38 :: u8}
     \<or> fst (compute_key (scan_event (of_nat n)) s) =
        (if n = 0x28 then if KB_SHIFT s \<noteq> 0 then 0x3F else 0x2F else us_char (KB_SHIFT s \<noteq> 0) (of_nat n))"

lemma key_ok_all: "list_all (key_ok s) [0..<128]"
proof -
  have "key_ok s 0 \<and> key_ok s 1 \<and> list_all (key_ok s) [2..<128]"
  proof (cases "KB_SHIFT s = 0")
    case True
    show ?thesis
      by (simp only: upt_rec_numeral list.pred_inject simp_thms if_True if_False numeral_less_iff, intro conjI; simp add: key_ok_def key_simps us_simps True)
  next
    case False
    show ?thesis
      by (simp add: upt_rec_numeral) (intro conjI; simp add: key_ok_def key_simps us_simps False)
  qed
  then show ?thesis by (simp add: upt_rec [of 0] upt_rec [of "Suc 0"] numeral_2_eq_2)
qed

lemma numeral_eq_128: "(128 :: nat) = 2 ^ 7"
  by simp

lemma compute_key_char:
  assumes "plain_key sc"
  shows "fst (compute_key (scan_event sc) s) =
    (if sc = 0x28 then if KB_SHIFT s \<noteq> 0 then 0x3F else 0x2F else us_char (KB_SHIFT s \<noteq> 0) sc)"
    and "snd (compute_key (scan_event sc) s) = s"
proof -
  have "sc AND 0x7F = sc" using assms by (simp add: plain_key_def release_bit)
  then have "unat sc < 128"
    unfolding release_masks(3) take_bit_eq_mask [symmetric] by (metis take_bit_nat_less_exp unsigned_take_bit_eq numeral_eq_128)
  with key_ok_all [of s] have "key_ok s (unat sc)" unfolding list_all_iff by simp
  moreover have "unat sc = 0x28 \<longleftrightarrow> sc = 0x28" by (simp add: word_unat_eq_iff)
  ultimately show "fst (compute_key (scan_event sc) s) =
    (if sc = 0x28 then if KB_SHIFT s \<noteq> 0 then 0x3F else 0x2F else us_char (KB_SHIFT s \<noteq> 0) sc)"
    using assms by (simp add: plain_key_def key_ok_def)
  have "sc \<noteq> 0x80" using assms bit_release [of 7] by (auto simp: plain_key_def)
  then have "base_code sc = sc" using \<open>sc AND 0x7F = sc\<close> by (simp add: base_code_def)
  then show "snd (compute_key (scan_event sc) s) = s"
    using assms by (simp add: compute_key_def scan_event_simps plain_key_def)
qed

end
