(* ===== verification/Keyboard_Props.thy ===== *)
theory Keyboard_Props
  imports Keyboard
begin

text \<open>
  What the keyboard handler does to the modifiers and to the display, and that it always returns in a
  state in which it can run again.
\<close>

section \<open>The modifier keys\<close>

lemma code_split: "sc AND 0x7F = c \<and> c AND 0x80 = 0 \<longleftrightarrow> (sc = c \<or> sc = c + 0x80) \<and> c AND 0x80 = (0 :: u8)"
proof (cases "c AND 0x80 = 0")
  case c: True
  have "(0x80 :: u8) = - 0x80" by simp
  have nb: "\<not> bit c 7" using c unfolding release_masks and_exp_eq_0_iff_not_bit .
  have c7: "c AND 0x7F = c" using nb by (rule release_bit(3))
  show ?thesis
  proof (cases "bit sc 7")
    case True
    have "sc - 0x80 = sc AND 0x7F"
    proof -
      have "lo8 (sx8 sc - 0x80) = lo8 (sx8 sc) - 0x80"
        unfolding lo8_def by (rule word_uint_eqI) (simp add: uint_word_ariths unsigned_ucast_eq take_bit_eq_mod mod_simps mod_mod_cancel)
      then show ?thesis using release_bit(4) [OF True] by (simp add: lo8_sx8)
    qed
    moreover have "sc \<noteq> c" using True nb by auto
    ultimately show ?thesis using c by (auto simp: algebra_simps)
  next
    case False
    have "sc \<noteq> c + 0x80"
    proof
      assume "sc = c + 0x80"
      moreover have "c + 0x80 = c OR 0x80"
        using word_plus_and_or [of c "0x80"] c by simp
      ultimately have "bit sc 7" by (simp add: bit_or_iff bit_release)
      with False show False by simp
    qed
    then show ?thesis using release_bit(3) [OF False] c by auto
  qed
qed simp

lemma shift_codes: "base_code sc = 0x2A \<or> base_code sc = 0x36 \<longleftrightarrow> sc \<in> {0x2A, 0x36, 0xAA, 0xB6}"
  using code_split [of sc "0x2A"] code_split [of sc "0x36"] by (auto simp: base_code_def)

lemma compute_key_modifiers:
  "KB_SHIFT (snd (compute_key (scan_event sc) s)) = (if sc \<in> {0x2A, 0x36} then 1 else if sc \<in> {0xAA, 0xB6} then 0 else KB_SHIFT s)"
  "KB_CTRL (snd (compute_key (scan_event sc) s)) = (if sc = 0x1D then 1 else KB_CTRL s)"
  "KB_ALT (snd (compute_key (scan_event sc) s)) = (if sc = 0x38 then 1 else KB_ALT s)"
  unfolding compute_key_def scan_event_simps shift_codes truth_simps
  by (simp_all add: fb_write_cell_def Let_def store8_def truth_def)

lemma compute_key_frame:
  obtains a b c where "mem_frame fb_window (s\<lparr>KB_SHIFT := a, KB_CTRL := b, KB_ALT := c\<rparr>) (snd (compute_key k s))"
proof -
  have eq: "s = s\<lparr>KB_SHIFT := KB_SHIFT s, KB_CTRL := KB_CTRL s, KB_ALT := KB_ALT s\<rparr>" by simp
  show ?thesis
  proof (cases "is_shift k \<noteq> 0")
    case True
    let ?t = "\<lambda>v. s\<lparr>KB_SHIFT := v\<rparr>"
    have w: "mem_frame fb_window (?t 0) (fb_write_cell 1 0x73 0 15 (?t 0))" "mem_frame fb_window (?t 1) (fb_write_cell 1 0x53 0 15 (?t 1))"
      using fb_write_cell_frame [of 1] by simp_all
    have c: "(fb_write_cell 1 0x53 0 15 s)\<lparr>KB_SHIFT := 1\<rparr> = fb_write_cell 1 0x53 0 15 (?t 1)"
      by (simp add: fb_write_cell_def store8_def Let_def)
    show ?thesis
    proof (cases "scancode k = 0xAA \<or> scancode k = 0xB6")
      case r: True
      show ?thesis by (rule that [where a = 0 and b = "KB_CTRL s" and c = "KB_ALT s"]) (use w(1) True r in \<open>simp add: compute_key_def\<close>)
    next
      case r: False
      show ?thesis by (rule that [where a = 1 and b = "KB_CTRL s" and c = "KB_ALT s"]) (use w(2) True r in \<open>simp add: compute_key_def c\<close>)
    qed
  next
    case sh: False
    show ?thesis
    proof (cases "is_ctrl k \<noteq> 0")
      case True
      show ?thesis
        by (rule that [where a = "KB_SHIFT s" and b = "truth (released k = 0)" and c = "KB_ALT s"]) (use sh True in \<open>simp add: compute_key_def\<close>)
    next
      case ct: False
      show ?thesis
      proof (cases "is_alt k \<noteq> 0")
        case True
        show ?thesis
          by (rule that [where a = "KB_SHIFT s" and b = "KB_CTRL s" and c = "truth (released k = 0)"]) (use sh ct True in \<open>simp add: compute_key_def\<close>)
      next
        case False
        have "snd (compute_key k s) = s" using sh ct False by (simp add: compute_key_def)
        then show ?thesis using that [where a = "KB_SHIFT s" and b = "KB_CTRL s" and c = "KB_ALT s"] by simp
      qed
    qed
  qed
qed

section \<open>The handler\<close>

text \<open>What the handler relies on: the display and its literals ready, and a full table of directories.\<close>

definition kbd_ready :: "image \<Rightarrow> 'a keyboard_scheme \<Rightarrow> bool" where
  "kbd_ready img s \<longleftrightarrow> paging_ready img s \<and> text_apart img (mem s) kbd_tab \<and> length (directories s) = 1024"

lemma kbd_ready_cong:
  "mem s' = mem s \<Longrightarrow> cursor_pos s' = cursor_pos s \<Longrightarrow> length (directories s') = length (directories s) \<Longrightarrow> kbd_ready img s' = kbd_ready img s"
  using paging_ready_cong [of s' s] by (simp add: kbd_ready_def)

lemma kbd_ready_frame:
  assumes "kbd_ready img s" and "vga_frame (print_writes img pd_msg) s s'" and "on_screen (display s')"
  shows "kbd_ready img s'"
  using assms paging_ready_frame [OF _ assms(2,3)] text_apart_frame [of img "mem s" kbd_tab "mem s'"] vga_frameD [OF assms(2)]
    vga_frame_paging(5) [OF assms(2)]
  by (simp add: kbd_ready_def kbd_tab_def)

lemma kbd_ready_on_screen: "kbd_ready img s \<Longrightarrow> on_screen (display s)"
  by (simp add: kbd_ready_def paging_ready_def can_print_def)

lemma text_printed:
  assumes "text_apart img (mem s) t" and "on_screen (display s)" and "length t \<le> 100"
  obtains s1 where "fb_print_str (lit_addr img t) fg bg s = Some s1" and "vga_frame fb_window s s1"
    and "display s1 = print_text (bytes_of t) (fb_attr fg bg) (display s)"
proof -
  have "0 \<le> sint (cursor_pos s)" "nat (sint (cursor_pos s)) + length (bytes_of t) \<le> 16384"
    "off_screen (lit_addr img t) (Suc (length (bytes_of t)))" "cstr_at (mem s) (lit_addr img t) (bytes_of t)"
    using assms by (auto simp: on_screen_cursor text_apart_def nat_le_iff)
  from fb_print_str_spec [OF this(1,2,4,3)] show ?thesis using that by metis
qed

text \<open>The display operations the handler composes.\<close>

definition edits :: "'a vga_scheme \<Rightarrow> 'a vga_scheme \<Rightarrow> bool" where
  "edits s s' \<longleftrightarrow> vga_frame fb_window s s' \<and> on_screen (display s')"

lemma edits_trans: "edits s s' \<Longrightarrow> edits s' s'' \<Longrightarrow> edits s s''"
  unfolding edits_def using vga_frame_trans by blast

lemma edits_offset: "edits s (fb_offset_cursor d s)"
  using fb_offset_cursor_frame fb_offset_cursor_range unfolding edits_def on_screen_cursor by blast

lemma edits_cell: "on_screen (display s) \<Longrightarrow> edits s (fb_print_cell c fg bg s)"
proof -
  assume on: "on_screen (display s)"
  have "0 \<le> sint (cursor_pos s)" "nat (sint (cursor_pos s)) < 16384" using on by (auto simp: on_screen_cursor)
  from fb_print_cell_spec [OF this] show ?thesis by (simp add: edits_def)
qed

lemma edits_newline:
  "edits s (fb_move_cursor_to_start_of_row (fb_shift_down r (fb_offset_cursor 80 s)))"
proof -
  let ?s1 = "fb_offset_cursor 80 s" and ?s2 = "fb_shift_down r (fb_offset_cursor 80 s)"
  have f: "vga_frame fb_window s ?s2"
    by (rule vga_frame_trans [OF fb_offset_cursor_frame mem_frame_vga [OF fb_shift_down_frame]])
  have on: "on_screen (display ?s2)"
    using fb_offset_cursor_range [of 80 s] by (simp add: on_screen_cursor)
  show ?thesis
    unfolding edits_def using vga_frame_trans [OF f fb_start_of_row_spec(2) [OF on]] fb_start_of_row_spec(3) [OF on] by blast
qed


lemma edits_frame: "edits s s' \<Longrightarrow> vga_frame (print_writes img pd_msg) s s' \<and> on_screen (display s')"
  unfolding edits_def using window_frame by blast

text \<open>The state after the code has been read and the modifiers are updated.\<close>

definition key_seen :: "u8 \<Rightarrow> 'a keyboard_scheme \<Rightarrow> 'a keyboard_scheme" where
  "key_seen sc s = snd (compute_key (scan_event sc) (s\<lparr>trace := In 0x60 sc # trace s\<rparr>))"

lemma keyboard_interrupt_spec:
  assumes "kbd_ready img s" and "s2 = key_seen (dev (trace s) 0x60) s"
  obtains s' v where "keyboard_interrupt img dev regs s = Some (s'\<lparr>cr3 := v\<rparr>)" and "kbd_ready img s2"
    and "vga_frame (print_writes img pd_msg) s2 s'" and "on_screen (display s')" and "v = cr3 s' \<or> v = directories s' ! 1"
proof -
  define sc where "sc = dev (trace s) 0x60"
  define s1 where "s1 = s\<lparr>trace := In 0x60 sc # trace s\<rparr>"
  define k where "k = scan_event sc"
  define ch where "ch = fst (compute_key k s1)"
  have s2: "s2 = snd (compute_key k s1)" by (simp add: assms(2) key_seen_def k_def s1_def sc_def)
  obtain a b c where f: "mem_frame fb_window (s1\<lparr>KB_SHIFT := a, KB_CTRL := b, KB_ALT := c\<rparr>) s2"
    unfolding s2 by (rule compute_key_frame)
  let ?t = "s1\<lparr>KB_SHIFT := a, KB_CTRL := b, KB_ALT := c\<rparr>"
  have "kbd_ready img ?t" using assms(1) kbd_ready_cong [of ?t s] by (simp add: s1_def)
  moreover have fw: "vga_frame fb_window ?t s2" using f by (rule mem_frame_vga)
  moreover have "on_screen (display s2)"
    using f kbd_ready_on_screen [OF assms(1)] by (auto simp: on_screen_cursor mem_frame_def s1_def)
  ultimately have r2: "kbd_ready img s2" using kbd_ready_frame window_frame by blast
  then have on2: "on_screen (display s2)" by (rule kbd_ready_on_screen)
  have eq: "keyboard_interrupt img dev regs s =
     (if ch = 0 then
        if is_backspace k \<noteq> 0 then Some (fb_offset_cursor (- 1) (fb_print_cell 0x20 0 15 (fb_offset_cursor (- 1) s2)))
        else if is_return k \<noteq> 0 then Some (fb_move_cursor_to_start_of_row
            (fb_shift_down (sint (fb_get_current_row (fb_offset_cursor 80 s2))) (fb_offset_cursor 80 s2)))
        else if is_tab k \<noteq> 0 then fb_print_str (lit_addr img kbd_tab) 0 15 s2
        else if is_delete k \<noteq> 0 then Some (fb_print_cell 0x20 0 15 (fb_offset_cursor (- 1) s2))
        else if is_arrow_left k \<noteq> 0 then Some (fb_offset_cursor (- 1) s2)
        else if is_arrow_right k \<noteq> 0 then Some (fb_offset_cursor 1 s2)
        else if is_arrow_up k \<noteq> 0 then Some (fb_offset_cursor (- 80) s2)
        else if is_arrow_down k \<noteq> 0 then Some (fb_offset_cursor 80 s2)
        else if is_escape k \<noteq> 0 then switch_page_directory_i img 1 s2
        else Some s2
      else if released k \<noteq> 0 then Some s2 else Some (fb_print_cell ch 0 15 s2))"
    by (simp add: keyboard_interrupt_def read_scan_code_def inb_def split_beta Let_def s2 ch_def k_def s1_def sc_def)
  note finish = that
  have fin: thesis if "keyboard_interrupt img dev regs s = Some s'" "edits s2 s'" for s'
    using that(1) r2 edits_frame [OF that(2)] by (intro finish [where s' = s' and v = "cr3 s'"]) auto
  have e: "edits s2 s2" using on2 by (simp add: edits_def)
  have ed: "edits s2 (fb_print_cell c fg bg (fb_offset_cursor d s2))" for c fg bg d
    using edits_trans [OF edits_offset edits_cell] edits_offset unfolding edits_def by blast
  have eb: "edits s2 (fb_offset_cursor d' (fb_print_cell c fg bg (fb_offset_cursor d s2)))" for c fg bg d d'
    using ed edits_offset by (rule edits_trans)
  define Q where "Q r \<longleftrightarrow> r = switch_page_directory_i img 1 s2 \<or> r = fb_print_str (lit_addr img kbd_tab) 0 15 s2
    \<or> (\<exists>s'. r = Some s' \<and> edits s2 s')" for r
  have Q: "Q (if b then r else r')" if "Q r" "Q r'" for b r r' using that by simp
  have Q_Some: "Q (Some s')" if "edits s2 s'" for s' using that by (simp add: Q_def)
  have Q_tab: "Q (fb_print_str (lit_addr img kbd_tab) 0 15 s2)" and Q_esc: "Q (switch_page_directory_i img 1 s2)"
    by (simp_all add: Q_def)
  have "Q (keyboard_interrupt img dev regs s)"
    unfolding eq by (intro Q Q_Some Q_tab Q_esc e ed eb edits_offset edits_newline edits_cell [OF on2])
  then consider (esc) "keyboard_interrupt img dev regs s = switch_page_directory_i img 1 s2"
    | (tab) "keyboard_interrupt img dev regs s = fb_print_str (lit_addr img kbd_tab) 0 15 s2"
    | (other) s' where "keyboard_interrupt img dev regs s = Some s'" "edits s2 s'"
    unfolding Q_def by blast
  then show ?thesis
  proof cases
    case tab
    have "text_apart img (mem s2) kbd_tab" using r2 by (simp add: kbd_ready_def)
    then obtain s' where s': "fb_print_str (lit_addr img kbd_tab) 0 15 s2 = Some s'" "vga_frame fb_window s2 s'"
      "display s' = print_text (bytes_of kbd_tab) (fb_attr 0 15) (display s2)"
      by (rule text_printed [OF _ on2]) (simp add: kbd_tab_def)
    have "edits s2 s'" using s'(2,3) by (simp add: edits_def)
    then show ?thesis using tab s'(1) by (intro fin) simp_all
  next
    case esc
    have r: "paging_ready img s2" and l: "length (directories s2) = 1024" using r2 by (simp_all add: kbd_ready_def)
    obtain s' where s': "switch_page_directory img (directories s2 ! 1) s2 = Some (s'\<lparr>cr3 := directories s2 ! 1\<rparr>)"
      "vga_frame (print_writes img pd_msg) s2 s'" "paging_ready img s'"
      by (rule switch_page_directory_spec [OF r])
    show ?thesis
      by (rule that [where s' = s' and v = "directories s2 ! 1"])
        (use esc r2 l s' vga_frame_paging(5) [OF s'(2)] in \<open>simp_all add: switch_page_directory_i_def paging_ready_def can_print_def\<close>)
  qed (rule fin)
qed

text \<open>The paging structures are untouched, apart from the choice of a directory.\<close>

definition same_tables :: "'a paging_scheme \<Rightarrow> 'a paging_scheme \<Rightarrow> bool" where
  "same_tables s s' \<longleftrightarrow> kernel_page_directory s' = kernel_page_directory s \<and> other_page_directory s' = other_page_directory s
     \<and> kernel_page_table s' = kernel_page_table s \<and> other_page_table s' = other_page_table s
     \<and> directories s' = directories s \<and> cr0 s' = cr0 s \<and> (cr3 s' = cr3 s \<or> cr3 s' = directories s ! 1)"

lemma keyboard_interrupt_keeps:
  assumes "kbd_ready img s"
  obtains s' where "keyboard_interrupt img dev regs s = Some s'" and "kbd_ready img s'"
    and "interrupt_handlers s' = interrupt_handlers s" and "tick s' = tick s"
    and "KB_SHIFT s' = KB_SHIFT (key_seen (dev (trace s) 0x60) s)" and "KB_CTRL s' = KB_CTRL (key_seen (dev (trace s) 0x60) s)"
    and "KB_ALT s' = KB_ALT (key_seen (dev (trace s) 0x60) s)" and "same_tables s s'"
    and "keyboard.more s' = keyboard.more s"
proof -
  let ?s2 = "key_seen (dev (trace s) 0x60) s"
  obtain s' v where s': "keyboard_interrupt img dev regs s = Some (s'\<lparr>cr3 := v\<rparr>)" "kbd_ready img ?s2"
    "vga_frame (print_writes img pd_msg) ?s2 s'" "on_screen (display s')" "v = cr3 s' \<or> v = directories s' ! 1"
    by (rule keyboard_interrupt_spec [OF assms refl])
  have r: "kbd_ready img (s'\<lparr>cr3 := v\<rparr>)"
    using kbd_ready_frame [OF s'(2-4)] kbd_ready_cong [of "s'\<lparr>cr3 := v\<rparr>" s'] by simp
  obtain a b c where "mem_frame fb_window ((s\<lparr>trace := In 0x60 (dev (trace s) 0x60) # trace s\<rparr>)\<lparr>KB_SHIFT := a, KB_CTRL := b, KB_ALT := c\<rparr>) ?s2"
    unfolding key_seen_def by (rule compute_key_frame)
  then have k: "interrupt_handlers ?s2 = interrupt_handlers s" "tick ?s2 = tick s" "same_tables s ?s2" "cr3 ?s2 = cr3 s"
    "keyboard.more ?s2 = keyboard.more s"
    by (auto dest!: mem_frame_vga simp: vga_frame_def same_tables_def)
  have m: "KB_SHIFT s' = KB_SHIFT ?s2" "KB_CTRL s' = KB_CTRL ?s2" "KB_ALT s' = KB_ALT ?s2"
    "interrupt_handlers s' = interrupt_handlers ?s2" "tick s' = tick ?s2"
    "keyboard.more s' = keyboard.more ?s2"
    using s'(3) by (auto simp: vga_frame_def)
  have t: "same_tables s (s'\<lparr>cr3 := v\<rparr>)"
    using k(3,4) vga_frame_paging [OF s'(3)] s'(5) by (auto simp: same_tables_def)
  show ?thesis by (rule that [OF s'(1) r]) (simp_all add: m k t)
qed

section \<open>Properties\<close>

text \<open>A sequence of key events: the handler runs once for each code the keyboard delivers.\<close>

fun press_all :: "image \<Rightarrow> registers \<Rightarrow> u8 list \<Rightarrow> 'a keyboard_scheme \<Rightarrow> 'a keyboard_scheme option" where
  "press_all img regs [] s = Some s"
| "press_all img regs (b # bs) s =
     do { s1 \<leftarrow> keyboard_interrupt img (\<lambda>t p. b) regs s; press_all img regs bs s1 }"

text \<open>Whether shift is held: pressed and not released since.\<close>

fun shift_held :: "u8 list \<Rightarrow> bool \<Rightarrow> bool" where
  "shift_held [] h = h"
| "shift_held (b # bs) h = shift_held bs (if b \<in> {0x2A, 0x36} then True else if b \<in> {0xAA, 0xB6} then False else h)"

text \<open>C22: after any sequence of scan codes the handler has always returned, the shift state is that of the
  last shift event, and the control and alt states are set by a press of the left key and then never
  cleared, because the comparison with the release codes 0x9D and 0xB8 fails for a signed \<open>char\<close>.\<close>

theorem keyboard_modifiers:
  assumes "kbd_ready img s"
  shows "\<exists>s'. press_all img regs bs s = Some s' \<and> kbd_ready img s'
    \<and> (KB_SHIFT s' \<noteq> 0) = shift_held bs (KB_SHIFT s \<noteq> 0)
    \<and> KB_CTRL s' = (if 0x1D \<in> set bs then 1 else KB_CTRL s)
    \<and> KB_ALT s' = (if 0x38 \<in> set bs then 1 else KB_ALT s)"
  using assms
proof (induction bs arbitrary: s)
  case (Cons b bs)
  obtain s1 where s1: "keyboard_interrupt img (\<lambda>t p. b) regs s = Some s1" "kbd_ready img s1"
    "KB_SHIFT s1 = KB_SHIFT (key_seen b s)" "KB_CTRL s1 = KB_CTRL (key_seen b s)" "KB_ALT s1 = KB_ALT (key_seen b s)"
    by (rule keyboard_interrupt_keeps [OF Cons.prems, of "\<lambda>t p. b" regs])
  have m: "KB_SHIFT s1 = (if b \<in> {0x2A, 0x36} then 1 else if b \<in> {0xAA, 0xB6} then 0 else KB_SHIFT s)"
    "KB_CTRL s1 = (if b = 0x1D then 1 else KB_CTRL s)" "KB_ALT s1 = (if b = 0x38 then 1 else KB_ALT s)"
    by (simp_all add: s1(3-5) key_seen_def compute_key_modifiers)
  from Cons.IH [OF s1(2)] show ?case using s1(1) by (auto simp: m)
qed simp

text \<open>C23: a key press with a character in the layout prints that character at the cursor, black on white,
  and does nothing else; the quote key is the one exception.\<close>

theorem keyboard_types_layout:
  assumes "on_screen (display s)" and "plain_key sc" and "us_char (KB_SHIFT s \<noteq> 0) sc \<noteq> 0" and "sc \<noteq> 0x28"
  shows "\<exists>s'. keyboard_interrupt img (\<lambda>t p. sc) regs s = Some s'
    \<and> display s' = print_text [us_char (KB_SHIFT s \<noteq> 0) sc] (fb_attr 0 15) (display s)
    \<and> vga_frame fb_window (s\<lparr>trace := In 0x60 sc # trace s\<rparr>) s'"
proof -
  let ?s1 = "s\<lparr>trace := In 0x60 sc # trace s\<rparr>"
  have c: "fst (compute_key (scan_event sc) ?s1) = us_char (KB_SHIFT s \<noteq> 0) sc" "snd (compute_key (scan_event sc) ?s1) = ?s1"
    using compute_key_char [OF assms(2), of ?s1] assms(4) by simp_all
  have "sc AND 0x80 = 0" using assms(2) unfolding plain_key_def release_masks and_exp_eq_0_iff_not_bit by simp
  then have eq: "keyboard_interrupt img (\<lambda>t p. sc) regs s = Some (fb_print_cell (us_char (KB_SHIFT s \<noteq> 0) sc) 0 15 ?s1)"
    using assms(3) by (simp add: keyboard_interrupt_def read_scan_code_def inb_def split_beta Let_def c scan_event_codes)
  have "0 \<le> sint (cursor_pos ?s1)" "nat (sint (cursor_pos ?s1)) < 16384" using assms(1) by (auto simp: on_screen_cursor)
  note p = fb_print_cell_spec [OF this, of "us_char (KB_SHIFT s \<noteq> 0) sc" 0 15]
  have "display ?s1 = display s" using screen_cong [of ?s1 s] by (simp add: display_def)
  then show ?thesis using eq p by simp
qed

text \<open>The release of any key but shift changes nothing but the trace of port reads, which includes
  control and alt: their state stays set. The code 0x80 is the exception, taken for a tab.\<close>

theorem keyboard_ignores_release:
  assumes "bit sc 7" and "sc \<notin> {0x80, 0xAA, 0xB6}"
  shows "keyboard_interrupt img (\<lambda>t p. sc) regs s = Some (s\<lparr>trace := In 0x60 sc # trace s\<rparr>)"
proof -
  have ne: "sc \<noteq> c" if "\<not> bit c 7" for c using assms(1) that by auto
  have nb: "\<not> bit (c :: u8) 7" if "c AND 0x80 = 0" for c
    using that unfolding release_masks and_exp_eq_0_iff_not_bit .
  have b: "\<not> (base_code sc = 0x2A \<or> base_code sc = 0x36)"
    unfolding shift_codes using assms(2) ne [OF nb, of "0x2A"] ne [OF nb, of "0x36"] by simp
  have r: "sc AND 0x80 \<noteq> 0" using assms(1) unfolding release_masks and_exp_eq_0_iff_not_bit by simp
  let ?s1 = "s\<lparr>trace := In 0x60 sc # trace s\<rparr>"
  have "snd (compute_key (scan_event sc) ?s1) = ?s1"
    using b ne [OF nb, of "0x1D"] ne [OF nb, of "0x38"] by (simp add: compute_key_def scan_event_simps)
  moreover have "sc \<noteq> c" if "c AND 0x80 = 0" for c using that r by auto
  ultimately show ?thesis
    using r assms(2) by (simp add: keyboard_interrupt_def read_scan_code_def inb_def split_beta Let_def scan_event_simps)
qed


definition demo_keyboard :: keyboard where
  "demo_keyboard = paging.extend demo_paging \<lparr>KB_SHIFT = 0, KB_CTRL = 0, KB_ALT = 0, KB_NUMLOCK = 0\<rparr>"

lemma demo_keyboard_fields:
  "mem demo_keyboard = demo_paging_memory" "cursor_pos demo_keyboard = 0" "length (directories demo_keyboard) = 1024"
  "KB_SHIFT demo_keyboard = 0" "KB_CTRL demo_keyboard = 0" "trace demo_keyboard = []"
  by (simp_all add: demo_keyboard_def paging.defs demo_paging_def)

lemma demo_text_apart: "t \<in> set demo_texts \<Longrightarrow> text_apart demo_paging_image demo_paging_memory t"
proof -
  assume t: "t \<in> set demo_texts"
  have l: "Suc (length t) \<le> 64" using demo_literal(4) [OF t] by simp
  have "off_screen (lit_addr demo_paging_image t) (Suc (length t))"
    "disjoint_regions (lit_addr demo_paging_image t) (Suc (length t)) 0x4000 (Suc (length pd_msg))"
    "disjoint_regions (lit_addr demo_paging_image t) (Suc (length t)) 0x5000 12"
    unfolding off_screen_def by (rule demo_apart [OF t l]; simp add: pd_msg_def)+
  then show ?thesis using demo_literal(1) [OF t] by (simp add: text_apart_def demo_locals)
qed

lemma demo_keyboard_ready: "kbd_ready demo_paging_image demo_keyboard"
proof -
  have "on_screen (display demo_keyboard)" by (simp add: on_screen_cursor demo_keyboard_fields)
  then have "paging_ready demo_paging_image demo_keyboard" by (intro demo_paging_ready) (simp_all add: demo_keyboard_fields)
  moreover have "kbd_tab \<in> set demo_texts" by (simp add: demo_texts_def kbd_tab_def)
  ultimately show ?thesis by (simp add: kbd_ready_def demo_keyboard_fields demo_text_apart)
qed

lemma keyboard_modifiers_witness:
  "\<exists>s'. press_all demo_paging_image (demo_regs 0) [0x2A, 0x1E, 0x1D, 0x9D, 0xAA, 0x01] demo_keyboard = Some s'
    \<and> KB_SHIFT s' = 0 \<and> KB_CTRL s' = 1"
  using keyboard_modifiers [OF demo_keyboard_ready, of "demo_regs 0" "[0x2A, 0x1E, 0x1D, 0x9D, 0xAA, 0x01]"]
  by (auto simp: demo_keyboard_fields)

lemma keyboard_types_layout_witness:
  "\<exists>s'. keyboard_interrupt demo_paging_image (\<lambda>t p. 0x1E) (demo_regs 0) demo_keyboard = Some s'
    \<and> display s' = print_text [0x61] 0x0F (display demo_keyboard)"
proof -
  have "us_char False 0x1E = 0x61" by (simp add: us_char_def key_rows_def bytes_of_def)
  moreover have "plain_key 0x1E" by (simp add: plain_key_def bit_numeral_rec)
  moreover have "on_screen (display demo_keyboard)" by (rule kbd_ready_on_screen [OF demo_keyboard_ready])
  ultimately show ?thesis
    using keyboard_types_layout [of demo_keyboard "0x1E" demo_paging_image "demo_regs 0"]
    by (auto simp: demo_keyboard_fields fb_attr_def)
qed

lemma keyboard_ignores_release_witness:
  "keyboard_interrupt demo_paging_image (\<lambda>t p. 0x9D) (demo_regs 0) (demo_keyboard\<lparr>KB_CTRL := 1\<rparr>)
    = Some (demo_keyboard\<lparr>KB_CTRL := 1, trace := [In 0x60 0x9D]\<rparr>)"
  using keyboard_ignores_release [of "0x9D" demo_paging_image "demo_regs 0" "demo_keyboard\<lparr>KB_CTRL := 1\<rparr>"]
  by (simp add: demo_keyboard_fields bit_numeral_rec)

end
