(* ===== verification/Kmain.thy ===== *)
theory Kmain
  imports Keyboard_Props Messages
begin

text \<open>
  The boot sequence (src/kmain.c) and the running kernel: after the boot, interrupts arrive in any
  order, and the invariant of the kernel holds in every state they lead to.
\<close>

section \<open>Booting\<close>

record kernel = keyboard +
  interrupts_on :: bool

text \<open>The functions behind the pointers in \<open>interrupt_handlers\<close>.\<close>

definition dispatch :: "image \<Rightarrow> device \<Rightarrow> 'a keyboard_scheme handler_call" where
  "dispatch img dev h regs s =
     (case h of
        NULL \<Rightarrow> None
      | timer_callback \<Rightarrow> Some (Returns (timer_tick regs s))
      | keyboard_callback \<Rightarrow> map_option Returns (keyboard_interrupt img dev regs s)
      | page_fault \<Rightarrow> page_fault_handler img regs s)"

definition configure_serial :: "'a serial_scheme \<Rightarrow> 'a serial_scheme" where
  "configure_serial s =
     (let s = serial_configure_baud_rate SERIAL_COM1_BASE 4 s;
          s = serial_configure_baud_rate SERIAL_COM1_BASE 4 s;
          s = serial_configure_line SERIAL_COM1_BASE s;
          s = serial_configure_buffers SERIAL_COM1_BASE s
      in serial_configure_modem SERIAL_COM1_BASE s)"

text \<open>\<open>boot_message\<close> is a static array of 13 bytes. The breakpoint pushes some registers \<open>regs\<close>. Interrupts are
  delivered from the endless loop on; one that arrives between \<open>sti\<close> and the loop, while the timer, the keyboard and
  the screen are set up, is not part of the model.\<close>

definition kmain :: "image \<Rightarrow> device \<Rightarrow> registers \<Rightarrow> 'a kernel_scheme \<Rightarrow> 'a kernel_scheme outcome option" where
  "kmain img dev regs s =
     do {
       s \<leftarrow> init_descriptor_tables img s;
       s \<leftarrow> initialise_paging img s;
       let s = configure_serial s;
       let s = fb_clear 1 1 s;
       s \<leftarrow> print_debug img dev (sym_addr img ''boot_message'') 13 s;
       r \<leftarrow> isr_handler (dispatch img dev) (regs\<lparr>int_no := 3\<rparr>) s;
       case r of Spins s \<Rightarrow> Some (Spins s)
       | Returns s \<Rightarrow>
         do {
           let s = s\<lparr>interrupts_on := True\<rparr>;
           s \<leftarrow> init_timer img 50 s;
           let s = init_keyboard s;
           let s = fb_clear 0 15 s;
           let s = fb_move_cursor 3 s;
           Some (Spins (fb_print_cell 0x3E 0 15 s))
         }
     }"

section \<open>What the boot relies on\<close>

text \<open>Every text that is printed, out of reach of what printing writes.\<close>

definition boot_texts :: "string list" where
  "boot_texts = [hint_d, hint_n, hint_h, idt_msg, pd_msg, timer_msg, kbd_tab] @ paging_texts"

definition boot_writes :: "image \<Rightarrow> u32 \<Rightarrow> bool" where
  "boot_writes img a \<longleftrightarrow> fb_window a \<or> in_region a (local_addr img ''typeHint'') 64 \<or> in_region a (local_addr img ''intAsString'') 12"

definition boot_layout :: "image \<Rightarrow> memory \<Rightarrow> bool" where
  "boot_layout img m \<longleftrightarrow> off_screen (local_addr img ''typeHint'') 64 \<and> off_screen (local_addr img ''intAsString'') 12
     \<and> list_all (\<lambda>t. cstr_at m (lit_addr img t) (bytes_of t)
          \<and> (\<forall>a. in_region a (lit_addr img t) (Suc (length t)) \<longrightarrow> \<not> boot_writes img a)) boot_texts"

lemma boot_texts_short: "t \<in> set boot_texts \<Longrightarrow> length t \<le> 50"
  by (auto simp: boot_texts_def paging_texts_def hint_d_def hint_n_def hint_h_def idt_msg_def pd_msg_def timer_msg_def kbd_tab_def)

lemma boot_layout_frame:
  assumes "boot_layout img m" and "\<And>a. \<not> boot_writes img a \<Longrightarrow> m' a = m a"
  shows "boot_layout img m'"
proof -
  have "cstr_at m' (lit_addr img t) (bytes_of t)" if "t \<in> set boot_texts" for t
    by (rule cstr_at_cong [of m]) (use assms boot_texts_short [OF that] that in \<open>auto simp: boot_layout_def list_all_iff\<close>)
  then show ?thesis using assms(1) by (simp add: boot_layout_def list_all_iff)
qed

lemma boot_layout_apart:
  assumes "boot_layout img m" and "t \<in> set boot_texts" and "n \<le> Suc (length t)"
  shows "off_screen (lit_addr img t) n"
    and "k \<le> 64 \<Longrightarrow> disjoint_regions (lit_addr img t) n (local_addr img ''typeHint'') k"
    and "disjoint_regions (lit_addr img t) n (local_addr img ''intAsString'') 12"
proof -
  have a: "\<not> boot_writes img x" if "in_region x (lit_addr img t) n" for x
    using assms in_region_mono [OF that assms(3)] by (auto simp: boot_layout_def list_all_iff)
  show "off_screen (lit_addr img t) n"
    unfolding off_screen_def by (rule disjoint_regionsI) (use a in \<open>auto simp: boot_writes_def fb_window_def\<close>)
  show "disjoint_regions (lit_addr img t) n (local_addr img ''typeHint'') k" if "k \<le> 64"
    by (rule disjoint_regionsI) (use a that in \<open>auto simp: boot_writes_def dest: in_region_mono\<close>)
  show "disjoint_regions (lit_addr img t) n (local_addr img ''intAsString'') 12"
    by (rule disjoint_regionsI) (use a in \<open>auto simp: boot_writes_def\<close>)
qed

lemma boot_can_print:
  assumes "boot_layout img (mem s)" and "on_screen (display s)" and "msg \<in> set boot_texts"
  shows "can_print img msg s"
proof -
  have h: "hint_d \<in> set boot_texts" "hint_n \<in> set boot_texts" "hint_h \<in> set boot_texts" by (simp_all add: boot_texts_def)
  have hl: "length hint_d = 4" "length hint_n = 4" "length hint_h = 4" by (simp_all add: hint_d_def hint_n_def hint_h_def)
  have l: "Suc (length msg) \<le> 64" using boot_texts_short [OF assms(3)] by simp
  have o: "off_screen (local_addr img ''typeHint'') (Suc (length msg))" "off_screen (local_addr img ''intAsString'') 12"
    using assms(1) disjoint_regions_mono [OF _ l order_refl] by (auto simp: boot_layout_def off_screen_def)
  note ap = boot_layout_apart [OF assms(1)]
  have "fprint_layout img (lit_addr img msg) (length (bytes_of msg))"
    using o l ap [OF assms(3) order_refl] ap [OF h(1), of 5] ap [OF h(2), of 5] ap [OF h(3), of 5]
    by (auto simp: fprint_layout_def hl disjoint_regions_sym)
  moreover have "cstr_at (mem s) (lit_addr img t) (bytes_of t)" if "t \<in> set boot_texts" for t
    using assms(1) that by (simp add: boot_layout_def list_all_iff)
  ultimately show ?thesis
    using assms(2,3) h by (simp add: can_print_def fprint_ready_def literals_loaded_def)
qed

lemma boot_kbd_ready:
  assumes "boot_layout img (mem s)" and "on_screen (display s)"
  shows "paging_ready img s" and "text_apart img (mem s) kbd_tab"
proof -
  have t: "text_apart img (mem s) t" if "t \<in> set boot_texts" for t
    using boot_layout_apart [OF assms(1) that order_refl] assms(1) that
    by (auto simp: text_apart_def boot_layout_def list_all_iff pd_msg_def)
  then show "paging_ready img s" "text_apart img (mem s) kbd_tab"
    using boot_can_print [OF assms] by (auto simp: paging_ready_def list_all_iff boot_texts_def)
qed

lemma print_writes_boot: "length msg < 64 \<Longrightarrow> print_writes img msg a \<Longrightarrow> boot_writes img a"
  unfolding print_writes_def fprint_writes_def boot_writes_def by (auto simp: in_region_def)


section \<open>The invariant of the running kernel\<close>

definition mapped :: "image \<Rightarrow> 'a paging_scheme \<Rightarrow> bool" where
  "mapped img s \<longleftrightarrow> tables_ready img s \<and> bit (cr0 s) 31
     \<and> (cr3 s = sym_addr img ''kernel_page_directory'' \<or> cr3 s = sym_addr img ''other_page_directory'')"

definition kernel_inv :: "image \<Rightarrow> 'a kernel_scheme \<Rightarrow> bool" where
  "kernel_inv img s \<longleftrightarrow> kbd_ready img s \<and> length (interrupt_handlers s) = 256
     \<and> set (interrupt_handlers s) \<subseteq> {NULL, timer_callback, keyboard_callback} \<and> mapped img s \<and> interrupts_on s"

lemma mapped_translate:
  "tables_linked img \<Longrightarrow> mapped img s \<Longrightarrow> translate img s va = (if va < 0x400000 then Some va else None)"
  using walk_identity [of img s va] by (simp add: mapped_def translate_def)

lemma mapped_same: "mapped img s \<Longrightarrow> same_tables s s' \<Longrightarrow> mapped img s'"
  by (auto simp: mapped_def same_tables_def tables_ready_def)

lemma interrupts_on_more: "keyboard.more s' = keyboard.more s \<Longrightarrow> interrupts_on s' = interrupts_on s" for s s' :: "'a kernel_scheme"
  by (cases s; cases s') simp

lemma dispatch_keeps:
  assumes "kernel_inv img s" and "h \<in> set (interrupt_handlers s)" and "h \<noteq> NULL"
  shows "\<exists>s'. dispatch img dev h regs s = Some (Returns s') \<and> kernel_inv img s'"
proof -
  have h: "h = timer_callback \<or> h = keyboard_callback" using assms by (auto simp: kernel_inv_def)
  have r: "kbd_ready img s" using assms(1) by (simp add: kernel_inv_def)
  have "kernel_inv img (timer_tick regs s)"
    using assms(1) kbd_ready_cong [of "timer_tick regs s" s]
    by (simp add: kernel_inv_def timer_tick_def mapped_def tables_ready_def)
  moreover obtain s' where "keyboard_interrupt img dev regs s = Some s'" "kbd_ready img s'"
    "interrupt_handlers s' = interrupt_handlers s" "same_tables s s'" "keyboard.more s' = keyboard.more s"
    by (rule keyboard_interrupt_keeps [OF r, of dev regs]) (rule that; assumption)
  moreover from this have "kernel_inv img s'"
    using assms(1) mapped_same [OF _ \<open>same_tables s s'\<close>] interrupts_on_more [OF \<open>keyboard.more s' = keyboard.more s\<close>]
    by (simp add: kernel_inv_def)
  ultimately show ?thesis using h by (auto simp: dispatch_def)
qed

lemma kernel_inv_outb: "kernel_inv img s \<Longrightarrow> kernel_inv img (outb p v s)"
  using kbd_ready_cong [of "outb p v s" s] by (simp add: kernel_inv_def outb_def mapped_def tables_ready_def)

interpretation running: dispatcher "dispatch img dev" "kernel_inv img" for img dev
proof
  show "length (interrupt_handlers s) = 256" if "kernel_inv img s" for s :: "'a kernel_scheme"
    using that by (simp add: kernel_inv_def)
qed (rule kernel_inv_outb dispatch_keeps; assumption)+

section \<open>Interrupts in any order\<close>

text \<open>A step is one interrupt through one of the 48 installed gates, with any register contents and any
  device; a maskable one is delivered only while interrupts are on.\<close>

inductive kstep :: "image \<Rightarrow> 'a kernel_scheme \<Rightarrow> 'a kernel_scheme \<Rightarrow> bool" for img where
  exception: "unat n < 32 \<Longrightarrow> isr_handler (dispatch img dev) (regs\<lparr>int_no := n\<rparr>) s = Some (Returns s') \<Longrightarrow> kstep img s s'"
| request: "interrupts_on s \<Longrightarrow> 32 \<le> unat n \<Longrightarrow> unat n < 48 \<Longrightarrow>
    irq_handler (dispatch img dev) (regs\<lparr>int_no := n\<rparr>) s = Some (Returns s') \<Longrightarrow> kstep img s s'"

inductive_cases kstepE: "kstep img s s'"

lemma kstep_inv: "kstep img s s' \<Longrightarrow> kernel_inv img s \<Longrightarrow> kernel_inv img s'"
proof (erule kstepE)
  fix n dev regs
  assume inv: "kernel_inv img s"
  show "kernel_inv img s'" if "unat n < 32" "isr_handler (dispatch img dev) (regs\<lparr>int_no := n\<rparr>) s = Some (Returns s')"
    using running.isr_keeps [OF inv, of "regs\<lparr>int_no := n\<rparr>" dev] that by auto
  show "kernel_inv img s'" if "unat n < 48" "irq_handler (dispatch img dev) (regs\<lparr>int_no := n\<rparr>) s = Some (Returns s')"
    using running.irq_keeps [OF inv, of "regs\<lparr>int_no := n\<rparr>" dev] that by auto
qed

lemma ksteps_inv: "(kstep img)\<^sup>*\<^sup>* s s' \<Longrightarrow> kernel_inv img s \<Longrightarrow> kernel_inv img s'"
  by (induction rule: rtranclp_induct) (auto intro: kstep_inv)


section \<open>The stages of the boot\<close>

definition boot_ready :: "image \<Rightarrow> 'a vga_scheme \<Rightarrow> bool" where
  "boot_ready img s \<longleftrightarrow> boot_layout img (mem s) \<and> on_screen (display s)"

lemma boot_ready_cong: "mem s' = mem s \<Longrightarrow> cursor_pos s' = cursor_pos s \<Longrightarrow> boot_ready img s' = boot_ready img s"
  by (simp add: boot_ready_def on_screen_cursor)

lemma boot_ready_frame:
  assumes "boot_ready img s" and "vga_frame P s s'" and "\<And>a. P a \<Longrightarrow> boot_writes img a" and "on_screen (display s')"
  shows "boot_ready img s'"
  using assms(1,4) boot_layout_frame [of img "mem s" "mem s'"] vga_frameD [OF assms(2)] assms(3)
  unfolding boot_ready_def by blast

lemma boot_ready_clear: "boot_ready img s \<Longrightarrow> boot_ready img (fb_clear fg bg s)"
  by (rule boot_ready_frame [OF _ clear.op_frame]) (auto simp: boot_writes_def boot_ready_def clear.op_on_screen)

lemma boot_ready_move: "boot_ready img s \<Longrightarrow> 0 \<le> sint c \<Longrightarrow> sint c \<le> 2000 \<Longrightarrow> boot_ready img (fb_move_cursor c s)"
  by (simp add: boot_ready_def on_screen_cursor)

lemma boot_ready_msg: "boot_ready img s \<Longrightarrow> msg \<in> set boot_texts \<Longrightarrow> can_print img msg s"
  unfolding boot_ready_def by (rule boot_can_print) auto

lemma boot_msgs: "idt_msg \<in> set boot_texts" "pd_msg \<in> set boot_texts" "timer_msg \<in> set boot_texts"
  "length idt_msg < 64" "length pd_msg < 64" "length timer_msg < 64"
  by (simp_all add: boot_texts_def idt_msg_def pd_msg_def timer_msg_def)

lemma init_gdt_keeps [simp]:
  "mem (init_gdt img s) = mem s" "cursor_pos (init_gdt img s) = cursor_pos s" "descr.more (init_gdt img s) = descr.more s"
  by (simp_all add: init_gdt_def gdt_set_gate_def load_gdt_def Let_def)

lemma boot_ready_printed:
  assumes "boot_ready img s" and "length msg < 64" and "\<And>a. \<not> print_writes img msg a \<Longrightarrow> mem s' a = mem s a"
    and "on_screen (display s')"
  shows "boot_ready img s'"
proof -
  have "mem s' a = mem s a" if "\<not> boot_writes img a" for a
    by (rule assms(3)) (use that print_writes_boot [OF assms(2)] in blast)
  moreover have "boot_layout img (mem s)" using assms(1) by (simp add: boot_ready_def)
  ultimately have "boot_layout img (mem s')" by (rule boot_layout_frame [rotated])
  with assms(4) show ?thesis by (simp add: boot_ready_def)
qed

lemma boot_descriptors:
  assumes "boot_ready img s"
  obtains s1 where "init_descriptor_tables img s = Some s1" and "boot_ready img s1"
    and "interrupt_handlers s1 = replicate 256 NULL" and "descr.more s1 = descr.more s"
proof -
  have "boot_ready img (init_gdt img s)" using assms boot_ready_cong [of "init_gdt img s" s] by simp
  then have c: "can_print img idt_msg (init_gdt img s)" by (rule boot_ready_msg) (rule boot_msgs)
  obtain s1 where s1: "init_idt img (init_gdt img s) = Some s1" "can_print img idt_msg s1"
    "\<And>a. \<not> print_writes img idt_msg a \<Longrightarrow> mem s1 a = mem (init_gdt img s) a" "descr.more s1 = descr.more (init_gdt img s)"
    by (rule init_idt_spec [OF c]) (rule that; assumption)
  have "boot_ready img s1"
    by (rule boot_ready_printed [OF assms boot_msgs(4)]) (use s1(2,3) in \<open>simp_all add: can_print_def\<close>)
  then have "boot_ready img (s1\<lparr>interrupt_handlers := replicate 256 NULL\<rparr>)"
    using boot_ready_cong [of "s1\<lparr>interrupt_handlers := replicate 256 NULL\<rparr>" s1] by simp
  then show ?thesis using that s1(1,4) by (simp add: init_descriptor_tables_def)
qed

lemma boot_paging:
  fixes s :: "'a kernel_scheme"
  assumes "boot_ready img s" and "arrays_sized s"
  obtains s1 where "initialise_paging img s = Some s1" and "boot_ready img s1" and "mapped img s1"
    and "interrupt_handlers s1 = interrupt_handlers s"
proof -
  have "boot_ready img (fb_move_cursor 0 (fb_clear 0 0 s))"
    by (rule boot_ready_move [OF boot_ready_clear [OF assms(1)]]) simp_all
  then have "paging_ready img (fb_move_cursor 0 (fb_clear 0 0 s))" by (auto simp: boot_ready_def boot_kbd_ready)
  from initialise_paging_spec [OF assms(2) this] obtain s1 where s1: "initialise_paging img s = Some s1" "tables_ready img s1"
    "cr3 s1 = sym_addr img ''kernel_page_directory''" "cr0 s1 = cr0 s OR 0x80000000"
    "paging_ready img s1" "keeps_below s s1" "\<And>a. \<not> print_writes img pd_msg a \<Longrightarrow> mem s1 a = mem s a"
    by metis
  have "boot_ready img s1"
    by (rule boot_ready_printed [OF assms(1) boot_msgs(5)]) (use s1(5,7) in \<open>simp_all add: paging_ready_def can_print_def\<close>)
  moreover have "mapped img s1" using s1(2-4) by (simp add: mapped_def bit_simps)
  ultimately show ?thesis using that s1(1,6) by (simp add: keeps_below_def)
qed

lemma configure_serial_eq: "configure_serial s = s\<lparr>trace := trace (configure_serial s), serial_open := 1\<rparr>"
  by (simp add: configure_serial_def Let_def serial_configure_baud_rate_def serial_configure_line_def
    serial_configure_buffers_def serial_configure_modem_def outb_def)

lemma print_debug_returns:
  assumes "drains dev SERIAL_COM1_BASE" and "serial_open s \<noteq> 0"
  shows "\<exists>t. print_debug img dev str 13 s = Some (s\<lparr>trace := t\<rparr>)"
proof -
  obtain s1 where s1: "serial_write dev SERIAL_COM1_BASE (sym_addr img ''_debug'') (of_nat 8 + 1) s = Some s1"
    "trace_frame s s1" "serial_open s1 \<noteq> 0"
    by (rule serial_write_spec [where n = 8 and c = "sym_addr img ''_debug''", OF assms(1) _ assms(2)]) auto
  obtain s2 where s2: "serial_write dev SERIAL_COM1_BASE str (of_nat 13 + 1) s1 = Some s2"
    "trace_frame s1 s2" "serial_open s2 \<noteq> 0"
    by (rule serial_write_spec [where n = 13 and c = str, OF assms(1) _ s1(3)]) auto
  obtain s3 where s3: "serial_write dev SERIAL_COM1_BASE (sym_addr img ''CHAR_NEW_LINE'') (of_nat 1 + 1) s2 = Some s3"
    "trace_frame s2 s3"
    by (rule serial_write_spec [where n = 1 and c = "sym_addr img ''CHAR_NEW_LINE''", OF assms(1) _ s2(3)]) auto
  have "print_debug img dev str 13 s = Some s3" using s1(1) s2(1) s3(1) by (simp add: print_debug_def)
  moreover have "trace_frame s s3" by (rule trace_frame_trans [OF trace_frame_trans [OF s1(2) s2(2)] s3(2)])
  ultimately show ?thesis by (auto simp: trace_frame_def)
qed

lemma mapped_frame: "vga_frame P s s' \<Longrightarrow> mapped img s' = mapped img s" for s s' :: "'a kernel_scheme"
  using vga_frame_paging [of P s s'] by (simp add: mapped_def tables_ready_def)

lemma frame_kernel: "vga_frame P s s' \<Longrightarrow> interrupts_on s' = interrupts_on s" for s s' :: "'a kernel_scheme"
  by (auto simp: vga_frame_def)

lemma boot_serial:
  fixes s :: "'a kernel_scheme"
  assumes "drains dev SERIAL_COM1_BASE" and "boot_ready img s" and "mapped img s"
  obtains s1 where "print_debug img dev str 13 (fb_clear 1 1 (configure_serial s)) = Some s1"
    and "boot_ready img s1" and "mapped img s1" and "interrupt_handlers s1 = interrupt_handlers s"
proof -
  define c where "c = configure_serial s"
  have c: "c = s\<lparr>trace := trace c, serial_open := 1\<rparr>" unfolding c_def by (rule configure_serial_eq)
  have "mem c = mem s" "cursor_pos c = cursor_pos s" "serial_open c = 1" "interrupt_handlers c = interrupt_handlers s"
    "mapped img c = mapped img s"
    by (subst c; simp add: mapped_def tables_ready_def)+
  moreover note fr = clear.op_frame [of c 1 1]
  moreover have "serial_open (fb_clear 1 1 c) = serial_open c" using fr by (auto simp: vga_frame_def)
  moreover have "interrupt_handlers (fb_clear 1 1 c) = interrupt_handlers c" by (rule vga_frame_descr [OF fr])
  moreover have "boot_ready img (fb_clear 1 1 c)"
    using assms(2) calculation(1,2) boot_ready_cong [of c s img] by (intro boot_ready_clear) simp
  ultimately obtain t where t: "print_debug img dev str 13 (fb_clear 1 1 c) = Some ((fb_clear 1 1 c)\<lparr>trace := t\<rparr>)"
    and r: "boot_ready img (fb_clear 1 1 c)" "mapped img (fb_clear 1 1 c)" "interrupt_handlers (fb_clear 1 1 c) = interrupt_handlers s"
    using print_debug_returns [OF assms(1), of "fb_clear 1 1 c" img str] assms(3) mapped_frame [OF fr] by auto
  let ?s = "(fb_clear 1 1 c)\<lparr>trace := t\<rparr>"
  have "boot_ready img ?s" "mapped img ?s" "interrupt_handlers ?s = interrupt_handlers s"
    using r boot_ready_cong [of ?s "fb_clear 1 1 c"] by (simp_all add: mapped_def tables_ready_def)
  then show ?thesis using that t by (simp add: c_def)
qed

lemma boot_timer:
  fixes s :: "'a kernel_scheme"
  assumes "boot_ready img s" and "mapped img s" and "interrupt_handlers s = replicate 256 NULL"
  obtains s1 where "init_timer img 50 s = Some s1" and "boot_ready img s1" and "mapped img s1"
    and "interrupt_handlers s1 = (replicate 256 NULL)[32 := timer_callback]" and "interrupts_on s1 = interrupts_on s"
proof -
  have "can_print img timer_msg s" by (rule boot_ready_msg [OF assms(1)]) (rule boot_msgs)
  then obtain s1 where s1: "init_timer img 50 s = Some (register_interrupt_handler 32 timer_callback
      (s1\<lparr>trace := rev (pit_writes (1193180 div 50)) @ trace s1\<rparr>))"
    "vga_frame (print_writes img timer_msg) s s1" "on_screen (display s1)"
    by (rule init_timer_spec [where f = 50]) simp_all
  let ?s = "register_interrupt_handler 32 timer_callback (s1\<lparr>trace := rev (pit_writes (1193180 div 50)) @ trace s1\<rparr>)"
  have "boot_ready img s1" by (rule boot_ready_frame [OF assms(1) s1(2) print_writes_boot s1(3)]) (rule boot_msgs)
  then have "boot_ready img ?s" using boot_ready_cong [of ?s s1] by (simp add: register_interrupt_handler_def)
  moreover have "mapped img ?s" "interrupts_on ?s = interrupts_on s"
    using mapped_frame [OF s1(2), of img] assms(2) frame_kernel [OF s1(2)]
    by (simp_all add: register_interrupt_handler_def mapped_def tables_ready_def)
  moreover have "interrupt_handlers ?s = (replicate 256 NULL)[32 := timer_callback]"
    using vga_frame_descr [OF s1(2)] assms(3) by (simp add: register_interrupt_handler_def)
  ultimately show ?thesis using that s1(1) by blast
qed

text \<open>The prompt.\<close>

lemma word_sint_4: "sint w = 4 \<Longrightarrow> w = 4" for w :: u16
  by (rule signed_word_eqI) simp

lemma boot_prompt:
  fixes s :: "'a kernel_scheme"
  assumes "boot_ready img s"
  defines "s' \<equiv> fb_print_cell 0x3E 0 15 (fb_move_cursor 3 (fb_clear 0 15 s))"
  shows "vga_frame fb_window s s'" and "boot_ready img s'" and "cursor_pos s' = 4"
    and "\<forall>j < 2000. screen s' j = (if j = 3 then 0x3E else 0x20, fb_attr 0 15)"
proof -
  let ?s2 = "fb_move_cursor 3 (fb_clear 0 15 s)"
  have sp: "display s' = print_text [0x3E] (fb_attr 0 15) (display ?s2)" "vga_frame fb_window ?s2 s'"
    unfolding s'_def by (rule fb_print_cell_spec; simp)+
  have f2: "vga_frame fb_window s ?s2" by (rule vga_frame_trans [OF clear.op_frame fb_move_cursor_frame])
  show f: "vga_frame fb_window s s'" by (rule vga_frame_trans [OF f2 sp(2)])
  have d: "display s' = (put_text 3 [0x3E] (fb_attr 0 15) (screen (fb_clear 0 15 s)), 4)"
    unfolding sp(1) by (simp add: display_def print_text_def advance_def scrolls_def wrap_cursor_def)
  then have "nat (sint (cursor_pos s')) = 4" "screen s' = put_text 3 [0x3E] (fb_attr 0 15) (screen (fb_clear 0 15 s))"
    by (simp_all add: display_def)
  then show "\<forall>j < 2000. screen s' j = (if j = 3 then 0x3E else 0x20, fb_attr 0 15)"
    by (auto simp: put_text_def fb_clear_screen)
  have "sint (cursor_pos s') = 4" using d by (simp add: display_def)
  then show "cursor_pos s' = 4" by (rule word_sint_4)
  then show "boot_ready img s'"
    by (intro boot_ready_frame [OF assms(1) f]) (auto simp: boot_writes_def on_screen_cursor)
qed

lemma kernel_inv_boot:
  assumes "boot_ready img s" and "mapped img s" and "interrupts_on s"
    and "interrupt_handlers s = (replicate 256 NULL)[32 := timer_callback, 33 := keyboard_callback]"
  shows "kernel_inv img s"
proof -
  have "kbd_ready img s"
    using assms(1,2) boot_kbd_ready [of img s] by (simp add: kbd_ready_def boot_ready_def mapped_def tables_ready_def)
  moreover have "set (interrupt_handlers s) \<subseteq> {NULL, timer_callback, keyboard_callback}"
    unfolding assms(4) by (auto dest!: set_update_subset_insert [THEN subsetD])
  ultimately show ?thesis using assms by (simp add: kernel_inv_def)
qed

lemma kmain_starts:
  fixes s :: "'a kernel_scheme"
  assumes "boot_ready img s" and "arrays_sized s" and "drains dev SERIAL_COM1_BASE"
  obtains s' where "kmain img dev regs s = Some (Spins s')" and "kernel_inv img s'" and "cursor_pos s' = 4"
    and "\<forall>j < 2000. screen s' j = (if j = 3 then 0x3E else 0x20, fb_attr 0 15)"
    and "interrupt_handlers s' = (replicate 256 NULL)[32 := timer_callback, 33 := keyboard_callback]"
proof -
  obtain s1 where s1: "init_descriptor_tables img s = Some s1" "boot_ready img s1"
    "interrupt_handlers s1 = replicate 256 NULL" "descr.more s1 = descr.more s"
    by (rule boot_descriptors [OF assms(1)])
  have "arrays_sized s1" using assms(2) s1(4) by (cases s; cases s1) (simp add: arrays_sized_def)
  then obtain s2 where s2: "initialise_paging img s1 = Some s2" "boot_ready img s2" "mapped img s2"
    "interrupt_handlers s2 = interrupt_handlers s1"
    by (rule boot_paging [OF s1(2)])
  obtain s3 where s3: "print_debug img dev (sym_addr img ''boot_message'') 13 (fb_clear 1 1 (configure_serial s2)) = Some s3"
    "boot_ready img s3" "mapped img s3" "interrupt_handlers s3 = interrupt_handlers s2"
    by (rule boot_serial [OF assms(3) s2(2,3)])
  have h3: "interrupt_handlers s3 = replicate 256 NULL" using s3(4) s2(4) s1(3) by simp
  have i3: "isr_handler (dispatch img dev) (regs\<lparr>int_no := 3\<rparr>) s3 = Some (Returns s3)"
    by (simp add: isr_handler_def call_handler_def h3)
  let ?s4 = "s3\<lparr>interrupts_on := True\<rparr>"
  have r4: "boot_ready img ?s4" "mapped img ?s4" "interrupt_handlers ?s4 = replicate 256 NULL"
    using s3(2,3) h3 boot_ready_cong [of ?s4 s3] by (simp_all add: mapped_def tables_ready_def)
  obtain s5 where s5: "init_timer img 50 ?s4 = Some s5" "boot_ready img s5" "mapped img s5"
    "interrupt_handlers s5 = (replicate 256 NULL)[32 := timer_callback]" "interrupts_on s5 = interrupts_on ?s4"
    by (rule boot_timer [OF r4])
  let ?s6 = "init_keyboard s5"
  let ?s' = "fb_print_cell 0x3E 0 15 (fb_move_cursor 3 (fb_clear 0 15 ?s6))"
  have r6: "boot_ready img ?s6" "mapped img ?s6" "interrupts_on ?s6"
    using s5(2,3,5) boot_ready_cong [of ?s6 s5]
    by (simp_all add: init_keyboard_def register_interrupt_handler_def mapped_def tables_ready_def)
  note p = boot_prompt [OF r6(1)]
  have h: "interrupt_handlers ?s' = (replicate 256 NULL)[32 := timer_callback, 33 := keyboard_callback]"
    using vga_frame_descr [OF p(1)] s5(4) by (simp add: init_keyboard_def register_interrupt_handler_def)
  have m: "mapped img ?s'" "interrupts_on ?s'" using mapped_frame [OF p(1)] frame_kernel [OF p(1)] r6 by simp_all
  have "kmain img dev regs s = Some (Spins ?s')"
    unfolding kmain_def Let_def using s1(1) s2(1) s3(1) i3 s5(1) by simp
  then show ?thesis by (rule that) (rule kernel_inv_boot [OF p(2) m h] p(3,4) h)+
qed

section \<open>Properties\<close>

text \<open>C4: the boot runs to its final endless loop, with the prompt alone on a white screen and the cursor
  behind it, the two handlers installed, interrupts on, paging on and the first 4 MiB mapped to
  themselves, provided that the texts it prints lie out of reach of the display and of the printer's
  locals, the paging tables are aligned and the serial port drains.\<close>

theorem kmain_boots:
  fixes s :: "'a kernel_scheme"
  assumes "boot_ready img s" and "arrays_sized s" and "tables_linked img" and "drains dev SERIAL_COM1_BASE"
  shows "\<exists>s'. kmain img dev regs s = Some (Spins s')
    \<and> (\<forall>j < 2000. screen s' j = (if j = 3 then 0x3E else 0x20, fb_attr 0 15)) \<and> cursor_pos s' = 4
    \<and> interrupt_handlers s' = (replicate 256 NULL)[32 := timer_callback, 33 := keyboard_callback]
    \<and> interrupts_on s' \<and> (\<forall>va. translate img s' va = (if va < 0x400000 then Some va else None))
    \<and> kernel_inv img s'"
proof -
  obtain s' where s': "kmain img dev regs s = Some (Spins s')" "kernel_inv img s'" "cursor_pos s' = 4"
    "\<forall>j < 2000. screen s' j = (if j = 3 then 0x3E else 0x20, fb_attr 0 15)"
    "interrupt_handlers s' = (replicate 256 NULL)[32 := timer_callback, 33 := keyboard_callback]"
    by (rule kmain_starts [OF assms(1,2,4)])
  have m: "mapped img s'" "interrupts_on s'" using s'(2) by (simp_all add: kernel_inv_def)
  show ?thesis
    by (rule exI [of _ s']) (use s' m mapped_translate [OF assms(3) m(1)] in simp)
qed

text \<open>C3: after the boot, whatever interrupts arrive in whatever order, the first 4 MiB stay mapped to
  themselves, the cursor stays in range, and the kernel can take each of the 48 interrupts and return
  from it.\<close>

theorem kernel_keeps_running:
  fixes s :: "'a kernel_scheme"
  assumes "boot_ready img s" and "arrays_sized s" and "tables_linked img" and "drains dev SERIAL_COM1_BASE"
    and "kmain img dev regs s = Some (Spins s0)" and "(kstep img)\<^sup>*\<^sup>* s0 s'"
  shows "(\<forall>va. translate img s' va = (if va < 0x400000 then Some va else None))
    \<and> 0 \<le> sint (cursor_pos s') \<and> sint (cursor_pos s') \<le> 2000
    \<and> (\<forall>dev n regs. unat n < 32 \<longrightarrow> (\<exists>s''. isr_handler (dispatch img dev) (regs\<lparr>int_no := n\<rparr>) s' = Some (Returns s'')))
    \<and> (\<forall>dev n regs. 32 \<le> unat n \<and> unat n < 48 \<longrightarrow>
        (\<exists>s''. irq_handler (dispatch img dev) (regs\<lparr>int_no := n\<rparr>) s' = Some (Returns s'') \<and> kstep img s' s''))"
proof -
  have "kernel_inv img s0"
    by (rule kmain_starts [OF assms(1,2,4), of regs]) (use assms(5) in simp)
  then have inv: "kernel_inv img s'" by (rule ksteps_inv [OF assms(6)])
  then have on: "mapped img s'" "on_screen (display s')" "interrupts_on s'"
    using kbd_ready_on_screen [of img s'] by (simp_all add: kernel_inv_def)
  have e: "\<exists>s''. isr_handler (dispatch img dev) (regs\<lparr>int_no := n\<rparr>) s' = Some (Returns s'')" if "unat n < 32" for dev n regs
    using running.isr_keeps [OF inv, of "regs\<lparr>int_no := n\<rparr>"] that by auto
  have "\<exists>s''. irq_handler (dispatch img dev) (regs\<lparr>int_no := n\<rparr>) s' = Some (Returns s'') \<and> kstep img s' s''"
    if "32 \<le> unat n \<and> unat n < 48" for dev n regs
  proof -
    have "unat (int_no (regs\<lparr>int_no := n\<rparr>)) < 256" using that by simp
    from running.irq_keeps [OF inv this, of dev]
    obtain s'' where "irq_handler (dispatch img dev) (regs\<lparr>int_no := n\<rparr>) s' = Some (Returns s'')" by blast
    then show ?thesis using kstep.request [OF on(3)] that by blast
  qed
  then show ?thesis using e on(2) mapped_translate [OF assms(3) on(1)] by (simp add: on_screen_cursor)
qed

section \<open>A concrete boot\<close>

definition demo_kernel :: kernel where
  "demo_kernel = keyboard.extend demo_keyboard \<lparr>interrupts_on = False\<rparr>"

lemma demo_boot_ready: "boot_ready demo_paging_image demo_kernel"
proof -
  have d: "\<not> boot_writes demo_paging_image a" if "t \<in> set demo_texts" "in_region a (lit_addr demo_paging_image t) (Suc (length t))" for a t
  proof -
    have l: "Suc (length t) \<le> 64" using demo_literal(4) [OF that(1)] by simp
    have "disjoint_regions (lit_addr demo_paging_image t) (Suc (length t)) p k" if "unat p \<ge> 0x3000" "unat p + k \<le> 4294967296" for p k
      by (rule demo_apart [OF \<open>t \<in> set demo_texts\<close> l that])
    then have "\<not> in_region a p k" if "unat p \<ge> 0x3000" "unat p + k \<le> 4294967296" for p k
      using that disjoint_regionsD [OF _ \<open>in_region a (lit_addr demo_paging_image t) (Suc (length t))\<close>] by blast
    then show ?thesis by (simp add: boot_writes_def demo_locals fb_window_def)
  qed
  have "set boot_texts \<subseteq> set demo_texts" by (auto simp: boot_texts_def demo_texts_def kbd_tab_def)
  then have "boot_layout demo_paging_image demo_paging_memory"
    using d demo_literal(1) by (auto simp: boot_layout_def demo_locals off_screen_def disjoint_regions_ordered list_all_iff)
  then show ?thesis
    using demo_keyboard_fields(1,2) by (simp add: boot_ready_def demo_kernel_def keyboard.defs on_screen_cursor)
qed

lemma demo_arrays: "arrays_sized demo_kernel" "tables_linked demo_paging_image"
  by (simp_all add: arrays_sized_def demo_kernel_def demo_keyboard_def demo_paging_def keyboard.defs paging.defs
    tables_linked_def demo_paging_image_def)

lemma kmain_boots_witness:
  "\<exists>s'. kmain demo_paging_image ready_device (demo_regs 0) demo_kernel = Some (Spins s') \<and> cursor_pos s' = 4
    \<and> fst (screen s' 3) = 0x3E \<and> interrupt_handlers s' ! 33 = keyboard_callback"
  using kmain_boots [OF demo_boot_ready demo_arrays ready_device_drains, of "demo_regs 0"] by auto

lemma kernel_keeps_running_witness:
  "\<exists>s0 s'. kmain demo_paging_image ready_device (demo_regs 0) demo_kernel = Some (Spins s0)
    \<and> kstep demo_paging_image s0 s' \<and> translate demo_paging_image s' 0xB8000 = Some 0xB8000"
proof -
  obtain s0 where s0: "kmain demo_paging_image ready_device (demo_regs 0) demo_kernel = Some (Spins s0)"
    by (rule kmain_starts [OF demo_boot_ready demo_arrays(1) ready_device_drains])
  note runs = kernel_keeps_running [OF demo_boot_ready demo_arrays ready_device_drains s0]
  have "32 \<le> unat (32 :: u32) \<and> unat (32 :: u32) < 48" by simp
  with runs [OF rtranclp.rtrancl_refl] have "\<exists>s'. kstep demo_paging_image s0 s'" by blast
  then obtain s' where s': "kstep demo_paging_image s0 s'" by blast
  have "(kstep demo_paging_image)\<^sup>*\<^sup>* s0 s'" using s' by (rule r_into_rtranclp)
  from runs [OF this] s' s0 show ?thesis by auto
qed

end
