(* ===== verification/Md5_Rfc.thy ===== *)
theory Md5_Rfc
  imports Complex_Main Prelude
begin

text \<open>
  The MD5 algorithm as RFC 1321 states it, independent of the program: the four functions, the table of
  sines, little-endian words, 64 steps for each block, and the padding. The sines are computed here
  in fixed point, with a bound of the error, so that a table of constants can be compared with
  the real numbers that the RFC names.
\<close>

section \<open>The definition\<close>

type_synonym regs4 = "u32 \<times> u32 \<times> u32 \<times> u32"

text \<open>Section 3.4 of the RFC: XY v not(X) Z, XZ v Y not(Z), X xor Y xor Z, Y xor (X v not(Z)).\<close>

definition rfc_f :: "nat \<Rightarrow> u32 \<Rightarrow> u32 \<Rightarrow> u32 \<Rightarrow> u32" where
  "rfc_f i x y z =
     (if i < 16 then (x AND y) OR (NOT x AND z)
      else if i < 32 then (x AND z) OR (y AND NOT z)
      else if i < 48 then x XOR y XOR z
      else y XOR (x OR NOT z))"

text \<open>The table of the RFC: the integer part of 4294967296 times the absolute value of the sine of \<open>i\<close>
  radians; the indices start at 0 here.\<close>

definition rfc_T :: "nat \<Rightarrow> u32" where
  "rfc_T i = word_of_int \<lfloor>4294967296 * \<bar>sin (real (i + 1))\<bar>\<rfloor>"

text \<open>Section 2: a word is four bytes, the low-order byte first; \<open>j\<close> counts words of the block.\<close>

definition rfc_word :: "u8 list \<Rightarrow> nat \<Rightarrow> u32" where
  "rfc_word M j = of_nat (\<Sum>k<4. unat (M ! (4 * j + k)) * 256 ^ k)"

definition rfc_bytes :: "u32 \<Rightarrow> u8 list" where
  "rfc_bytes w = map (\<lambda>k. of_nat (unat w div 256 ^ k)) [0..<4]"

definition rfc_k :: "nat \<Rightarrow> nat" where
  "rfc_k i = (if i < 16 then i else if i < 32 then (5 * i + 1) mod 16 else if i < 48 then (3 * i + 5) mod 16 else 7 * i mod 16)"

definition rfc_s :: "nat \<Rightarrow> nat" where
  "rfc_s i = [[7, 12, 17, 22], [5, 9, 14, 20], [4, 11, 16, 23], [6, 10, 15, 21]] ! (i div 16) ! (i mod 4)"

fun rfc_step :: "u8 list \<Rightarrow> nat \<Rightarrow> regs4 \<Rightarrow> regs4" where
  "rfc_step M i (a, b, c, d) =
     (d, b + word_rotl (rfc_s i) (a + rfc_f i b c d + rfc_word M (rfc_k i) + rfc_T i), b, c)"

definition rfc_block :: "u8 list \<Rightarrow> regs4 \<Rightarrow> regs4" where
  "rfc_block M r = (case r of (A, B, C, D) \<Rightarrow> case fold (rfc_step M) [0..<64] r of (a, b, c, d) \<Rightarrow> (A + a, B + b, C + c, D + d))"

fun rfc_blocks :: "nat \<Rightarrow> u8 list \<Rightarrow> regs4 \<Rightarrow> regs4" where
  "rfc_blocks 0 M r = r"
| "rfc_blocks (Suc n) M r = rfc_blocks n (drop 64 M) (rfc_block (take 64 M) r)"

text \<open>Padding: one bit 1, zeros up to 8 bytes before a block end, the number of bits in 64 bits.\<close>

definition le64_bytes :: "nat \<Rightarrow> u8 list" where
  "le64_bytes n = map (\<lambda>i. of_nat (n div 256 ^ i)) [0..<8]"

definition rfc_pad :: "u8 list \<Rightarrow> u8 list" where
  "rfc_pad m = m @ 0x80 # replicate (nat ((55 - int (length m)) mod 64)) 0 @ le64_bytes (8 * length m)"

definition rfc_md5 :: "u8 list \<Rightarrow> u8 list" where
  "rfc_md5 m =
     (case rfc_blocks (length (rfc_pad m) div 64) (rfc_pad m) (0x67452301, 0xefcdab89, 0x98badcfe, 0x10325476) of
        (a, b, c, d) \<Rightarrow> concat (map rfc_bytes [a, b, c, d]))"

section \<open>Four registers as a list\<close>

definition regs_of :: "u32 list \<Rightarrow> regs4" where
  "regs_of st = (st ! 0, st ! 1, st ! 2, st ! 3)"

fun list_of :: "regs4 \<Rightarrow> u32 list" where
  "list_of (a, b, c, d) = [a, b, c, d]"

lemma regs_of_list_of [simp]: "regs_of (list_of r) = r" "length (list_of r) = 4"
  by (cases r; simp add: regs_of_def)+

section \<open>The sines\<close>

text \<open>Fixed point with 112 binary places: \<open>a\<close> is \<open>r\<close> up to \<open>e\<close> units.\<close>

definition near :: "int \<Rightarrow> int \<Rightarrow> real \<Rightarrow> bool" where
  "near e a r \<longleftrightarrow> \<bar>real_of_int a - 2 ^ 112 * r\<bar> \<le> real_of_int e"

text \<open>One more radian, by the addition theorems.\<close>

fun next_angle :: "int \<times> int \<times> int \<Rightarrow> int \<times> int \<times> int" where
  "next_angle (a, b, e) =
     ((a * 2805409965418265417902907108845681 + b * 4369167150966248696362992495346959) div 2 ^ 112,
      (b * 2805409965418265417902907108845681 - a * 4369167150966248696362992495346959) div 2 ^ 112, 2 * e + 3)"

lemma near_one:
  "near 1 4369167150966248696362992495346959 (sin 1)" "near 1 2805409965418265417902907108845681 (cos 1)"
proof -
  have s: "\<bar>sin 1 - (\<Sum>m<33. sin_coeff m * 1 ^ m)\<bar> \<le> inverse (fact 33) * \<bar>1 :: real\<bar> ^ 33"
    by (rule Maclaurin_sin_bound)
  obtain t :: real where t: "cos 1 = (\<Sum>m<33. cos_coeff m * 1 ^ m) + cos (t + 1 / 2 * real 33 * pi) / fact 33 * 1 ^ 33"
    using Maclaurin_cos_expansion [of 1 33] by blast
  have "cos 1 - (\<Sum>m<33. cos_coeff m * 1 ^ m) = cos (t + 1 / 2 * real 33 * pi) / fact 33" unfolding t by simp
  then have c: "\<bar>cos 1 - (\<Sum>m<33. cos_coeff m * 1 ^ m)\<bar> \<le> inverse (fact 33)"
    by (simp only: abs_divide inverse_eq_divide) (simp add: divide_right_mono)
  show "near 1 4369167150966248696362992495346959 (sin 1)"
    using s [THEN abs_le_D1] s [THEN abs_le_D2] by (simp add: near_def sin_coeff_def lessThan_nat_numeral fact_numeral)
  show "near 1 2805409965418265417902907108845681 (cos 1)"
    using c [THEN abs_le_D1] c [THEN abs_le_D2] by (simp add: near_def cos_coeff_def lessThan_nat_numeral fact_numeral)
qed

lemma abs_two_terms: "\<bar>u\<bar> \<le> e \<Longrightarrow> \<bar>v\<bar> \<le> e \<Longrightarrow> \<bar>u * c + v * s\<bar> \<le> e * (\<bar>c\<bar> + \<bar>s\<bar>)" for u v c s e :: real
proof -
  assume uv: "\<bar>u\<bar> \<le> e" "\<bar>v\<bar> \<le> e"
  have "\<bar>u * c + v * s\<bar> \<le> \<bar>u\<bar> * \<bar>c\<bar> + \<bar>v\<bar> * \<bar>s\<bar>" by (metis abs_mult abs_triangle_ineq)
  also have "\<dots> \<le> e * \<bar>c\<bar> + e * \<bar>s\<bar>" by (intro add_mono mult_right_mono uv) simp_all
  finally show ?thesis by (simp add: distrib_left)
qed

lemma floor_near: "\<bar>real_of_int (z div k) - real_of_int z / real_of_int k\<bar> \<le> 1" if "0 < k" for z k :: int
  using that floor_divide_of_int_eq [of z k, where ?'a = real] by linarith

lemma near_next:
  assumes "near e a (sin x)" and "near e b (cos x)" and "next_angle (a, b, e) = (a', b', e')"
  shows "near e' a' (sin (x + 1))" and "near e' b' (cos (x + 1))"
proof -
  define S :: real where "S = 2 ^ 112"
  define c s :: int where "c = 2805409965418265417902907108845681" and "s = 4369167150966248696362992495346959"
  have S: "0 < S" "\<bar>c\<bar> + \<bar>s\<bar> \<le> 2 * S" by (simp_all add: S_def c_def s_def)
  have cs: "\<bar>c - S * cos 1\<bar> \<le> 1" "\<bar>s - S * sin 1\<bar> \<le> 1"
    using near_one by (simp_all add: near_def S_def c_def s_def)
  have ab: "\<bar>a - S * sin x\<bar> \<le> e" "\<bar>b - S * cos x\<bar> \<le> e" using assms(1,2) by (simp_all add: near_def S_def)
  have e: "e' = 2 * e + 3" "a' = (a * c + b * s) div 2 ^ 112" "b' = (b * c + a * - s) div 2 ^ 112"
    using assms(3) by (simp_all add: c_def s_def)
  have e0: "0 \<le> real_of_int e" using ab(1) by linarith
  have main: "\<bar>(u * c + v * w) / S - S * (p * cos 1 + q * r)\<bar> \<le> 2 * real_of_int e + 2"
    if "\<bar>u - S * p\<bar> \<le> e" "\<bar>v - S * q\<bar> \<le> e" "\<bar>p\<bar> \<le> 1" "\<bar>q\<bar> \<le> 1" "\<bar>w - S * r\<bar> \<le> 1" "\<bar>w\<bar> = \<bar>s\<bar>" for u v p q w r :: real
  proof -
    have "(u * c + v * w) - S * (S * (p * cos 1 + q * r))
        = ((u - S * p) * c + (v - S * q) * w) + S * (p * (c - S * cos 1) + q * (w - S * r))"
      by (simp add: algebra_simps)
    moreover have "\<bar>(u - S * p) * c + (v - S * q) * w\<bar> \<le> e * (2 * S)"
      using abs_two_terms [OF that(1,2), of c w] mult_left_mono [OF S(2) e0] that(6) by simp
    moreover have "\<bar>p * (c - S * cos 1) + q * (w - S * r)\<bar> \<le> 2"
      using abs_two_terms [OF that(3,4), of "c - S * cos 1" "w - S * r"] cs(1) that(5) unfolding mult_1 by linarith
    then have "\<bar>S * (p * (c - S * cos 1) + q * (w - S * r))\<bar> \<le> S * 2" using S(1) by (simp add: abs_mult)
    ultimately have "\<bar>(u * c + v * w) - S * (S * (p * cos 1 + q * r))\<bar> \<le> S * (2 * real_of_int e + 2)"
      by (simp add: algebra_simps)
    moreover have "(u * c + v * w) / S - S * (p * cos 1 + q * r) = ((u * c + v * w) - S * (S * (p * cos 1 + q * r))) / S"
      using S(1) by (simp add: field_simps)
    ultimately show ?thesis using S(1) by (simp add: abs_divide pos_divide_le_eq mult.commute)
  qed
  have "\<bar>(real_of_int a * c + real_of_int b * s) / S - S * (sin x * cos 1 + cos x * sin 1)\<bar> \<le> 2 * real_of_int e + 2"
    by (rule main) (use ab cs in simp_all)
  then show "near e' a' (sin (x + 1))"
    using floor_near [of "2 ^ 112" "a * c + b * s"] unfolding near_def e sin_add S_def by simp
  have "\<bar>(real_of_int b * c + real_of_int a * - real_of_int s) / S - S * (cos x * cos 1 + sin x * - sin 1)\<bar> \<le> 2 * real_of_int e + 2"
    by (rule main) (use ab cs in simp_all)
  then show "near e' b' (cos (x + 1))"
    using floor_near [of "2 ^ 112" "b * c + a * - s"] unfolding near_def e cos_add S_def by simp
qed

lemma near_floor:
  assumes "near e a r" and "(\<bar>a\<bar> - e) div 2 ^ 80 = t" and "(\<bar>a\<bar> + e) div 2 ^ 80 = t"
  shows "\<lfloor>4294967296 * \<bar>r\<bar>\<rfloor> = t"
proof -
  have d: "x div 2 ^ 80 = t \<Longrightarrow> 1208925819614629174706176 * t \<le> x \<and> x < 1208925819614629174706176 * t + 1208925819614629174706176" for x :: int
    by auto
  have k: "1208925819614629174706176 * t \<le> \<bar>a\<bar> - e" "\<bar>a\<bar> + e < 1208925819614629174706176 * t + 1208925819614629174706176"
    using d [OF assms(2)] d [OF assms(3)] by simp_all
  have "real_of_int (1208925819614629174706176 * t) \<le> real_of_int (\<bar>a\<bar> - e)"
    "real_of_int (\<bar>a\<bar> + e) < real_of_int (1208925819614629174706176 * t + 1208925819614629174706176)"
    using k by (simp_all only: of_int_le_iff of_int_less_iff)
  moreover have "\<bar>real_of_int \<bar>a\<bar> - 2 ^ 112 * \<bar>r\<bar>\<bar> \<le> e"
    using assms(1) abs_triangle_ineq3 [of "real_of_int a" "2 ^ 112 * r"] by (simp add: near_def abs_mult)
  ultimately show ?thesis unfolding floor_eq_iff by (simp add: abs_le_iff)
qed

text \<open>Whether the entries of a table are what the angles say.\<close>

fun sine_table :: "int list \<Rightarrow> int \<times> int \<times> int \<Rightarrow> bool" where
  "sine_table [] s = True"
| "sine_table (t # ts) (a, b, e) =
     ((\<bar>a\<bar> - e) div 2 ^ 80 = t \<and> (\<bar>a\<bar> + e) div 2 ^ 80 = t \<and> sine_table ts (next_angle (a, b, e)))"

lemma sine_table_floor:
  "sine_table ts (a, b, e) \<Longrightarrow> near e a (sin x) \<Longrightarrow> near e b (cos x) \<Longrightarrow> i < length ts
    \<Longrightarrow> \<lfloor>4294967296 * \<bar>sin (x + real i)\<bar>\<rfloor> = ts ! i"
proof (induction ts arbitrary: a b e x i)
  case (Cons t ts)
  obtain a' b' e' where n: "next_angle (a, b, e) = (a', b', e')" by (cases "next_angle (a, b, e)")
  note near = near_next [OF Cons.prems(2,3) n]
  show ?case
  proof (cases i)
    case 0
    then show ?thesis using near_floor [OF Cons.prems(2)] Cons.prems(1) by simp
  next
    case (Suc j)
    then show ?thesis using Cons.IH [OF _ near, of j] Cons.prems(1,4) n by (simp add: add.assoc del: next_angle.simps)
  qed
qed simp

lemma sine_table_rfc:
  assumes "sine_table ts (4369167150966248696362992495346959, 2805409965418265417902907108845681, 1)" and "i < length ts"
  shows "rfc_T i = word_of_int (ts ! i)"
  using sine_table_floor [OF assms(1) near_one assms(2)] by (simp add: rfc_T_def add.commute)

section \<open>Words and bytes\<close>

lemma le_word_or: "of_nat (\<Sum>k<4. unat (f k :: u8) * 256 ^ k) = (ucast (f 0) OR push_bit 8 (ucast (f 1))
     OR push_bit 16 (ucast (f 2)) OR push_bit 24 (ucast (f 3)) :: u32)"
proof -
  have b: "\<not> bit x n" if "8 \<le> n" for x :: u8 and n using that bit_imp_le_length [of x n] by auto
  let ?a = "ucast (f 0) :: u32" and ?b = "push_bit 8 (ucast (f 1)) :: u32" and ?c = "push_bit 16 (ucast (f 2)) :: u32"
    and ?d = "push_bit 24 (ucast (f 3)) :: u32"
  have "?c AND ?d = 0" "?b AND (?c OR ?d) = 0" "?a AND (?b OR ?c OR ?d) = 0"
    by (rule bit_word_eqI; auto simp: bit_simps dest: bit_imp_le_length)+
  then have "?c + ?d = ?c OR ?d" "?b + (?c OR ?d) = ?b OR ?c OR ?d" "?a + (?b OR ?c OR ?d) = ?a OR ?b OR ?c OR ?d"
    by (simp_all only: disjunctive_add_eq_or)
  then have "?a OR ?b OR ?c OR ?d = ?a + (?b + (?c + ?d))" by (simp only:)
  then show ?thesis by (simp add: push_bit_eq_mult lessThan_nat_numeral mult.commute add.commute)
qed

lemma rfc_word_or:
  "rfc_word M j = ucast (M ! (4 * j)) OR push_bit 8 (ucast (M ! (4 * j + 1)))
     OR push_bit 16 (ucast (M ! (4 * j + 2))) OR push_bit 24 (ucast (M ! (4 * j + 3)))"
  using le_word_or [of "\<lambda>k. M ! (4 * j + k)"] by (simp add: rfc_word_def)

lemma rfc_bytes_drop: "rfc_bytes w = [ucast w, ucast (drop_bit 8 w), ucast (drop_bit 16 w), ucast (drop_bit 24 w)]"
proof -
  have e: "of_nat (unat w div 2 ^ k) = (ucast (drop_bit k w) :: u8)" for k
  proof -
    have "ucast (drop_bit k w) = (of_nat (unat (drop_bit k w)) :: u8)" by simp
    then show ?thesis by (simp only: unat_drop_bit_eq drop_bit_nat_def)
  qed
  have "[0..<4] = [0, 1, 2, 3 :: nat]" by (simp add: upt_rec)
  then show ?thesis using e [of 0] e [of 8] e [of 16] e [of 24] by (simp add: rfc_bytes_def del: of_nat_unat)
qed

lemma rfc_bytes_length [simp]: "length (rfc_bytes w) = 4"
  by (simp add: rfc_bytes_def)

end
