(* ===== verification/Grub_Strings.thy ===== *)
theory Grub_Strings
  imports Prelude "HOL-Library.List_Lexorder"
begin

text \<open>
  The string and number routines of GRUB's src/grub-0.97/stage2/char_io.c on the flat memory, and the
  error numbers of shared.h. A \<open>char\<close> is signed. A loop over a string that need not end is a
  \<open>partial_function\<close>; a routine that fails with an error number returns it in a sum.
\<close>

section \<open>Error numbers\<close>

datatype grub_error =
  ERR_NONE | ERR_BAD_FILENAME | ERR_BAD_FILETYPE | ERR_BAD_GZIP_DATA | ERR_BAD_GZIP_HEADER
| ERR_BAD_PART_TABLE | ERR_BAD_VERSION | ERR_BELOW_1MB | ERR_BOOT_COMMAND | ERR_BOOT_FAILURE
| ERR_BOOT_FEATURES | ERR_DEV_FORMAT | ERR_DEV_VALUES | ERR_EXEC_FORMAT | ERR_FILELENGTH
| ERR_FILE_NOT_FOUND | ERR_FSYS_CORRUPT | ERR_FSYS_MOUNT | ERR_GEOM | ERR_NEED_LX_KERNEL
| ERR_NEED_MB_KERNEL | ERR_NO_DISK | ERR_NO_PART | ERR_NUMBER_PARSING | ERR_OUTSIDE_PART
| ERR_READ | ERR_SYMLINK_LOOP | ERR_UNRECOGNIZED | ERR_WONT_FIT | ERR_WRITE | ERR_BAD_ARGUMENT
| ERR_UNALIGNED | ERR_PRIVILEGED | ERR_DEV_NEED_INIT | ERR_NO_DISK_SPACE | ERR_NUMBER_OVERFLOW

section \<open>Strings\<close>

definition grub_tolower :: "u32 \<Rightarrow> u32" where
  "grub_tolower c = (if 0x41 \<le>s c \<and> c \<le>s 0x5A then c + (0x61 - 0x41) else c)"

definition grub_isspace :: "u32 \<Rightarrow> bool" where
  "grub_isspace c = (c = 0x20 \<or> c = 0x09 \<or> c = 0x0D \<or> c = 0x0A)"

function grub_memcmp :: "memory \<Rightarrow> u32 \<Rightarrow> u32 \<Rightarrow> u32 \<Rightarrow> int" where
  "grub_memcmp m s1 s2 n =
     (if n \<noteq> 0 then
        if m s1 <s m s2 then -1
        else if m s2 <s m s1 then 1
        else grub_memcmp m (s1 + 1) (s2 + 1) (n - 1)
      else 0)"
  by pat_completeness auto
termination by (relation "measure (\<lambda>(m, s1, s2, n). unat n)") (auto simp: measure_unat)

partial_function (option) grub_strcmp :: "memory \<Rightarrow> u32 \<Rightarrow> u32 \<Rightarrow> int option" where
  "grub_strcmp m s1 s2 =
     (if m s1 \<noteq> 0 \<or> m s2 \<noteq> 0 then
        if m s1 <s m s2 then Some (-1)
        else if m s2 <s m s1 then Some 1
        else grub_strcmp m (s1 + 1) (s2 + 1)
      else Some 0)"

partial_function (option) grub_strlen_loop :: "memory \<Rightarrow> u32 \<Rightarrow> u32 \<Rightarrow> u32 option" where
  "grub_strlen_loop m str len = (if m str \<noteq> 0 then grub_strlen_loop m (str + 1) (len + 1) else Some len)"

definition grub_strlen :: "memory \<Rightarrow> u32 \<Rightarrow> u32 option" where
  "grub_strlen m str = grub_strlen_loop m str 0"

text \<open>\<open>grub_strncat\<close>: the two loops leave the index \<open>i\<close>, an \<open>int\<close> that counts up to \<open>n\<close>.\<close>

function strncat_end :: "memory \<Rightarrow> u32 \<Rightarrow> int \<Rightarrow> int \<Rightarrow> int" where
  "strncat_end m s1 n i = (if i < n \<and> m (s1 + word_of_int i) \<noteq> 0 then strncat_end m s1 n (i + 1) else i)"
  by pat_completeness auto
termination by (relation "measure (\<lambda>(m, s1, n, i). nat (n - i))") auto

function strncat_copy :: "memory \<Rightarrow> u32 \<Rightarrow> u32 \<Rightarrow> int \<Rightarrow> int \<Rightarrow> memory \<times> int" where
  "strncat_copy m s1 s2 n i =
     (if i < n then
        let c = m s2; m1 = m(s1 + word_of_int i := c)
        in if c \<noteq> 0 then strncat_copy m1 s1 (s2 + 1) n (i + 1) else (m1, i + 1)
      else (m, i))"
  by pat_completeness auto
termination by (relation "measure (\<lambda>(m, s1, s2, n, i). nat (n - i))") auto

definition grub_strncat :: "memory \<Rightarrow> u32 \<Rightarrow> u32 \<Rightarrow> int \<Rightarrow> int \<times> memory" where
  "grub_strncat m s1 s2 n =
     (let i = strncat_end m s1 n 0;
          (m, i) = strncat_copy m s1 s2 n i;
          m = m(s1 + word_of_int (n - 1) := 0)
      in if i \<ge> n then (0, m) else (1, m(s1 + word_of_int i := 0)))"

text \<open>0 for equal strings, -1 when the first is a proper prefix, 1 otherwise.\<close>

partial_function (option) substring_loop :: "memory \<Rightarrow> u32 \<Rightarrow> u32 \<Rightarrow> int option" where
  "substring_loop m s1 s2 =
     (if m s1 = m s2 then if m s1 = 0 then Some 0 else substring_loop m (s1 + 1) (s2 + 1)
      else if m s1 = 0 then Some (-1) else Some 1)"

partial_function (option) nul_terminate :: "memory \<Rightarrow> u32 \<Rightarrow> (u32 \<times> memory) option" where
  "nul_terminate m str =
     (if m str \<noteq> 0 \<and> \<not> grub_isspace (sx8 (m str)) then nul_terminate m (str + 1)
      else Some (sx8 (m str), m(str := 0)))"

partial_function (option) match_loop :: "memory \<Rightarrow> u32 \<Rightarrow> u32 \<Rightarrow> u32 option" where
  "match_loop m ptr tmp = (if m tmp \<noteq> 0 \<and> m ptr = m tmp then match_loop m (ptr + 1) (tmp + 1) else Some tmp)"

partial_function (option) grub_strstr :: "memory \<Rightarrow> u32 \<Rightarrow> u32 \<Rightarrow> u32 option" where
  "grub_strstr m s1 s2 =
     (if m s1 \<noteq> 0 then
        do {
          tmp \<leftarrow> match_loop m s1 s2;
          if tmp > s2 \<and> m tmp = 0 then Some s1 else grub_strstr m (s1 + 1) s2
        }
      else Some 0)"

section \<open>Numbers\<close>

function ascii_digits :: "memory \<Rightarrow> u32 \<Rightarrow> u32 \<Rightarrow> bool \<Rightarrow> memory \<times> u32" where
  "ascii_digits m ptr num hex =
     (let mult = (if hex then 16 else 10);
          dig = num mod mult;
          m1 = m(ptr := lo8 (if dig > 9 then dig + 0x61 - 10 else 0x30 + dig));
          num1 = num div mult
      in if num1 \<noteq> 0 then ascii_digits m1 (ptr + 1) num1 hex else (m1, ptr + 1))"
  by pat_completeness auto
termination
proof (relation "measure (\<lambda>(m, ptr, num, hex). unat num)", goal_cases)
  case (2 m ptr num hex mult dig m1 num1)
  have u: "unat num1 = unat num div unat mult" using 2 by (simp add: unat_div)
  have "unat num1 \<noteq> 0" using 2 by (simp add: unsigned_eq_0_iff)
  moreover from this have "0 < unat num" unfolding u by (cases "unat num = 0") auto
  moreover have "unat mult > 1" using 2 by simp
  ultimately have "unat num1 < unat num" unfolding u by (intro div_less_dividend) auto
  then show ?case by simp
qed simp

function reorder :: "memory \<Rightarrow> u32 \<Rightarrow> u32 \<Rightarrow> memory" where
  "reorder m ptr1 ptr2 =
     (if ptr1 > ptr2 then
        let tmp = m ptr1;
            m = m(ptr1 := m ptr2);
            m = m(ptr2 := tmp)
        in reorder m (ptr1 - 1) (ptr2 + 1)
      else m)"
  by pat_completeness auto
termination
proof (relation "measure (\<lambda>(m, ptr1, ptr2). unat ptr1)", goal_cases)
  case (2 m ptr1 ptr2)
  then have "ptr1 \<noteq> 0" using word_not_simps(1) by blast
  then show ?case by (simp add: measure_unat)
qed simp

definition convert_to_ascii :: "memory \<Rightarrow> u32 \<Rightarrow> u8 \<Rightarrow> u32 \<Rightarrow> memory \<times> u32" where
  "convert_to_ascii m buf c num =
     (let hex = (c = 0x78 \<or> c = 0x58);
          minus = (num AND 0x80000000 \<noteq> 0 \<and> c = 0x64);
          num = (if minus then NOT num + 1 else num);
          m = (if minus then m(buf := 0x2D) else m);
          buf = (if minus then buf + 1 else buf);
          (m, ptr) = ascii_digits m buf num hex
      in (reorder m (ptr - 1) buf, ptr))"

text \<open>\<open>safe_parse_maxint\<close> advances the string pointer and stores the number, or sets an error.\<close>

definition MAXINT :: u32 where "MAXINT = 0x7FFFFFFF"

partial_function (option) parse_digits :: "memory \<Rightarrow> u32 \<Rightarrow> u32 \<Rightarrow> u32 \<Rightarrow> bool \<Rightarrow> (grub_error + u32 \<times> u32) option" where
  "parse_digits m mult ptr myint found =
     (let digit = grub_tolower (sx8 (m ptr)) - 0x30;
          letter = digit > 9;
          digit = (if letter then digit - (0x61 - 0x30) else digit)
      in if letter \<and> (mult = 10 \<or> digit > 5)
         then Some (if found then Inr (ptr, myint) else Inl ERR_NUMBER_PARSING)
         else
           let digit = (if letter then digit + 10 else digit)
           in if myint > (MAXINT - digit) div mult then Some (Inl ERR_NUMBER_OVERFLOW)
              else parse_digits m mult (ptr + 1) (myint * mult + digit) True)"

definition safe_parse_maxint :: "memory \<Rightarrow> u32 \<Rightarrow> (grub_error + u32 \<times> u32) option" where
  "safe_parse_maxint m ptr =
     (if m ptr = 0x30 \<and> grub_tolower (sx8 (m (ptr + 1))) = 0x78 then parse_digits m 16 (ptr + 2) 0 False
      else parse_digits m 10 ptr 0 False)"

section \<open>Formatting into a buffer\<close>

partial_function (option) sprintf_str :: "memory \<Rightarrow> u32 \<Rightarrow> u32 \<Rightarrow> (memory \<times> u32) option" where
  "sprintf_str m ptr bp = (if m ptr \<noteq> 0 then sprintf_str (m(bp := m ptr)) (ptr + 1) (bp + 1) else Some (m, bp))"

text \<open>\<open>str\<close> is the local array; reading more arguments than were passed has no defined result.\<close>

partial_function (option) grub_sprintf_loop :: "u32 \<Rightarrow> memory \<Rightarrow> u32 \<Rightarrow> u32 \<Rightarrow> u32 list \<Rightarrow> (memory \<times> u32) option" where
  "grub_sprintf_loop str m format bp args =
     (let c = m format in
      if c = 0 then Some (m, bp)
      else if c \<noteq> 0x25 then grub_sprintf_loop str (m(bp := c)) (format + 1) (bp + 1) args
      else
        let c = m (format + 1) in
        if c \<in> {0x64, 0x75, 0x78, 0x63, 0x73} then
          (case args of
             [] \<Rightarrow> None
           | a # args \<Rightarrow>
               if c = 0x63 then grub_sprintf_loop str (m(bp := lo8 (a AND 0xFF))) (format + 2) (bp + 1) args
               else if c = 0x73 then
                 do {
                   (m, bp) \<leftarrow> sprintf_str m a bp;
                   grub_sprintf_loop str m (format + 2) bp args
                 }
               else
                 do {
                   let (m, end') = convert_to_ascii m str c a;
                   (m, bp) \<leftarrow> sprintf_str (m(end' := 0)) str bp;
                   grub_sprintf_loop str m (format + 2) bp args
                 })
        else grub_sprintf_loop str m (format + 2) bp args)"

definition grub_sprintf :: "u32 \<Rightarrow> memory \<Rightarrow> u32 \<Rightarrow> u32 \<Rightarrow> u32 list \<Rightarrow> (u32 \<times> memory) option" where
  "grub_sprintf str m buffer format args =
     do {
       (m, bp) \<leftarrow> grub_sprintf_loop str m format buffer args;
       Some (bp - buffer, m(bp := 0))
     }"

declare grub_memcmp.simps [simp del] strncat_end.simps [simp del] strncat_copy.simps [simp del]
  ascii_digits.simps [simp del] reorder.simps [simp del]

end
