(* ===== verification/Grub_Strings_Props.thy ===== *)
theory Grub_Strings_Props
  imports Grub_Strings "HOL-Library.Sublist"
begin

text \<open>
  What GRUB's string routines compute on NUL-terminated strings, and the round trip between printing
  and parsing a number.
\<close>

section \<open>Comparison\<close>

text \<open>A signed character, ordered as the processor compares it; a string is compared with its NUL.\<close>

datatype schar = SChar u8

lemma sint_u8_eq: "sint a = sint b \<longleftrightarrow> a = b" for a b :: u8
  by (metis scast_id scast_eq)

instantiation schar :: linorder
begin

fun less_schar :: "schar \<Rightarrow> schar \<Rightarrow> bool" where
  "SChar a < SChar b \<longleftrightarrow> a <s b"

fun less_eq_schar :: "schar \<Rightarrow> schar \<Rightarrow> bool" where
  "SChar a \<le> SChar b \<longleftrightarrow> a \<le>s b"

instance
proof
  fix x y z :: schar
  show "x < y \<longleftrightarrow> x \<le> y \<and> \<not> y \<le> x" by (cases x; cases y) (auto simp: word_sless_alt word_sle_eq)
  show "x \<le> x" by (cases x) (simp add: word_sle_eq)
  show "x \<le> z" if "x \<le> y" "y \<le> z" using that by (cases x; cases y; cases z) (simp add: word_sle_eq)
  show "x = y" if "x \<le> y" "y \<le> x" using that by (cases x; cases y) (auto simp: word_sle_eq simp flip: sint_u8_eq)
  show "x \<le> y \<or> y \<le> x" by (cases x; cases y) (auto simp: word_sle_eq)
qed

end

definition c_order :: "u8 list \<Rightarrow> schar list" where
  "c_order bs = map SChar (bs @ [0])"

lemma c_order_eq: "c_order xs = c_order ys \<longleftrightarrow> xs = ys"
  unfolding c_order_def by (subst inj_map_eq_map) (auto intro: injI)

lemma sless_irrefl [simp]: "\<not> (a <s a)" for a :: u8
  by (simp add: word_sless_alt)

lemma sless_differ: "a <s b \<or> b <s a \<longleftrightarrow> a \<noteq> b" for a b :: u8
  unfolding word_sless_alt using sint_u8_eq [of a b] by auto

lemma grub_strcmp_cstr:
  "cstr_at m p xs \<Longrightarrow> cstr_at m q ys \<Longrightarrow>
   grub_strcmp m p q = Some (if c_order xs < c_order ys then -1 else if c_order ys < c_order xs then 1 else 0)"
proof (induction xs arbitrary: p q ys)
  case Nil
  then show ?case
    by (cases ys) (auto simp: grub_strcmp.simps [of m p] c_order_def word_sless_alt simp flip: sint_u8_eq)
next
  case (Cons x xs)
  show ?case
  proof (cases ys)
    case Nil
    with Cons.prems show ?thesis
      using sless_differ [of x 0] by (auto simp: grub_strcmp.simps [of m p] c_order_def word_sless_alt)
  next
    case (Cons y ys')
    then show ?thesis
      using Cons.prems Cons.IH [of "p + 1" "q + 1" ys'] sless_differ [of x y]
      by (auto simp: grub_strcmp.simps [of m p] c_order_def word_sless_alt)
  qed
qed

lemma grub_strlen_loop_cstr: "cstr_at m p bs \<Longrightarrow> grub_strlen_loop m p l = Some (l + of_nat (length bs))"
  by (induction bs arbitrary: p l) (auto simp: grub_strlen_loop.simps add_ac)

lemma grub_strlen_cstr: "cstr_at m p bs \<Longrightarrow> grub_strlen m p = Some (of_nat (length bs))"
  by (simp add: grub_strlen_def grub_strlen_loop_cstr)

lemma substring_cstr:
  "cstr_at m p xs \<Longrightarrow> cstr_at m q ys \<Longrightarrow>
   substring_loop m p q = Some (if xs = ys then 0 else if prefix xs ys then -1 else 1)"
proof (induction xs arbitrary: p q ys)
  case Nil
  then show ?case by (cases ys) (auto simp: substring_loop.simps)
next
  case (Cons x xs)
  then show ?case by (cases ys) (auto simp: substring_loop.simps [of m p])
qed

section \<open>Searching\<close>

lemma match_loop_cstr:
  "cstr_at m p xs \<Longrightarrow> cstr_at m q ys \<Longrightarrow>
   match_loop m p q = Some (q + of_nat (length (longest_common_prefix xs ys)))"
proof (induction xs arbitrary: p q ys)
  case Nil
  then show ?case by (cases ys) (auto simp: match_loop.simps)
next
  case (Cons x xs)
  then show ?case by (cases ys) (auto simp: match_loop.simps [of m p] add_ac)
qed

lemma common_prefix_all: "length (longest_common_prefix xs ys) = length ys \<longleftrightarrow> prefix ys xs"
  by (induction xs ys rule: longest_common_prefix.induct) auto

lemma common_prefix_length: "length (longest_common_prefix xs ys) \<le> length ys"
  by (induction xs ys rule: longest_common_prefix.induct) auto

fun find_sub :: "u8 list \<Rightarrow> u8 list \<Rightarrow> nat option" where
  "find_sub [] ys = None"
| "find_sub (x # xs) ys = (if prefix ys (x # xs) then Some 0 else map_option Suc (find_sub xs ys))"

lemma grub_strstr_cstr:
  assumes "cstr_at m p xs" and "cstr_at m q ys" and "ys \<noteq> []" and "unat q + length ys < 4294967296"
  shows "grub_strstr m p q = Some (case find_sub xs ys of Some k \<Rightarrow> p + of_nat k | None \<Rightarrow> 0)"
  using assms(1)
proof (induction xs arbitrary: p)
  case Nil
  then show ?case by (simp add: grub_strstr.simps)
next
  case (Cons x xs)
  let ?l = "length (longest_common_prefix (x # xs) ys)"
  have l: "?l \<le> length ys" by (rule common_prefix_length)
  have mt: "match_loop m p q = Some (q + of_nat ?l)" by (rule match_loop_cstr [OF Cons.prems assms(2)])
  have "unat (q + of_nat ?l) = unat q + ?l" using l assms(4) by (subst unat_add_lem [THEN iffD1]) (auto simp: unat_of_nat_u32)
  then have gt: "q + of_nat ?l > q \<longleftrightarrow> ?l \<noteq> 0" by (simp add: word_less_nat_alt)
  have z: "m (q + of_nat ?l) = 0 \<longleftrightarrow> ?l = length ys"
    using l cstr_at_nonzero [OF assms(2), of ?l] cstr_at_end [OF assms(2)] by (cases "?l = length ys") auto
  have "m p \<noteq> 0" and tl: "cstr_at m (p + 1) xs" using Cons.prems by auto
  then have "grub_strstr m p q = (if ?l \<noteq> 0 \<and> ?l = length ys then Some p else grub_strstr m (p + 1) q)"
    by (subst grub_strstr.simps) (simp add: mt gt z del: of_nat_eq_0_iff)
  then show ?case
    using Cons.IH [OF tl] assms(3) common_prefix_all [of "x # xs" ys] by (auto split: option.splits simp: add_ac)
qed

lemma grub_strstr_empty: "cstr_at m p xs \<Longrightarrow> m q = 0 \<Longrightarrow> grub_strstr m p q = Some 0"
proof (induction xs arbitrary: p)
  case (Cons x xs)
  then show ?case by (subst grub_strstr.simps) (simp add: match_loop.simps)
qed (simp add: grub_strstr.simps)

definition word_len :: "u8 list \<Rightarrow> nat" where
  "word_len bs = length (takeWhile (\<lambda>c. \<not> grub_isspace (sx8 c)) bs)"

lemma sx8_0 [simp]: "sx8 0 = 0"
  by (simp add: sx8_def)

lemma nul_terminate_cstr:
  "cstr_at m p bs \<Longrightarrow>
   nul_terminate m p = Some (sx8 (m (p + of_nat (word_len bs))), m(p + of_nat (word_len bs) := 0))"
proof (induction bs arbitrary: p)
  case Nil
  then show ?case by (simp add: nul_terminate.simps word_len_def fun_upd_idem)
next
  case (Cons b bs)
  then show ?case by (cases "grub_isspace (sx8 b)") (auto simp: nul_terminate.simps [of m p] word_len_def add_ac)
qed

section \<open>Printing a number\<close>

function digits_le :: "nat \<Rightarrow> nat \<Rightarrow> nat list" where
  "digits_le b n = n mod b # (if 1 < b \<and> n div b \<noteq> 0 then digits_le b (n div b) else [])"
  by pat_completeness auto
termination
  by (relation "measure snd") (auto simp: div_eq_0_iff intro!: div_less_dividend)

declare digits_le.simps [simp del]

definition digit_char :: "nat \<Rightarrow> u8" where
  "digit_char d = (if d > 9 then of_nat (d + 0x57) else of_nat (0x30 + d))"

definition number_text :: "nat \<Rightarrow> nat \<Rightarrow> u8 list" where
  "number_text b n = rev (map digit_char (digits_le b n))"

lemma digits_le_bound: "1 < b \<Longrightarrow> d \<in> set (digits_le b n) \<Longrightarrow> d < b"
proof (induction b n rule: digits_le.induct)
  case (1 b n)
  then show ?case by (subst (asm) digits_le.simps) (auto split: if_splits)
qed

lemma digits_le_length: "1 < b \<Longrightarrow> n < b ^ Suc k \<Longrightarrow> length (digits_le b n) \<le> Suc k"
proof (induction k arbitrary: n)
  case 0
  then show ?case by (subst digits_le.simps) simp
next
  case (Suc k)
  have "n div b < b ^ Suc k"
    using Suc.prems by (intro less_mult_imp_div_less) (simp add: mult.commute)
  from Suc.IH [OF Suc.prems(1) this] show ?case by (subst digits_le.simps) simp
qed

lemma digits_le_nonempty [simp]: "digits_le b n \<noteq> []"
  by (subst digits_le.simps) simp

lemma digit_char_word:
  "lo8 (if w > 9 then w + 0x61 - 10 else 0x30 + w) = digit_char (unat w)" if "unat w < 16" for w :: u32
proof -
  have w: "w = of_nat (unat w)" by simp
  have g: "w > 9 \<longleftrightarrow> unat w > 9" by (simp add: word_less_nat_alt)
  have e: "w + 0x61 - 10 = of_nat (unat w + 0x57)" "0x30 + w = of_nat (0x30 + unat w)" by simp_all
  have "lo8 (w + 0x61 - 10) = of_nat (unat w + 0x57)" "lo8 (0x30 + w) = of_nat (0x30 + unat w)"
    unfolding e by (rule lo8_of_nat; use that in simp)+
  then show ?thesis unfolding g digit_char_def by (cases "unat w > 9") (simp_all only: if_True if_False)
qed

lemma ascii_digits_write:
  "ascii_digits m p num hex =
     (let ds = map digit_char (digits_le (if hex then 16 else 10) (unat num))
      in (write_bytes m p ds, p + of_nat (length ds)))"
proof (induction m p num hex rule: ascii_digits.induct)
  case (1 m p num hex)
  let ?b = "if hex then 16 else 10 :: u32" and ?n = "if hex then 16 else 10 :: nat"
  have b: "unat ?b = ?n" by simp
  have d: "unat (num mod ?b) = unat num mod ?n" "unat (num div ?b) = unat num div ?n"
    by (simp_all only: unat_mod unat_div b)
  have c: "lo8 (if num mod ?b > 9 then num mod ?b + 0x61 - 10 else 0x30 + num mod ?b) = digit_char (unat num mod ?n)"
    unfolding d(1) [symmetric] by (rule digit_char_word) (use mod_less_divisor [of ?n "unat num"] in \<open>auto simp: d(1)\<close>)
  have z: "num div ?b \<noteq> 0 \<longleftrightarrow> unat num div ?n \<noteq> 0"
    using d(2) by (metis unsigned_eq_0_iff)
  have n1: "1 < ?n" by simp
  show ?case
  proof (cases "unat num div ?n = 0")
    case True
    then show ?thesis
      using z c by (subst ascii_digits.simps, subst digits_le.simps) (simp only: Let_def if_False not_True_eq_False, simp)
  next
    case False
    let ?m = "m(p := digit_char (unat num mod ?n))" and ?ds = "map digit_char (digits_le ?n (unat num div ?n))"
    have IH: "ascii_digits ?m (p + 1) (num div ?b) hex = (write_bytes ?m (p + 1) ?ds, p + 1 + of_nat (length ?ds))"
      using "1.IH" [OF refl refl refl refl, unfolded c d(2)] False z by (simp only: Let_def not_False_eq_True simp_thms)
    have "digits_le ?n (unat num) = unat num mod ?n # digits_le ?n (unat num div ?n)"
      using False n1 by (subst digits_le.simps) simp
    moreover have "ascii_digits m p num hex = ascii_digits ?m (p + 1) (num div ?b) hex"
      by (subst ascii_digits.simps) (use False z c in \<open>simp only: Let_def if_True not_False_eq_True\<close>)
    ultimately show ?thesis unfolding IH by (simp only: Let_def) (simp add: add_ac)
  qed
qed

lemma write_bytes_upd:
  assumes "\<not> in_region q p (length bs)" and "length bs \<le> 4294967296"
  shows "write_bytes (m(q := x)) p bs = (write_bytes m p bs)(q := x)"
  using assms by (auto simp: fun_eq_iff write_bytes_apply)

lemma write_bytes_snoc: "write_bytes m p (bs @ [x]) = (write_bytes m p bs)(p + of_nat (length bs) := x)"
  by (simp add: write_bytes_append)

lemma unat_offset_step: "unat p < 4294967295 \<Longrightarrow> unat (p + 1) = unat p + 1" for p :: u32
  by (subst unat_add_lem [THEN iffD1]) simp_all

lemma reorder_write:
  "bs \<noteq> [] \<Longrightarrow> unat p + length bs \<le> 4294967296 \<Longrightarrow>
   reorder (write_bytes m p bs) (p + of_nat (length bs) - 1) p = write_bytes m p (rev bs)"
proof (induction "length bs" arbitrary: bs m p rule: less_induct)
  case less
  show ?case
  proof (cases "length bs = 1")
    case True
    then obtain x where "bs = [x]" by (auto simp: length_Suc_conv)
    then show ?thesis by (simp add: reorder.simps)
  next
    case False
    then obtain x tl where tl: "bs = x # tl" "tl \<noteq> []" using less.prems(1) by (cases bs) auto
    then obtain mid y where bs: "bs = x # mid @ [y]" by (metis append_butlast_last_id)
    let ?k = "length mid" and ?q = "p + of_nat (Suc (length mid))"
    have k: "unat p + Suc ?k < 4294967296" using less.prems(2) by (simp add: bs)
    then have uq: "unat ?q = unat p + Suc ?k"
      by (subst unat_add_lem [THEN iffD1]) (simp_all only: unat_of_nat_u32 len_of_numeral_defs, simp_all)
    then have gt: "?q > p" by (simp add: word_less_nat_alt)
    have out: "\<not> in_region ?q (p + 1) ?k" "\<not> in_region p (p + 1) ?k" "p \<noteq> ?q"
      using k gt not_in_region_before [of 0 1 ?k p] by (auto simp: in_region_def unat_of_nat_u32)
    have w: "write_bytes m p (a # mid @ [b]) = write_bytes (m(p := a, ?q := b)) (p + 1) mid" for a b
      using write_bytes_upd [OF out(1), of "m(p := a)" b] k by (simp add: write_bytes_snoc add_ac)
    have rd: "write_bytes m p bs p = x" "write_bytes m p bs ?q = y"
      using out k unfolding bs w by (simp_all add: write_bytes_outside)
    have sw: "(write_bytes m p bs)(?q := x, p := y) = write_bytes (m(p := y, ?q := x)) (p + 1) mid"
      using out k unfolding bs w by (auto simp: fun_eq_iff write_bytes_apply)
    have last: "p + of_nat (length bs) - 1 = ?q" by (simp add: bs)
    have p1: "?q - 1 = p + 1 + of_nat ?k - 1" "unat (p + 1) + ?k \<le> 4294967296" "?k < length bs"
      using k unat_offset_step [of p] by (simp_all add: bs)
    have "reorder (write_bytes m p bs) ?q p = reorder (write_bytes (m(p := y, ?q := x)) (p + 1) mid) (?q - 1) (p + 1)"
      using gt by (subst reorder.simps) (simp add: rd sw del: of_nat_Suc)
    also have "\<dots> = write_bytes (m(p := y, ?q := x)) (p + 1) (rev mid)"
    proof (cases "mid = []")
      case True
      then show ?thesis using k unat_offset_step [of p] by (simp add: reorder.simps word_less_nat_alt)
    next
      case False
      then show ?thesis unfolding p1(1) using less.hyps [OF p1(3) False p1(2)] by simp
    qed
    also have "\<dots> = write_bytes m p (rev bs)"
      using w [of y x] write_bytes_upd [of ?q "p + 1" "rev mid" "m(p := y)" x] out k
      by (simp add: bs write_bytes_snoc add_ac)
    finally show ?thesis unfolding last .
  qed
qed

definition ascii_text :: "u8 \<Rightarrow> u32 \<Rightarrow> u8 list" where
  "ascii_text c num =
     (if c = 0x64 \<and> sint num < 0 then 0x2D # number_text 10 (nat (- sint num))
      else number_text (if c = 0x78 \<or> c = 0x58 then 16 else 10) (unat num))"

lemma number_text_length: "n < 4294967296 \<Longrightarrow> 10 \<le> b \<Longrightarrow> length (number_text b n) \<le> 10"
proof -
  assume "n < 4294967296" and b: "10 \<le> b"
  then have "n < 10 ^ Suc 9" by simp
  also have "\<dots> \<le> b ^ Suc 9" using b by (rule power_mono) simp
  finally show ?thesis using digits_le_length [of b n 9] b by (simp add: number_text_def)
qed

lemma number_text_nonempty [simp]: "number_text b n \<noteq> []"
  by (simp add: number_text_def)

lemma neg_bit: "num AND 0x80000000 \<noteq> 0 \<longleftrightarrow> sint num < 0" for num :: u32
proof -
  have "(0x80000000 :: u32) = 2 ^ 31" by simp
  then show ?thesis
    using bit_last_iff [of num] by (simp only: and_exp_eq_0_iff_not_bit) simp
qed

lemma unat_neg: "sint num < 0 \<Longrightarrow> unat (NOT num + 1) = nat (- sint num)" for num :: u32
proof -
  assume neg: "sint num < 0"
  have "(word_of_int (- sint num) :: u32) = - num" by simp
  then have "of_nat (nat (- sint num)) = - num" using neg by simp
  moreover have "NOT num + 1 = - num" by (simp add: minus_eq_not_plus_1)
  moreover have "unat (of_nat (nat (- sint num)) :: u32) = nat (- sint num)"
    using neg sint_range_u32 [of num] by (intro unat_of_nat_u32) simp
  ultimately show ?thesis by (simp only:)
qed

lemma ascii_text_length: "length (ascii_text c num) \<le> 11" "ascii_text c num \<noteq> []"
proof -
  have "length (number_text 10 (nat (- sint num))) \<le> 10"
    using sint_range_u32 [of num] by (intro number_text_length) auto
  moreover have "length (number_text 10 (unat num)) \<le> 10" "length (number_text 16 (unat num)) \<le> 10"
    using unat_u32_less [of num] by (auto intro!: number_text_length)
  ultimately show "length (ascii_text c num) \<le> 11" "ascii_text c num \<noteq> []"
    by (auto simp: ascii_text_def le_SucI)
qed

lemma convert_digits:
  assumes "unat buf + 10 \<le> 4294967296"
  shows "(let (m', ptr) = ascii_digits m buf num hex in (reorder m' (ptr - 1) buf, ptr)) =
    (let ds = number_text (if hex then 16 else 10) (unat num) in (write_bytes m buf ds, buf + of_nat (length ds)))"
proof -
  let ?ds = "map digit_char (digits_le (if hex then 16 else 10) (unat num))"
  have r: "rev ?ds = number_text (if hex then 16 else 10) (unat num)" by (simp add: number_text_def rev_map)
  have "length (number_text (if hex then 16 else 10) (unat num)) \<le> 10"
    using unat_u32_less [of num] by (intro number_text_length) auto
  then have "length ?ds \<le> 10" unfolding r [symmetric] by simp
  then have "reorder (write_bytes m buf ?ds) (buf + of_nat (length ?ds) - 1) buf = write_bytes m buf (rev ?ds)"
    using assms by (intro reorder_write) auto
  then show ?thesis unfolding ascii_digits_write Let_def prod.case r [symmetric] by simp
qed

lemma convert_to_ascii_text:
  assumes "unat buf + 11 \<le> 4294967296"
  shows "convert_to_ascii m buf c num = (write_bytes m buf (ascii_text c num), buf + of_nat (length (ascii_text c num)))"
proof (cases "c = 0x64 \<and> sint num < 0")
  case True
  have b1: "unat (buf + 1) = unat buf + 1" using assms by (intro unat_offset_step) simp
  have "convert_to_ascii m buf c num = (let ds = number_text 10 (unat (NOT num + 1))
      in (write_bytes (m(buf := 0x2D)) (buf + 1) ds, buf + 1 + of_nat (length ds)))"
    using True convert_digits [of "buf + 1" "m(buf := 0x2D)" "NOT num + 1" False] assms
    unfolding convert_to_ascii_def neg_bit by (simp add: Let_def b1)
  then show ?thesis using True unat_neg [of num] by (simp add: ascii_text_def Let_def add_ac)
next
  case False
  then have "convert_to_ascii m buf c num = (let ds = number_text (if c = 0x78 \<or> c = 0x58 then 16 else 10) (unat num)
      in (write_bytes m buf ds, buf + of_nat (length ds)))"
    using convert_digits [of buf m num "c = 0x78 \<or> c = 0x58"] assms
    unfolding convert_to_ascii_def neg_bit conj_commute [of "sint num < 0"] by (simp only: Let_def if_False)
  then show ?thesis using False by (auto simp: ascii_text_def Let_def)
qed

section \<open>Parsing a number\<close>

definition digit_of :: "bool \<Rightarrow> u8 \<Rightarrow> nat option" where
  "digit_of hex c =
     (let n = unat c in
      if 48 \<le> n \<and> n \<le> 57 then Some (n - 48)
      else if hex \<and> 97 \<le> n \<and> n \<le> 102 then Some (n - 87)
      else if hex \<and> 65 \<le> n \<and> n \<le> 70 then Some (n - 55)
      else None)"

definition base_of :: "bool \<Rightarrow> nat" where "base_of hex = (if hex then 16 else 10)"

definition number_prefix :: "bool \<Rightarrow> u8 list \<Rightarrow> u8 list" where
  "number_prefix hex bs = takeWhile (\<lambda>c. digit_of hex c \<noteq> None) bs"

definition number_value :: "bool \<Rightarrow> nat \<Rightarrow> u8 list \<Rightarrow> nat" where
  "number_value hex v ds = foldl (\<lambda>v c. v * base_of hex + the (digit_of hex c)) v ds"

definition parse_result :: "bool \<Rightarrow> u32 \<Rightarrow> nat \<Rightarrow> bool \<Rightarrow> u8 list \<Rightarrow> grub_error + u32 \<times> u32" where
  "parse_result hex p v found bs =
     (let ds = number_prefix hex bs; w = number_value hex v ds in
      if w > 2147483647 then Inl ERR_NUMBER_OVERFLOW
      else if ds = [] \<and> \<not> found then Inl ERR_NUMBER_PARSING
      else Inr (p + of_nat (length ds), of_nat w))"

text \<open>The arithmetic of the loop on one character.\<close>

definition scan_digit :: "bool \<Rightarrow> u8 \<Rightarrow> u32 option" where
  "scan_digit hex c =
     (let digit = grub_tolower (sx8 c) - 0x30;
          letter = digit > 9;
          digit = (if letter then digit - (0x61 - 0x30) else digit)
      in if letter \<and> (\<not> hex \<or> digit > 5) then None else Some (if letter then digit + 10 else digit))"

lemma sx8_sint: "sx8 c = word_of_int (sint c)"
  by (rule bit_word_eqI) (auto simp: sx8_def bit_simps bit_sint_iff min_def)
lemma sint_u8: "sint c = (if unat c < 128 then int (unat c) else int (unat c) - 256)" for c :: u8
proof -
  let ?u = "int (unat c)"
  have b: "?u < 256" using uint_lt2p [of c] by simp
  have "sint c = (?u + 128) mod 256 - 128"
    by (simp add: sint_uint signed_take_bit_eq_take_bit_shift take_bit_eq_mod)
  moreover have "(?u + 128) mod 256 = ?u + 128" if "unat c < 128"
    using that by (intro mod_pos_pos_trivial) linarith+
  moreover have "(?u + 128) mod 256 = ?u - 128" if "\<not> unat c < 128"
  proof -
    have "(?u + 128) mod 256 = (?u - 128 + 256) mod 256" by (rule arg_cong [where f = "\<lambda>x. x mod 256"]) simp
    also have "\<dots> = (?u - 128) mod 256" by (rule mod_add_self2)
    also have "\<dots> = ?u - 128" using b that by (intro mod_pos_pos_trivial) linarith+
    finally show ?thesis .
  qed
  ultimately show ?thesis by (cases "unat c < 128") simp_all
qed

lemma sx8_small: "unat c < 128 \<Longrightarrow> sx8 c = of_nat (unat c)"
  by (simp add: sx8_sint sint_u8)

lemma sx8_negative:
  assumes "128 \<le> unat c" shows "sint (sx8 c) < 0" "4294967168 \<le> unat (sx8 c)"
proof -
  have n: "sint c = int (unat c) - 256" "unat c < 256" using assms unsigned_less [of c] by (simp_all add: sint_u8)
  then have "sint (sx8 c) = int (unat c) - 256" unfolding sx8_sint n(1) using n(2) by (intro sint_word_of_int_u32) linarith+
  then show "sint (sx8 c) < 0" using n(2) by linarith
  have "sx8 c = of_nat (unat c + 4294967040)" unfolding sx8_sint n(1) by simp
  then have "unat (sx8 c) = unat c + 4294967040" using n(2) by (simp only: unat_of_nat_u32)
  then show "4294967168 \<le> unat (sx8 c)" using assms by simp
qed
lemma unat_minus_u32: "unat (x - y) = (if unat y \<le> unat x then unat x - unat y else unat x + 4294967296 - unat y)" for x y :: u32
  by (simp add: unat_sub_if')

lemma tolower_small: "n < 128 \<Longrightarrow> grub_tolower (of_nat n) = of_nat (if 65 \<le> n \<and> n \<le> 90 then n + 32 else n)"
  using sint_of_nat_u32 [of n] by (auto simp: grub_tolower_def word_sle_eq)

lemma scan_digit_eq: "scan_digit hex c = map_option of_nat (digit_of hex c)"
proof (cases "unat c < 128")
  case True
  let ?n = "unat c"
  define t where "t = (if 65 \<le> ?n \<and> ?n \<le> 90 then ?n + 32 else ?n)"
  have t: "t < 128" "grub_tolower (sx8 c) = of_nat t"
    using True tolower_small [of ?n] by (simp_all only: t_def sx8_small) (simp split: if_split)
  have dg: "digit_of hex c = (if 48 \<le> t \<and> t \<le> 57 then Some (t - 48) else if hex \<and> 97 \<le> t \<and> t \<le> 102 then Some (t - 87) else None)"
    by (auto simp: digit_of_def t_def Let_def)
  have ut: "unat (of_nat k :: u32) = k" if "k < 128" for k using that by (simp add: unat_of_nat_u32)
  consider "t < 48" | "48 \<le> t" "t \<le> 57" | "57 < t" "t < 97" | "97 \<le> t" by linarith
  then show ?thesis
  proof cases
    case 1
    then have u: "unat (of_nat t - 0x30 :: u32) \<ge> 4294967248" "unat (of_nat t - 0x30 - 0x31 :: u32) \<ge> 4294967199"
      by (simp_all add: unat_minus_u32 ut)
    then have "of_nat t - 0x30 > (9 :: u32)" "of_nat t - 0x30 - 0x31 > (5 :: u32)" by (simp_all add: word_less_nat_alt)
    then show ?thesis using 1 dg by (simp add: scan_digit_def t(2))
  next
    case 2
    then have d: "of_nat t - 0x30 = (of_nat (t - 48) :: u32)" by (simp add: of_nat_diff)
    have "\<not> of_nat (t - 48) > (9 :: u32)" using 2 by (simp add: word_less_nat_alt ut del: of_nat_diff)
    then show ?thesis using 2 dg by (simp add: scan_digit_def t(2) d del: of_nat_diff)
  next
    case 3
    then have u: "unat (of_nat t - 0x30 :: u32) = t - 48" "unat (of_nat t - 0x30 - 0x31 :: u32) \<ge> 4294967199"
      using t(1) by (simp_all add: unat_minus_u32 ut)
    then have "of_nat t - 0x30 > (9 :: u32)" "of_nat t - 0x30 - 0x31 > (5 :: u32)" using 3 by (simp_all add: word_less_nat_alt)
    then show ?thesis using 3 dg by (simp add: scan_digit_def t(2))
  next
    case 4
    then have u: "unat (of_nat t - 0x30 :: u32) = t - 48" "unat (of_nat t - 0x30 - 0x31 :: u32) = t - 97"
      using t(1) by (simp_all add: unat_minus_u32 ut)
    then have g: "of_nat t - 0x30 > (9 :: u32)" "of_nat t - 0x30 - 0x31 > (5 :: u32) \<longleftrightarrow> 102 < t"
      using 4 by (simp_all add: word_less_nat_alt) linarith
    have "of_nat t - 0x30 - 0x31 + 10 = (of_nat (t - 87) :: u32)" using 4 by (simp add: of_nat_diff)
    then show ?thesis using 4 dg g by (auto simp: scan_digit_def t(2))
  qed
next
  case False
  then have n: "sint (sx8 c) < 0" "4294967168 \<le> unat (sx8 c)" using sx8_negative [of c] by auto
  then have "grub_tolower (sx8 c) = sx8 c" by (simp add: grub_tolower_def word_sle_eq)
  moreover have "unat (sx8 c - 0x30) \<ge> 4294967120" "unat (sx8 c - 0x30 - 0x31) \<ge> 4294967071"
    using n(2) by (simp_all add: unat_minus_u32)
  ultimately show ?thesis using False by (auto simp: scan_digit_def Let_def word_less_nat_alt digit_of_def)
qed

lemma digit_of_bound: "digit_of hex c = Some d \<Longrightarrow> d < base_of hex"
  by (auto simp: digit_of_def base_of_def Let_def split: if_splits)

lemma number_value_mono: "v \<le> number_value hex v ds"
proof (induction ds arbitrary: v)
  case (Cons d ds)
  have "v \<le> v * base_of hex + the (digit_of hex d)" by (simp add: base_of_def)
  also have "\<dots> \<le> number_value hex (v * base_of hex + the (digit_of hex d)) ds" by (rule Cons.IH)
  finally show ?case by (simp add: number_value_def)
qed (simp add: number_value_def)

lemma overflow_test:
  assumes "v \<le> 2147483647" and "d < 16" and "b = 10 \<or> b = 16"
  shows "of_nat v > ((MAXINT - of_nat d) div of_nat b :: u32) \<longleftrightarrow> v * b + d > 2147483647"
proof -
  have "unat (MAXINT - of_nat d :: u32) = 2147483647 - d"
    using assms(2) by (subst unat_sub) (simp_all add: MAXINT_def word_le_nat_alt unat_of_nat_u32)
  then have "unat ((MAXINT - of_nat d) div of_nat b :: u32) = (2147483647 - d) div b"
    using assms(3) by (auto simp: unat_div)
  then have "of_nat v > ((MAXINT - of_nat d) div of_nat b :: u32) \<longleftrightarrow> v > (2147483647 - d) div b"
    using assms(1) by (simp add: word_less_nat_alt unat_of_nat_u32)
  also have "\<dots> \<longleftrightarrow> v * b > 2147483647 - d" using assms(3) by (auto simp: div_less_iff_less_mult)
  finally show ?thesis using assms(2) by linarith
qed

lemma parse_step:
  "parse_digits m (if hex then 16 else 10) p myint found =
     (case scan_digit hex (m p) of
        None \<Rightarrow> Some (if found then Inr (p, myint) else Inl ERR_NUMBER_PARSING)
      | Some digit \<Rightarrow>
          if myint > (MAXINT - digit) div (if hex then 16 else 10) then Some (Inl ERR_NUMBER_OVERFLOW)
          else parse_digits m (if hex then 16 else 10) (p + 1) (myint * (if hex then 16 else 10) + digit) True)"
  by (subst parse_digits.simps) (cases hex; simp add: scan_digit_def Let_def)

lemma parse_digits_cstr:
  "cstr_at m p bs \<Longrightarrow> v \<le> 2147483647 \<Longrightarrow>
   parse_digits m (if hex then 16 else 10) p (of_nat v) found = Some (parse_result hex p v found bs)"
proof (induction bs arbitrary: p v found)
  case Nil
  have "digit_of hex 0 = None" by (simp add: digit_of_def)
  with Nil show ?case
    by (subst parse_step) (simp add: scan_digit_eq parse_result_def number_prefix_def number_value_def)
next
  case (Cons b bs)
  then have b: "m p = b" and tl: "cstr_at m (p + 1) bs" by auto
  show ?case
  proof (cases "digit_of hex b")
    case None
    with b Cons.prems show ?thesis
      by (subst parse_step) (simp add: scan_digit_eq parse_result_def number_prefix_def number_value_def)
  next
    case (Some d)
    let ?b = "base_of hex" and ?w = "v * base_of hex + d"
    have d: "d < 16" "?b = 10 \<or> ?b = 16" using digit_of_bound [OF Some] by (auto simp: base_of_def split: if_splits)
    have bw: "(if hex then 16 else 10 :: u32) = of_nat ?b" by (simp add: base_of_def)
    have t: "of_nat v > ((MAXINT - of_nat d) div of_nat ?b :: u32) \<longleftrightarrow> ?w > 2147483647"
      by (rule overflow_test [OF Cons.prems(2) d])
    have pre: "number_prefix hex (b # bs) = b # number_prefix hex bs" using Some by (simp add: number_prefix_def)
    have val: "number_value hex v (b # ds) = number_value hex ?w ds" for ds using Some by (simp add: number_value_def)
    show ?thesis
    proof (cases "?w > 2147483647")
      case True
      then have "number_value hex ?w (number_prefix hex bs) > 2147483647" using number_value_mono less_le_trans by blast
      then show ?thesis
        using t True by (subst parse_step) (simp add: b scan_digit_eq Some bw parse_result_def pre val)
    next
      case False
      then have "parse_digits m (if hex then 16 else 10) p (of_nat v) found
          = parse_digits m (if hex then 16 else 10) (p + 1) (of_nat ?w) True"
        using t by (subst parse_step) (simp add: b scan_digit_eq Some bw)
      also have "\<dots> = Some (parse_result hex (p + 1) ?w True bs)" using False by (intro Cons.IH [OF tl]) simp
      also have "parse_result hex (p + 1) ?w True bs = parse_result hex p v found (b # bs)"
        by (simp add: parse_result_def pre val add_ac Let_def)
      finally show ?thesis .
    qed
  qed
qed

text \<open>What the two characters of a hexadecimal prefix are.\<close>

definition hex_prefixed :: "u8 list \<Rightarrow> bool" where
  "hex_prefixed bs \<longleftrightarrow> take 2 bs \<in> {bytes_of ''0x'', bytes_of ''0X''}"

lemma tolower_x: "grub_tolower (sx8 c) = 0x78 \<longleftrightarrow> c = 0x78 \<or> c = 0x58"
proof (cases "unat c < 128")
  case True
  then have "grub_tolower (sx8 c) = of_nat (if 65 \<le> unat c \<and> unat c \<le> 90 then unat c + 32 else unat c)"
    using tolower_small [of "unat c"] by (simp only: sx8_small)
  moreover have "of_nat k = (0x78 :: u32) \<longleftrightarrow> k = 0x78" if "k < 4294967296" for k
    using that of_nat_u32_inj [of k "0x78"] by simp
  ultimately show ?thesis using True by (auto simp: word_unat_eq_iff)
next
  case False
  then have n: "sint (sx8 c) < 0" using sx8_negative [of c] by auto
  then have "grub_tolower (sx8 c) = sx8 c" by (simp add: grub_tolower_def word_sle_eq)
  then show ?thesis using n False by auto
qed

lemma safe_parse_cstr:
  assumes "cstr_at m p bs"
  shows "safe_parse_maxint m p =
    Some (if hex_prefixed bs then parse_result True (p + 2) 0 False (drop 2 bs) else parse_result False p 0 False bs)"
proof -
  have c: "(m p = 0x30 \<and> grub_tolower (sx8 (m (p + 1))) = 0x78) = hex_prefixed bs"
  proof (cases bs)
    case Nil
    then show ?thesis using assms by (simp add: hex_prefixed_def bytes_of_def)
  next
    case (Cons b bs')
    then show ?thesis using assms unfolding tolower_x by (cases bs') (auto simp: hex_prefixed_def bytes_of_def)
  qed
  show ?thesis
  proof (cases "hex_prefixed bs")
    case True
    then obtain x y bs' where bs: "bs = x # y # bs'" by (cases bs; cases "tl bs") (auto simp: hex_prefixed_def bytes_of_def)
    then have "cstr_at m (p + 2) bs'" using assms by (simp add: add.assoc)
    from parse_digits_cstr [OF this, of 0 True False] show ?thesis
      using True unfolding safe_parse_maxint_def c by (simp add: bs)
  next
    case False
    from parse_digits_cstr [OF assms, of 0 False False] show ?thesis
      using False unfolding safe_parse_maxint_def c by simp
  qed
qed

text \<open>A printed number is read back.\<close>

lemma digit_of_digit_char: "d < base_of hex \<Longrightarrow> digit_of hex (digit_char d) = Some d"
proof -
  assume d: "d < base_of hex"
  have u: "unat (of_nat k :: u8) = k" if "k < 256" for k using that by (simp add: unat_of_nat take_bit_nat_eq_self)
  have "unat (digit_char d) = (if d > 9 then d + 0x57 else 0x30 + d)"
    unfolding digit_char_def using d u [of "d + 0x57"] u [of "0x30 + d"]
    by (cases "d > 9") (simp_all only: if_True if_False, auto simp: base_of_def split: if_splits)
  then show ?thesis using d by (auto simp: digit_of_def Let_def base_of_def split: if_splits)
qed

lemma base_gt_1: "1 < base_of hex"
  by (simp add: base_of_def)

lemma number_text_prefix: "number_prefix hex (number_text (base_of hex) n @ bs) = number_text (base_of hex) n @ number_prefix hex bs"
proof -
  have "digit_of hex c \<noteq> None" if "c \<in> set (number_text (base_of hex) n)" for c
    using that digits_le_bound [OF base_gt_1] digit_of_digit_char by (auto simp: number_text_def)
  then show ?thesis by (simp add: number_prefix_def takeWhile_append2)
qed

lemma number_text_value: "number_value hex 0 (number_text (base_of hex) n) = n"
proof (induction "base_of hex" n rule: digits_le.induct)
  case (1 n)
  let ?b = "base_of hex"
  have d: "digit_of hex (digit_char (n mod ?b)) = Some (n mod ?b)" using base_gt_1 by (intro digit_of_digit_char) (simp add: base_of_def)
  show ?case
  proof (cases "n div ?b = 0")
    case True
    then have "number_text ?b n = [digit_char (n mod ?b)]" by (simp add: number_text_def digits_le.simps [of _ n])
    then show ?thesis using True d by (simp add: number_value_def) (metis base_gt_1 div_eq_0_iff mod_less not_less_zero less_irrefl)
  next
    case False
    then have "number_text ?b n = number_text ?b (n div ?b) @ [digit_char (n mod ?b)]"
      using base_gt_1 by (simp add: number_text_def digits_le.simps [of _ n])
    then show ?thesis using 1 False base_gt_1 d by (simp add: number_value_def div_mult_mod_eq)
  qed
qed

lemma number_text_nonzero: "0 \<notin> set (number_text (base_of hex) n)"
  using digits_le_bound [OF base_gt_1, of _ hex n] digit_of_digit_char [of _ hex]
  by (fastforce simp: number_text_def digit_of_def)

lemma number_text_not_prefixed: "\<not> hex_prefixed (number_text 10 n)"
proof
  assume "hex_prefixed (number_text 10 n)"
  then have "0x78 \<in> set (take 2 (number_text 10 n)) \<or> 0x58 \<in> set (take 2 (number_text 10 n))"
    by (auto simp: hex_prefixed_def bytes_of_def)
  then have "0x78 \<in> set (number_text 10 n) \<or> 0x58 \<in> set (number_text 10 n)" by (auto dest: in_set_takeD)
  moreover have "digit_of False c \<noteq> None" if "c \<in> set (number_text 10 n)" for c
    using that digits_le_bound [of 10 _ n] digit_of_digit_char [of _ False] by (auto simp: number_text_def base_of_def)
  ultimately show False by (force simp: digit_of_def)
qed

lemma parse_number_text:
  assumes "n \<le> 2147483647"
  shows "parse_result hex p 0 False (number_text (base_of hex) n)
    = Inr (p + of_nat (length (number_text (base_of hex) n)), of_nat n)"
  using number_text_prefix [of hex n "[]"] assms
  by (simp add: parse_result_def number_text_value number_prefix_def [of hex "[]"])

section \<open>Appending with a bound\<close>

lemma strncat_end_cstr:
  assumes "cstr_at m s1 xs" and "i \<le> length xs" and "int (length xs) < n"
  shows "strncat_end m s1 n (int i) = int (length xs)"
  using assms(2)
proof (induction "length xs - i" arbitrary: i)
  case 0
  then have "i = length xs" by simp
  then show ?case using cstr_at_end [OF assms(1)] by (subst strncat_end.simps) simp
next
  case (Suc d)
  then have "i < length xs" by simp
  moreover from this have "m (s1 + of_nat i) \<noteq> 0" by (rule cstr_at_nonzero [OF assms(1)])
  moreover have "strncat_end m s1 n (int (Suc i)) = int (length xs)" using Suc by (intro Suc.hyps) auto
  ultimately show ?case using assms(3) by (subst strncat_end.simps) (simp add: add.commute)
qed

lemma strncat_copy_cstr:
  assumes "disjoint_regions s2 (Suc (length ys)) (s1 + of_nat i) (nat n - i)" and "int i \<le> n" and "nat n \<le> 4294967296"
    and "length ys < 4294967295" and "cstr_at m s2 ys"
  shows "strncat_copy m s1 s2 n (int i) =
    (let t = take (nat n - i) (ys @ [0]) in (write_bytes m (s1 + of_nat i) t, int i + int (length t)))"
  using assms
proof (induction ys arbitrary: m s2 i)
  case Nil
  then show ?case by (subst strncat_copy.simps) (auto simp: nat_le_iff take_Cons' Let_def zless_nat_eq_int_zless)
next
  case (Cons y ys)
  show ?case
  proof (cases "int i < n")
    case False
    then show ?thesis using Cons.prems by (subst strncat_copy.simps) simp
  next
    case True
    let ?m = "m(s1 + of_nat i := y)"
    have y: "m s2 = y" "y \<noteq> 0" "cstr_at m (s2 + 1) ys" using Cons.prems by auto
    have st: "nat n - i = Suc (nat n - Suc i)" using True by linarith
    have "in_region (s1 + of_nat i) (s1 + of_nat i) (nat n - i)" unfolding st by (simp add: in_region_def)
    then have out: "\<not> in_region (s1 + of_nat i) s2 (Suc (Suc (length ys)))"
      using disjoint_regionsD [OF disjoint_regions_sym [OF Cons.prems(1)]] by simp
    have sub: "in_region a s2 (Suc (Suc (length ys)))" if "in_region a (s2 + 1) (Suc (length ys))" for a
      by (rule in_region_Suc [OF that]) (use Cons.prems(4) in simp)
    have c: "cstr_at ?m (s2 + 1) ys"
      by (rule cstr_at_cong [OF y(3)]) (use out sub Cons.prems(4) in auto)
    have fits: "nat n - Suc i < 4294967296" using Cons.prems(3) True by linarith
    have dr: "disjoint_regions (s2 + 1) (Suc (length ys)) (s1 + of_nat (Suc i)) (nat n - Suc i)"
    proof (rule disjoint_regionsI)
      fix a assume "in_region a (s2 + 1) (Suc (length ys))"
      then have "\<not> in_region a (s1 + of_nat i) (nat n - i)"
        using sub disjoint_regionsD [OF Cons.prems(1)] by auto
      then show "\<not> in_region a (s1 + of_nat (Suc i)) (nat n - Suc i)"
        using in_region_Suc [of a "s1 + of_nat i" "nat n - Suc i"] fits by (auto simp: st add_ac)
    qed
    have "strncat_copy m s1 s2 n (int i) = strncat_copy ?m s1 (s2 + 1) n (int (Suc i))"
      using True y by (subst strncat_copy.simps) (simp add: Let_def add.commute)
    also have "\<dots> = (let t = take (nat n - Suc i) (ys @ [0]) in (write_bytes ?m (s1 + of_nat (Suc i)) t, int (Suc i) + int (length t)))"
      using True Cons.prems(3,4) by (intro Cons.IH [OF dr _ _ _ c]) auto
    finally show ?thesis unfolding st by (simp add: Let_def add_ac)
  qed
qed

lemma write_bytes_at:
  assumes "k + length bs \<le> 4294967296" and "i < k + length bs" and "k \<le> i"
  shows "write_bytes m (p + of_nat k) bs (p + of_nat i) = bs ! (i - k)"
proof -
  have e: "p + of_nat i = p + of_nat k + of_nat (i - k)" using assms(3) by (simp add: of_nat_diff)
  have "in_region (p + of_nat i) (p + of_nat k) (length bs)" unfolding e using assms by (intro in_region_offset) auto
  moreover have "unat (p + of_nat i - (p + of_nat k)) = i - k" unfolding e using assms by (simp add: unat_of_nat_u32 del: of_nat_diff)
  ultimately show ?thesis using assms by (simp add: write_bytes_apply)
qed

lemma write_bytes_before:
  "i < k \<Longrightarrow> k + length bs \<le> 4294967296 \<Longrightarrow> write_bytes m (p + of_nat k) bs (p + of_nat i) = m (p + of_nat i)"
  by (intro write_bytes_outside not_in_region_before) auto

lemma grub_strncat_cstr:
  assumes "cstr_at m s1 xs" and "cstr_at m s2 ys" and "int (length xs) < n" and "n < 2147483648"
    and "length ys < 4294967295" and "disjoint_regions s2 (Suc (length ys)) s1 (nat n)"
  shows "fst (grub_strncat m s1 s2 n) = (if int (length xs + length ys + 1) < n then 1 else 0)"
    and "cstr_at (snd (grub_strncat m s1 s2 n)) s1 (take (nat n - 1) (xs @ ys))"
    and "\<not> in_region a s1 (nat n) \<Longrightarrow> snd (grub_strncat m s1 s2 n) a = m a"
proof -
  let ?x = "length xs" and ?y = "length ys" and ?n = "nat n"
  define t where "t = take (?n - ?x) (ys @ [0])"
  define W where "W = write_bytes m (s1 + of_nat ?x) t"
  have n: "?x < ?n" "?n < 2147483648" "n = int ?n" using assms(3,4) by linarith+
  have lt: "length t = min (?n - ?x) (?y + 1)" unfolding t_def length_take by (simp add: min.commute)
  have le: "?x + length t \<le> ?n" using lt n by linarith
  have e: "strncat_end m s1 n 0 = int ?x" using strncat_end_cstr [OF assms(1) _ assms(3), of 0] by simp
  have "disjoint_regions s2 (Suc ?y) (s1 + of_nat ?x) (?n - ?x)"
    by (rule disjoint_regions_sym, rule disjoint_subregion [OF disjoint_regions_sym [OF assms(6)]]) (use n in simp_all)
  then have c: "strncat_copy m s1 s2 n (int ?x) = (W, int (?x + length t))"
    using strncat_copy_cstr [of s2 ys s1 ?x n m] n assms(2,5) by (simp add: t_def W_def Let_def)
  have full: "int (?x + length t) \<ge> n \<longleftrightarrow> \<not> int (?x + ?y + 1) < n" using lt n by linarith
  let ?W1 = "W(s1 + of_nat (?n - 1) := 0)" and ?L = "min (?n - 1) (?x + ?y)"
  have last: "word_of_int (n - 1) = (of_nat (?n - 1) :: u32)" using n by (simp add: of_nat_diff)
  have res: "grub_strncat m s1 s2 n = (if int (?x + ?y + 1) < n then (1, ?W1(s1 + of_nat (?x + length t) := 0)) else (0, ?W1))"
    unfolding grub_strncat_def Let_def e c prod.case last full by simp
  show "fst (grub_strncat m s1 s2 n) = (if int (?x + ?y + 1) < n then 1 else 0)" unfolding res by simp
  have ne: "s1 + of_nat i \<noteq> s1 + of_nat j" if "i < ?n" "j < ?n" "i \<noteq> j" for i j
    using that n of_nat_u32_inj [of i j] by simp
  have z: "(xs @ ys @ [0]) ! k = (if k = ?x + ?y then 0 else (xs @ ys) ! k)" if "k \<le> ?x + ?y" for k
  proof (cases "k = ?x + ?y")
    case True
    then show ?thesis using nth_append_length [of "xs @ ys" 0 "[]"] by simp
  next
    case False
    then have "k < length (xs @ ys)" using that by simp
    from nth_append_left [OF this, of "[0]"] show ?thesis using False by simp
  qed
  have W: "W (s1 + of_nat k) = (xs @ ys @ [0]) ! k" if "k < ?x + length t" for k
  proof (cases "k < ?x")
    case True
    then show ?thesis using n lt cstr_at_nth [OF assms(1) True] by (simp add: W_def write_bytes_before nth_append)
  next
    case False
    then have "W (s1 + of_nat k) = t ! (k - ?x)" using n(2) le that False unfolding W_def by (intro write_bytes_at) linarith+
    also have "\<dots> = (ys @ [0]) ! (k - ?x)" unfolding t_def by (rule nth_take) (use that le False in linarith)
    also have "\<dots> = (xs @ ys @ [0]) ! k" using False by (simp only: nth_append [of xs] if_False)
    finally show ?thesis .
  qed
  have at: "snd (grub_strncat m s1 s2 n) (s1 + of_nat k) = (if k = ?L then 0 else (xs @ ys) ! k)" if "k \<le> ?L" for k
  proof (cases "int (?x + ?y + 1) < n")
    case True
    then have l: "length t = ?y + 1" "?L = ?x + ?y" "k < ?x + length t" using lt n that by auto
    have "s1 + of_nat k \<noteq> s1 + of_nat (?n - 1)" "s1 + of_nat k \<noteq> s1 + of_nat (?x + length t)"
      by (rule ne; use True that l n in linarith)+
    moreover have "(xs @ ys @ [0]) ! k = (if k = ?x + ?y then 0 else (xs @ ys) ! k)" using that l(2) by (intro z) simp
    ultimately show ?thesis using True W [OF l(3)] l(2) unfolding res by (simp only: fun_upd_apply snd_conv if_True if_False)
  next
    case False
    then have l: "?L = ?n - 1" "k < ?x + length t" using lt n that by auto
    show ?thesis
    proof (cases "k = ?n - 1")
      case False
      have "s1 + of_nat k \<noteq> s1 + of_nat (?n - 1)" by (rule ne; use l n that False in linarith)
      moreover have "(xs @ ys @ [0]) ! k = (if k = ?x + ?y then 0 else (xs @ ys) ! k)" using that by (intro z) simp
      moreover have "k \<noteq> ?x + ?y" using False that l(1) min.cobounded2 [of "?n - 1" "?x + ?y"] by simp
      ultimately show ?thesis using \<open>\<not> int (?x + ?y + 1) < n\<close> W [OF l(2)] l(1) False
        unfolding res by (simp only: fun_upd_apply snd_conv if_False)
    qed (use \<open>\<not> int (?x + ?y + 1) < n\<close> l(1) in \<open>simp add: res del: of_nat_diff\<close>)
  qed
  have len: "length (take (?n - 1) (xs @ ys)) = ?L" unfolding length_take by (simp add: min.commute)
  have "0 \<notin> set (xs @ ys)" using assms(1,2) by (auto simp: cstr_at_iff)
  then have "0 \<notin> set (take (?n - 1) (xs @ ys))" using in_set_takeD by fast
  moreover have "read_bytes (snd (grub_strncat m s1 s2 n)) s1 ?L = take (?n - 1) (xs @ ys)"
  proof (rule nth_equalityI)
    fix i assume "i < length (read_bytes (snd (grub_strncat m s1 s2 n)) s1 ?L)"
    then have i: "i < ?L" by (simp only: length_read_bytes)
    then have ne: "(i = ?L) = False" "i < ?n - 1" by auto
    show "read_bytes (snd (grub_strncat m s1 s2 n)) s1 ?L ! i = take (?n - 1) (xs @ ys) ! i"
      using at [of i] i unfolding nth_read_bytes [OF i] nth_take [OF ne(2)] ne(1) if_False by linarith
  qed (simp only: length_read_bytes len)
  ultimately show "cstr_at (snd (grub_strncat m s1 s2 n)) s1 (take (?n - 1) (xs @ ys))"
    unfolding cstr_at_iff len using at [of ?L] by simp
  show "snd (grub_strncat m s1 s2 n) a = m a" if "\<not> in_region a s1 ?n"
  proof -
    have o: "a \<noteq> s1 + of_nat i" if "i < ?n" for i
      using \<open>\<not> in_region a s1 ?n\<close> in_region_offset [of ?n i s1] n that by auto
    have "\<not> in_region a (s1 + of_nat ?x) (length t)"
      using in_region_sub [of a s1 ?x "length t" ?n] that n(2) le by auto
    then have "W a = m a" using n(2) le unfolding W_def by (intro write_bytes_outside) auto
    moreover have "a \<noteq> s1 + of_nat (?n - 1)" using n by (intro o) auto
    moreover have "int (?x + ?y + 1) < n \<Longrightarrow> a \<noteq> s1 + of_nat (?x + length t)" using lt n by (intro o) auto
    ultimately show ?thesis unfolding res by (simp del: of_nat_add of_nat_diff)
  qed
qed

section \<open>Formatting\<close>

lemma sprintf_str_cstr:
  assumes "cstr_at m p bs" and "disjoint_regions p (Suc (length bs)) bp (length bs)" and "length bs < 4294967295"
  shows "sprintf_str m p bp = Some (write_bytes m bp bs, bp + of_nat (length bs))"
  using assms
proof (induction bs arbitrary: m p bp)
  case Nil
  then show ?case by (simp add: sprintf_str.simps)
next
  case (Cons b bs)
  let ?m = "m(bp := b)"
  have b: "m p = b" "b \<noteq> 0" "cstr_at m (p + 1) bs" using Cons.prems by auto
  have sub: "in_region a p (Suc (Suc (length bs)))" if "in_region a (p + 1) (Suc (length bs))" for a
    by (rule in_region_Suc [OF that]) (use Cons.prems(3) in simp)
  have "in_region bp bp (Suc (length bs))" by (simp add: in_region_def)
  then have out: "\<not> in_region bp p (Suc (Suc (length bs)))"
    using disjoint_regionsD [OF disjoint_regions_sym [OF Cons.prems(2)]] by simp
  have c: "cstr_at ?m (p + 1) bs"
    by (rule cstr_at_cong [OF b(3)]) (use out sub Cons.prems(3) in auto)
  have "disjoint_regions (p + 1) (Suc (length bs)) (bp + 1) (length bs)"
  proof (rule disjoint_regionsI)
    fix a assume "in_region a (p + 1) (Suc (length bs))"
    then have "\<not> in_region a bp (Suc (length bs))" using sub disjoint_regionsD [OF Cons.prems(2)] by auto
    then show "\<not> in_region a (bp + 1) (length bs)"
      using in_region_Suc [of a bp "length bs"] Cons.prems(3) by auto
  qed
  then have "sprintf_str ?m (p + 1) (bp + 1) = Some (write_bytes ?m (bp + 1) bs, bp + 1 + of_nat (length bs))"
    by (rule Cons.IH [OF c]) (use Cons.prems(3) in simp)
  then show ?case using b by (subst sprintf_str.simps) (simp add: add_ac)
qed

text \<open>What a format denotes, for arguments that are numbers or pointers to the strings \<open>S\<close>. A format that
  ends in a percent sign denotes nothing: the code goes on reading behind its NUL.\<close>

definition arg_text :: "(u32 \<Rightarrow> u8 list) \<Rightarrow> u8 \<Rightarrow> u32 \<Rightarrow> u8 list" where
  "arg_text S c a = (if c = 0x63 then [lo8 (a AND 0xFF)] else if c = 0x73 then S a else ascii_text c a)"

fun format_out :: "(u32 \<Rightarrow> u8 list) \<Rightarrow> u8 list \<Rightarrow> u32 list \<Rightarrow> u8 list option" where
  "format_out S [] args = Some []"
| "format_out S (c # cs) args =
     (if c \<noteq> 0x25 then map_option ((#) c) (format_out S cs args)
      else case cs of
        [] \<Rightarrow> None
      | c # cs \<Rightarrow>
          if c \<in> {0x64, 0x75, 0x78, 0x63, 0x73} then
            (case args of [] \<Rightarrow> None | a # args \<Rightarrow> map_option ((@) (arg_text S c a)) (format_out S cs args))
          else format_out S cs args)"

text \<open>Where the strings of the \<open>%s\<close> conversions are.\<close>

fun string_args :: "u8 list \<Rightarrow> u32 list \<Rightarrow> u32 set" where
  "string_args [] args = {}"
| "string_args (c # cs) args =
     (if c \<noteq> 0x25 then string_args cs args
      else case cs of
        [] \<Rightarrow> {}
      | c # cs \<Rightarrow>
          if c \<in> {0x64, 0x75, 0x78, 0x63, 0x73} then
            (case args of [] \<Rightarrow> {} | a # args \<Rightarrow> (if c = 0x73 then {a} else {}) \<union> string_args cs args)
          else string_args cs args)"

definition string_ready :: "(u32 \<Rightarrow> bool) \<Rightarrow> memory \<Rightarrow> u32 \<Rightarrow> u8 list \<Rightarrow> bool" where
  "string_ready W m p bs \<longleftrightarrow> cstr_at m p bs \<and> length bs < 4294967295 \<and> (\<forall>a. in_region a p (Suc (length bs)) \<longrightarrow> \<not> W a)"

lemma string_ready_frame: "string_ready W m p bs \<Longrightarrow> (\<And>a. \<not> W a \<Longrightarrow> m' a = m a) \<Longrightarrow> string_ready W m' p bs"
  unfolding string_ready_def by (blast intro: cstr_at_cong)

lemma string_ready_tl: "string_ready W m p (b # bs) \<Longrightarrow> string_ready W m (p + 1) bs"
  unfolding string_ready_def by (auto dest: in_region_Suc)

lemma ascii_text_nonzero: "0 \<notin> set (ascii_text c num)"
  using number_text_nonzero [of False] number_text_nonzero [of True] by (auto simp: ascii_text_def base_of_def)

lemma sprintf_item:
  assumes "cstr_at m p t" and "\<forall>a. in_region a p (Suc (length t)) \<longrightarrow> \<not> in_region a buffer (Suc N)"
    and "k + length t \<le> N" and "N < 4294967295"
  shows "sprintf_str m p (buffer + of_nat k) = Some (write_bytes m (buffer + of_nat k) t, buffer + of_nat (k + length t))"
proof -
  have "disjoint_regions p (Suc (length t)) (buffer + of_nat k) (length t)"
  proof (rule disjoint_regionsI)
    fix a assume "in_region a p (Suc (length t))"
    then have "\<not> in_region a buffer (Suc N)" using assms(2) by blast
    then show "\<not> in_region a (buffer + of_nat k) (length t)"
      using in_region_sub [of a buffer k "length t" "Suc N"] assms(3,4) by auto
  qed
  from sprintf_str_cstr [OF assms(1) this] assms(3,4) show ?thesis by (simp add: add.assoc)
qed

definition sprintf_writes :: "u32 \<Rightarrow> nat \<Rightarrow> u32 \<Rightarrow> u32 \<Rightarrow> bool" where
  "sprintf_writes buffer N str a \<longleftrightarrow> in_region a buffer (Suc N) \<or> in_region a str 12"

text \<open>From the index \<open>k\<close> of the buffer on, \<open>t\<close> has been written.\<close>

definition sprinted :: "u32 \<Rightarrow> nat \<Rightarrow> u32 \<Rightarrow> memory \<Rightarrow> nat \<Rightarrow> u8 list \<Rightarrow> memory \<Rightarrow> bool" where
  "sprinted buffer N str m k t m' \<longleftrightarrow> (\<forall>a. \<not> sprintf_writes buffer N str a \<longrightarrow> m' a = m a)
     \<and> (\<forall>i < k. m' (buffer + of_nat i) = m (buffer + of_nat i)) \<and> read_bytes m' (buffer + of_nat k) (length t) = t"

lemma read_bytes_add: "read_bytes m p (n + k) = read_bytes m p n @ read_bytes m (p + of_nat n) k"
  by (induction n arbitrary: p) (simp_all add: add.assoc)

lemma sprinted_append:
  assumes "sprinted buffer N str m k t m1" and "sprinted buffer N str m1 (k + length t) t' m'"
  shows "sprinted buffer N str m k (t @ t') m'"
proof -
  have "read_bytes m' (buffer + of_nat k) (length t) = read_bytes m1 (buffer + of_nat k) (length t)"
  proof (rule read_bytes_cong)
    fix i assume "i < length t"
    then have "m' (buffer + of_nat (k + i)) = m1 (buffer + of_nat (k + i))" using assms(2) by (simp only: sprinted_def)
    then show "m' (buffer + of_nat k + of_nat i) = m1 (buffer + of_nat k + of_nat i)" by (simp add: add.assoc)
  qed
  then have "read_bytes m' (buffer + of_nat k) (length (t @ t')) = t @ t'"
    using assms by (simp add: sprinted_def read_bytes_add add.assoc)
  then show ?thesis using assms by (simp add: sprinted_def)
qed

lemma sprinted_write:
  assumes "\<And>a. \<not> in_region a str 12 \<Longrightarrow> m0 a = m a" and "k + length t \<le> N" and "N < 4294967295"
    and "disjoint_regions buffer (Suc N) str 12"
  shows "sprinted buffer N str m k t (write_bytes m0 (buffer + of_nat k) t)"
proof -
  have "write_bytes m0 (buffer + of_nat k) t a = m a" if "\<not> sprintf_writes buffer N str a" for a
  proof -
    have "\<not> in_region a (buffer + of_nat k) (length t)"
      using in_region_sub [of a buffer k "length t" "Suc N"] that assms(2,3) by (auto simp: sprintf_writes_def)
    then show ?thesis using that assms(1-3) by (simp add: sprintf_writes_def write_bytes_outside)
  qed
  moreover have "write_bytes m0 (buffer + of_nat k) t (buffer + of_nat i) = m (buffer + of_nat i)" if "i < k" for i
  proof -
    have "in_region (buffer + of_nat i) buffer (Suc N)" using that assms(2,3) by (intro in_region_offset) auto
    then have "\<not> in_region (buffer + of_nat i) str 12" by (rule disjoint_regionsD [OF assms(4)])
    then show ?thesis using that assms by (simp add: write_bytes_before)
  qed
  ultimately show ?thesis using assms(2,3) by (simp add: sprinted_def read_write_bytes)
qed

lemma number_written:
  assumes "unat str + 12 \<le> 4294967296"
  obtains m0 where "convert_to_ascii m str c a = (m0, str + of_nat (length (ascii_text c a)))"
    and "cstr_at (m0(str + of_nat (length (ascii_text c a)) := 0)) str (ascii_text c a)"
    and "\<And>x. \<not> in_region x str 12 \<Longrightarrow> (m0(str + of_nat (length (ascii_text c a)) := 0)) x = m x"
proof -
  let ?t = "ascii_text c a"
  have l: "length ?t \<le> 11" by (rule ascii_text_length)
  have "convert_to_ascii m str c a = (write_bytes m str ?t, str + of_nat (length ?t))"
    using assms by (intro convert_to_ascii_text) simp
  moreover have w: "(write_bytes m str ?t)(str + of_nat (length ?t) := 0) = write_bytes m str (?t @ [0])"
    by (simp add: write_bytes_snoc)
  moreover have "read_bytes (write_bytes m str (?t @ [0])) str (Suc (length ?t)) = ?t @ [0]"
    using l read_write_bytes [of "?t @ [0]" m str] by (simp only: length_append_singleton)
  then have "cstr_at (write_bytes m str (?t @ [0])) str ?t"
    using ascii_text_nonzero [of c a] unfolding read_bytes_snoc by (simp add: cstr_at_iff)
  moreover have "write_bytes m str (?t @ [0]) x = m x" if "\<not> in_region x str 12" for x
    using that l in_region_mono [of x str "length (?t @ [0])" 12] by (intro write_bytes_outside) auto
  ultimately show ?thesis using that by metis
qed

lemma grub_sprintf_loop_spec:
  assumes N: "N < 4294967295" "disjoint_regions buffer (Suc N) str 12" "unat str + 12 \<le> 4294967296"
    and "format_out S fs args = Some out" and "string_ready (sprintf_writes buffer N str) m format fs"
    and "\<forall>p \<in> string_args fs args. string_ready (sprintf_writes buffer N str) m p (S p)" and "k + length out \<le> N"
  shows "\<exists>m'. grub_sprintf_loop str m format (buffer + of_nat k) args = Some (m', buffer + of_nat (k + length out))
    \<and> sprinted buffer N str m k out m'"
  using assms(4-7)
proof (induction S fs args arbitrary: m format k out rule: format_out.induct)
  case (1 S args)
  then show ?case by (subst grub_sprintf_loop.simps) (auto simp: string_ready_def sprinted_def)
next
  case (2 S c cs args)
  let ?W = "sprintf_writes buffer N str" and ?bp = "buffer + of_nat k"
  have c: "m format = c" "c \<noteq> 0" "string_ready ?W m (format + 1) cs"
    using "2.prems"(2) string_ready_tl [OF "2.prems"(2)] by (simp_all add: string_ready_def)
  have keep: "string_ready ?W m1 p bs" if "sprinted buffer N str m k t m1" "string_ready ?W m p bs" for t m1 p bs
    using that string_ready_frame by (simp add: sprinted_def)
  have fin: ?case
    if "grub_sprintf_loop str m format ?bp args = grub_sprintf_loop str m1 format1 (buffer + of_nat (k + length t)) args1"
      and "sprinted buffer N str m k t m1" and "out = t @ out1"
      and "\<exists>m'. grub_sprintf_loop str m1 format1 (buffer + of_nat (k + length t)) args1
          = Some (m', buffer + of_nat (k + length t + length out1)) \<and> sprinted buffer N str m1 (k + length t) out1 m'"
    for m1 t format1 args1 out1
    using that sprinted_append by (fastforce simp: add.assoc)
  show ?case
  proof (cases "c = 0x25")
    case False
    then obtain out1 where o: "format_out S cs args = Some out1" "out = [c] @ out1" using "2.prems"(1) by auto
    obtain m1 where m1: "m1 = write_bytes m ?bp [c]" by blast
    have s: "sprinted buffer N str m k [c] m1"
      unfolding m1 using o(2) "2.prems"(4) N by (intro sprinted_write) auto
    have "\<exists>m'. grub_sprintf_loop str m1 (format + 1) (buffer + of_nat (k + length [c])) args
        = Some (m', buffer + of_nat (k + length [c] + length out1)) \<and> sprinted buffer N str m1 (k + length [c]) out1 m'"
      using False "2.prems"(3,4) o keep [OF s] c(3) by (intro "2.IH"(1)) auto
    then show ?thesis
      by (rule fin [OF _ s o(2), rotated])
        (subst grub_sprintf_loop.simps, use c False in \<open>simp add: Let_def add_ac m1\<close>)
  next
    case pct: True
    obtain d cs' where cs: "cs = d # cs'" using "2.prems"(1) pct by (cases cs) auto
    have d: "m (format + 1) = d" "d \<noteq> 0" "string_ready ?W m (format + 2) cs'"
      using c(3) string_ready_tl [of ?W m "format + 1" d cs'] unfolding cs by (simp_all add: string_ready_def add.assoc)
    show ?thesis
    proof (cases "d \<in> {0x64, 0x75, 0x78, 0x63, 0x73}")
      case False
      then have o: "format_out S cs' args = Some out" using "2.prems"(1) pct cs by simp
      have s: "sprinted buffer N str m k [] m" by (simp add: sprinted_def)
      have "\<exists>m'. grub_sprintf_loop str m (format + 2) (buffer + of_nat (k + length [])) args
          = Some (m', buffer + of_nat (k + length [] + length out)) \<and> sprinted buffer N str m (k + length []) out m'"
        using "2.IH"(3) [OF _ cs False o d(3)] False pct cs "2.prems"(3,4) by auto
      then show ?thesis
        by (rule fin [OF _ s, rotated 2])
          (subst grub_sprintf_loop.simps, use c d False pct in \<open>simp_all add: Let_def\<close>)
    next
      case True
      then obtain a args' out1 where o: "args = a # args'" "format_out S cs' args' = Some out1" "out = arg_text S d a @ out1"
        using "2.prems"(1) pct cs by (auto split: list.splits)
      let ?t = "arg_text S d a"
      have IH: "\<exists>m'. grub_sprintf_loop str m1 (format + 2) (buffer + of_nat (k + length ?t)) args'
          = Some (m', buffer + of_nat (k + length ?t + length out1)) \<and> sprinted buffer N str m1 (k + length ?t) out1 m'"
        if "sprinted buffer N str m k ?t m1" for m1
      proof -
        have sa: "\<forall>p \<in> string_args cs' args'. string_ready ?W m1 p (S p)"
          using "2.prems"(3) True pct cs o(1) keep [OF that] by auto
        have "k + length ?t + length out1 \<le> N" using "2.prems"(4) o(3) by simp
        from "2.IH"(2) [OF _ cs True o(1,2) keep [OF that d(3)] sa this] pct show ?thesis by blast
      qed
      consider "d = 0x63" | "d = 0x73" | "d \<noteq> 0x63" "d \<noteq> 0x73" by blast
      then show ?thesis
      proof cases
        case 1
        then have t: "?t = [lo8 (a AND 0xFF)]" by (simp add: arg_text_def)
        have s: "sprinted buffer N str m k ?t (write_bytes m ?bp ?t)"
          using o(3) "2.prems"(4) N by (intro sprinted_write) auto
        show ?thesis
          by (rule fin [OF _ s o(3) IH [OF s]])
            (subst grub_sprintf_loop.simps, use c d o(1) 1 pct t in \<open>simp add: Let_def add_ac\<close>)
      next
        case 2
        then have t: "?t = S a" by (simp add: arg_text_def)
        have s: "sprinted buffer N str m k ?t (write_bytes m ?bp ?t)"
          using o(3) "2.prems"(4) N by (intro sprinted_write) auto
        have "string_ready ?W m a (S a)" using "2.prems"(3) 2 True pct cs o(1) by auto
        then have "sprintf_str m a ?bp = Some (write_bytes m ?bp ?t, buffer + of_nat (k + length ?t))"
          unfolding t using o(3) "2.prems"(4) N t by (intro sprintf_item) (auto simp: string_ready_def sprintf_writes_def)
        then show ?thesis
          by (intro fin [OF _ s o(3) IH [OF s]])
            (subst grub_sprintf_loop.simps, use c d o(1) 2 pct in \<open>simp add: Let_def\<close>)
      next
        case 3
        then have t: "?t = ascii_text d a" by (simp add: arg_text_def)
        obtain m0 where m0: "convert_to_ascii m str d a = (m0, str + of_nat (length (ascii_text d a)))"
          "cstr_at (m0(str + of_nat (length (ascii_text d a)) := 0)) str (ascii_text d a)"
          "\<And>x. \<not> in_region x str 12 \<Longrightarrow> (m0(str + of_nat (length (ascii_text d a)) := 0)) x = m x"
          by (rule number_written [OF N(3), of m d a]) (rule that; assumption)
        let ?m0 = "m0(str + of_nat (length (ascii_text d a)) := 0)"
        have s: "sprinted buffer N str m k ?t (write_bytes ?m0 ?bp ?t)"
          using o(3) "2.prems"(4) N m0(3) by (intro sprinted_write) auto
        have "\<forall>x. in_region x str (Suc (length ?t)) \<longrightarrow> \<not> in_region x buffer (Suc N)"
        proof (intro allI impI)
          fix x assume "in_region x str (Suc (length ?t))"
          then have "in_region x str 12" using ascii_text_length(1) [of d a] unfolding t by (auto elim: in_region_mono)
          then show "\<not> in_region x buffer (Suc N)" by (rule disjoint_regionsD [OF disjoint_regions_sym [OF N(2)]])
        qed
        then have "sprintf_str ?m0 str ?bp = Some (write_bytes ?m0 ?bp ?t, buffer + of_nat (k + length ?t))"
          using o(3) "2.prems"(4) N m0(2) unfolding t by (intro sprintf_item) auto
        then show ?thesis
          by (intro fin [OF _ s o(3) IH [OF s]])
            (subst grub_sprintf_loop.simps, use c d o(1) 3 True pct m0(1) in \<open>simp add: Let_def t\<close>)
      qed
    qed
  qed
qed

section \<open>Properties\<close>

text \<open>\<open>grub_strcmp\<close> returns on two strings and gives the sign of their order, character by signed
  character; 0 means equal.\<close>

theorem grub_strcmp_orders:
  assumes "cstr_at m s1 xs" and "cstr_at m s2 ys"
  shows "\<exists>r. grub_strcmp m s1 s2 = Some r \<and> (r = 0 \<longleftrightarrow> xs = ys) \<and> (r = -1 \<longleftrightarrow> c_order xs < c_order ys)
    \<and> (r = 1 \<longleftrightarrow> c_order ys < c_order xs)"
  using grub_strcmp_cstr [OF assms] c_order_eq [of xs ys] by (auto simp: not_less_iff_gr_or_eq)

text \<open>C18: on a string, \<open>safe_parse_maxint\<close> reads the longest run of digits, hexadecimal after a prefix
  0x, and advances behind it; it fails when there is no digit or the number exceeds \<open>MAXINT\<close>.\<close>

theorem safe_parse_maxint_correct:
  assumes "cstr_at m p bs"
  shows "safe_parse_maxint m p =
    (let hex = hex_prefixed bs; skip = (if hex then 2 else 0);
         ds = number_prefix hex (drop skip bs); v = number_value hex 0 ds
     in Some (if v > unat MAXINT then Inl ERR_NUMBER_OVERFLOW else if ds = [] then Inl ERR_NUMBER_PARSING
              else Inr (p + of_nat (skip + length ds), of_nat v)))"
  using safe_parse_cstr [OF assms] by (simp add: parse_result_def Let_def MAXINT_def add.assoc)

text \<open>C17: a number that \<open>convert_to_ascii\<close> prints in decimal, or in hexadecimal behind a prefix, is read
  back by \<open>safe_parse_maxint\<close> up to the last digit, if it is at most \<open>MAXINT\<close>.\<close>

theorem print_parse_roundtrip:
  assumes "num \<le> MAXINT" and "unat buf + 14 \<le> 4294967296" and "c = 0x75 \<or> c = 0x64"
  shows "(let (m', end') = convert_to_ascii m buf c num
      in safe_parse_maxint (m'(end' := 0)) buf = Some (Inr (end', num)))
    \<and> (let (m', end') = convert_to_ascii (write_bytes m buf (bytes_of ''0x'')) (buf + 2) 0x78 num
      in safe_parse_maxint (m'(end' := 0)) buf = Some (Inr (end', num)))"
proof
  have n: "unat num \<le> 2147483647" using assms(1) by (simp add: MAXINT_def word_le_nat_alt)
  then have "\<not> sint num < 0" using sint_of_nat_u32 [of "unat num"] by simp
  then have t: "ascii_text c num = number_text (base_of False) (unat num)"
    using assms(3) by (auto simp: ascii_text_def base_of_def)
  let ?d = "number_text (base_of False) (unat num)" and ?h = "number_text (base_of True) (unat num)"
  have l: "length ?d \<le> 10" "length ?h \<le> 10" using n by (auto intro!: number_text_length simp: base_of_def)
  have at: "cstr_at (write_bytes k p (t @ [0])) p t" if "0 \<notin> set t" "length t \<le> 12" for k p t
  proof -
    have "read_bytes (write_bytes k p (t @ [0])) p (Suc (length t)) = t @ [0]"
      using that(2) read_write_bytes [of "t @ [0]" k p] by (simp only: length_append_singleton)
    then show ?thesis using that(1) unfolding read_bytes_snoc by (simp add: cstr_at_iff)
  qed
  have "cstr_at (write_bytes m buf (?d @ [0])) buf ?d" using l by (intro at number_text_nonzero) simp
  from safe_parse_cstr [OF this] have "safe_parse_maxint (write_bytes m buf (?d @ [0])) buf = Some (Inr (buf + of_nat (length ?d), num))"
    using number_text_not_prefixed [of "unat num"] parse_number_text [OF n, of False buf] by (simp add: base_of_def)
  then show "let (m', end') = convert_to_ascii m buf c num in safe_parse_maxint (m'(end' := 0)) buf = Some (Inr (end', num))"
    using assms(2) convert_to_ascii_text [of buf m c num] by (simp add: t write_bytes_snoc)
  have t2: "ascii_text 0x78 num = ?h" by (simp add: ascii_text_def base_of_def)
  have b2: "unat (buf + 2) = unat buf + 2" using assms(2) by (subst unat_add_lem [THEN iffD1]) simp_all
  let ?x = "bytes_of ''0x''"
  have x: "length ?x = 2" "0 \<notin> set ?x" by (simp_all add: bytes_of_def)
  have w: "(write_bytes (write_bytes m buf ?x) (buf + 2) ?h)(buf + 2 + of_nat (length ?h) := 0) = write_bytes m buf ((?x @ ?h) @ [0])"
    by (simp add: write_bytes_append x(1) add_ac)
  have "cstr_at (write_bytes m buf ((?x @ ?h) @ [0])) buf (?x @ ?h)"
    using l x number_text_nonzero by (intro at) auto
  from safe_parse_cstr [OF this] have "safe_parse_maxint (write_bytes m buf ((?x @ ?h) @ [0])) buf = Some (Inr (buf + 2 + of_nat (length ?h), num))"
    using parse_number_text [OF n, of True "buf + 2"] by (simp add: hex_prefixed_def bytes_of_def)
  then show "let (m', end') = convert_to_ascii (write_bytes m buf ?x) (buf + 2) 0x78 num
      in safe_parse_maxint (m'(end' := 0)) buf = Some (Inr (end', num))"
    using assms(2) b2 convert_to_ascii_text [of "buf + 2" "write_bytes m buf ?x" "0x78" num] by (simp add: t2 w)
qed

text \<open>C16: \<open>grub_sprintf\<close> returns the length of what its format denotes, leaves that text with a NUL in the
  buffer, and writes nowhere but to the buffer and to its local array.\<close>

theorem grub_sprintf_correct:
  assumes "format_out S fs args = Some out" and "length out < 4294967295"
    and "disjoint_regions buffer (Suc (length out)) str 12" and "unat str + 12 \<le> 4294967296"
    and "string_ready (sprintf_writes buffer (length out) str) m format fs"
    and "\<forall>p \<in> string_args fs args. string_ready (sprintf_writes buffer (length out) str) m p (S p)"
  shows "\<exists>m'. grub_sprintf str m buffer format args = Some (of_nat (length out), m')
    \<and> read_bytes m' buffer (Suc (length out)) = out @ [0]
    \<and> (\<forall>a. \<not> sprintf_writes buffer (length out) str a \<longrightarrow> m' a = m a)"
proof -
  let ?N = "length out"
  obtain m' where m': "grub_sprintf_loop str m format (buffer + of_nat 0) args = Some (m', buffer + of_nat (0 + length out))"
    "sprinted buffer ?N str m 0 out m'"
    using grub_sprintf_loop_spec [OF assms(2-4,1,5,6), of 0] by auto
  have z: "in_region (buffer + of_nat ?N) buffer (Suc ?N)" using assms(2) by (intro in_region_offset) auto
  have "\<not> in_region (buffer + of_nat ?N) buffer ?N" using assms(2) by (simp add: in_region_def unat_of_nat_u32)
  then have "read_bytes (m'(buffer + of_nat ?N := 0)) buffer ?N = out"
    using m'(2) assms(2) by (simp add: read_bytes_upd_outside sprinted_def)
  then have "read_bytes (m'(buffer + of_nat ?N := 0)) buffer (Suc ?N) = out @ [0]" by (simp only: read_bytes_snoc fun_upd_same)
  moreover have "(m'(buffer + of_nat ?N := 0)) a = m a" if "\<not> sprintf_writes buffer ?N str a" for a
    using that z m'(2) by (auto simp: sprinted_def sprintf_writes_def)
  ultimately show ?thesis
    using m'(1) by (intro exI [of _ "m'(buffer + of_nat ?N := 0)"]) (simp add: grub_sprintf_def del: read_bytes.simps fun_upd_apply)
qed

text \<open>C31: \<open>grub_strncat\<close> appends as much as fits into \<open>n\<close> bytes with a NUL, writes only to these \<open>n\<close> bytes,
  and returns 1 exactly when one more byte would have fitted: a result that fills them up counts as
  truncated.\<close>

theorem grub_strncat_bounded:
  assumes "cstr_at m s1 xs" and "cstr_at m s2 ys" and "int (length xs) < n" and "n < 2147483648"
    and "length ys < 4294967295" and "disjoint_regions s2 (Suc (length ys)) s1 (nat n)"
  shows "fst (grub_strncat m s1 s2 n) = (if int (length (xs @ ys)) + 1 < n then 1 else 0)
    \<and> cstr_at (snd (grub_strncat m s1 s2 n)) s1 (take (nat n - 1) (xs @ ys))
    \<and> (\<forall>a. \<not> in_region a s1 (nat n) \<longrightarrow> snd (grub_strncat m s1 s2 n) a = m a)"
  using grub_strncat_cstr [OF assms] by (simp add: add.commute)

section \<open>Concrete strings\<close>

definition demo_strings :: memory where
  "demo_strings = write_bytes (write_bytes (write_bytes (\<lambda>_. 0) 0x1000 (bytes_of ''kernel'')) 0x1100 (bytes_of ''root''))
     0x1200 (bytes_of ''%s=%d%%x'')"

lemma demo_strings_at:
  "cstr_at demo_strings 0x1000 (bytes_of ''kernel'')" "cstr_at demo_strings 0x1100 (bytes_of ''root'')"
  "cstr_at demo_strings 0x1200 (bytes_of ''%s=%d%%x'')"
  by (simp_all add: demo_strings_def bytes_of_def)

lemma grub_strcmp_orders_witness:
  "\<exists>r. grub_strcmp demo_strings 0x1000 0x1100 = Some r \<and> r = -1"
  using grub_strcmp_orders [OF demo_strings_at(1,2)] by (simp add: c_order_def bytes_of_def)

lemma safe_parse_maxint_correct_witness:
  "safe_parse_maxint (write_bytes (\<lambda>_. 0) 0x1000 (bytes_of ''0x1fK'')) 0x1000 = Some (Inr (0x1004, 31))
    \<and> safe_parse_maxint (write_bytes (\<lambda>_. 0) 0x1000 (bytes_of ''2147483648'')) 0x1000 = Some (Inl ERR_NUMBER_OVERFLOW)"
proof -
  have "cstr_at (write_bytes (\<lambda>_. 0) 0x1000 (bytes_of ''0x1fK'')) 0x1000 (bytes_of ''0x1fK'')"
    "cstr_at (write_bytes (\<lambda>_. 0) 0x1000 (bytes_of ''2147483648'')) 0x1000 (bytes_of ''2147483648'')"
    by (simp_all add: bytes_of_def)
  from this [THEN safe_parse_maxint_correct] show ?thesis
    by (simp add: bytes_of_def hex_prefixed_def number_prefix_def number_value_def digit_of_def base_of_def MAXINT_def)
qed

lemma print_parse_roundtrip_witness:
  "(let (m', end') = convert_to_ascii (\<lambda>_. 0) 0x1000 0x75 1600 in safe_parse_maxint (m'(end' := 0)) 0x1000 = Some (Inr (end', 1600)))"
  using print_parse_roundtrip [of 1600 "0x1000" "0x75" "\<lambda>_. 0"] by (simp add: MAXINT_def)

lemma grub_strncat_bounded_witness:
  "fst (grub_strncat demo_strings 0x1000 0x1100 11) = 0
    \<and> cstr_at (snd (grub_strncat demo_strings 0x1000 0x1100 11)) 0x1000 (bytes_of ''kernelroot'')"
  using grub_strncat_bounded [OF demo_strings_at(1,2), of 11]
  by (simp add: disjoint_regions_def in_region_def bytes_of_def)

lemma grub_sprintf_correct_witness:
  "\<exists>m'. grub_sprintf 0x3000 demo_strings 0x2000 0x1200 [0x1000, - 5] = Some (10, m')
    \<and> read_bytes m' 0x2000 11 = bytes_of ''kernel=-5x'' @ [0]"
proof -
  let ?S = "\<lambda>_. bytes_of ''kernel''"
  have d: "number_text 10 5 = [0x35]" by (simp add: number_text_def digits_le.simps digit_char_def)
  have o: "format_out ?S (bytes_of ''%s=%d%%x'') [0x1000, - 5] = Some (bytes_of ''kernel=-5x'')"
    by (simp add: bytes_of_def arg_text_def ascii_text_def d)
  have r: "in_region a p (Suc n) \<Longrightarrow> unat p + n < 0x2000 \<Longrightarrow> \<not> sprintf_writes 0x2000 10 0x3000 a" for a p n
    by (auto simp: sprintf_writes_def in_region_def unat_minus_u32 split: if_splits)
  have rd: "string_ready (sprintf_writes 0x2000 10 0x3000) demo_strings 0x1200 (bytes_of ''%s=%d%%x'')"
    "string_ready (sprintf_writes 0x2000 10 0x3000) demo_strings 0x1000 (bytes_of ''kernel'')"
    using demo_strings_at r by (auto simp: string_ready_def)
  have l: "length (bytes_of ''kernel=-5x'') = 10" by simp
  have dr: "disjoint_regions 0x2000 (Suc 10) 0x3000 12" by (simp add: disjoint_regions_def in_region_def)
  have "\<forall>p \<in> string_args (bytes_of ''%s=%d%%x'') [0x1000, - 5]. p = 0x1000" by (simp add: bytes_of_def)
  then have sa: "\<forall>p \<in> string_args (bytes_of ''%s=%d%%x'') [0x1000, - 5].
      string_ready (sprintf_writes 0x2000 10 0x3000) demo_strings p (bytes_of ''kernel'')"
    using rd(2) by metis
  have "\<exists>m'. grub_sprintf 0x3000 demo_strings 0x2000 0x1200 [0x1000, - 5] = Some (of_nat 10, m')
      \<and> read_bytes m' 0x2000 (Suc 10) = bytes_of ''kernel=-5x'' @ [0] \<and> (\<forall>a. \<not> sprintf_writes 0x2000 10 0x3000 a \<longrightarrow> m' a = demo_strings a)"
    by (rule grub_sprintf_correct [OF o, of "0x2000" "0x3000" demo_strings "0x1200", unfolded l])
      (use dr rd(1) sa in simp_all)
  then show ?thesis by (auto simp del: read_bytes.simps)
qed

end
