(* ===== verification/Grub_Memory.thy ===== *)
theory Grub_Memory
  imports Grub_Strings_Props KCommon
begin

text \<open>
  GRUB's checked memory routines of src/grub-0.97/stage2/char_io.c: \<open>memcheck\<close>, \<open>grub_memmove\<close>,
  \<open>grub_memset\<close> and \<open>grub_strcpy\<close>, with the global error number.
\<close>

section \<open>The routines\<close>

record grub =
  gmem :: memory
  errnum :: grub_error
  mem_lower :: u32
  mem_upper :: u32

text \<open>Outside the simulator \<open>RAW_ADDR\<close> is the identity. An \<open>int\<close> compared with an \<open>unsigned\<close> is
  converted.\<close>

definition memcheck :: "u32 \<Rightarrow> u32 \<Rightarrow> 'a grub_scheme \<Rightarrow> bool \<times> 'a grub_scheme" where
  "memcheck addr len s =
     (let s = (if addr <s 0x1000
               \<or> (addr <s 0x100000 \<and> mem_lower s * 1024 < addr + len)
               \<or> (0x100000 \<le>s addr \<and> mem_upper s * 1024 < (addr - 0x100000) + len)
               then s\<lparr>errnum := ERR_WONT_FIT\<rparr> else s)
      in (errnum s = ERR_NONE, s))"

text \<open>The string instruction \<open>rep movsb\<close>, with the direction flag clear or set.\<close>

function rep_movsb :: "memory \<Rightarrow> bool \<Rightarrow> u32 \<Rightarrow> u32 \<Rightarrow> u32 \<Rightarrow> memory" where
  "rep_movsb m std edi esi ecx =
     (if ecx \<noteq> 0
      then if std then rep_movsb (m(edi := m esi)) std (edi - 1) (esi - 1) (ecx - 1)
           else rep_movsb (m(edi := m esi)) std (edi + 1) (esi + 1) (ecx - 1)
      else m)"
  by pat_completeness auto
termination by (relation "measure (\<lambda>(m, std, edi, esi, ecx). unat ecx)") (auto simp: measure_unat)

declare rep_movsb.simps [simp del]

text \<open>The result is the first argument, or a null pointer when an error number is set.\<close>

definition grub_memmove :: "u32 \<Rightarrow> u32 \<Rightarrow> u32 \<Rightarrow> 'a grub_scheme \<Rightarrow> u32 \<times> 'a grub_scheme" where
  "grub_memmove to from' len s =
     (let (fits, s) = memcheck to len s;
          s = (if fits then
                 if to < from' then s\<lparr>gmem := rep_movsb (gmem s) False to from' len\<rparr>
                 else s\<lparr>gmem := rep_movsb (gmem s) True (len - 1 + to) (len - 1 + from') len\<rparr>
               else s)
      in (if errnum s \<noteq> ERR_NONE then 0 else to, s))"

function memset_loop :: "memory \<Rightarrow> u32 \<Rightarrow> u8 \<Rightarrow> u32 \<Rightarrow> memory" where
  "memset_loop m p c len = (if 0 <s len then memset_loop (m(p := c)) (p + 1) c (len - 1) else m)"
  by pat_completeness auto
termination
  by (relation "measure (\<lambda>(m, p, c, len). nat (sint len))") (auto simp: word_sless_alt sint_dec_pos_u32)

declare memset_loop.simps [simp del]

definition grub_memset :: "u32 \<Rightarrow> u32 \<Rightarrow> u32 \<Rightarrow> 'a grub_scheme \<Rightarrow> u32 \<times> 'a grub_scheme" where
  "grub_memset start c len s =
     (let (fits, s) = memcheck start len s;
          s = (if fits then s\<lparr>gmem := memset_loop (gmem s) start (lo8 c) len\<rparr> else s)
      in (if errnum s \<noteq> ERR_NONE then 0 else start, s))"

definition grub_strcpy :: "u32 \<Rightarrow> u32 \<Rightarrow> 'a grub_scheme \<Rightarrow> (u32 \<times> 'a grub_scheme) option" where
  "grub_strcpy dest src s =
     do {
       l \<leftarrow> grub_strlen (gmem s) src;
       Some (dest, snd (grub_memmove dest src (l + 1) s))
     }"

section \<open>What they do\<close>

lemma rep_movsb_eq: "rep_movsb m std d s n = (if std then memmove_down m d s n else memmove_up m d s n)"
proof (induction m std d s n rule: rep_movsb.induct)
  case (1 m std d s n)
  then show ?case
    by (subst rep_movsb.simps, subst memmove_down.simps, subst memmove_up.simps)
      (cases "n = 0"; simp add: word_gt_0 del: fun_upd_apply)
qed

text \<open>The two regions do not wrap around: any overlap is copied right.\<close>

lemma rep_movsb_moves:
  assumes "unat to + n < 4294967296" and "unat from' + n < 4294967296"
  shows "(if to < from' then rep_movsb m False to from' (of_nat n)
     else rep_movsb m True (of_nat n - 1 + to) (of_nat n - 1 + from') (of_nat n)) = write_bytes m to (read_bytes m from' n)"
proof (cases "to < from'")
  case True
  then have "\<not> in_region to from' n" using assms by (intro not_in_region_below) auto
  then show ?thesis using True assms by (simp add: rep_movsb_eq memmove_up_eq_memcpy memcpy_write)
next
  case False
  have "\<not> in_region from' to n \<or> to = from'"
    using assms False not_in_region_below [of from' to n] by (cases "to = from'") auto
  then have "memmove_down m (to + of_nat n - 1) (from' + of_nat n - 1) (of_nat n) = write_bytes m to (read_bytes m from' n)"
    using assms by (intro memmove_down_write) auto
  then show ?thesis using False by (simp add: rep_movsb_eq algebra_simps)
qed

text \<open>A region that passes the check while no error is pending.\<close>

definition fits_low :: "u32 \<Rightarrow> nat \<Rightarrow> 'a grub_scheme \<Rightarrow> bool" where
  "fits_low a n s \<longleftrightarrow> errnum s = ERR_NONE \<and> 0x1000 \<le> unat a \<and> unat a + n \<le> 0x100000
     \<and> unat a + n \<le> unat (mem_lower s) * 1024 \<and> unat (mem_lower s) < 4194304"

lemma memcheck_low:
  assumes "fits_low a n s" and "unat a < 0x100000"
  shows "memcheck a (of_nat n) s = (True, s)"
proof -
  have u: "unat (a + of_nat n) = unat a + n"
    using assms by (subst unat_add_lem [THEN iffD1]) (simp_all add: fits_low_def unat_of_nat_u32)
  have m: "unat (mem_lower s * 1024) = unat (mem_lower s) * 1024"
    using assms by (subst unat_mult_lem [THEN iffD1]) (simp_all add: fits_low_def)
  have "int 0x1000 \<le> int (unat a)" "int (unat a) < int 0x100000"
    using assms by (simp_all only: of_nat_le_iff of_nat_less_iff) (simp_all add: fits_low_def)
  then have b: "0x1000 \<le> uint a" "uint a < 0x100000" by simp_all
  have si: "sint a = int (unat a)" using assms sint_of_nat_u32 [of "unat a"] by (simp add: fits_low_def)
  show ?thesis
    using assms b nat_uint_eq [of a] by (auto simp: memcheck_def fits_low_def word_sless_alt word_sle_eq word_less_nat_alt u m si)
qed

lemma grub_memmove_low:
  assumes "fits_low to n s" and "unat to < 0x100000" and "unat from' + n < 4294967296"
  shows "grub_memmove to from' (of_nat n) s = (to, s\<lparr>gmem := write_bytes (gmem s) to (read_bytes (gmem s) from' n)\<rparr>)"
proof -
  have "unat to + n < 4294967296" using assms(1) by (simp add: fits_low_def)
  from rep_movsb_moves [OF this assms(3), of "gmem s"] show ?thesis
    using assms(1) memcheck_low [OF assms(1,2)]
    by (cases "to < from'") (simp_all add: grub_memmove_def fits_low_def Let_def)
qed

lemma memset_loop_write:
  "n < 2147483648 \<Longrightarrow> memset_loop m p c (of_nat n) = write_bytes m p (replicate n c)"
proof (induction n arbitrary: m p)
  case 0
  then show ?case by (simp add: memset_loop.simps)
next
  case (Suc n)
  have "0 <s (of_nat (Suc n) :: u32)" using Suc.prems sint_of_nat_u32 [of "Suc n"] by (simp add: word_sless_alt)
  then have "memset_loop m p c (of_nat (Suc n)) = memset_loop (m(p := c)) (p + 1) c (of_nat n)"
    by (subst memset_loop.simps) simp
  with Suc show ?case by simp
qed

lemma grub_strcpy_low:
  assumes "cstr_at (gmem s) src bs" and "fits_low dest (Suc (length bs)) s" and "unat src + Suc (length bs) < 4294967296"
  shows "grub_strcpy dest src s = Some (dest, s\<lparr>gmem := write_bytes (gmem s) dest (bs @ [0])\<rparr>)"
proof -
  have "read_bytes (gmem s) src (Suc (length bs)) = bs @ [0]"
    using assms(1) unfolding read_bytes_snoc by (simp add: cstr_at_iff)
  moreover have "of_nat (length bs) + 1 = (of_nat (Suc (length bs)) :: u32)" by simp
  ultimately show ?thesis
    using grub_memmove_low [OF assms(2) _ assms(3)] assms(2) grub_strlen_cstr [OF assms(1)]
    by (simp add: grub_strcpy_def fits_low_def del: of_nat_Suc read_bytes.simps)
qed

section \<open>Properties\<close>

text \<open>\<open>grub_memmove\<close> moves any two regions that do not wrap around, overlapping or not, when the
  destination passes the check; and once an error number is set it copies nothing at all and returns a
  null pointer.\<close>

theorem grub_memmove_correct:
  assumes "unat to + n < 4294967296" and "unat from' + n < 4294967296"
  shows "grub_memmove to from' (of_nat n) s =
    (if fst (memcheck to (of_nat n) s) then (to, s\<lparr>gmem := write_bytes (gmem s) to (read_bytes (gmem s) from' n)\<rparr>)
     else (0, snd (memcheck to (of_nat n) s)))
    \<and> (errnum s \<noteq> ERR_NONE \<longrightarrow> \<not> fst (memcheck to (of_nat n) s))"
proof -
  have m: "fst (memcheck to (of_nat n) s) \<longleftrightarrow> errnum (snd (memcheck to (of_nat n) s)) = ERR_NONE"
    "fst (memcheck to (of_nat n) s) \<Longrightarrow> snd (memcheck to (of_nat n) s) = s \<and> errnum s = ERR_NONE"
    by (auto simp: memcheck_def Let_def split: if_splits)
  obtain b s' where b: "memcheck to (of_nat n) s = (b, s')" by fastforce
  show ?thesis
    using m rep_movsb_moves [OF assms, of "gmem s"] unfolding grub_memmove_def b
    by (cases b; cases "to < from'") auto
qed

lemma grub_memmove_correct_witness:
  "grub_memmove 0x2001 0x2000 3 \<lparr>gmem = write_bytes (\<lambda>_. 0) 0x2000 [1, 2, 3], errnum = ERR_NONE, mem_lower = 640, mem_upper = 0\<rparr>
   = (0x2001, \<lparr>gmem = write_bytes (\<lambda>_. 0) 0x2000 [1, 1, 2, 3], errnum = ERR_NONE, mem_lower = 640, mem_upper = 0\<rparr>)"
proof -
  let ?s = "\<lparr>gmem = write_bytes (\<lambda>_. 0) 0x2000 [1, 2, 3], errnum = ERR_NONE, mem_lower = 640, mem_upper = 0\<rparr>"
  have "fst (memcheck 0x2001 (of_nat 3) ?s)" by (simp add: memcheck_def word_sless_alt word_sle_eq)
  then show ?thesis
    using grub_memmove_correct [of "0x2001" 3 "0x2000" ?s] by (simp add: numeral_3_eq_3 fun_eq_iff)
qed

end
