(* ===== verification/Md5.thy ===== *)
theory Md5
  imports Md5_Rfc Grub_Memory
begin

text \<open>
  The MD5 routines of src/grub-0.97/stage2/md5.c: the block transformation and the streaming interface on
  the three static variables, against the definition of the algorithm in RFC 1321 (theory Md5_Rfc). An
  input is the list of the bytes at its pointer; \<open>cpu_to_le32\<close> is the identity, as the source has it for
  this processor. In this build \<open>memcpy\<close> and \<open>memset\<close> are \<open>grub_memmove\<close> and \<open>grub_memset\<close>,
  which check the destination and do nothing while an error number is set.
\<close>

section \<open>The block transformation\<close>

definition F :: "u32 \<Rightarrow> u32 \<Rightarrow> u32 \<Rightarrow> u32" where "F x y z = (x AND y) OR (NOT x AND z)"
definition G :: "u32 \<Rightarrow> u32 \<Rightarrow> u32 \<Rightarrow> u32" where "G x y z = (x AND z) OR (y AND NOT z)"
definition H :: "u32 \<Rightarrow> u32 \<Rightarrow> u32 \<Rightarrow> u32" where "H x y z = x XOR y XOR z"
definition I :: "u32 \<Rightarrow> u32 \<Rightarrow> u32 \<Rightarrow> u32" where "I x y z = y XOR (x OR NOT z)"

definition ROTATE_LEFT :: "u32 \<Rightarrow> nat \<Rightarrow> u32" where
  "ROTATE_LEFT x n = push_bit n x OR drop_bit (32 - n) x"

definition initstate :: "u32 list" where
  "initstate = [0x67452301, 0xefcdab89, 0x98badcfe, 0x10325476]"

definition s1 :: "nat list" where "s1 = [7, 12, 17, 22]"
definition s2 :: "nat list" where "s2 = [5, 9, 14, 20]"
definition s3 :: "nat list" where "s3 = [4, 11, 16, 23]"
definition s4 :: "nat list" where "s4 = [6, 10, 15, 21]"

definition T :: "u32 list" where
  "T = [
  0xd76aa478, 0xe8c7b756, 0x242070db, 0xc1bdceee,
  0xf57c0faf, 0x4787c62a, 0xa8304613, 0xfd469501,
  0x698098d8, 0x8b44f7af, 0xffff5bb1, 0x895cd7be,
  0x6b901122, 0xfd987193, 0xa679438e, 0x49b40821,
  0xf61e2562, 0xc040b340, 0x265e5a51, 0xe9b6c7aa,
  0xd62f105d, 0x02441453, 0xd8a1e681, 0xe7d3fbc8,
  0x21e1cde6, 0xc33707d6, 0xf4d50d87, 0x455a14ed,
  0xa9e3e905, 0xfcefa3f8, 0x676f02d9, 0x8d2a4c8a,
  0xfffa3942, 0x8771f681, 0x6d9d6122, 0xfde5380c,
  0xa4beea44, 0x4bdecfa9, 0xf6bb4b60, 0xbebfbc70,
  0x289b7ec6, 0xeaa127fa, 0xd4ef3085, 0x04881d05,
  0xd9d4d039, 0xe6db99e5, 0x1fa27cf8, 0xc4ac5665,
  0xf4292244, 0x432aff97, 0xab9423a7, 0xfc93a039,
  0x655b59c3, 0x8f0ccc92, 0xffeff47d, 0x85845dd1,
  0x6fa87e4f, 0xfe2ce6e0, 0xa3014314, 0x4e0811a1,
  0xf7537e82, 0xbd3af235, 0x2ad7d2bb, 0xeb86d391]"

text \<open>\<open>x[i]\<close>, the bytes of the block read as little-endian words.\<close>

definition le32 :: "u8 list \<Rightarrow> nat \<Rightarrow> u32" where
  "le32 block i = ucast (block ! (4 * i)) OR push_bit 8 (ucast (block ! (4 * i + 1)))
     OR push_bit 16 (ucast (block ! (4 * i + 2))) OR push_bit 24 (ucast (block ! (4 * i + 3)))"

text \<open>The five assignments of each loop body; \<open>f\<close>, the word, the constant and the shift differ.\<close>

fun md5_step :: "(u32 \<Rightarrow> u32 \<Rightarrow> u32 \<Rightarrow> u32) \<Rightarrow> u32 \<Rightarrow> u32 \<Rightarrow> nat \<Rightarrow> regs4 \<Rightarrow> regs4" where
  "md5_step f x t s (a, b, c, d) =
     (let tmp = a + f b c d + x + t; tmp = ROTATE_LEFT tmp s; tmp = tmp + b
      in (d, tmp, b, c))"

text \<open>A loop over \<open>i\<close> with a second index \<open>j\<close> that starts at \<open>j0\<close> and grows by \<open>dj\<close>.\<close>

definition md5_round :: "(u32 \<Rightarrow> u32 \<Rightarrow> u32 \<Rightarrow> u32) \<Rightarrow> nat \<Rightarrow> nat \<Rightarrow> nat list \<Rightarrow> nat \<Rightarrow> u8 list \<Rightarrow> regs4 \<Rightarrow> regs4" where
  "md5_round f j0 dj s k block r =
     snd (for_n 0 16 (\<lambda>i (j, r). (j + dj, md5_step f (le32 block (j mod 16)) (T ! (i + k)) (s ! (i mod 4)) r)) (j0, r))"

definition md5_transform :: "u8 list \<Rightarrow> u32 list \<Rightarrow> u32 list" where
  "md5_transform block state =
     (let r = (state ! 0, state ! 1, state ! 2, state ! 3);
          r = md5_round F 0 1 s1 0 block r;
          r = md5_round G 1 5 s2 16 block r;
          r = md5_round H 5 3 s3 32 block r;
          (a, b, c, d) = md5_round I 0 7 s4 48 block r
      in [state ! 0 + a, state ! 1 + b, state ! 2 + c, state ! 3 + d])"

section \<open>Streaming\<close>

text \<open>
  The static variables, with the addresses of the two arrays; \<open>alt_result\<close> is the array on the stack of
  \<open>md5_password\<close>.
\<close>

record md5 = grub +
  md_state :: "u32 list"
  md_length :: u32
  md_buffer :: "u8 list"
  alt_result :: "u8 list"
  state_at :: u32
  buffer_at :: u32
  alt_at :: u32

text \<open>
  \<open>memcpy\<close> and \<open>memset\<close> as shared.h maps them: the copy of \<open>n\<close> bytes to \<open>dest\<close> takes place
  when \<open>memcheck\<close> lets it.
\<close>

definition checked_copy :: "u32 \<Rightarrow> nat \<Rightarrow> ('a grub_scheme \<Rightarrow> 'a grub_scheme) \<Rightarrow> 'a grub_scheme \<Rightarrow> 'a grub_scheme" where
  "checked_copy dest n copy s = (let (fits, s) = memcheck dest (of_nat n) s in if fits then copy s else s)"

definition md5_init :: "md5 \<Rightarrow> md5" where
  "md5_init s = (checked_copy (state_at s) 16 (\<lambda>s. s\<lparr>md_state := initstate\<rparr>) s)\<lparr>md_length := 0\<rparr>"

text \<open>Bytes into the buffer at an offset.\<close>

definition put_at :: "nat \<Rightarrow> 'a list \<Rightarrow> 'a list \<Rightarrow> 'a list" where
  "put_at k xs buf = take k buf @ xs @ drop (k + length xs) buf"

definition to_buffer :: "nat \<Rightarrow> u8 list \<Rightarrow> md5 \<Rightarrow> md5" where
  "to_buffer k xs s =
     checked_copy (buffer_at s + of_nat k) (length xs) (\<lambda>s. s\<lparr>md_buffer := put_at k xs (md_buffer s)\<rparr>) s"

function md5_blocks :: "u8 list \<Rightarrow> u32 list \<Rightarrow> u8 list \<times> u32 list" where
  "md5_blocks input state =
     (if length input \<ge> 64 then md5_blocks (drop 64 input) (md5_transform (take 64 input) state) else (input, state))"
  by pat_completeness auto
termination
  by (relation "measure (\<lambda>(input, state). length input)") auto

declare md5_blocks.simps [simp del]

definition md5_update :: "u8 list \<Rightarrow> md5 \<Rightarrow> md5" where
  "md5_update input s =
     (let buflen = unat (md_length s AND 63);
          s = s\<lparr>md_length := md_length s + of_nat (length input)\<rparr>
      in if buflen + length input < 64 then to_buffer buflen input s
         else
           let s = to_buffer buflen (take (64 - buflen) input) s;
               s = s\<lparr>md_state := md5_transform (md_buffer s) (md_state s)\<rparr>;
               (rest, st) = md5_blocks (drop (64 - buflen) input) (md_state s)
           in to_buffer 0 rest (s\<lparr>md_state := st\<rparr>))"

definition le_bytes :: "u32 \<Rightarrow> u8 list" where
  "le_bytes w = [ucast w, ucast (drop_bit 8 w), ucast (drop_bit 16 w), ucast (drop_bit 24 w)]"

text \<open>The digest is returned as a pointer to the state; here as its 16 bytes.\<close>

definition md5_final :: "md5 \<Rightarrow> u8 list \<times> md5" where
  "md5_final s =
     (let buflen = unat (md_length s AND 63);
          s = s\<lparr>md_buffer := (md_buffer s)[buflen := 0x80]\<rparr>;
          buflen = buflen + 1;
          s = to_buffer buflen (replicate (64 - buflen) 0) s;
          s = (if buflen > 56
               then to_buffer 0 (replicate 64 0) (s\<lparr>md_state := md5_transform (md_buffer s) (md_state s)\<rparr>)
               else s);
          s = s\<lparr>md_buffer := put_at 56 (le_bytes (8 * md_length s)) (md_buffer s)\<rparr>;
          s = s\<lparr>md_buffer := put_at 60 (le_bytes 0) (md_buffer s)\<rparr>;
          s = s\<lparr>md_state := md5_transform (md_buffer s) (md_state s)\<rparr>
      in (concat (map le_bytes (md_state s)), s))"

section \<open>The transformation is the one of the definition\<close>

lemma ROTATE_LEFT_rotl:
  assumes "0 < n" and "n < 32"
  shows "ROTATE_LEFT x n = word_rotl n x"
proof (rule bit_word_eqI)
  fix k assume "k < LENGTH(32)"
  then have k: "k < 32" by simp
  have out: "\<not> bit x m" if "32 \<le> m" for m using that bit_imp_le_length [of x m] by auto
  have r: "bit (word_rotl n x) k \<longleftrightarrow> bit x ((k + (32 - n)) mod 32)"
    using k assms by (simp add: bit_word_rotl_iff)
  have l: "bit (ROTATE_LEFT x n) k \<longleftrightarrow> n \<le> k \<and> bit x (k - n) \<or> bit x (32 - n + k)"
    using k by (auto simp: ROTATE_LEFT_def bit_simps)
  show "bit (ROTATE_LEFT x n) k = bit (word_rotl n x) k"
  proof (cases "n \<le> k")
    case True
    then have "k + (32 - n) = 32 + (k - n)" using assms by simp
    then have "(k + (32 - n)) mod 32 = k - n" using k by (simp only: mod_add_self1 mod_less less_imp_diff_less)
    moreover have "\<not> bit x (32 - n + k)" using True assms by (intro out) simp
    ultimately show ?thesis using True by (simp add: l r)
  next
    case False
    then have "(k + (32 - n)) mod 32 = 32 - n + k" using k assms by (subst mod_less) simp_all
    then show ?thesis using False by (simp add: l r)
  qed
qed

lemma for_n_fold: "for_n a n body s = fold body [a..<a + n] s"
  by (induction n arbitrary: a s) (simp_all add: upt_rec)

lemma fold_second_index:
  "fold (\<lambda>i (j, r). (j + d, g i j r)) [0..<n] (j0, r0) = (j0 + d * n, fold (\<lambda>i. g i (j0 + d * i)) [0..<n] r0)"
  by (induction n) auto

lemma md5_round_fold:
  "md5_round f j0 dj s k block r =
     fold (\<lambda>i. md5_step f (le32 block ((j0 + dj * i) mod 16)) (T ! (i + k)) (s ! (i mod 4))) [0..<16] r"
  unfolding md5_round_def for_n_fold
  using fold_second_index [of dj "\<lambda>i j. md5_step f (le32 block (j mod 16)) (T ! (i + k)) (s ! (i mod 4))" 16 j0 r] by simp

lemma rfc_s_bounds: "i < 64 \<Longrightarrow> 0 < rfc_s i \<and> rfc_s i < 32"
proof -
  assume "i < 64"
  then have "i div 16 < 4" by simp
  then have "i div 16 = 0 \<or> i div 16 = 1 \<or> i div 16 = 2 \<or> i div 16 = 3" by linarith
  moreover have "i mod 4 = 0 \<or> i mod 4 = 1 \<or> i mod 4 = 2 \<or> i mod 4 = 3"
    using mod_less_divisor [of 4 i] by linarith
  ultimately show ?thesis by (auto simp: rfc_s_def)
qed

text \<open>The constants of the code are the sines of the RFC.\<close>

lemma T_sines: "sine_table (map uint T) (4369167150966248696362992495346959, 2805409965418265417902907108845681, 1)"
  unfolding T_def by code_simp

lemma T_rfc: "i < 64 \<Longrightarrow> T ! i = rfc_T i"
proof -
  assume "i < 64"
  moreover have "length T = 64" by (simp add: T_def)
  ultimately show ?thesis using sine_table_rfc [OF T_sines, of i] by simp
qed

lemma rfc_f_code:
  "i < 16 \<Longrightarrow> rfc_f i = F" "i < 16 \<Longrightarrow> rfc_f (i + 16) = G" "i < 16 \<Longrightarrow> rfc_f (i + 32) = H" "i < 16 \<Longrightarrow> rfc_f (i + 48) = I"
  by (simp_all add: rfc_f_def fun_eq_iff F_def G_def H_def I_def)

lemma le32_rfc: "le32 M j = rfc_word M j"
  by (simp add: le32_def rfc_word_or)

lemma le_bytes_rfc: "le_bytes = rfc_bytes"
  by (simp add: fun_eq_iff le_bytes_def rfc_bytes_drop)

lemma rfc_step_md5_step:
  assumes "i < 64"
  shows "rfc_step M i r = md5_step (rfc_f i) (le32 M (rfc_k i)) (T ! i) (rfc_s i) r"
  using rfc_s_bounds [OF assms] by (cases r) (simp add: ROTATE_LEFT_rotl add.commute T_rfc [OF assms] le32_rfc)

lemma md5_round_rfc:
  assumes "k + 16 \<le> 64" and "\<And>i. i < 16 \<Longrightarrow> rfc_f (i + k) = f \<and> rfc_k (i + k) = (j0 + dj * i) mod 16 \<and> rfc_s (i + k) = s ! (i mod 4)"
  shows "md5_round f j0 dj s k M r = fold (rfc_step M) [k..<k + 16] r"
proof -
  have "fold (rfc_step M) [k..<k + 16] r = fold (rfc_step M) (map (\<lambda>i. i + k) [0..<16]) r"
    by (simp add: map_add_upt add.commute)
  also have "\<dots> = fold (\<lambda>i. rfc_step M (i + k)) [0..<16] r" by (simp add: fold_map comp_def)
  also have "\<dots> = md5_round f j0 dj s k M r"
    unfolding md5_round_fold by (rule fold_cong) (use assms in \<open>auto simp: rfc_step_md5_step fun_eq_iff\<close>)
  finally show ?thesis by simp
qed

lemma rfc_k_shift:
  "i < 16 \<Longrightarrow> rfc_k (i + 16) = (1 + 5 * i) mod 16" "i < 16 \<Longrightarrow> rfc_k (i + 32) = (5 + 3 * i) mod 16"
  "i < 16 \<Longrightarrow> rfc_k (i + 48) = 7 * i mod 16"
proof -
  have e: "5 * (i + 16) + 1 = (1 + 5 * i) + 16 * 5" "3 * (i + 32) + 5 = (5 + 3 * i) + 16 * 6"
    "7 * (i + 48) = 7 * i + 16 * 21" for i :: nat by simp_all
  have "(5 * (i + 16) + 1) mod 16 = (1 + 5 * i) mod 16" "(3 * (i + 32) + 5) mod 16 = (5 + 3 * i) mod 16"
    "7 * (i + 48) mod 16 = 7 * i mod 16" for i :: nat
    unfolding e by (rule mod_mult_self2)+
  then show "i < 16 \<Longrightarrow> rfc_k (i + 16) = (1 + 5 * i) mod 16" "i < 16 \<Longrightarrow> rfc_k (i + 32) = (5 + 3 * i) mod 16"
    "i < 16 \<Longrightarrow> rfc_k (i + 48) = 7 * i mod 16" unfolding rfc_k_def by simp_all
qed

lemma rfc_s_shift:
  "i < 16 \<Longrightarrow> rfc_s i = s1 ! (i mod 4)" "i < 16 \<Longrightarrow> rfc_s (i + 16) = s2 ! (i mod 4)"
  "i < 16 \<Longrightarrow> rfc_s (i + 32) = s3 ! (i mod 4)" "i < 16 \<Longrightarrow> rfc_s (i + 48) = s4 ! (i mod 4)"
proof -
  have m: "(i + 16) mod 4 = i mod 4" "(i + 32) mod 4 = i mod 4" "(i + 48) mod 4 = i mod 4"
    using mod_mult_self2 [of i 4 4] mod_mult_self2 [of i 4 8] mod_mult_self2 [of i 4 12] by simp_all
  assume "i < 16"
  then have "i div 16 = 0" "(i + 16) div 16 = 1" "(i + 32) div 16 = 2" "(i + 48) div 16 = 3" by simp_all
  then show "rfc_s i = s1 ! (i mod 4)" "rfc_s (i + 16) = s2 ! (i mod 4)"
    "rfc_s (i + 32) = s3 ! (i mod 4)" "rfc_s (i + 48) = s4 ! (i mod 4)"
    by (simp_all only: rfc_s_def m s1_def s2_def s3_def s4_def) simp_all
qed

lemma md5_transform_block: "md5_transform M st = list_of (rfc_block M (regs_of st))"
proof -
  have "md5_round F 0 1 s1 0 M r = fold (rfc_step M) [0..<0 + 16] r" for r
    by (rule md5_round_rfc) (use rfc_f_code rfc_s_shift in \<open>simp_all add: rfc_k_def\<close>)
  moreover have "md5_round G 1 5 s2 16 M r = fold (rfc_step M) [16..<16 + 16] r" for r
    by (rule md5_round_rfc) (use rfc_f_code rfc_s_shift rfc_k_shift in simp_all)
  moreover have "md5_round H 5 3 s3 32 M r = fold (rfc_step M) [32..<32 + 16] r" for r
    by (rule md5_round_rfc) (use rfc_f_code rfc_s_shift rfc_k_shift in simp_all)
  moreover have "md5_round I 0 7 s4 48 M r = fold (rfc_step M) [48..<48 + 16] r" for r
    by (rule md5_round_rfc) (use rfc_f_code rfc_s_shift rfc_k_shift in simp_all)
  moreover have "[0..<64] = [0..<0 + 16] @ [16..<16 + 16] @ [32..<32 + 16] @ [48..<48 + 16 :: nat]"
    using upt_add_eq_append [of 0 16 48] upt_add_eq_append [of 16 32 32] upt_add_eq_append [of 32 48 16] by simp
  ultimately show ?thesis
    by (simp add: md5_transform_def rfc_block_def regs_of_def Let_def split: prod.splits)
qed

section \<open>A state represents a message\<close>

lemma rfc_blocks_add: "rfc_blocks (a + b) M r = rfc_blocks b (drop (64 * a) M) (rfc_blocks a M r)"
  by (induction a arbitrary: M r) (simp_all add: add.commute)

lemma rfc_blocks_prefix: "64 * n \<le> length xs \<Longrightarrow> rfc_blocks n (xs @ ys) r = rfc_blocks n xs r"
  by (induction n arbitrary: xs r) simp_all

lemma md5_blocks_rfc:
  "md5_blocks input st =
     (drop (64 * (length input div 64)) input,
      if length input < 64 then st else list_of (rfc_blocks (length input div 64) input (regs_of st)))"
proof (induction input st rule: md5_blocks.induct)
  case (1 input st)
  show ?case
  proof (cases "64 \<le> length input")
    case True
    then obtain n where n: "length input = 64 + n" using le_Suc_ex by blast
    then have "length input div 64 = Suc (n div 64)" by simp
    then show ?thesis
      using 1 [OF True] True n
      by (subst md5_blocks.simps) (auto simp: md5_transform_block add.commute)
  next
    case False
    then show ?thesis by (subst md5_blocks.simps) simp
  qed
qed

definition rfc_init :: regs4 where
  "rfc_init = (0x67452301, 0xefcdab89, 0x98badcfe, 0x10325476)"

text \<open>The arrays lie in conventional memory and no error is pending: then every copy takes place.\<close>

definition md5_ready :: "md5 \<Rightarrow> bool" where
  "md5_ready s \<longleftrightarrow> length (md_buffer s) = 64 \<and> fits_low (state_at s) 17 s \<and> fits_low (buffer_at s) 65 s \<and> fits_low (alt_at s) 17 s"

lemma fits_low_md5 [simp]:
  "fits_low a n (s\<lparr>md_state := x\<rparr>) = fits_low a n s" "fits_low a n (s\<lparr>md_length := l\<rparr>) = fits_low a n s"
  "fits_low a n (s\<lparr>md_buffer := b\<rparr>) = fits_low a n s" "fits_low a n (s\<lparr>alt_result := b\<rparr>) = fits_low a n s"
  by (simp_all add: fits_low_def)

lemma md5_ready_upd [simp]:
  "md5_ready (s\<lparr>md_state := x\<rparr>) = md5_ready s" "md5_ready (s\<lparr>md_length := l\<rparr>) = md5_ready s"
  "md5_ready (s\<lparr>alt_result := b\<rparr>) = md5_ready s" "length b = 64 \<Longrightarrow> md5_ready s \<Longrightarrow> md5_ready (s\<lparr>md_buffer := b\<rparr>)"
  by (simp_all add: md5_ready_def)

lemma checked_copy_low:
  assumes "fits_low a m s" and "k + n < m"
  shows "checked_copy (a + of_nat k) n copy s = copy s"
proof -
  have u: "unat (a + of_nat k) = unat a + k"
    using assms by (subst unat_add_lem [THEN iffD1]) (simp_all add: fits_low_def unat_of_nat_u32)
  have "memcheck (a + of_nat k) (of_nat n) s = (True, s)"
    by (rule memcheck_low) (use assms in \<open>simp_all add: fits_low_def u\<close>)
  then show ?thesis by (simp add: checked_copy_def)
qed

lemma to_buffer_ready:
  "md5_ready s \<Longrightarrow> k + length xs \<le> 64 \<Longrightarrow> to_buffer k xs s = s\<lparr>md_buffer := put_at k xs (md_buffer s)\<rparr>"
  unfolding to_buffer_def by (rule checked_copy_low [where m = 65]) (simp_all add: md5_ready_def)

lemma put_at_length [simp]: "k + length xs \<le> length b \<Longrightarrow> length (put_at k xs b) = length b"
  by (simp add: put_at_def)

lemma md5_init_ready: "md5_ready s \<Longrightarrow> md5_init s = s\<lparr>md_state := initstate, md_length := 0\<rparr>"
  using checked_copy_low [of "state_at s" 17 s 0 16] by (simp add: md5_init_def md5_ready_def)

definition hashing :: "u8 list \<Rightarrow> md5 \<Rightarrow> bool" where
  "hashing m s \<longleftrightarrow> md_length s = of_nat (length m) \<and> md5_ready s \<and> length (md_state s) = 4
     \<and> regs_of (md_state s) = rfc_blocks (length m div 64) m rfc_init
     \<and> take (length m mod 64) (md_buffer s) = drop (64 * (length m div 64)) m"

lemma unat_and_63: "unat (of_nat n AND 63 :: u32) = n mod 64"
proof -
  have m: "(63 :: u32) = mask 6" by (simp add: mask_eq_exp_minus_1)
  show ?thesis
    unfolding m take_bit_eq_mask [symmetric]
    by (simp add: unsigned_take_bit_eq unsigned_of_nat take_bit_nat_def mod_mod_cancel)
qed

lemma md5_ready_buffer: "md5_ready s \<Longrightarrow> length (md_buffer s) = 64"
  by (simp add: md5_ready_def)

lemma hashing_init: "md5_ready s \<Longrightarrow> hashing [] (md5_init s)"
  by (simp add: hashing_def md5_init_ready initstate_def regs_of_def rfc_init_def)


lemma hashing_update:
  assumes "hashing m s"
  shows "hashing (m @ x) (md5_update x s)"
proof -
  let ?b = "length m mod 64" and ?q = "length m div 64"
  have rd: "md5_ready s" using assms by (simp add: hashing_def)
  note l64 = md5_ready_buffer [OF rd]
  have bl: "unat (md_length s AND 63) = ?b" and l4: "length (md_state s) = 4"
    and st: "regs_of (md_state s) = rfc_blocks ?q m rfc_init" and tk: "take ?b (md_buffer s) = drop (64 * ?q) m"
    using assms by (simp_all add: hashing_def unat_and_63)
  have b: "?b < 64" and m: "length m = 64 * ?q + ?b" by simp_all
  show ?thesis
  proof (cases "?b + length x < 64")
    case True
    have "length (m @ x) = 64 * ?q + (?b + length x)" using m by simp
    then have q: "length (m @ x) div 64 = ?q" "length (m @ x) mod 64 = ?b + length x"
      using True by (metis div_mult_self4 div_less add_0_right zero_neq_numeral mult.commute add.commute, metis mod_mult_self4 mod_less mult.commute)
    have u: "md5_update x s = s\<lparr>md_length := md_length s + of_nat (length x), md_buffer := put_at ?b x (md_buffer s)\<rparr>"
      using True rd by (simp add: md5_update_def bl to_buffer_ready)
    have "64 * ?q \<le> length m" by simp
    then show ?thesis
      unfolding hashing_def q u using assms True l64 st tk rd
      by (auto simp: hashing_def put_at_def rfc_blocks_prefix minus_mult_div_eq_mod)
  next
    case False
    let ?c = "64 - ?b"
    define blk where "blk = drop (64 * ?q) m @ take ?c x"
    define x1 where "x1 = drop ?c x"
    have lx: "length x = ?c + length x1" using False by (simp add: x1_def)
    have lb: "length blk = 64" using False by (simp add: blk_def minus_mult_div_eq_mod)
    have buf: "put_at ?b (take ?c x) (md_buffer s) = blk"
      using False b tk l64 by (simp add: put_at_def blk_def)
    have mx: "m @ x = take (64 * ?q) m @ blk @ x1" by (simp add: blk_def x1_def)
    define st1 where "st1 = md5_transform blk (md_state s)"
    have r1: "regs_of st1 = rfc_blocks (Suc ?q) (m @ x) rfc_init"
    proof -
      have "rfc_blocks (?q + 1) (m @ x) rfc_init = rfc_blocks 1 (drop (64 * ?q) (m @ x)) (rfc_blocks ?q (m @ x) rfc_init)"
        by (rule rfc_blocks_add)
      also have "drop (64 * ?q) (m @ x) = blk @ x1" by (simp add: blk_def x1_def)
      also have "rfc_blocks ?q (m @ x) rfc_init = regs_of (md_state s)" by (simp add: st rfc_blocks_prefix)
      finally show ?thesis using lb by (simp add: st1_def md5_transform_block)
    qed
    obtain rest st2 where bk: "md5_blocks x1 st1 = (rest, st2)" by fastforce
    have rest: "rest = drop (64 * (length x1 div 64)) x1"
      and st2: "st2 = (if length x1 < 64 then st1 else list_of (rfc_blocks (length x1 div 64) x1 (regs_of st1)))"
      using bk by (simp_all add: md5_blocks_rfc)
    have r2: "regs_of st2 = rfc_blocks (length x1 div 64) x1 (regs_of st1)"
      by (simp add: st2)
    have u: "md5_update x s = s\<lparr>md_length := md_length s + of_nat (length x), md_state := st2, md_buffer := put_at 0 rest blk\<rparr>"
    proof -
      have "length rest < 64" by (simp add: rest minus_mult_div_eq_mod)
      then show ?thesis
        using False rd lb
        by (simp add: md5_update_def bl to_buffer_ready buf st1_def [symmetric] x1_def [symmetric] bk)
    qed
    have "length (m @ x) = length m + length x" by simp
    then have len: "length (m @ x) = 64 * Suc ?q + length x1"
      using m lx less_imp_le [OF b] unfolding mult_Suc_right by linarith
    have q: "length (m @ x) div 64 = Suc ?q + length x1 div 64" "length (m @ x) mod 64 = length x1 mod 64"
      unfolding len by (simp, rule mod_mult_self4)
    have "drop (64 * Suc ?q) (m @ x) = x1"
    proof -
      have "drop (64 * Suc ?q) (m @ x) = drop 64 (drop (64 * ?q) (m @ x))" by (simp add: add.commute)
      also have "drop (64 * ?q) (m @ x) = blk @ x1" by (simp add: blk_def x1_def)
      finally show ?thesis using lb by simp
    qed
    moreover have "drop (64 * (Suc ?q + length x1 div 64)) (m @ x) = drop (64 * (length x1 div 64)) (drop (64 * Suc ?q) (m @ x))"
      by (simp only: drop_drop distrib_left add.commute)
    ultimately have "rfc_blocks (Suc ?q + length x1 div 64) (m @ x) rfc_init = regs_of st2"
      "drop (64 * (Suc ?q + length x1 div 64)) (m @ x) = rest"
      unfolding rfc_blocks_add r2 r1 [symmetric] rest by simp_all
    moreover have "length rest = length x1 mod 64" by (simp add: rest minus_mult_div_eq_mod)
    moreover have "length st2 = 4" by (simp add: st2 st1_def md5_transform_block)
    moreover have "length x1 mod 64 < 64" by simp
    ultimately show ?thesis
      unfolding hashing_def q u using assms lb rd by (simp add: hashing_def put_at_def add.commute)
  qed
qed


lemma le64_bytes_small: "n < 4294967296 \<Longrightarrow> le64_bytes n = le_bytes (of_nat n) @ le_bytes 0"
proof -
  assume n: "n < 4294967296"
  have b: "(of_nat (n div 2 ^ k) :: u8) = ucast (drop_bit k (of_nat n :: u32))" for k
  proof (rule word_unat_eq_iff [THEN iffD2])
    show "unat (of_nat (n div 2 ^ k) :: u8) = unat (ucast (drop_bit k (of_nat n :: u32)) :: u8)"
      using n by (simp add: unsigned_of_nat unsigned_ucast_eq unat_drop_bit_eq take_bit_nat_def drop_bit_nat_def)
  qed
  have z: "n div 4294967296 = 0" "n div 1099511627776 = 0" "n div 281474976710656 = 0" "n div 72057594037927936 = 0"
    using n by simp_all
  have "[0..<8] = [0, 1, 2, 3, 4, 5, 6, 7 :: nat]" by (simp add: upt_rec)
  then show ?thesis
    using b [of 0] b [of 8] b [of 16] b [of 24] by (simp add: le64_bytes_def le_bytes_def z)
qed

lemma md5_final_ready:
  assumes "md5_ready s"
  shows "md5_final s =
    (let b = unat (md_length s AND 63);
         buf = put_at (b + 1) (replicate (64 - (b + 1)) 0) ((md_buffer s)[b := 0x80]);
         (buf, st) = (if b + 1 > 56 then (replicate 64 0, md5_transform buf (md_state s)) else (buf, md_state s));
         buf = put_at 60 (le_bytes 0) (put_at 56 (le_bytes (8 * md_length s)) buf);
         st = md5_transform buf st
     in (concat (map le_bytes st), s\<lparr>md_buffer := buf, md_state := st\<rparr>))"
proof -
  have b: "unat (md_length s AND 63) < 64"
    using unat_and_63 [of "unat (md_length s)"] by simp
  have z: "put_at 0 (replicate 64 0) c = replicate 64 (0 :: u8)" if "length c = 64" for c
    using that by (simp add: put_at_def)
  have l: "length (md_buffer s) = 64" by (rule md5_ready_buffer [OF assms])
  show ?thesis
    using assms b l by (simp add: md5_final_def Let_def to_buffer_ready z)
qed

lemma hashing_final:
  assumes "hashing m s" and "8 * length m < 4294967296"
  shows "fst (md5_final s) = rfc_md5 m"
proof -
  let ?b = "length m mod 64" and ?q = "length m div 64"
  have rd: "md5_ready s" using assms by (simp add: hashing_def)
  note l64 = md5_ready_buffer [OF rd]
  have bl: "unat (md_length s AND 63) = ?b" and l4: "length (md_state s) = 4"
    and st: "regs_of (md_state s) = rfc_blocks ?q m rfc_init" and tk: "take ?b (md_buffer s) = drop (64 * ?q) m"
    and ln: "md_length s = of_nat (length m)"
    using assms by (simp_all add: hashing_def unat_and_63)
  have b: "?b < 64" by simp
  define tail where "tail = le_bytes (8 * md_length s) @ le_bytes 0"
  have tail: "tail = le64_bytes (8 * length m)" "length tail = 8"
    using le64_bytes_small [OF assms(2)] by (simp_all add: tail_def ln le_bytes_def)
  note fin = md5_final_ready [OF rd, unfolded Let_def bl]
  define r where "r = drop (64 * ?q) m"
  have rl: "length r = ?b" by (simp add: r_def minus_mult_div_eq_mod)
  have mr: "m = take (64 * ?q) m @ r" by (simp add: r_def)
  have e1: "put_at (?b + 1) (replicate (64 - (?b + 1)) 0) ((md_buffer s)[?b := 0x80]) = r @ 0x80 # replicate (63 - ?b) 0"
    using b l64 tk by (simp add: put_at_def r_def take_Suc_conv_app_nth)
  have put: "put_at 60 (le_bytes 0) (put_at 56 (le_bytes (8 * md_length s)) buf) = take 56 buf @ tail" if "length buf = 64" for buf
    using that by (simp add: put_at_def tail_def le_bytes_def)
  have digest: "fst (md5_final s) = concat (map rfc_bytes (list_of (rfc_blocks n r' (regs_of (md_state s)))))"
    if "r' = r @ 0x80 # replicate k 0 @ tail" "?b + 9 + k = 64 * n" "n = 1 \<or> n = 2" "k < 64" for n k r'
  proof -
    have "n = 1 \<longleftrightarrow> ?b + 1 \<le> 56" using that(2-4) b by auto
    show ?thesis
    proof (cases "n = 1")
      case True
      then have c: "?b + 1 \<le> 56" "k = 55 - ?b" using that(2) by simp_all
      have "take 56 (r @ 0x80 # replicate (63 - ?b) 0) = r @ 0x80 # replicate k 0"
      proof -
        have "56 - ?b = Suc (55 - ?b)" using c by simp
        moreover have "55 - ?b \<le> 63 - ?b" by (rule diff_le_mono) simp
        ultimately show ?thesis using c rl by (simp add: min_def)
      qed
      then show ?thesis
        using True that(1) c rl tail(2) e1 put [of "r @ 0x80 # replicate (63 - ?b) 0"]
        by (simp add: fin md5_transform_block le_bytes_rfc)
    next
      case False
      then have "n = 2" using that(3) by simp
      then have c: "56 < ?b + 1" "k = 119 - ?b" "n = 2" using that(2,4) by linarith+
      have two: "take 64 r' = r @ 0x80 # replicate (63 - ?b) 0" "drop 64 r' = replicate 56 0 @ tail"
      proof -
        have kk: "k = (63 - ?b) + 56" using c(2) b by simp
        define w where "w = r @ 0x80 # replicate (63 - ?b) 0"
        have w: "r' = w @ replicate 56 0 @ tail" unfolding that(1) kk replicate_add w_def by simp
        have "length w = 64" using b rl by (simp add: w_def)
        then show "take 64 r' = r @ 0x80 # replicate (63 - ?b) 0" "drop 64 r' = replicate 56 0 @ tail"
          unfolding w w_def [symmetric] by simp_all
      qed
      have "rfc_blocks 2 r' (regs_of (md_state s)) = rfc_block (drop 64 r') (rfc_block (take 64 r') (regs_of (md_state s)))"
        using c(2) rl tail(2) b by (simp add: numeral_2_eq_2 that(1))
      then show ?thesis
        using c rl tail(2) e1 put [of "replicate 64 0"]
        by (simp add: fin md5_transform_block two le_bytes_rfc)
    qed
  qed
  define k where "k = nat ((55 - int (length m)) mod 64)"
  have k: "k < 64" "(?b + 9 + k) mod 64 = 0"
  proof -
    show "k < 64" by (simp add: k_def nat_less_iff)
    have "int ((?b + 9 + k) mod 64) = (int (length m) mod 64 + 9 + (55 - int (length m)) mod 64) mod 64"
      by (simp add: k_def zmod_int)
    also have "\<dots> = 0" by (simp add: mod_simps)
    finally show "(?b + 9 + k) mod 64 = 0" by simp
  qed
  have pad: "rfc_pad m = m @ 0x80 # replicate k 0 @ tail" by (simp add: rfc_pad_def k_def tail)
  define n where "n = (?b + 9 + k) div 64"
  have n: "?b + 9 + k = 64 * n" using k(2) by (simp add: n_def) (metis mult_div_mod_eq add_0_right)
  then have n12: "n = 1 \<or> n = 2" using k(1) b by linarith
  have pl: "length (rfc_pad m) = 64 * (?q + n)"
  proof -
    have "length (rfc_pad m) = length m + 9 + k" by (simp add: pad tail(2))
    moreover have "length m = 64 * ?q + ?b" by simp
    ultimately show ?thesis using n unfolding distrib_left by linarith
  qed
  have "rfc_blocks (?q + n) (rfc_pad m) rfc_init = rfc_blocks n (drop (64 * ?q) (rfc_pad m)) (rfc_blocks ?q (rfc_pad m) rfc_init)"
    by (rule rfc_blocks_add)
  also have "drop (64 * ?q) (rfc_pad m) = r @ 0x80 # replicate k 0 @ tail" by (simp add: pad r_def)
  also have "rfc_blocks ?q (rfc_pad m) rfc_init = regs_of (md_state s)" by (simp add: pad st rfc_blocks_prefix)
  finally have "rfc_md5 m = concat (map rfc_bytes (list_of (rfc_blocks n (r @ 0x80 # replicate k 0 @ tail) (regs_of (md_state s)))))"
    by (simp add: rfc_md5_def pl rfc_init_def split: prod.splits)
  then show ?thesis using digest [OF refl n n12 k(1)] by simp
qed


lemma md5_transform_length: "length (concat (map le_bytes (md5_transform M st))) = 16"
  by (cases "rfc_block M (regs_of st)") (simp add: md5_transform_block le_bytes_def)

lemma md5_final_sizes:
  assumes "md5_ready s"
  shows "md5_ready (snd (md5_final s))" and "length (fst (md5_final s)) = 16"
proof -
  have b: "unat (md_length s AND 63) < 64"
    using unat_and_63 [of "unat (md_length s)"] by simp
  have l: "length (md_buffer s) = 64" by (rule md5_ready_buffer [OF assms])
  show "md5_ready (snd (md5_final s))"
    using b l assms by (simp add: md5_final_ready [OF assms] Let_def le_bytes_def)
  show "length (fst (md5_final s)) = 16"
    by (simp add: md5_final_ready [OF assms] Let_def md5_transform_length split: prod.splits)
qed

section \<open>Streaming as an interface\<close>

text \<open>A hash fed in pieces: \<open>start\<close>, any number of \<open>feed\<close>s, \<open>finish\<close>. \<open>fits\<close> bounds the messages for
  which the result is that of \<open>hash\<close>.\<close>

locale streaming_hash =
  fixes start :: "'s \<Rightarrow> 's" and feed :: "'a list \<Rightarrow> 's \<Rightarrow> 's" and finish :: "'s \<Rightarrow> 'd \<times> 's"
    and repr :: "'a list \<Rightarrow> 's \<Rightarrow> bool" and wf :: "'s \<Rightarrow> bool" and hash :: "'a list \<Rightarrow> 'd" and fits :: "nat \<Rightarrow> bool"
  assumes repr_start: "wf s \<Longrightarrow> repr [] (start s)"
    and repr_feed: "repr m s \<Longrightarrow> repr (m @ x) (feed x s)"
    and repr_finish: "repr m s \<Longrightarrow> fits (length m) \<Longrightarrow> fst (finish s) = hash m"
    and wf_finish: "repr m s \<Longrightarrow> wf (snd (finish s))"
begin

lemma repr_feeds: "repr m s \<Longrightarrow> repr (m @ concat xs) (fold feed xs s)"
proof (induction xs arbitrary: m s)
  case (Cons x xs)
  from Cons.IH [OF repr_feed [OF Cons.prems]] show ?case by simp
qed simp

definition hash_chunks :: "'a list list \<Rightarrow> 's \<Rightarrow> 'd \<times> 's" where
  "hash_chunks xs s = finish (fold feed xs (start s))"

lemma hash_chunks:
  assumes "wf s"
  shows "fits (length (concat xs)) \<Longrightarrow> fst (hash_chunks xs s) = hash (concat xs)" and "wf (snd (hash_chunks xs s))"
  using repr_finish [OF repr_feeds [OF repr_start [OF assms], of xs, simplified]]
    wf_finish [OF repr_feeds [OF repr_start [OF assms], of xs, simplified]]
  by (simp_all add: hash_chunks_def)

end

lemma hashing_ready: "hashing m s \<Longrightarrow> md5_ready s"
  by (simp add: hashing_def)

interpretation stream: streaming_hash md5_init md5_update md5_final hashing md5_ready rfc_md5 "\<lambda>n. 8 * n < 4294967296"
  by unfold_locales (auto simp: hashing_init hashing_update hashing_final hashing_ready md5_final_sizes)


section \<open>Properties\<close>

text \<open>C12: hashing a message in any sequence of pieces gives the digest of RFC 1321, for messages shorter
  than 512 MiB; only then does their length in bits fit into the 32 bits that are stored.\<close>

theorem md5_stream_correct:
  assumes "md5_ready s" and "8 * length (concat chunks) < 4294967296"
  shows "fst (md5_final (fold md5_update chunks (md5_init s))) = rfc_md5 (concat chunks)"
  using stream.hash_chunks(1) [OF assms(1), of chunks] assms(2) by (simp add: stream.hash_chunks_def)

definition demo_md5 :: md5 where
  "demo_md5 = \<lparr>gmem = \<lambda>_. 0, errnum = ERR_NONE, mem_lower = 640, mem_upper = 0, md_state = [], md_length = 7,
     md_buffer = replicate 64 0xFF, alt_result = [], state_at = 0x2000, buffer_at = 0x2010, alt_at = 0x3000\<rparr>"

lemma demo_md5_ready: "md5_ready demo_md5"
  by (simp add: md5_ready_def fits_low_def demo_md5_def)

lemma md5_stream_correct_witness:
  "fst (md5_final (fold md5_update [bytes_of ''mess'', [], bytes_of ''age''] (md5_init demo_md5))) = rfc_md5 (bytes_of ''message'')"
  using md5_stream_correct [of demo_md5 "[bytes_of ''mess'', [], bytes_of ''age'']"]
  by (simp add: demo_md5_ready bytes_of_def)

text \<open>C24: each block transformation of the code, in four loops with shifts, is the 64-step transformation of
  the RFC.\<close>

theorem md5_transform_correct:
  "md5_transform M st = list_of (rfc_block M (regs_of st))"
  by (rule md5_transform_block)

end
