(* ===== verification/Md5_Password.thy ===== *)
theory Md5_Password
  imports Md5
begin

text \<open>
  The password check of src/grub-0.97/stage2/md5.c: \<open>md5_password\<close>, which either checks a key against a
  crypted password or writes the digest behind the salt.
\<close>

section \<open>The routine\<close>

definition b64t :: "u8 list" where
  "b64t = bytes_of ''./0123456789ABCDEFGHIJKLMNOPQRSTUVWXYZabcdefghijklmnopqrstuvwxyz''"

text \<open>The position of the dollar sign in a C string, if there is one.\<close>

fun find_dollar :: "u8 list \<Rightarrow> nat option" where
  "find_dollar [] = None"
| "find_dollar (c # cs) =
     (if c = 0 then None else if c = 0x24 then Some 0 else map_option Suc (find_dollar cs))"

definition c_strlen :: "u8 list \<Rightarrow> nat" where
  "c_strlen buf = length (takeWhile (\<lambda>c. c \<noteq> 0) buf)"

text \<open>The pieces that the loops of \<open>md5_password\<close> feed: the first digest in blocks of 16 up to the length
  of the key, then a byte for each bit of that length, the NUL of the key for a one.\<close>

function alt_chunks :: "nat \<Rightarrow> u8 list \<Rightarrow> u8 list list" where
  "alt_chunks i alt = (if i > 16 then take 16 alt # alt_chunks (i - 16) alt else [take i alt])"
  by pat_completeness auto
termination by (relation "measure fst") auto

function bit_chunks :: "nat \<Rightarrow> u8 list \<Rightarrow> u8 list list" where
  "bit_chunks i key =
     (if i > 0 then [(key @ [0]) ! (if i mod 2 = 1 then length key else 0)] # bit_chunks (i div 2) key else [])"
  by pat_completeness auto
termination by (relation "measure fst") auto

declare alt_chunks.simps [simp del] bit_chunks.simps [simp del]

definition round_chunks :: "nat \<Rightarrow> u8 list \<Rightarrow> u8 list \<Rightarrow> u8 list \<Rightarrow> u8 list list" where
  "round_chunks i key salt alt =
     [if i mod 2 \<noteq> 0 then key else alt]
     @ (if i mod 3 \<noteq> 0 then [salt] else []) @ (if i mod 7 \<noteq> 0 then [key] else [])
     @ [if i mod 2 \<noteq> 0 then alt else key]"

definition md5_run :: "u8 list list \<Rightarrow> md5 \<Rightarrow> u8 list \<times> md5" where
  "md5_run chunks s = md5_final (fold md5_update chunks (md5_init s))"

text \<open>\<open>memcpy (alt_result, digest, 16)\<close>.\<close>

definition keep_digest :: "u8 list \<Rightarrow> md5 \<Rightarrow> md5" where
  "keep_digest digest s = checked_copy (alt_at s) 16 (\<lambda>s. s\<lparr>alt_result := digest\<rparr>) s"

text \<open>The digest part; \<open>header\<close> is the salt with the three characters before it.\<close>

definition password_digest :: "u8 list \<Rightarrow> u8 list \<Rightarrow> u8 list \<Rightarrow> md5 \<Rightarrow> u8 list \<times> md5" where
  "password_digest key salt header s =
     (let (digest, s) = md5_run [key, salt, key] s;
          s = keep_digest digest s;
          (digest, s) = md5_run ([key, header] @ alt_chunks (length key) (alt_result s) @ bit_chunks (length key) key) s
      in for_n 0 1000
           (\<lambda>i (digest, s). let s = keep_digest digest s in md5_run (round_chunks i key salt (alt_result s)) s) (digest, s))"

text \<open>The characters of the digest: five groups of four, then two.\<close>

fun chars64 :: "nat \<Rightarrow> u32 \<Rightarrow> u8 list" where
  "chars64 0 w = []"
| "chars64 (Suc n) w = b64t ! unat (w AND 0x3f) # chars64 n (drop_bit 6 w)"

definition digest_chars :: "u8 list \<Rightarrow> u8 list" where
  "digest_chars digest =
     concat (map (\<lambda>i. chars64 4 (ucast (digest ! (if i = 4 then 5 else 12 + i)) OR push_bit 8 (ucast (digest ! (6 + i)))
       OR push_bit 16 (ucast (digest ! i)))) [0..<5])
     @ chars64 2 (ucast (digest ! 11))"

text \<open>The comparison returns at the first difference; there is no value once it leaves the array.\<close>

fun check_chars :: "u8 list \<Rightarrow> nat \<Rightarrow> u8 list \<Rightarrow> u8 option" where
  "check_chars [] p buf = (if p < length buf then Some (buf ! p) else None)"
| "check_chars (c # cs) p buf =
     (if p < length buf then if buf ! p \<noteq> c then Some 1 else check_chars cs (p + 1) buf else None)"

text \<open>
  \<open>crypted\<close> is the array at the address \<open>crypted_at\<close>. The length of the salt is the difference of two
  pointers, the one of the dollar sign, which is null when there is none, and the one of the salt. A
  length that is negative, and a digest that does not fit into the array, make the routine read or write
  outside of it, and then there is no value.
\<close>

definition md5_password :: "u8 list \<Rightarrow> u32 \<Rightarrow> u8 list \<Rightarrow> bool \<Rightarrow> md5 \<Rightarrow> (u8 \<times> u8 list \<times> md5) option" where
  "md5_password key crypted_at crypted check s =
     (if check then
        if c_strlen crypted \<le> 3 then Some (1, crypted, s)
        else
          let salt = crypted_at + 3;
              dollar = (case find_dollar (drop 3 crypted) of Some e \<Rightarrow> salt + of_nat e | None \<Rightarrow> 0);
              saltlen = sint (dollar - salt)
          in if saltlen < 0 \<or> int (length crypted) < 3 + saltlen then None
             else
               let saltlen = nat saltlen;
                   (digest, s) = password_digest key (take saltlen (drop 3 crypted)) (take (3 + saltlen) crypted) s
               in do {
                    r \<leftarrow> check_chars (digest_chars digest) (3 + saltlen + 1) crypted;
                    Some (r, crypted, s)
                  }
      else
        let saltlen = (case find_dollar (drop 3 crypted) of Some e \<Rightarrow> if e < 8 then e else 8 | None \<Rightarrow> 8)
        in if length crypted < 3 + saltlen + 24 then None
           else
             let crypted = crypted[3 + saltlen := 0x24];
                 (digest, s) = password_digest key (take saltlen (drop 3 crypted)) (take (3 + saltlen) crypted) s
             in Some (0, put_at (3 + saltlen + 1) (digest_chars digest @ [0]) crypted, s))"

section \<open>The digest depends on the key and the salt only\<close>

definition crypt_md5 :: "u8 list \<Rightarrow> u8 list \<Rightarrow> u8 list \<Rightarrow> u8 list" where
  "crypt_md5 key salt header =
     (let a = rfc_md5 (key @ salt @ key);
          d = rfc_md5 (key @ header @ concat (alt_chunks (length key) a) @ concat (bit_chunks (length key) key))
      in for_n 0 1000 (\<lambda>i d. rfc_md5 (concat (round_chunks i key salt d))) d)"

lemma alt_chunks_length: "length (concat (alt_chunks i alt)) \<le> i"
proof (induction i alt rule: alt_chunks.induct)
  case (1 i alt)
  then show ?case by (subst alt_chunks.simps) auto
qed

lemma bit_chunks_length: "length (concat (bit_chunks i key)) \<le> i"
proof (induction i key rule: bit_chunks.induct)
  case (1 i key)
  then show ?case by (subst bit_chunks.simps) auto
qed

lemma md5_run_hash:
  assumes "md5_ready s" and "8 * length (concat chunks) < 4294967296"
  obtains s' where "md5_run chunks s = (rfc_md5 (concat chunks), s')" and "md5_ready s'"
  using stream.hash_chunks [OF assms(1), of chunks] assms(2) that
  unfolding md5_run_def stream.hash_chunks_def by (metis prod.collapse)

lemma rfc_md5_length: "length (rfc_md5 m) = 16"
  by (simp add: rfc_md5_def le_bytes_def split: prod.splits)

lemma keep_digest_ready: "md5_ready s \<Longrightarrow> keep_digest d s = s\<lparr>alt_result := d\<rparr>"
  using checked_copy_low [of "alt_at s" 17 s 0 16] by (simp add: keep_digest_def md5_ready_def)

lemma password_digest_ref:
  assumes "md5_ready s" and "length key < 67108864" and "length salt \<le> 8" and "length header \<le> 11"
  obtains s' where "password_digest key salt header s = (crypt_md5 key salt header, s')" and "md5_ready s'"
proof -
  let ?a = "rfc_md5 (key @ salt @ key)"
  let ?cs = "[key, header] @ alt_chunks (length key) ?a @ bit_chunks (length key) key"
  obtain t1 where t1: "md5_run [key, salt, key] s = (?a, t1)" "md5_ready t1"
    by (rule md5_run_hash [OF assms(1), of "[key, salt, key]"]) (use assms(2,3) in auto)
  have "8 * length (concat ?cs) < 4294967296"
    using alt_chunks_length [of "length key" ?a] bit_chunks_length [of "length key" key] assms(2,4) by simp
  moreover have "md5_ready (keep_digest ?a t1)" using t1(2) by (simp add: keep_digest_ready)
  ultimately obtain t2 where t2: "md5_run ?cs (keep_digest ?a t1) = (rfc_md5 (concat ?cs), t2)" "md5_ready t2"
    using md5_run_hash by blast
  define body where "body = (\<lambda>i (digest, s). let s = keep_digest digest s in md5_run (round_chunks i key salt (alt_result s)) s)"
  define hash where "hash n = for_n 0 n (\<lambda>i d. rfc_md5 (concat (round_chunks i key salt d))) (rfc_md5 (concat ?cs))" for n
  have rounds: "\<exists>s'. for_n 0 n body (rfc_md5 (concat ?cs), t2) = (hash n, s') \<and> md5_ready s' \<and> length (hash n) = 16" for n
  proof (induction n)
    case 0
    show ?case using t2(2) by (simp add: hash_def rfc_md5_length)
  next
    case (Suc n)
    then obtain s1 where s1: "for_n 0 n body (rfc_md5 (concat ?cs), t2) = (hash n, s1)" "md5_ready s1" "length (hash n) = 16"
      by blast
    have "8 * length (concat (round_chunks n key salt (hash n))) < 4294967296"
      using assms(2,3) s1(3) by (simp add: round_chunks_def)
    moreover have "md5_ready (keep_digest (hash n) s1)" using s1(2) by (simp add: keep_digest_ready)
    ultimately obtain s2 where s2: "md5_run (round_chunks n key salt (hash n)) (keep_digest (hash n) s1)
        = (rfc_md5 (concat (round_chunks n key salt (hash n))), s2)" "md5_ready s2"
      using md5_run_hash by blast
    have "body n (hash n, s1) = (hash (Suc n), s2)"
      using s1(2) s2(1) by (simp add: body_def hash_def keep_digest_ready for_n_Suc_end del: for_n.simps(2))
    then have "for_n 0 (Suc n) body (rfc_md5 (concat ?cs), t2) = (hash (Suc n), s2)"
      unfolding for_n_Suc_end s1(1) by simp
    moreover have "length (hash (Suc n)) = 16" unfolding hash_def for_n_Suc_end by (rule rfc_md5_length)
    ultimately show ?case using s2(2) by blast
  qed
  obtain s' where s': "for_n 0 1000 body (rfc_md5 (concat ?cs), t2) = (hash 1000, s')" "md5_ready s'"
    using rounds [of 1000] by blast
  have "password_digest key salt header s = for_n 0 1000 body (rfc_md5 (concat ?cs), t2)"
    using t1 t2(1) unfolding password_digest_def body_def [symmetric] by (simp add: keep_digest_ready Let_def)
  then show ?thesis using that [of s'] s' by (simp add: crypt_md5_def hash_def Let_def)
qed

lemma find_dollar_salt: "0 \<notin> set salt \<Longrightarrow> 0x24 \<notin> set salt \<Longrightarrow> find_dollar (salt @ 0x24 # rest) = Some (length salt)"
  by (induction salt) auto

lemma find_dollar_none: "0 \<notin> set salt \<Longrightarrow> 0x24 \<notin> set salt \<Longrightarrow>
  (case find_dollar (salt @ rest) of Some e \<Rightarrow> length salt \<le> e | None \<Rightarrow> True)"
  by (induction salt) (auto split: option.splits)

lemma check_chars_same: "drop p buf = cs @ c # rest \<Longrightarrow> check_chars cs p buf = Some c"
proof (induction cs arbitrary: p)
  case Nil
  then show ?case using nth_drop [of p buf 0] by (cases "p < length buf") auto
next
  case (Cons d cs)
  then have "buf ! p = d" "p < length buf" using nth_drop [of p buf 0] by (cases "p < length buf"; auto)+
  moreover have "drop (p + 1) buf = cs @ c # rest" using Cons.prems by (metis drop_Suc_Cons drop_drop append_Cons Suc_eq_plus1 plus_1_eq_Suc drop0)
  ultimately show ?case using Cons.IH by simp
qed


lemma check_chars_other: "length d = length cs \<Longrightarrow> d \<noteq> cs \<Longrightarrow> drop p buf = d @ rest \<Longrightarrow> check_chars cs p buf = Some 1"
proof (induction cs arbitrary: p d)
  case (Cons c cs)
  then obtain c' d' where d: "d = c' # d'" by (cases d) auto
  then have "p < length buf" "buf ! p = c'" using Cons.prems(3) nth_drop [of p buf 0] by (cases "p < length buf"; auto)+
  moreover have "drop (p + 1) buf = d' @ rest" using Cons.prems(3) d by (metis drop_Suc_Cons drop_drop append_Cons Suc_eq_plus1 plus_1_eq_Suc drop0)
  ultimately show ?case using Cons.IH [of d' "p + 1"] Cons.prems(1,2) d by auto
qed simp

lemma digest_chars_length: "length (digest_chars d) = 22"
proof -
  have c: "length (chars64 n w) = n" for n w by (induction n arbitrary: w) auto
  show ?thesis by (simp add: digest_chars_def c upt_rec)
qed

text \<open>The array with a header of three characters, a salt, and room for the digest.\<close>

lemma md5_password_crypt:
  assumes "length magic = 3" and "length salt \<le> 8" and "0 \<notin> set salt" and "0x24 \<notin> set salt" and "length salt = 8 \<or> c = 0x24"
    and "length rest \<ge> 23" and "md5_ready s" and "length key < 67108864"
  obtains s' where "md5_password key crypted_at (magic @ salt @ c # rest) False s
      = Some (0, magic @ salt @ 0x24 # digest_chars (crypt_md5 key salt (magic @ salt)) @ 0 # drop 23 rest, s')"
    and "md5_ready s'"
proof -
  let ?buf = "magic @ salt @ c # rest"
  have f: "(case find_dollar (drop 3 ?buf) of Some e \<Rightarrow> if e < 8 then e else 8 | None \<Rightarrow> 8) = length salt"
  proof (cases "length salt = 8")
    case True
    then show ?thesis
      using find_dollar_none [OF assms(3,4), of "c # rest"] assms(1) by (auto split: option.splits)
  next
    case False
    then have "find_dollar (salt @ c # rest) = Some (length salt)" using find_dollar_salt [OF assms(3,4)] assms(5) by simp
    then show ?thesis using assms(1,2) False by simp
  qed
  have u: "?buf[3 + length salt := 0x24] = magic @ salt @ 0x24 # rest" using assms(1) by (simp add: list_update_append)
  obtain s' where d: "password_digest key salt (magic @ salt) s = (crypt_md5 key salt (magic @ salt), s')" "md5_ready s'"
    by (rule password_digest_ref [OF assms(7,8,2), of "magic @ salt"]) (use assms(1,2) in auto)
  let ?dc = "digest_chars (crypt_md5 key salt (magic @ salt))"
  have p: "put_at (3 + length salt + 1) (?dc @ [0]) (magic @ salt @ 0x24 # rest) = magic @ salt @ 0x24 # ?dc @ 0 # drop 23 rest"
    using assms(1) by (simp add: put_at_def digest_chars_length)
  have "md5_password key crypted_at ?buf False s = Some (0, magic @ salt @ 0x24 # ?dc @ 0 # drop 23 rest, s')"
    unfolding md5_password_def if_False f Let_def u using assms(1,6) d(1) p by simp
  then show ?thesis using that d(2) by blast
qed

lemma md5_password_check:
  assumes "length magic = 3" and "0 \<notin> set magic" and "length salt \<le> 8" and "0 \<notin> set salt" and "0x24 \<notin> set salt"
    and "md5_ready s" and "length key < 67108864"
  shows "map_option fst (md5_password key crypted_at (magic @ salt @ 0x24 # tail) True s)
    = check_chars (digest_chars (crypt_md5 key salt (magic @ salt))) (4 + length salt) (magic @ salt @ 0x24 # tail)"
proof -
  have l: "\<not> c_strlen (magic @ salt @ 0x24 # tail) \<le> 3"
    using assms(1,2,4) by (auto simp: c_strlen_def takeWhile_append)
  obtain s' where d: "password_digest key salt (magic @ salt) s = (crypt_md5 key salt (magic @ salt), s')"
    by (rule password_digest_ref [OF assms(6,7,3), of "magic @ salt"]) (use assms(1,3) in auto)
  have "sint (of_nat (length salt) :: u32) = int (length salt)" by (rule sint_of_nat_u32) (use assms(3) in simp)
  then show ?thesis
    using l assms(1) find_dollar_salt [OF assms(4,5), of tail] d
    by (cases "check_chars (digest_chars (crypt_md5 key salt (magic @ salt))) (4 + length salt) (magic @ salt @ 0x24 # tail)")
      (simp_all add: md5_password_def Let_def)
qed

section \<open>Properties\<close>

text \<open>C13: a crypted password verifies against its key, and no other text does: \<open>md5_password\<close> writes a dollar sign and
  22 characters behind a salt of at most eight characters, and the check of the same key returns 0 for them
  and 1 for any other 22 characters, whatever has been hashed in between.\<close>

theorem md5_password_roundtrip:
  assumes "length magic = 3" and "0 \<notin> set magic" and "length salt \<le> 8" and "0 \<notin> set salt" and "0x24 \<notin> set salt"
    and "length salt = 8 \<or> c = 0x24" and "length rest \<ge> 23" and "length key < 67108864"
    and "md5_ready s" and "md5_ready t"
  shows "\<exists>d s'. md5_password key crypted_at (magic @ salt @ c # rest) False s
      = Some (0, magic @ salt @ 0x24 # d @ 0 # drop 23 rest, s') \<and> length d = 22 \<and> md5_ready s'
    \<and> (\<forall>d'. length d' = 22 \<longrightarrow> map_option fst (md5_password key crypted_at (magic @ salt @ 0x24 # d' @ 0 # drop 23 rest) True t)
        = Some (if d' = d then 0 else 1))"
proof -
  let ?dc = "digest_chars (crypt_md5 key salt (magic @ salt))"
  let ?buf = "\<lambda>d. magic @ salt @ 0x24 # d @ 0 # drop 23 rest"
  obtain s' where s': "md5_password key crypted_at (magic @ salt @ c # rest) False s = Some (0, ?buf ?dc, s')" "md5_ready s'"
    by (rule md5_password_crypt [OF assms(1,3-7,9,8)])
  have "map_option fst (md5_password key crypted_at (?buf d) True t) = Some (if d = ?dc then 0 else 1)" if "length d = 22" for d
  proof -
    have "check_chars ?dc (4 + length salt) (?buf d) = Some (if d = ?dc then 0 else 1)"
      using check_chars_same [of "4 + length salt" "?buf d" ?dc 0 "drop 23 rest"]
        check_chars_other [of d ?dc "4 + length salt" "?buf d" "0 # drop 23 rest"] assms(1) that
      by (simp add: digest_chars_length)
    then show ?thesis using md5_password_check [OF assms(1-5,10,8), of crypted_at "d @ 0 # drop 23 rest"] by simp
  qed
  with s' show ?thesis by (blast intro: digest_chars_length)
qed

lemma md5_password_roundtrip_witness:
  "\<exists>d s'. md5_password (bytes_of ''Hello world!'') 0x5000 (bytes_of ''$1$saltstri$'' @ replicate 23 0) False demo_md5
      = Some (0, bytes_of ''$1$saltstri$'' @ d @ [0], s') \<and> length d = 22 \<and> md5_ready s'
    \<and> (\<forall>d'. length d' = 22 \<longrightarrow> map_option fst (md5_password (bytes_of ''Hello world!'') 0x5000 (bytes_of ''$1$saltstri$'' @ d' @ [0]) True demo_md5)
        = Some (if d' = d then 0 else 1))"
  using md5_password_roundtrip [of "bytes_of ''$1$''" "bytes_of ''saltstri''" "0x24" "replicate 23 0" "bytes_of ''Hello world!''" demo_md5 demo_md5 "0x5000"]
  by (simp add: bytes_of_def demo_md5_ready)

end
