(* ===== verification/Grub_Term.thy ===== *)
theory Grub_Term
  imports Grub_Memory
begin

text \<open>
  The terminal layer of src/grub-0.97/stage2/char_io.c: \<open>grub_putchar\<close> with its pager,
  \<open>grub_printf\<close>, and the calls through \<open>current_term\<close>. What the functions of the terminal return is
  given with the terminal, as a function of what has happened on it; what they do is a trace of events.
\<close>

section \<open>Terminals\<close>

datatype color_state = COLOR_STATE_STANDARD | COLOR_STATE_NORMAL | COLOR_STATE_HIGHLIGHT

datatype term_event =
  Put u32 | Goto u32 u32 | Clear | SetColorState color_state | SetCursor u32 | GetKey u32

text \<open>A function pointer that is null has no value. The functions \<open>putchar\<close>, \<open>getkey\<close> and \<open>cls\<close> of a
  terminal are never tested for null.\<close>

record term_entry =
  flags :: u32
  term_getkey :: "term_event list \<Rightarrow> u32"
  term_checkkey :: "term_event list \<Rightarrow> u32"
  term_getxy :: "(term_event list \<Rightarrow> u32) option"
  has_setcolorstate :: bool
  term_setcursor :: "(term_event list \<Rightarrow> u32) option"

definition TERM_NO_ECHO :: u32 where "TERM_NO_ECHO = 1"
definition TERM_NO_EDIT :: u32 where "TERM_NO_EDIT = 2"
definition TERM_DUMB :: u32 where "TERM_DUMB = 4"

text \<open>\<open>max_lines\<close> and \<open>count_lines\<close> count lines of a screen. The trace has the last event first.\<close>

record grub_term = grub +
  current_term :: term_entry
  max_lines :: int
  count_lines :: int
  shown :: "term_event list"

definition emit :: "term_event \<Rightarrow> 'a grub_term_scheme \<Rightarrow> 'a grub_term_scheme" where
  "emit e s = s\<lparr>shown := e # shown s\<rparr>"

definition getkey :: "'a grub_term_scheme \<Rightarrow> u32 \<times> 'a grub_term_scheme" where
  "getkey s = (let k = term_getkey (current_term s) (shown s) in (k, emit (GetKey k) s))"

definition checkkey :: "'a grub_term_scheme \<Rightarrow> u32" where
  "checkkey s = term_checkkey (current_term s) (shown s)"

definition gotoxy :: "u32 \<Rightarrow> u32 \<Rightarrow> 'a grub_term_scheme \<Rightarrow> 'a grub_term_scheme" where
  "gotoxy x y s = emit (Goto x y) s"

definition getxy :: "'a grub_term_scheme \<Rightarrow> u32 option" where
  "getxy s = map_option (\<lambda>f. f (shown s)) (term_getxy (current_term s))"

definition setcursor :: "u32 \<Rightarrow> 'a grub_term_scheme \<Rightarrow> u32 \<times> 'a grub_term_scheme" where
  "setcursor on s =
     (case term_setcursor (current_term s) of
        Some f \<Rightarrow> (f (shown s), emit (SetCursor on) s)
      | None \<Rightarrow> (1, s))"

definition setcolorstate :: "color_state \<Rightarrow> 'a grub_term_scheme \<Rightarrow> 'a grub_term_scheme" where
  "setcolorstate c s = (if has_setcolorstate (current_term s) then emit (SetColorState c) s else s)"

section \<open>Characters\<close>

text \<open>
  The body of \<open>grub_putchar\<close>. The recursive calls for a carriage return and for the spaces of a tab end
  at the last line. \<open>full\<close> is what happens when the screen is full.
\<close>

definition putchar_with :: "('a grub_term_scheme \<Rightarrow> 'a grub_term_scheme option) \<Rightarrow> u32 \<Rightarrow> 'a grub_term_scheme \<Rightarrow> 'a grub_term_scheme option" where
  "putchar_with full c s =
     (let s = (if c = 0x0A then emit (Put 0x0D) s else s)
      in case getxy s of
        Some xy \<Rightarrow>
          if c = 0x09 then Some ((emit (Put 0x20) ^^ (8 - unat (drop_bit 8 xy AND 3))) s)
          else if c = 0x0A \<and> count_lines s \<ge> 0 then
            let s = s\<lparr>count_lines := count_lines s + 1\<rparr>
            in if count_lines s \<ge> max_lines s - 2 then full s else Some (emit (Put c) s)
          else Some (emit (Put c) s)
      | None \<Rightarrow>
          if c = 0x0A \<and> count_lines s \<ge> 0 then
            let s = s\<lparr>count_lines := count_lines s + 1\<rparr>
            in if count_lines s \<ge> max_lines s - 2 then full s else Some (emit (Put c) s)
          else Some (emit (Put c) s))"

text \<open>A constant text without percent signs, printed character by character.\<close>

fun put_all :: "(u32 \<Rightarrow> 'a grub_term_scheme \<Rightarrow> 'a grub_term_scheme option) \<Rightarrow> u8 list \<Rightarrow> 'a grub_term_scheme \<Rightarrow> 'a grub_term_scheme option" where
  "put_all put [] s = Some s"
| "put_all put (c # cs) s = do { s \<leftarrow> put (sx8 c) s; put_all put cs s }"

partial_function (option) wait_return :: "'a grub_term_scheme \<Rightarrow> 'a grub_term_scheme option" where
  "wait_return s =
     (let (k, s) = getkey s; tmp = k AND 0xFF
      in if tmp \<noteq> 0x0A \<and> tmp \<noteq> 0x0D then wait_return s else Some s)"

text \<open>The pager runs with \<open>count_lines\<close> set to -1, where \<open>grub_putchar\<close> does not come back to it.\<close>

definition more_prompt :: "'a grub_term_scheme \<Rightarrow> 'a grub_term_scheme option" where
  "more_prompt s =
     do {
       let s = s\<lparr>count_lines := -1\<rparr>;
       let s = setcolorstate COLOR_STATE_HIGHLIGHT s;
       s \<leftarrow> put_all (putchar_with (\<lambda>_. None)) (bytes_of ([CHR 0x0A] @ ''[Hit return to continue]'')) s;
       let s = setcolorstate COLOR_STATE_NORMAL s;
       s \<leftarrow> wait_return s;
       s \<leftarrow> put_all (putchar_with (\<lambda>_. None)) (bytes_of ([CHR 0x0D] @ replicate 24 CHR 0x20 @ [CHR 0x0D])) s;
       Some (s\<lparr>count_lines := 0\<rparr>)
     }"

definition grub_putchar :: "u32 \<Rightarrow> 'a grub_term_scheme \<Rightarrow> 'a grub_term_scheme option" where
  "grub_putchar = putchar_with more_prompt"

definition cls :: "'a grub_term_scheme \<Rightarrow> 'a grub_term_scheme option" where
  "cls s = (if flags (current_term s) AND TERM_DUMB \<noteq> 0 then grub_putchar 0x0A s else Some (emit Clear s))"

section \<open>Formatted output\<close>

partial_function (option) grub_putstr :: "u32 \<Rightarrow> 'a grub_term_scheme \<Rightarrow> 'a grub_term_scheme option" where
  "grub_putstr str s =
     (if gmem s str \<noteq> 0 then do { s \<leftarrow> grub_putchar (sx8 (gmem s str)) s; grub_putstr (str + 1) s } else Some s)"

partial_function (option) grub_printf_loop :: "u32 \<Rightarrow> u32 \<Rightarrow> u32 list \<Rightarrow> 'a grub_term_scheme \<Rightarrow> 'a grub_term_scheme option" where
  "grub_printf_loop str format args s =
     (let c = gmem s format in
      if c = 0 then Some s
      else if c \<noteq> 0x25 then do { s \<leftarrow> grub_putchar (sx8 c) s; grub_printf_loop str (format + 1) args s }
      else
        let c = gmem s (format + 1) in
        if c \<in> {0x64, 0x78, 0x58, 0x75, 0x63, 0x73} then
          (case args of
             [] \<Rightarrow> None
           | a # args \<Rightarrow>
               if c = 0x63 then do { s \<leftarrow> grub_putchar (a AND 0xFF) s; grub_printf_loop str (format + 2) args s }
               else if c = 0x73 then do { s \<leftarrow> grub_putstr a s; grub_printf_loop str (format + 2) args s }
               else
                 do {
                   let (m, end') = convert_to_ascii (gmem s) str c a;
                   s \<leftarrow> grub_putstr str (s\<lparr>gmem := m(end' := 0)\<rparr>);
                   grub_printf_loop str (format + 2) args s
                 })
        else grub_printf_loop str (format + 2) args s)"

definition grub_printf :: "u32 \<Rightarrow> u32 \<Rightarrow> u32 list \<Rightarrow> 'a grub_term_scheme \<Rightarrow> 'a grub_term_scheme option" where
  "grub_printf str format args s = grub_printf_loop str format args s"

section \<open>Messages\<close>

text \<open>\<open>lit\<close> is where the linker has put the literals, \<open>str\<close> the local array of \<open>grub_printf\<close>.\<close>

definition init_page :: "(string \<Rightarrow> u32) \<Rightarrow> u32 \<Rightarrow> u32 \<Rightarrow> 'a grub_term_scheme \<Rightarrow> 'a grub_term_scheme option" where
  "init_page lit version_string str s =
     do {
       s \<leftarrow> cls s;
       grub_printf str (lit ([CHR 0x0A] @ ''    GNU GRUB  version %s  (%dK lower / %dK upper memory)'' @ [CHR 0x0A, CHR 0x0A]))
         [version_string, mem_lower s, mem_upper s] s
     }"

fun err_list :: "grub_error \<Rightarrow> string option" where
  "err_list ERR_NONE = None"
| "err_list ERR_BAD_ARGUMENT = Some ''Invalid argument''"
| "err_list ERR_BAD_FILENAME = Some ''Filename must be either an absolute pathname or blocklist''"
| "err_list ERR_BAD_FILETYPE = Some ''Bad file or directory type''"
| "err_list ERR_BAD_GZIP_DATA = Some ''Bad or corrupt data while decompressing file''"
| "err_list ERR_BAD_GZIP_HEADER = Some ''Bad or incompatible header in compressed file''"
| "err_list ERR_BAD_PART_TABLE = Some ''Partition table invalid or corrupt''"
| "err_list ERR_BAD_VERSION = Some ''Mismatched or corrupt version of stage1/stage2''"
| "err_list ERR_BELOW_1MB = Some ''Loading below 1MB is not supported''"
| "err_list ERR_BOOT_COMMAND = Some ''Kernel must be loaded before booting''"
| "err_list ERR_BOOT_FAILURE = Some ''Unknown boot failure''"
| "err_list ERR_BOOT_FEATURES = Some ''Unsupported Multiboot features requested''"
| "err_list ERR_DEV_FORMAT = Some ''Unrecognized device string''"
| "err_list ERR_DEV_NEED_INIT = Some ''Device not initialized yet''"
| "err_list ERR_DEV_VALUES = Some ''Invalid device requested''"
| "err_list ERR_EXEC_FORMAT = Some ''Invalid or unsupported executable format''"
| "err_list ERR_FILELENGTH = Some ''Filesystem compatibility error, cannot read whole file''"
| "err_list ERR_FILE_NOT_FOUND = Some ''File not found''"
| "err_list ERR_FSYS_CORRUPT = Some ''Inconsistent filesystem structure''"
| "err_list ERR_FSYS_MOUNT = Some ''Cannot mount selected partition''"
| "err_list ERR_GEOM = Some ''Selected cylinder exceeds maximum supported by BIOS''"
| "err_list ERR_NEED_LX_KERNEL = Some ''Linux kernel must be loaded before initrd''"
| "err_list ERR_NEED_MB_KERNEL = Some ''Multiboot kernel must be loaded before modules''"
| "err_list ERR_NO_DISK = Some ''Selected disk does not exist''"
| "err_list ERR_NO_DISK_SPACE = Some ''No spare sectors on the disk''"
| "err_list ERR_NO_PART = Some ''No such partition''"
| "err_list ERR_NUMBER_OVERFLOW = Some ''Overflow while parsing number''"
| "err_list ERR_NUMBER_PARSING = Some ''Error while parsing number''"
| "err_list ERR_OUTSIDE_PART = Some ''Attempt to access block outside partition''"
| "err_list ERR_PRIVILEGED = Some ''Must be authenticated''"
| "err_list ERR_READ = Some ''Disk read error''"
| "err_list ERR_SYMLINK_LOOP = Some ''Too many symbolic links''"
| "err_list ERR_UNALIGNED = Some ''File is not sector aligned''"
| "err_list ERR_UNRECOGNIZED = Some ''Unrecognized command''"
| "err_list ERR_WONT_FIT = Some ''Selected item cannot fit into memory''"
| "err_list ERR_WRITE = Some ''Disk write error''"

text \<open>The numbers of the errors are their positions in the enumeration.\<close>

definition error_numbers :: "grub_error list" where
  "error_numbers =
    [ERR_NONE, ERR_BAD_FILENAME, ERR_BAD_FILETYPE, ERR_BAD_GZIP_DATA, ERR_BAD_GZIP_HEADER, ERR_BAD_PART_TABLE,
     ERR_BAD_VERSION, ERR_BELOW_1MB, ERR_BOOT_COMMAND, ERR_BOOT_FAILURE, ERR_BOOT_FEATURES, ERR_DEV_FORMAT,
     ERR_DEV_VALUES, ERR_EXEC_FORMAT, ERR_FILELENGTH, ERR_FILE_NOT_FOUND, ERR_FSYS_CORRUPT, ERR_FSYS_MOUNT,
     ERR_GEOM, ERR_NEED_LX_KERNEL, ERR_NEED_MB_KERNEL, ERR_NO_DISK, ERR_NO_PART, ERR_NUMBER_PARSING,
     ERR_OUTSIDE_PART, ERR_READ, ERR_SYMLINK_LOOP, ERR_UNRECOGNIZED, ERR_WONT_FIT, ERR_WRITE, ERR_BAD_ARGUMENT,
     ERR_UNALIGNED, ERR_PRIVILEGED, ERR_DEV_NEED_INIT, ERR_NO_DISK_SPACE, ERR_NUMBER_OVERFLOW]"

definition print_error :: "(string \<Rightarrow> u32) \<Rightarrow> u32 \<Rightarrow> 'a grub_term_scheme \<Rightarrow> 'a grub_term_scheme option" where
  "print_error lit str s =
     (case err_list (errnum s) of
        None \<Rightarrow> Some s
      | Some text' \<Rightarrow>
          grub_printf str (lit ([CHR 0x0A] @ ''Error %u: %s'' @ [CHR 0x0A]))
            [of_nat (length (takeWhile (\<lambda>e. e \<noteq> errnum s) error_numbers)), lit text'] s)"

section \<open>The pager\<close>

text \<open>Newlines put since the last key was waited for; and that there were never more than \<open>n\<close>.\<close>

fun lines_shown :: "term_event list \<Rightarrow> nat" where
  "lines_shown [] = 0"
| "lines_shown (e # tr) =
     (case e of GetKey k \<Rightarrow> 0 | Put c \<Rightarrow> if c = 0x0A then Suc (lines_shown tr) else lines_shown tr | _ \<Rightarrow> lines_shown tr)"

fun paged :: "nat \<Rightarrow> term_event list \<Rightarrow> bool" where
  "paged n [] = True"
| "paged n (e # tr) = (lines_shown (e # tr) \<le> n \<and> paged n tr)"

definition pager_inv :: "'a grub_term_scheme \<Rightarrow> bool" where
  "pager_inv s \<longleftrightarrow> 0 \<le> count_lines s \<and> count_lines s < max_lines s - 2
     \<and> int (lines_shown (shown s)) \<le> count_lines s \<and> paged (nat (max_lines s - 2)) (shown s)"

lemma paged_lines: "paged n tr \<Longrightarrow> lines_shown tr \<le> n"
  by (cases tr) auto

lemma emit_simps [simp]:
  "shown (emit e s) = e # shown s" "count_lines (emit e s) = count_lines s" "max_lines (emit e s) = max_lines s"
  "current_term (emit e s) = current_term s" "gmem (emit e s) = gmem s" "errnum (emit e s) = errnum s"
  by (simp_all add: emit_def)

lemma emit_power: "(emit e ^^ n) s = s\<lparr>shown := replicate n e @ shown s\<rparr>"
  by (induction n) (simp_all add: emit_def)

text \<open>While \<open>count_lines\<close> is negative the pager stays quiet.\<close>

definition quiet_events :: "u8 list \<Rightarrow> term_event list" where
  "quiet_events cs = concat (map (\<lambda>c. if c = 0x0A then [Put 0x0A, Put 0x0D] else [Put (sx8 c)]) (rev cs))"

lemma put_quiet:
  assumes "count_lines s < 0" and "0x09 \<notin> set cs"
  shows "put_all (putchar_with full) cs s = Some (s\<lparr>shown := quiet_events cs @ shown s\<rparr>)"
  using assms
proof (induction cs arbitrary: s)
  case Nil
  then show ?case by (simp add: quiet_events_def)
next
  case (Cons c cs)
  have k: "sx8 c = 0x0A \<longleftrightarrow> c = 0x0A" "sx8 c = 0x09 \<longleftrightarrow> c = 0x09"
    using sx8_inj [of c "0x0A"] sx8_inj [of c "0x09"] by (simp_all add: sx8_def)
  have "putchar_with full (sx8 c) s = Some (s\<lparr>shown := quiet_events [c] @ shown s\<rparr>)"
    using Cons.prems k by (auto simp: putchar_with_def emit_def quiet_events_def sx8_def Let_def split: option.split)
  then show ?case using Cons by (simp add: quiet_events_def)
qed

lemma wait_return_keys:
  assumes "wait_return s = Some s'"
  shows "\<exists>ks. ks \<noteq> [] \<and> s' = s\<lparr>shown := map GetKey ks @ shown s\<rparr>"
  using assms
proof (rule wait_return.raw_induct [rotated, consumes 1, case_names loop])
  fix wr and s s' :: "'a grub_term_scheme"
  assume IH: "\<And>s s'. wr s = Some s' \<Longrightarrow> \<exists>ks. ks \<noteq> [] \<and> s' = s\<lparr>shown := map GetKey ks @ shown s\<rparr>"
    and r: "(let (k, s) = getkey s; tmp = k AND 0xFF in if tmp \<noteq> 0x0A \<and> tmp \<noteq> 0x0D then wr s else Some s) = Some s'"
  let ?k = "term_getkey (current_term s) (shown s)"
  have e: "emit (GetKey ?k) s = s\<lparr>shown := map GetKey [?k] @ shown s\<rparr>" by (simp add: emit_def)
  show "\<exists>ks. ks \<noteq> [] \<and> s' = s\<lparr>shown := map GetKey ks @ shown s\<rparr>"
  proof (cases "?k AND 0xFF = 0x0A \<or> ?k AND 0xFF = 0x0D")
    case True
    then have "s' = emit (GetKey ?k) s" using r by (auto simp: getkey_def Let_def)
    then show ?thesis using e by (intro exI [of _ "[?k]"]) simp
  next
    case False
    then have "wr (emit (GetKey ?k) s) = Some s'" using r by (auto simp: getkey_def Let_def)
    from IH [OF this] obtain ks where "s' = (emit (GetKey ?k) s)\<lparr>shown := map GetKey ks @ shown (emit (GetKey ?k) s)\<rparr>"
      by blast
    then show ?thesis using e by (intro exI [of _ "ks @ [?k]"]) simp
  qed
qed

text \<open>The trace after \<open>n\<close> more keys, and a keyboard on which Return is pressed sooner or later.\<close>

fun press :: "(term_event list \<Rightarrow> u32) \<Rightarrow> nat \<Rightarrow> term_event list \<Rightarrow> term_event list" where
  "press f 0 tr = tr"
| "press f (Suc n) tr = press f n (GetKey (f tr) # tr)"

definition is_return :: "u32 \<Rightarrow> bool" where
  "is_return k \<longleftrightarrow> k AND 0xFF = 0x0A \<or> k AND 0xFF = 0x0D"

definition return_comes :: "'a grub_term_scheme \<Rightarrow> bool" where
  "return_comes s \<longleftrightarrow> (\<forall>tr. \<exists>n. is_return (term_getkey (current_term s) (press (term_getkey (current_term s)) n tr)))"

lemma wait_return_ends:
  assumes "is_return (term_getkey (current_term s) (press (term_getkey (current_term s)) n (shown s)))"
  shows "\<exists>s'. wait_return s = Some s'"
  using assms
proof (induction n arbitrary: s)
  case 0
  then show ?case by (subst wait_return.simps) (auto simp: getkey_def is_return_def Let_def)
next
  case (Suc n)
  then show ?case by (subst wait_return.simps) (auto simp: getkey_def Let_def split: if_splits)
qed

lemma lines_shown_keys [simp]: "ks \<noteq> [] \<Longrightarrow> lines_shown (map GetKey ks @ tr) = 0"
  by (cases ks) auto

lemma paged_keys [simp]: "paged n (map GetKey ks @ tr) = paged n tr"
  by (induction ks) auto

lemma quiet_lines: "lines_shown (quiet_events cs @ tr) = count_list cs 0x0A + lines_shown tr"
proof (induction cs arbitrary: tr)
  case (Cons c cs)
  have "sx8 c = 0x0A \<longleftrightarrow> c = 0x0A" using sx8_inj [of c "0x0A"] by (simp add: sx8_def)
  then show ?case using Cons by (simp add: quiet_events_def)
qed (simp add: quiet_events_def)

lemma quiet_paged: "paged n (quiet_events cs @ tr) \<longleftrightarrow> paged n tr \<and> (cs \<noteq> [] \<longrightarrow> count_list cs 0x0A + lines_shown tr \<le> n)"
proof (induction cs arbitrary: tr)
  case (Cons c cs)
  have "sx8 c = 0x0A \<longleftrightarrow> c = 0x0A" using sx8_inj [of c "0x0A"] by (simp add: sx8_def)
  then have "quiet_events (c # cs) = quiet_events cs @ quiet_events [c]"
    "paged n (quiet_events [c] @ tr) \<longleftrightarrow> paged n tr \<and> count_list [c] 0x0A + lines_shown tr \<le> n"
    by (auto simp: quiet_events_def)
  then show ?case using Cons [of "quiet_events [c] @ tr"] quiet_lines [of "[c]" tr] by auto
qed (simp add: quiet_events_def)

definition hint :: "u8 list" where
  "hint = bytes_of ([CHR 0x0A] @ ''[Hit return to continue]'')"

definition blank :: "u8 list" where
  "blank = bytes_of ([CHR 0x0D] @ replicate 24 CHR 0x20 @ [CHR 0x0D])"

lemma hint_blank: "0x09 \<notin> set hint" "0x09 \<notin> set blank" "count_list hint 0x0A = 1" "count_list blank 0x0A = 0"
  by (simp_all add: hint_def blank_def bytes_of_def)

definition color_events :: "'a grub_term_scheme \<Rightarrow> color_state \<Rightarrow> term_event list" where
  "color_events s c = (if has_setcolorstate (current_term s) then [SetColorState c] else [])"

lemma color_lines [simp]: "lines_shown (color_events s c @ tr) = lines_shown tr" "paged n (color_events s c @ tr) \<longleftrightarrow> paged n tr"
  by (auto simp: color_events_def dest: paged_lines)

text \<open>What is on the screen when the pager waits.\<close>

definition prompted :: "'a grub_term_scheme \<Rightarrow> 'a grub_term_scheme" where
  "prompted s = s\<lparr>count_lines := -1,
     shown := color_events s COLOR_STATE_NORMAL @ quiet_events hint @ color_events s COLOR_STATE_HIGHLIGHT @ shown s\<rparr>"

lemma more_prompt_eq:
  "more_prompt s = map_option (\<lambda>s'. s'\<lparr>count_lines := 0, shown := quiet_events blank @ shown s'\<rparr>) (wait_return (prompted s))"
proof -
  have c: "setcolorstate c s = s\<lparr>shown := color_events s c @ shown s\<rparr>" for c and s :: "'a grub_term_scheme"
    by (simp add: setcolorstate_def emit_def color_events_def)
  let ?s1 = "setcolorstate COLOR_STATE_HIGHLIGHT (s\<lparr>count_lines := -1\<rparr>)"
  have h: "put_all (putchar_with (\<lambda>_. None)) hint ?s1 = Some (?s1\<lparr>shown := quiet_events hint @ shown ?s1\<rparr>)"
    using hint_blank by (intro put_quiet) (auto simp: c)
  have w: "setcolorstate COLOR_STATE_NORMAL (?s1\<lparr>shown := quiet_events hint @ shown ?s1\<rparr>) = prompted s"
    by (simp add: c prompted_def color_events_def)
  have b: "put_all (putchar_with (\<lambda>_. None)) blank s' = Some (s'\<lparr>shown := quiet_events blank @ shown s'\<rparr>)"
    if "wait_return (prompted s) = Some s'" for s'
    using hint_blank wait_return_keys [OF that] by (intro put_quiet) (auto simp: prompted_def)
  show ?thesis
    unfolding more_prompt_def hint_def [symmetric] blank_def [symmetric] Let_def h
    using b by (auto simp: w bind_eq_None_conv split: Option.bind_split option.split)
qed

lemma more_prompt_spec:
  assumes "more_prompt s = Some s'"
  shows "\<exists>tr. s' = s\<lparr>count_lines := 0, shown := tr\<rparr> \<and> lines_shown tr = 0
    \<and> (\<forall>n. paged n (shown s) \<and> lines_shown (shown s) < n \<longrightarrow> paged n tr)"
proof -
  obtain s1 where s1: "wait_return (prompted s) = Some s1" "s' = s1\<lparr>count_lines := 0, shown := quiet_events blank @ shown s1\<rparr>"
    using assms by (auto simp: more_prompt_eq)
  obtain ks where ks: "ks \<noteq> []" "s1 = (prompted s)\<lparr>shown := map GetKey ks @ shown (prompted s)\<rparr>"
    using wait_return_keys [OF s1(1)] by blast
  have "s' = s\<lparr>count_lines := 0, shown := quiet_events blank @ map GetKey ks @ shown (prompted s)\<rparr>"
    by (simp add: s1(2) ks(2)) (simp add: prompted_def)
  moreover have "shown (prompted s) = color_events s COLOR_STATE_NORMAL @ quiet_events hint @ color_events s COLOR_STATE_HIGHLIGHT @ shown s"
    by (simp add: prompted_def)
  ultimately show ?thesis
    using ks(1) hint_blank by (intro exI) (auto simp: quiet_lines quiet_paged)
qed

section \<open>Properties\<close>

text \<open>C21: on a terminal at which Return is pressed sooner or later, every character is put, and the pager
  keeps the output from scrolling away: between two reads of the keyboard never more than \<open>max_lines\<close> - 2
  newlines reach the screen, the one of its own prompt included.\<close>

theorem grub_putchar_pages:
  assumes "pager_inv s" and "return_comes s"
  shows "\<exists>s'. grub_putchar c s = Some s' \<and> pager_inv s' \<and> max_lines s' = max_lines s \<and> return_comes s'"
proof -
  have e: "lines_shown (replicate n (Put 0x20) @ tr) = lines_shown tr"
    "paged m (replicate n (Put 0x20) @ tr) \<longleftrightarrow> paged m tr" for n m tr
    by (induction n) (auto dest: paged_lines)
  show ?thesis
  proof (cases "c = 0x0A")
    case False
    have "grub_putchar c s = Some (emit (Put c) s)
      \<or> (\<exists>n. grub_putchar c s = Some (s\<lparr>shown := replicate n (Put 0x20) @ shown s\<rparr>))"
      using False by (auto simp: grub_putchar_def putchar_with_def emit_power Let_def split: option.split)
    then show ?thesis
      using assms False by (auto simp: pager_inv_def return_comes_def e dest: paged_lines)
  next
    case True
    let ?s = "(emit (Put 0x0D) s)\<lparr>count_lines := count_lines s + 1\<rparr>"
    have g: "grub_putchar c s = (if count_lines s + 1 \<ge> max_lines s - 2 then more_prompt ?s else Some (emit (Put c) ?s))"
      using assms(1) True by (auto simp: grub_putchar_def putchar_with_def pager_inv_def Let_def split: option.split)
    have "\<exists>s'. wait_return (prompted ?s) = Some s'"
      using assms(2) wait_return_ends [of "prompted ?s"] by (auto simp: return_comes_def prompted_def)
    then obtain s' where s': "more_prompt ?s = Some s'" by (auto simp: more_prompt_eq)
    from more_prompt_spec [OF this] show ?thesis
      using assms True s' unfolding g by (auto simp: pager_inv_def return_comes_def dest: paged_lines)
  qed
qed

definition demo_terminal :: grub_term where
  "demo_terminal = \<lparr>gmem = \<lambda>_. 0, errnum = ERR_NONE, mem_lower = 640, mem_upper = 0,
     current_term = \<lparr>flags = 0, term_getkey = \<lambda>_. 0x1C0D, term_checkkey = \<lambda>_. 0x1C0D, term_getxy = None,
       has_setcolorstate = True, term_setcursor = None\<rparr>,
     max_lines = 24, count_lines = 21, shown = []\<rparr>"

lemma grub_putchar_pages_witness:
  "\<exists>s'. grub_putchar 0x0A demo_terminal = Some s' \<and> pager_inv s' \<and> max_lines s' = 24 \<and> return_comes s'"
proof -
  have "pager_inv demo_terminal" by (simp add: pager_inv_def demo_terminal_def)
  moreover have "return_comes demo_terminal" by (simp add: return_comes_def is_return_def demo_terminal_def)
  moreover have "max_lines demo_terminal = 24" by (simp add: demo_terminal_def)
  ultimately show ?thesis using grub_putchar_pages [of demo_terminal "0x0A"] by simp
qed

end
