(* ===== verification/Grub_Cmdline.thy ===== *)
theory Grub_Cmdline
  imports Grub_Term
begin

text \<open>
  The command line editor of GRUB, src/grub-0.97/stage2/char_io.c: \<open>real_get_cmdline\<close> with its nested
  functions, the history and \<open>get_cmdline\<close>. The variables the nested functions share are fields of the
  state; they hold small numbers and are unbounded here. The completion of disk_io.c is an argument.
\<close>

section \<open>State and buffers\<close>

definition MAX_CMDLINE :: int where "MAX_CMDLINE = 1600"
definition HISTORY_SIZE :: int where "HISTORY_SIZE = 5"
definition CMDLINE_WIDTH :: int where "CMDLINE_WIDTH = 78"
definition CMDLINE_MARGIN :: int where "CMDLINE_MARGIN = 10"

definition PASSWORD_BUF :: u32 where "PASSWORD_BUF = 0x78000"
definition DEFAULT_FILE_BUF :: u32 where "DEFAULT_FILE_BUF = PASSWORD_BUF + 0x200"
definition CMDLINE_BUF :: u32 where "CMDLINE_BUF = DEFAULT_FILE_BUF + 0x60"
definition KILL_BUF :: u32 where "KILL_BUF = CMDLINE_BUF + 1600"
definition HISTORY_BUF :: u32 where "HISTORY_BUF = KILL_BUF + 1600"
definition COMPLETION_BUF :: u32 where "COMPLETION_BUF = HISTORY_BUF + 8000"

text \<open>\<open>literal_at\<close>, \<open>frame\<close> and \<open>str_at\<close> say where the literals, the array of \<open>grub_printf\<close> and the
  array \<open>str\<close> of a typed character are.\<close>

record cmdline = grub_term +
  num_history :: int
  buf_drive :: u32
  prompt :: u32
  cmdline_at :: u32
  maxlen :: int
  echo_char :: u32
  readline :: bool
  xpos :: int
  lpos :: int
  sect :: int
  plen :: int
  llen :: int
  history :: int
  literal_at :: "string \<Rightarrow> u32"
  frame :: u32
  str_at :: u32

text \<open>The character of \<open>buf\<close> at an index, and the copy between two places.\<close>

definition buf_at :: "int \<Rightarrow> u32" where
  "buf_at i = CMDLINE_BUF + word_of_int i"

definition copy :: "u32 \<Rightarrow> u32 \<Rightarrow> int \<Rightarrow> 'a grub_scheme \<Rightarrow> 'a grub_scheme" where
  "copy to from' len s = snd (grub_memmove to from' (word_of_int len) s)"

definition store :: "u32 \<Rightarrow> u8 \<Rightarrow> 'a grub_scheme \<Rightarrow> 'a grub_scheme" where
  "store a b s = s\<lparr>gmem := (gmem s)(a := b)\<rparr>"

definition strcpy_to :: "u32 \<Rightarrow> u32 \<Rightarrow> 'a grub_scheme \<Rightarrow> 'a grub_scheme option" where
  "strcpy_to dest src s = map_option snd (grub_strcpy dest src s)"

section \<open>History\<close>

definition get_history :: "int \<Rightarrow> 'a cmdline_scheme \<Rightarrow> u32" where
  "get_history no s = (if no < 0 \<or> no \<ge> num_history s then 0 else HISTORY_BUF + word_of_int (MAX_CMDLINE * no))"

definition add_history :: "u32 \<Rightarrow> int \<Rightarrow> 'a cmdline_scheme \<Rightarrow> 'a cmdline_scheme option" where
  "add_history cmdline no s =
     do {
       let s = copy (HISTORY_BUF + word_of_int (MAX_CMDLINE * (no + 1))) (HISTORY_BUF + word_of_int (MAX_CMDLINE * no))
         (MAX_CMDLINE * (num_history s - no)) s;
       s \<leftarrow> strcpy_to (HISTORY_BUF + word_of_int (MAX_CMDLINE * no)) cmdline s;
       Some (if num_history s < HISTORY_SIZE then s\<lparr>num_history := num_history s + 1\<rparr> else s)
     }"

section \<open>The displayed line\<close>

definition put_char_at :: "int \<Rightarrow> 'a cmdline_scheme \<Rightarrow> 'a cmdline_scheme option" where
  "put_char_at i s = grub_putchar (if echo_char s = 0 then sx8 (gmem s (buf_at i)) else echo_char s) s"

function put_times :: "int \<Rightarrow> int \<Rightarrow> u32 \<Rightarrow> 'a cmdline_scheme \<Rightarrow> 'a cmdline_scheme option" where
  "put_times i n c s = (if i < n then do { s \<leftarrow> grub_putchar c s; put_times (i + 1) n c s } else Some s)"
  by pat_completeness auto
termination by (relation "measure (\<lambda>(i, n, c, s). nat (n - i))") auto

function put_range :: "int \<Rightarrow> int \<Rightarrow> 'a cmdline_scheme \<Rightarrow> 'a cmdline_scheme option" where
  "put_range i n s = (if i < n then do { s \<leftarrow> put_char_at i s; put_range (i + 1) n s } else Some s)"
  by pat_completeness auto
termination by (relation "measure (\<lambda>(i, n, s). nat (n - i))") auto

function refresh_text :: "int \<Rightarrow> int \<Rightarrow> int \<Rightarrow> 'a cmdline_scheme \<Rightarrow> (int \<times> int \<times> 'a cmdline_scheme) option" where
  "refresh_text i n pos s =
     (if i < n \<and> i < llen s then do { s \<leftarrow> put_char_at i s; refresh_text (i + 1) n (pos + 1) s } else Some (i, pos, s))"
  by pat_completeness auto
termination by (relation "measure (\<lambda>(i, n, pos, s). nat (n - i))") auto

function refresh_fill :: "int \<Rightarrow> int \<Rightarrow> int \<Rightarrow> 'a cmdline_scheme \<Rightarrow> (int \<times> 'a cmdline_scheme) option" where
  "refresh_fill i n pos s =
     (if i < n then do { s \<leftarrow> grub_putchar 0x20 s; refresh_fill (i + 1) n (pos + 1) s } else Some (pos, s))"
  by pat_completeness auto
termination by (relation "measure (\<lambda>(i, n, pos, s). nat (n - i))") auto

declare put_times.simps [simp del] put_range.simps [simp del] refresh_text.simps [simp del] refresh_fill.simps [simp del]

definition is_dumb :: "'a cmdline_scheme \<Rightarrow> bool" where
  "is_dumb s \<longleftrightarrow> flags (current_term s) AND TERM_DUMB \<noteq> 0"

definition goto_xpos :: "'a cmdline_scheme \<Rightarrow> 'a cmdline_scheme option" where
  "goto_xpos s = do { xy \<leftarrow> getxy s; Some (gotoxy (word_of_int (xpos s)) (xy AND 0xFF) s) }"

definition refresh_head :: "bool \<Rightarrow> int \<Rightarrow> 'a cmdline_scheme \<Rightarrow> (int \<times> int \<times> 'a cmdline_scheme) option" where
  "refresh_head full len s =
     (if full then
        do {
          let s = (if lpos s + plen s < CMDLINE_WIDTH then s\<lparr>sect := 0\<rparr>
                   else s\<lparr>sect := (lpos s + plen s - CMDLINE_WIDTH) div (CMDLINE_WIDTH - 1 - CMDLINE_MARGIN) + 1\<rparr>);
          s \<leftarrow> grub_putchar 0x0D s;
          if sect s = 0 then
            do {
              s \<leftarrow> grub_printf (frame s) (literal_at s ''%s'') [prompt s] s;
              Some (CMDLINE_WIDTH - plen s, plen s, s)
            }
          else do { s \<leftarrow> grub_putchar 0x3C s; Some (CMDLINE_WIDTH - 1, 1, s) }
        }
      else Some (len, xpos s, s))"

definition refresh_start :: "bool \<Rightarrow> 'a cmdline_scheme \<Rightarrow> int \<times> 'a cmdline_scheme" where
  "refresh_start full s =
     (if sect s = 0 then
        let offset = (if \<not> full then xpos s - plen s else 0);
            start = 0;
            s = s\<lparr>xpos := lpos s + plen s\<rparr>
        in (start + offset, s)
      else
        let offset = (if \<not> full then xpos s - 1 else 0);
            start = (sect s - 1) * (CMDLINE_WIDTH - 1 - CMDLINE_MARGIN) + CMDLINE_WIDTH - plen s - CMDLINE_MARGIN;
            s = s\<lparr>xpos := lpos s + 1 - start\<rparr>
        in (start + offset, s))"

definition cl_refresh :: "bool \<Rightarrow> int \<Rightarrow> 'a cmdline_scheme \<Rightarrow> 'a cmdline_scheme option" where
  "cl_refresh full len s =
     do {
       (len, pos, s) \<leftarrow> refresh_head full len s;
       let (start, s) = refresh_start full s;
       (i, pos, s) \<leftarrow> refresh_text start (start + len) pos s;
       (pos, s) \<leftarrow> refresh_fill i (start + len) pos s;
       (pos, s) \<leftarrow> (if pos = CMDLINE_WIDTH
         then do { s \<leftarrow> grub_putchar (if start + len < llen s then 0x3E else 0x20) s; Some (pos + 1, s) }
         else Some (pos, s));
       if is_dumb s then put_times 0 (pos - xpos s) 0x08 s else goto_xpos s
     }"

definition cl_backward :: "int \<Rightarrow> 'a cmdline_scheme \<Rightarrow> 'a cmdline_scheme option" where
  "cl_backward count s =
     (let s = s\<lparr>lpos := lpos s - count\<rparr>
      in if sect s = 1 \<and> plen s + lpos s < CMDLINE_WIDTH then cl_refresh True 0 s
         else if xpos s - count < 1 then cl_refresh True 0 s
         else
           let s = s\<lparr>xpos := xpos s - count\<rparr>
           in if is_dumb s then put_times 0 count 0x08 s else goto_xpos s)"

definition cl_forward :: "int \<Rightarrow> 'a cmdline_scheme \<Rightarrow> 'a cmdline_scheme option" where
  "cl_forward count s =
     (let s = s\<lparr>lpos := lpos s + count\<rparr>
      in if xpos s + count \<ge> CMDLINE_WIDTH then cl_refresh True 0 s
         else
           let s = s\<lparr>xpos := xpos s + count\<rparr>
           in if is_dumb s then put_range (lpos s - count) (lpos s) s else goto_xpos s)"

definition cl_init :: "'a cmdline_scheme \<Rightarrow> 'a cmdline_scheme option" where
  "cl_init s = do { s \<leftarrow> grub_putchar 0x0A s; cl_refresh True 0 s }"

section \<open>Editing\<close>

definition cl_insert :: "u32 \<Rightarrow> 'a cmdline_scheme \<Rightarrow> 'a cmdline_scheme option" where
  "cl_insert str s =
     do {
       l \<leftarrow> grub_strlen (gmem s) str;
       let l = sint l;
       if llen s + l < maxlen s then
         do {
           let s = (if lpos s = llen s then copy (buf_at (lpos s)) str (l + 1) s
                    else
                      let s = copy (buf_at (lpos s + l)) (buf_at (lpos s)) (llen s - lpos s + 1) s
                      in copy (buf_at (lpos s)) str l s);
           let s = s\<lparr>llen := llen s + l\<rparr>;
           let s = s\<lparr>lpos := lpos s + l\<rparr>;
           if xpos s + l \<ge> CMDLINE_WIDTH then cl_refresh True 0 s
           else if xpos s + l + llen s - lpos s > CMDLINE_WIDTH then cl_refresh False (CMDLINE_WIDTH - xpos s) s
           else cl_refresh False (l + llen s - lpos s) s
         }
       else Some s
     }"

definition cl_delete :: "int \<Rightarrow> 'a cmdline_scheme \<Rightarrow> 'a cmdline_scheme option" where
  "cl_delete count s =
     (let s = copy (buf_at (lpos s)) (buf_at (lpos s + count)) (llen s - count + 1) s;
          s = s\<lparr>llen := llen s - count\<rparr>
      in if xpos s + llen s + count - lpos s > CMDLINE_WIDTH then cl_refresh False (CMDLINE_WIDTH - xpos s) s
         else cl_refresh False (llen s + count - lpos s) s)"

text \<open>C-u and C-k.\<close>

definition kill_before :: "'a cmdline_scheme \<Rightarrow> 'a cmdline_scheme option" where
  "kill_before s =
     (if lpos s = 0 then Some s
      else
        do {
          let s = copy KILL_BUF CMDLINE_BUF (lpos s) s;
          let s = store (KILL_BUF + word_of_int (lpos s)) 0 s;
          let count = lpos s;
          s \<leftarrow> cl_backward (lpos s) s;
          cl_delete count s
        })"

definition kill_after :: "'a cmdline_scheme \<Rightarrow> 'a cmdline_scheme option" where
  "kill_after s =
     (if lpos s = llen s then Some s
      else
        let s = copy KILL_BUF (buf_at (lpos s)) (llen s - lpos s + 1) s
        in cl_delete (llen s - lpos s) s)"

text \<open>C-p and C-n.\<close>

definition save_line :: "'a cmdline_scheme \<Rightarrow> 'a cmdline_scheme option" where
  "save_line s =
     do {
       r \<leftarrow> grub_strcmp (gmem s) (get_history (history s) s) CMDLINE_BUF;
       if r \<noteq> 0 then add_history CMDLINE_BUF (history s) s else Some s
     }"

definition show_line :: "u32 \<Rightarrow> 'a cmdline_scheme \<Rightarrow> 'a cmdline_scheme option" where
  "show_line p s =
     do {
       s \<leftarrow> strcpy_to CMDLINE_BUF p s;
       l \<leftarrow> grub_strlen (gmem s) CMDLINE_BUF;
       cl_refresh True 0 (s\<lparr>llen := sint l, lpos := sint l\<rparr>)
     }"

definition fetch_previous :: "'a cmdline_scheme \<Rightarrow> 'a cmdline_scheme option" where
  "fetch_previous s =
     do {
       s \<leftarrow> (if history s < 0 then strcpy_to (cmdline_at s) CMDLINE_BUF s else save_line s);
       let s = s\<lparr>history := history s + 1\<rparr>;
       let p = get_history (history s) s;
       if p = 0 then Some (s\<lparr>history := history s - 1\<rparr>) else show_line p s
     }"

definition fetch_next :: "'a cmdline_scheme \<Rightarrow> 'a cmdline_scheme option" where
  "fetch_next s =
     (if history s < 0 then Some s
      else
        do {
          s \<leftarrow> save_line s;
          let s = s\<lparr>history := history s - 1\<rparr>;
          let p = get_history (history s) s;
          show_line (if p = 0 then cmdline_at s else p) s
        })"

section \<open>Completion\<close>

partial_function (option) scan_buf :: "memory \<Rightarrow> (u8 \<Rightarrow> bool) \<Rightarrow> int \<Rightarrow> int option" where
  "scan_buf m P pos = (if P (m (buf_at pos)) then scan_buf m P (pos + 1) else Some pos)"

partial_function (option) find_equal :: "memory \<Rightarrow> int \<Rightarrow> int option" where
  "find_equal m i =
     (if m (buf_at i) \<noteq> 0 \<and> m (buf_at i) \<noteq> 0x20
      then if m (buf_at i) = 0x3D then Some i else find_equal m (i + 1)
      else Some (-1))"

function word_start :: "memory \<Rightarrow> int \<Rightarrow> int" where
  "word_start m i = (if i > 0 \<and> m (buf_at (i - 1)) \<noteq> 0x20 then word_start m (i - 1) else i)"
  by pat_completeness auto
termination by (relation "measure (\<lambda>(m, i). nat i)") auto

declare word_start.simps [simp del]

type_synonym 'a completer = "bool \<Rightarrow> bool \<Rightarrow> 'a cmdline_scheme \<Rightarrow> (int \<times> 'a cmdline_scheme) option"

definition complete_word :: "'a completer \<Rightarrow> 'a cmdline_scheme \<Rightarrow> 'a cmdline_scheme option" where
  "complete_word print_completions s =
     do {
       pos \<leftarrow> scan_buf (gmem s) (\<lambda>c. c = 0x20) 0;
       pos \<leftarrow> scan_buf (gmem s) (\<lambda>c. c \<noteq> 0 \<and> c \<noteq> 0x3D \<and> c \<noteq> 0x20) pos;
       let is_filename = (lpos s > pos);
       equal_pos \<leftarrow> find_equal (gmem s) pos;
       let s = (if equal_pos \<ge> 0 then store (buf_at equal_pos) 0x20 s else s);
       let i = word_start (gmem s) (lpos s);
       let s = s\<lparr>buf_drive := -1\<rparr>;
       let s = copy COMPLETION_BUF (buf_at i) (lpos s - i) s;
       let s = store (COMPLETION_BUF + word_of_int (lpos s - i)) 0 s;
       (ret, s) \<leftarrow> print_completions is_filename True s;
       let s = s\<lparr>errnum := ERR_NONE\<rparr>;
       s \<leftarrow> (if ret \<ge> 0 then
              do {
                s \<leftarrow> cl_insert (COMPLETION_BUF + word_of_int (lpos s - i)) s;
                if ret > 0 then
                  do {
                    s \<leftarrow> grub_putchar 0x0A s;
                    (_, s) \<leftarrow> print_completions is_filename False s;
                    Some (s\<lparr>errnum := ERR_NONE\<rparr>)
                  }
                else Some s
              }
            else Some s);
       let s = (if equal_pos \<ge> 0 then store (buf_at equal_pos) 0x3D s else s);
       if ret \<noteq> 0 then cl_init s else Some s
     }"

section \<open>Keys\<close>

definition readline_key :: "'a completer \<Rightarrow> u32 \<Rightarrow> 'a cmdline_scheme \<Rightarrow> 'a cmdline_scheme option" where
  "readline_key print_completions c s =
     (if c = 9 then complete_word print_completions s
      else if c = 1 then cl_backward (lpos s) s
      else if c = 5 then cl_forward (llen s - lpos s) s
      else if c = 6 then if lpos s < llen s then cl_forward 1 s else Some s
      else if c = 2 then if lpos s > 0 then cl_backward 1 s else Some s
      else if c = 21 then kill_before s
      else if c = 11 then kill_after s
      else if c = 25 then cl_insert KILL_BUF s
      else if c = 16 then fetch_previous s
      else if c = 14 then fetch_next s
      else Some s)"

text \<open>Escape ends the loop: the flag of the result.\<close>

definition basic_key :: "u32 \<Rightarrow> 'a cmdline_scheme \<Rightarrow> (bool \<times> 'a cmdline_scheme) option" where
  "basic_key c s =
     (if c = 27 then Some (True, s)
      else map_option (Pair False)
        (if c = 4 then if lpos s = llen s then Some s else cl_delete 1 s
         else if c = 8 then if lpos s > 0 then do { s \<leftarrow> cl_backward 1 s; cl_delete 1 s } else Some s
         else if 0x20 \<le>s c \<and> c \<le>s 0x7E
         then cl_insert (str_at s) (store (str_at s + 1) 0 (store (str_at s) (lo8 c) s))
         else Some s))"

definition cl_key :: "'a completer \<Rightarrow> u32 \<Rightarrow> 'a cmdline_scheme \<Rightarrow> (bool \<times> 'a cmdline_scheme) option" where
  "cl_key print_completions c s =
     do {
       s \<leftarrow> (if readline s then readline_key print_completions c s else Some s);
       basic_key c s
     }"

partial_function (option) cl_loop :: "'a completer \<Rightarrow> 'a cmdline_scheme \<Rightarrow> (bool \<times> 'a cmdline_scheme) option" where
  "cl_loop print_completions s =
     (let (k, s) = getkey s; c = k AND 0xFF
      in if c \<noteq> 0x0A \<and> c \<noteq> 0x0D then
           do {
             (escaped, s) \<leftarrow> cl_key print_completions c s;
             if escaped then Some (True, s) else cl_loop print_completions s
           }
         else Some (False, s))"

section \<open>Reading a line\<close>

definition cl_setup :: "u32 \<Rightarrow> u32 \<Rightarrow> int \<Rightarrow> u32 \<Rightarrow> bool \<Rightarrow> 'a cmdline_scheme \<Rightarrow> 'a cmdline_scheme option" where
  "cl_setup prompt' cmdline len echo' readline' s =
     do {
       let s = s\<lparr>prompt := prompt', cmdline_at := cmdline, maxlen := len, echo_char := echo', readline := readline', history := -1\<rparr>;
       pl \<leftarrow> grub_strlen (gmem s) prompt';
       ll \<leftarrow> grub_strlen (gmem s) cmdline;
       let s = s\<lparr>plen := sint pl, llen := sint ll\<rparr>;
       let s = (if maxlen s > MAX_CMDLINE
                then let s = s\<lparr>maxlen := MAX_CMDLINE\<rparr>
                     in if llen s \<ge> MAX_CMDLINE
                        then store (cmdline + word_of_int MAX_CMDLINE) 0 (s\<lparr>llen := MAX_CMDLINE - 1\<rparr>) else s
                else s);
       let s = s\<lparr>lpos := llen s\<rparr>;
       s \<leftarrow> strcpy_to CMDLINE_BUF cmdline s;
       cl_init s
     }"

definition cl_finish :: "'a cmdline_scheme \<Rightarrow> 'a cmdline_scheme option" where
  "cl_finish s =
     do {
       s \<leftarrow> grub_putchar 0x0A s;
       pos \<leftarrow> (if echo_char s = 0 then scan_buf (gmem s) (\<lambda>c. c = 0x20) 0 else Some 0);
       let s = s\<lparr>lpos := pos\<rparr>;
       let s = copy (cmdline_at s) (buf_at (lpos s)) (llen s - lpos s + 1) s;
       if readline s \<and> lpos s < llen s then add_history (cmdline_at s) 0 s else Some s
     }"

definition real_get_cmdline :: "'a completer \<Rightarrow> u32 \<Rightarrow> u32 \<Rightarrow> int \<Rightarrow> u32 \<Rightarrow> bool \<Rightarrow> 'a cmdline_scheme \<Rightarrow> (u32 \<times> 'a cmdline_scheme) option" where
  "real_get_cmdline print_completions prompt' cmdline len echo' readline' s =
     do {
       s \<leftarrow> cl_setup prompt' cmdline len echo' readline' s;
       (escaped, s) \<leftarrow> cl_loop print_completions s;
       if escaped then Some (1, s) else do { s \<leftarrow> cl_finish s; Some (0, s) }
     }"

text \<open>On a terminal that cannot edit, characters are gathered as they come; \<open>maxlen\<close> is not looked at.\<close>

partial_function (option) gather :: "u32 \<Rightarrow> u32 \<Rightarrow> 'a cmdline_scheme \<Rightarrow> (u32 option \<times> 'a cmdline_scheme) option" where
  "gather cmdline p s =
     (let (k, s) = getkey s; c = k AND 0xFF
      in if c \<noteq> 0x0A \<and> c \<noteq> 0x0D then
           if c = 27 then Some (None, s)
           else if 0x20 \<le>s c \<and> c \<le>s 0x7E then
             do {
               s \<leftarrow> (if flags (current_term s) AND TERM_NO_ECHO = 0 then grub_putchar c s else Some s);
               if c \<noteq> 0x20 \<or> p \<noteq> cmdline then gather cmdline (p + 1) (store p (lo8 c) s) else gather cmdline p s
             }
           else gather cmdline p s
         else Some (Some p, s))"

definition get_cmdline :: "'a completer \<Rightarrow> u32 \<Rightarrow> u32 \<Rightarrow> int \<Rightarrow> u32 \<Rightarrow> bool \<Rightarrow> 'a cmdline_scheme \<Rightarrow> (u32 \<times> 'a cmdline_scheme) option" where
  "get_cmdline print_completions prompt' cmdline len echo' readline' s =
     (let (old_cursor, s) = setcursor 1 s
      in if flags (current_term s) AND (TERM_NO_ECHO OR TERM_NO_EDIT) \<noteq> 0 then
           do {
             s \<leftarrow> grub_printf (frame s) (literal_at s ''%s'') [prompt'] s;
             (p, s) \<leftarrow> gather cmdline cmdline s;
             case p of
               None \<Rightarrow> Some (1, snd (setcursor old_cursor s))
             | Some p \<Rightarrow>
                 do {
                   let s = store p 0 s;
                   s \<leftarrow> (if flags (current_term s) AND TERM_NO_ECHO = 0 then grub_putchar 0x0A s else Some s);
                   Some (0, snd (setcursor old_cursor s))
                 }
           }
         else
           do {
             (ret, s) \<leftarrow> real_get_cmdline print_completions prompt' cmdline len echo' readline' s;
             Some (ret, snd (setcursor old_cursor s))
           })"

end
