(* ===== verification/Grub_Cmdline_Screen.thy ===== *)
theory Grub_Cmdline_Screen
  imports Grub_Cmdline
begin

text \<open>
  What the command line editor does to the screen. While a line is read the pager is off, so that showing
  something never fails and reads no key; and a refresh leaves the cursor in the column its section asks for.
\<close>

section \<open>The screen\<close>

text \<open>How many keys were read; and an operation that returns, has changed what is shown and read no key.\<close>

fun pressed :: "term_event list \<Rightarrow> nat" where
  "pressed [] = 0"
| "pressed (e # tr) = (case e of GetKey k \<Rightarrow> Suc (pressed tr) | _ \<Rightarrow> pressed tr)"

definition only_shows :: "'a grub_term_scheme \<Rightarrow> 'a grub_term_scheme option \<Rightarrow> bool" where
  "only_shows s r \<longleftrightarrow> (\<exists>tr. pressed tr = pressed (shown s) \<and> r = Some (s\<lparr>shown := tr\<rparr>))"

lemma pressed_puts [simp]: "pressed (replicate n (Put c) @ tr) = pressed tr"
  by (induction n) auto

lemma only_showsI [intro]: "pressed tr = pressed (shown s) \<Longrightarrow> only_shows s (Some (s\<lparr>shown := tr\<rparr>))"
  unfolding only_shows_def by blast

lemma only_shows_refl [simp]: "only_shows s (Some s)"
  unfolding only_shows_def by (rule exI [of _ "shown s"]) simp

lemma only_shows_bind:
  assumes "only_shows s r" and "\<And>tr. r = Some (s\<lparr>shown := tr\<rparr>) \<Longrightarrow> only_shows (s\<lparr>shown := tr\<rparr>) (f (s\<lparr>shown := tr\<rparr>))"
  shows "only_shows s (r \<bind> f)"
  using assms unfolding only_shows_def by fastforce

lemma only_shows_goto: "only_shows s (Some (gotoxy x y s))"
  unfolding only_shows_def gotoxy_def emit_def by (rule exI [of _ "Goto x y # shown s"]) simp

lemma grub_putchar_shows: "count_lines s < 0 \<Longrightarrow> only_shows s (grub_putchar c s)"
  unfolding grub_putchar_def putchar_with_def Let_def
  by (auto simp: emit_power emit_def split: option.split)

lemma grub_putstr_shows:
  assumes "cstr_at (gmem s) p bs" and "count_lines s < 0"
  shows "only_shows s (grub_putstr p s)"
  using assms
proof (induction bs arbitrary: p s)
  case Nil
  then show ?case by (subst grub_putstr.simps) simp
next
  case (Cons b bs)
  then show ?case
    by (subst grub_putstr.simps) (auto intro!: only_shows_bind grub_putchar_shows)
qed

lemma grub_printf_shows:
  assumes "cstr_at (gmem s) f [0x25, 0x73]" and "cstr_at (gmem s) p bs" and "count_lines s < 0"
  shows "only_shows s (grub_printf str f [p] s)"
proof -
  have l: "gmem s f = 0x25" "gmem s (f + 1) = 0x73" "gmem s (f + 2) = 0" using assms(1) by (simp_all add: add.assoc)
  have e: "grub_printf_loop str (f + 2) [] (s\<lparr>shown := tr\<rparr>) = Some (s\<lparr>shown := tr\<rparr>)" for tr
    using l by (subst grub_printf_loop.simps) simp
  have "grub_printf str f [p] s = do { s \<leftarrow> grub_putstr p s; grub_printf_loop str (f + 2) [] s }"
    unfolding grub_printf_def using l by (subst grub_printf_loop.simps) simp
  then show ?thesis
    using grub_putstr_shows [OF assms(2,3)] e by (auto simp: only_shows_def)
qed

lemma put_times_shows: "count_lines s < 0 \<Longrightarrow> only_shows s (put_times i n c s)"
proof (induction i n c s rule: put_times.induct)
  case (1 i n c s)
  show ?case
  proof (cases "i < n")
    case True
    then show ?thesis
      using 1 by (subst put_times.simps) (auto intro!: only_shows_bind grub_putchar_shows)
  qed (subst put_times.simps, simp)
qed

lemma put_char_at_shows: "count_lines s < 0 \<Longrightarrow> only_shows s (put_char_at i s)"
  by (simp add: put_char_at_def grub_putchar_shows)

lemma put_range_shows: "count_lines s < 0 \<Longrightarrow> only_shows s (put_range i n s)"
proof (induction i n s rule: put_range.induct)
  case (1 i n s)
  show ?case
  proof (cases "i < n")
    case True
    then show ?thesis
      using 1 by (subst put_range.simps) (auto intro!: only_shows_bind put_char_at_shows)
  qed (subst put_range.simps, simp)
qed

lemma refresh_text_shows:
  "count_lines s < 0 \<Longrightarrow> \<exists>i' pos' tr. pressed tr = pressed (shown s) \<and> refresh_text i n pos s = Some (i', pos', s\<lparr>shown := tr\<rparr>)"
proof (induction i n pos s rule: refresh_text.induct)
  case (1 i n pos s)
  show ?case
  proof (cases "i < n \<and> i < llen s")
    case True
    obtain tr where tr: "pressed tr = pressed (shown s)" "put_char_at i s = Some (s\<lparr>shown := tr\<rparr>)"
      using put_char_at_shows [OF "1.prems"] by (auto simp: only_shows_def)
    have "refresh_text i n pos s = refresh_text (i + 1) n (pos + 1) (s\<lparr>shown := tr\<rparr>)"
      using True tr by (subst refresh_text.simps) simp
    then show ?thesis using "1.IH" [OF True, of "s\<lparr>shown := tr\<rparr>"] tr "1.prems" by simp
  next
    case False
    then show ?thesis by (subst refresh_text.simps) (auto intro: exI [of _ "shown s"])
  qed
qed

lemma refresh_fill_shows:
  "count_lines s < 0 \<Longrightarrow> \<exists>pos' tr. pressed tr = pressed (shown s) \<and> refresh_fill i n pos s = Some (pos', s\<lparr>shown := tr\<rparr>)"
proof (induction i n pos s rule: refresh_fill.induct)
  case (1 i n pos s)
  show ?case
  proof (cases "i < n")
    case True
    obtain tr where tr: "pressed tr = pressed (shown s)" "grub_putchar 0x20 s = Some (s\<lparr>shown := tr\<rparr>)"
      using grub_putchar_shows [OF "1.prems"] by (auto simp: only_shows_def)
    have "refresh_fill i n pos s = refresh_fill (i + 1) n (pos + 1) (s\<lparr>shown := tr\<rparr>)"
      using True tr by (subst refresh_fill.simps) simp
    then show ?thesis using "1.IH" [OF True, of "s\<lparr>shown := tr\<rparr>"] tr "1.prems" by simp
  next
    case False
    then show ?thesis by (subst refresh_fill.simps) (auto intro: exI [of _ "shown s"])
  qed
qed

text \<open>The section that holds a position of the line, prompt included, and the column of the cursor there.\<close>

definition section_of :: "int \<Rightarrow> int" where
  "section_of L = (if L < 78 then 0 else (L - 78) div 67 + 1)"

definition column :: "int \<Rightarrow> int \<Rightarrow> int \<Rightarrow> int" where
  "column k l p = (if k = 0 then l + p else l + 1 - ((k - 1) * 67 + 68 - p))"

lemma column_section_of:
  assumes "0 \<le> l" and "0 \<le> p" shows "0 \<le> column (section_of (l + p)) l p" "column (section_of (l + p)) l p < 78"
    "0 \<le> section_of (l + p)"
proof -
  have "column (section_of (l + p)) l p = (if l + p < 78 then l + p else (l + p - 78) mod 67 + 11)"
    using assms by (auto simp: column_def section_of_def minus_mult_div_eq_mod [symmetric] pos_imp_zdiv_nonneg_iff add_eq_0_iff)
  moreover have "0 \<le> (l + p - 78) mod 67" "(l + p - 78) mod 67 < 67" by simp_all
  ultimately show "0 \<le> column (section_of (l + p)) l p" "column (section_of (l + p)) l p < 78" using assms by auto
  show "0 \<le> section_of (l + p)" by (simp add: section_of_def pos_imp_zdiv_nonneg_iff)
qed

text \<open>The strings the editor prints are in memory, and the terminal can place the cursor.\<close>

definition screen_ready :: "u8 list \<Rightarrow> 'a cmdline_scheme \<Rightarrow> bool" where
  "screen_ready ps s \<longleftrightarrow> count_lines s < 0 \<and> (is_dumb s \<or> term_getxy (current_term s) \<noteq> None)
     \<and> cstr_at (gmem s) (literal_at s ''%s'') [0x25, 0x73] \<and> cstr_at (gmem s) (prompt s) ps"

lemma goto_xpos_shows: "term_getxy (current_term s) \<noteq> None \<Longrightarrow> only_shows s (goto_xpos s)"
  by (auto simp: goto_xpos_def getxy_def only_shows_goto)

lemma refresh_head_full:
  assumes "screen_ready ps s"
  shows "\<exists>len pos tr. pressed tr = pressed (shown s) \<and> refresh_head True n s = Some (len, pos, s\<lparr>sect := section_of (lpos s + plen s), shown := tr\<rparr>)"
proof -
  let ?s = "s\<lparr>sect := section_of (lpos s + plen s)\<rparr>"
  have s: "(if lpos s + plen s < CMDLINE_WIDTH then s\<lparr>sect := 0\<rparr>
      else s\<lparr>sect := (lpos s + plen s - CMDLINE_WIDTH) div (CMDLINE_WIDTH - 1 - CMDLINE_MARGIN) + 1\<rparr>) = ?s"
    by (simp add: section_of_def CMDLINE_WIDTH_def CMDLINE_MARGIN_def)
  obtain tr where tr: "pressed tr = pressed (shown s)" "grub_putchar 0x0D ?s = Some (?s\<lparr>shown := tr\<rparr>)"
    using assms grub_putchar_shows [of ?s] by (auto simp: screen_ready_def only_shows_def)
  obtain tr1 where tr1: "pressed tr1 = pressed tr" "grub_putchar 0x3C (?s\<lparr>shown := tr\<rparr>) = Some (?s\<lparr>shown := tr1\<rparr>)"
    using assms grub_putchar_shows [of "?s\<lparr>shown := tr\<rparr>"] by (auto simp: screen_ready_def only_shows_def)
  obtain tr2 where "pressed tr2 = pressed tr" "grub_printf (frame s) (literal_at s ''%s'') [prompt s] (?s\<lparr>shown := tr\<rparr>) = Some (?s\<lparr>shown := tr2\<rparr>)"
    using assms grub_printf_shows [of "?s\<lparr>shown := tr\<rparr>" "literal_at s ''%s''" "prompt s" ps "frame s"]
    by (auto simp: screen_ready_def only_shows_def)
  with tr1 show ?thesis unfolding refresh_head_def s using tr(1) by (auto simp: tr(2))
qed

lemma refresh_start_spec:
  "\<exists>i. refresh_start full s = (i, s\<lparr>xpos := column (sect s) (lpos s) (plen s)\<rparr>)"
  by (auto simp: refresh_start_def column_def CMDLINE_WIDTH_def CMDLINE_MARGIN_def Let_def)

lemma cl_refresh_spec:
  assumes "screen_ready ps s"
  shows "\<exists>tr. pressed tr = pressed (shown s) \<and> cl_refresh full n s = Some (let k = if full then section_of (lpos s + plen s) else sect s
    in s\<lparr>sect := k, xpos := column k (lpos s) (plen s), shown := tr\<rparr>)"
proof -
  define k where "k = (if full then section_of (lpos s + plen s) else sect s)"
  obtain len pos tr1 where h: "pressed tr1 = pressed (shown s)" "refresh_head full n s = Some (len, pos, s\<lparr>sect := k, shown := tr1\<rparr>)"
  proof (cases full)
    case True
    then show ?thesis using that refresh_head_full [OF assms, where n = n] by (auto simp: k_def)
  next
    case False
    then show ?thesis using that [of "shown s" n "xpos s"] by (simp add: refresh_head_def k_def)
  qed
  define s1 where "s1 = s\<lparr>sect := k, xpos := column k (lpos s) (plen s)\<rparr>"
  have c: "count_lines (s1\<lparr>shown := tr\<rparr>) < 0" for tr using assms by (simp add: s1_def screen_ready_def)
  obtain i where i: "refresh_start full (s\<lparr>sect := k, shown := tr1\<rparr>) = (i, s1\<lparr>shown := tr1\<rparr>)"
    using refresh_start_spec [of full "s\<lparr>sect := k, shown := tr1\<rparr>"] by (auto simp: s1_def)
  obtain i2 pos2 tr2 where t: "pressed tr2 = pressed tr1" "refresh_text i (i + len) pos (s1\<lparr>shown := tr1\<rparr>) = Some (i2, pos2, s1\<lparr>shown := tr2\<rparr>)"
    using refresh_text_shows [OF c, where i = i and n = "i + len" and pos = pos, of tr1] by auto
  obtain pos3 tr3 where f: "pressed tr3 = pressed tr2" "refresh_fill i2 (i + len) pos2 (s1\<lparr>shown := tr2\<rparr>) = Some (pos3, s1\<lparr>shown := tr3\<rparr>)"
    using refresh_fill_shows [OF c, where i = i2 and n = "i + len" and pos = pos2, of tr2] by auto
  obtain pos4 tr4 where g: "pressed tr4 = pressed tr3" "(if pos3 = CMDLINE_WIDTH
      then do { s \<leftarrow> grub_putchar (if i + len < llen (s1\<lparr>shown := tr3\<rparr>) then 0x3E else 0x20) (s1\<lparr>shown := tr3\<rparr>); Some (pos3 + 1, s) }
      else Some (pos3, s1\<lparr>shown := tr3\<rparr>)) = Some (pos4, s1\<lparr>shown := tr4\<rparr>)"
  proof (cases "pos3 = CMDLINE_WIDTH")
    case True
    obtain tr where "pressed tr = pressed tr3" "grub_putchar (if i + len < llen (s1\<lparr>shown := tr3\<rparr>) then 0x3E else 0x20) (s1\<lparr>shown := tr3\<rparr>) = Some (s1\<lparr>shown := tr\<rparr>)"
      using grub_putchar_shows [OF c] by (fastforce simp: only_shows_def)
    with True show ?thesis using that [of tr "pos3 + 1"] by simp
  next
    case False
    then show ?thesis using that [of tr3 pos3] by simp
  qed
  have "only_shows (s1\<lparr>shown := tr4\<rparr>) (if is_dumb (s1\<lparr>shown := tr4\<rparr>)
      then put_times 0 (pos4 - xpos (s1\<lparr>shown := tr4\<rparr>)) 0x08 (s1\<lparr>shown := tr4\<rparr>) else goto_xpos (s1\<lparr>shown := tr4\<rparr>))"
    using assms put_times_shows [OF c] by (auto simp: screen_ready_def s1_def is_dumb_def intro!: goto_xpos_shows)
  then obtain tr5 where e: "pressed tr5 = pressed tr4" "(if is_dumb (s1\<lparr>shown := tr4\<rparr>)
      then put_times 0 (pos4 - xpos (s1\<lparr>shown := tr4\<rparr>)) 0x08 (s1\<lparr>shown := tr4\<rparr>) else goto_xpos (s1\<lparr>shown := tr4\<rparr>))
      = Some (s1\<lparr>shown := tr5\<rparr>)"
    by (auto simp: only_shows_def)
  have "cl_refresh full n s = Some (s1\<lparr>shown := tr5\<rparr>)"
    by (simp only: cl_refresh_def h(2) i t(2) f(2) g(2) e(2) Option.bind.simps prod.case Let_def)
  then show ?thesis using h(1) t(1) f(1) g(1) e(1) unfolding Let_def k_def [symmetric] s1_def by auto
qed

end
