(* ===== verification/Grub_Cmdline_Text.thy ===== *)
theory Grub_Cmdline_Text
  imports Grub_Cmdline_Screen
begin

text \<open>
  The command line editor as a text with a cursor: each key does to the two buffers what the operation of
  the same name does to the text before and after the cursor.
\<close>

section \<open>Copies in the buffers\<close>

lemma copied_text:
  assumes "cstr_at m q bs" and "length bs < n"
  shows "\<exists>junk. read_bytes m q n = bs @ 0 # junk \<and> length junk = n - length bs - 1"
proof -
  have "n = length bs + Suc (n - length bs - 1)" using assms(2) by simp
  then have "read_bytes m q n = read_bytes m q (length bs) @ read_bytes m (q + of_nat (length bs)) (Suc (n - length bs - 1))"
    using read_bytes_add by metis
  then show ?thesis using assms(1) by (auto simp: cstr_at_iff)
qed

lemma cstr_at_written:
  assumes "0 \<notin> set bs" and "length bs + Suc (length junk) \<le> 4294967296"
  shows "cstr_at (write_bytes m q (bs @ 0 # junk)) q bs"
proof -
  have r: "read_bytes (write_bytes m q (bs @ 0 # junk)) q (length bs + Suc (length junk)) = bs @ 0 # junk"
    using read_write_bytes [of "bs @ 0 # junk" m q] assms(2) by simp
  then show ?thesis using assms(1) unfolding read_bytes_add by (simp add: cstr_at_iff)
qed

text \<open>The two buffers that editing changes, and the array for a typed character.\<close>

definition editor_writes :: "'a cmdline_scheme \<Rightarrow> u32 \<Rightarrow> bool" where
  "editor_writes s a \<longleftrightarrow> in_region a CMDLINE_BUF 3200 \<or> in_region a (str_at s) 2"

lemma unat_buf: "i \<le> 3200 \<Longrightarrow> unat (CMDLINE_BUF + of_nat i) = 492128 + i"
  by (subst unat_add_lem [THEN iffD1]) (simp_all add: unat_of_nat_u32 CMDLINE_BUF_def DEFAULT_FILE_BUF_def PASSWORD_BUF_def)

lemma kill_buf: "KILL_BUF = CMDLINE_BUF + of_nat 1600"
  by (simp add: KILL_BUF_def)

lemma buf_at_nat: "buf_at (int i) = CMDLINE_BUF + of_nat i"
  by (simp add: buf_at_def)

definition low_memory_ok :: "'a grub_scheme \<Rightarrow> bool" where
  "low_memory_ok s \<longleftrightarrow> errnum s = ERR_NONE \<and> 484 \<le> unat (mem_lower s) \<and> unat (mem_lower s) < 4194304"

lemma copy_buf:
  assumes "low_memory_ok s" and "a + n \<le> 3200" and "unat src + n < 4294967296"
  shows "copy (CMDLINE_BUF + of_nat a) src (int n) s
    = s\<lparr>gmem := write_bytes (gmem s) (CMDLINE_BUF + of_nat a) (read_bytes (gmem s) src n)\<rparr>"
proof -
  let ?a = "CMDLINE_BUF + of_nat a"
  have "fits_low ?a n s" using assms(1,2) unfolding low_memory_ok_def fits_low_def by (simp add: unat_buf)
  from grub_memmove_low [OF this _ assms(3)] show ?thesis using assms(2) by (simp add: copy_def unat_buf)
qed

section \<open>The text being edited\<close>

text \<open>The characters before the cursor and after it, and those killed last.\<close>

record edit =
  before :: "u8 list"
  after :: "u8 list"
  killed :: "u8 list"

definition line_of :: "edit \<Rightarrow> u8 list" where
  "line_of e = before e @ after e"

text \<open>What stays as it is while a line is edited.\<close>

definition ready :: "u8 list \<Rightarrow> 'a cmdline_scheme \<Rightarrow> bool" where
  "ready ps s \<longleftrightarrow> count_lines s < 0 \<and> (is_dumb s \<or> term_getxy (current_term s) \<noteq> None) \<and> low_memory_ok s
     \<and> string_ready (editor_writes s) (gmem s) (literal_at s ''%s'') [0x25, 0x73]
     \<and> string_ready (editor_writes s) (gmem s) (prompt s) ps \<and> plen s = int (length ps)
     \<and> disjoint_regions CMDLINE_BUF 3200 (str_at s) 2 \<and> unat (str_at s) < 4294966000 \<and> maxlen s \<le> 1600"

definition text_in :: "'a cmdline_scheme \<Rightarrow> edit \<Rightarrow> bool" where
  "text_in s e \<longleftrightarrow> cstr_at (gmem s) CMDLINE_BUF (line_of e) \<and> cstr_at (gmem s) KILL_BUF (killed e)
     \<and> lpos s = int (length (before e)) \<and> llen s = int (length (line_of e)) \<and> llen s < maxlen s \<and> length (killed e) < 1600"

definition fits_on_screen :: "'a cmdline_scheme \<Rightarrow> bool" where
  "fits_on_screen s \<longleftrightarrow> 0 \<le> sect s \<and> xpos s = column (sect s) (lpos s) (plen s) \<and> 0 \<le> xpos s \<and> xpos s < 78"

definition editing :: "u8 list \<Rightarrow> 'a cmdline_scheme \<Rightarrow> edit \<Rightarrow> bool" where
  "editing ps s e \<longleftrightarrow> ready ps s \<and> text_in s e \<and> fits_on_screen s"

definition edit_step :: "'a cmdline_scheme \<Rightarrow> 'a cmdline_scheme \<Rightarrow> bool" where
  "edit_step s s' \<longleftrightarrow> (\<exists>m x l k n tr. s' = s\<lparr>gmem := m, xpos := x, lpos := l, sect := k, llen := n, shown := tr\<rparr>
     \<and> pressed tr = pressed (shown s) \<and> (\<forall>a. \<not> editor_writes s a \<longrightarrow> m a = gmem s a))"

definition does :: "u8 list \<Rightarrow> 'a cmdline_scheme \<Rightarrow> 'a cmdline_scheme option \<Rightarrow> edit \<Rightarrow> bool" where
  "does ps s r e \<longleftrightarrow> (\<exists>s'. r = Some s' \<and> edit_step s s' \<and> editing ps s' e)"

lemma edit_stepI:
  assumes "pressed tr = pressed (shown s)" and "\<And>a. \<not> editor_writes s a \<Longrightarrow> m a = gmem s a"
  shows "edit_step s (s\<lparr>gmem := m, xpos := x, lpos := l, sect := k, llen := n, shown := tr\<rparr>)"
  using assms unfolding edit_step_def by blast

lemma edit_step_eqI:
  assumes "s' = s\<lparr>gmem := m, xpos := x, lpos := l, sect := k, llen := n, shown := tr\<rparr>"
    and "pressed tr = pressed (shown s)" and "\<And>a. \<not> editor_writes s a \<Longrightarrow> m a = gmem s a"
  shows "edit_step s s'"
  unfolding assms(1) by (intro edit_stepI assms(2,3))

lemma edit_step_fields:
  assumes "edit_step s s'"
  shows "prompt s' = prompt s" "plen s' = plen s" "maxlen s' = maxlen s" "literal_at s' = literal_at s" "str_at s' = str_at s"
    "current_term s' = current_term s" "count_lines s' = count_lines s" "readline s' = readline s" "history s' = history s"
    "num_history s' = num_history s" "echo_char s' = echo_char s" "cmdline_at s' = cmdline_at s" "errnum s' = errnum s"
    "mem_lower s' = mem_lower s" "mem_upper s' = mem_upper s" "pressed (shown s') = pressed (shown s)"
    "editor_writes s' = editor_writes s" "is_dumb s' = is_dumb s"
    "\<And>a. \<not> editor_writes s a \<Longrightarrow> gmem s' a = gmem s a"
  using assms by (auto simp: edit_step_def editor_writes_def is_dumb_def fun_eq_iff)

lemma edit_step_refl: "edit_step s s"
  using edit_stepI [of "shown s" s "gmem s" "llen s" "sect s" "lpos s" "xpos s"] by simp

lemma edit_step_trans:
  assumes "edit_step s s1" and "edit_step s1 s2"
  shows "edit_step s s2"
proof -
  obtain m x l k n tr where s2: "s2 = s1\<lparr>gmem := m, xpos := x, lpos := l, sect := k, llen := n, shown := tr\<rparr>"
    "pressed tr = pressed (shown s1)" "\<forall>a. \<not> editor_writes s1 a \<longrightarrow> m a = gmem s1 a"
    using assms(2) by (auto simp: edit_step_def)
  have "s2 = s\<lparr>gmem := m, xpos := x, lpos := l, sect := k, llen := n, shown := tr\<rparr>"
    using assms(1) s2(1) by (auto simp: edit_step_def)
  then show ?thesis
    using s2(2,3) edit_step_fields [OF assms(1)] edit_stepI [of tr s m] by simp
qed

lemma ready_step: "ready ps s \<Longrightarrow> edit_step s s' \<Longrightarrow> ready ps s'"
  using string_ready_frame [of "editor_writes s" "gmem s" _ _ "gmem s'"]
  by (auto simp: ready_def edit_step_fields low_memory_ok_def)

lemma does_bind:
  assumes "does ps s r e1" and "\<And>s'. r = Some s' \<Longrightarrow> edit_step s s' \<Longrightarrow> editing ps s' e1 \<Longrightarrow> does ps s' (f s') e2"
  shows "does ps s (r \<bind> f) e2"
  using assms edit_step_trans unfolding does_def by fastforce

lemma does_after: "edit_step s s1 \<Longrightarrow> does ps s1 r e \<Longrightarrow> does ps s r e"
  using edit_step_trans unfolding does_def by blast

lemma does_nothing [simp]: "does ps s (Some s) e \<longleftrightarrow> editing ps s e"
  using edit_step_refl by (auto simp: does_def)

lemma does_shows:
  assumes "only_shows s r" and "editing ps s e"
  shows "does ps s r e"
proof -
  obtain tr where tr: "pressed tr = pressed (shown s)" "r = Some (s\<lparr>shown := tr\<rparr>)" using assms(1) by (auto simp: only_shows_def)
  have st: "edit_step s (s\<lparr>shown := tr\<rparr>)"
    using edit_stepI [of tr s "gmem s" "llen s" "sect s" "lpos s" "xpos s"] tr(1) by simp
  have "editing ps (s\<lparr>shown := tr\<rparr>) e"
    using assms(2) ready_step [OF _ st] by (auto simp: editing_def text_in_def fits_on_screen_def)
  with st tr(2) show ?thesis by (auto simp: does_def)
qed

lemma ready_screen: "ready ps s \<Longrightarrow> screen_ready ps s"
  by (auto simp: ready_def screen_ready_def string_ready_def)

lemma refresh_does:
  assumes "ready ps s" and "text_in s e"
    and "\<not> full \<Longrightarrow> 0 \<le> sect s \<and> 0 \<le> column (sect s) (lpos s) (plen s) \<and> column (sect s) (lpos s) (plen s) < 78"
  shows "does ps s (cl_refresh full n s) e"
proof -
  define k where "k = (if full then section_of (lpos s + plen s) else sect s)"
  obtain tr where tr: "pressed tr = pressed (shown s)"
    "cl_refresh full n s = Some (s\<lparr>sect := k, xpos := column k (lpos s) (plen s), shown := tr\<rparr>)"
    using cl_refresh_spec [OF ready_screen [OF assms(1)], of full n] by (auto simp: k_def Let_def)
  let ?s = "s\<lparr>sect := k, xpos := column k (lpos s) (plen s), shown := tr\<rparr>"
  have st: "edit_step s ?s"
    by (rule edit_step_eqI [where m = "gmem s" and x = "column k (lpos s) (plen s)" and l = "lpos s" and k = "k" and n = "llen s" and tr = "tr"]) (use tr(1) in simp_all)
  have "0 \<le> lpos s" "0 \<le> plen s" using assms(1,2) by (simp_all add: ready_def text_in_def)
  then have "fits_on_screen ?s" using assms(3) column_section_of by (cases full) (auto simp: fits_on_screen_def k_def)
  then have "editing ps ?s e" using assms(2) ready_step [OF assms(1) st] by (auto simp: editing_def text_in_def)
  with st tr(2) show ?thesis by (auto simp: does_def)
qed

section \<open>Moving the cursor\<close>

definition back_by :: "nat \<Rightarrow> edit \<Rightarrow> edit" where
  "back_by n e = (let k = length (before e) - n in e\<lparr>before := take k (before e), after := drop k (before e) @ after e\<rparr>)"

definition forward_by :: "nat \<Rightarrow> edit \<Rightarrow> edit" where
  "forward_by n e = e\<lparr>before := before e @ take n (after e), after := drop n (after e)\<rparr>"

lemma moves [simp]:
  "line_of (back_by n e) = line_of e" "killed (back_by n e) = killed e"
  "n \<le> length (before e) \<Longrightarrow> length (before (back_by n e)) = length (before e) - n"
  "line_of (forward_by n e) = line_of e" "killed (forward_by n e) = killed e"
  "n \<le> length (after e) \<Longrightarrow> length (before (forward_by n e)) = length (before e) + n"
proof -
  have "take k xs @ drop k xs @ ys = xs @ ys" for k and xs ys :: "u8 list"
    by (simp only: append_assoc [symmetric] append_take_drop_id)
  then show "line_of (back_by n e) = line_of e" by (simp add: back_by_def line_of_def Let_def)
qed (simp_all add: back_by_def forward_by_def line_of_def Let_def)

lemma cl_backward_does:
  assumes "editing ps s e" and "n \<le> length (before e)"
  shows "does ps s (cl_backward (int n) s) (back_by n e)"
proof -
  let ?s = "s\<lparr>lpos := lpos s - int n\<rparr>" and ?x = "s\<lparr>lpos := lpos s - int n, xpos := xpos s - int n\<rparr>"
  have st: "edit_step s ?s" "edit_step s ?x"
    by (rule edit_step_eqI [where m = "gmem s" and x = "xpos s" and l = "lpos s - int n" and k = "sect s" and n = "llen s" and tr = "shown s"], simp_all)
      (rule edit_step_eqI [where m = "gmem s" and x = "xpos s - int n" and l = "lpos s - int n" and k = "sect s" and n = "llen s" and tr = "shown s"], simp_all)
  have r: "ready ps ?s" "ready ps ?x" using assms(1) ready_step st by (auto simp: editing_def)
  have t: "text_in ?s (back_by n e)" "text_in ?x (back_by n e)"
    using assms by (auto simp: editing_def text_in_def)
  have full: "does ps s (cl_refresh True 0 ?s) (back_by n e)"
    using refresh_does [OF r(1) t(1), of True] by (intro does_after [OF st(1)]) simp
  have "does ps s (if is_dumb ?x then put_times 0 (int n) 0x08 ?x else goto_xpos ?x) (back_by n e)" if "\<not> xpos s - int n < 1"
  proof (rule does_after [OF st(2)], rule does_shows)
    have "fits_on_screen ?x" using that assms(1) by (auto simp: editing_def fits_on_screen_def column_def)
    with r(2) t(2) show "editing ps ?x (back_by n e)" by (simp add: editing_def)
    show "only_shows ?x (if is_dumb ?x then put_times 0 (int n) 0x08 ?x else goto_xpos ?x)"
      using r(2) put_times_shows [of ?x] goto_xpos_shows [of ?x] by (auto simp: ready_def)
  qed
  with full show ?thesis by (simp add: cl_backward_def Let_def)
qed

lemma cl_forward_does:
  assumes "editing ps s e" and "n \<le> length (after e)"
  shows "does ps s (cl_forward (int n) s) (forward_by n e)"
proof -
  let ?s = "s\<lparr>lpos := lpos s + int n\<rparr>" and ?x = "s\<lparr>lpos := lpos s + int n, xpos := xpos s + int n\<rparr>"
  have st: "edit_step s ?s" "edit_step s ?x"
    by (rule edit_step_eqI [where m = "gmem s" and x = "xpos s" and l = "lpos s + int n" and k = "sect s" and n = "llen s" and tr = "shown s"], simp_all)
      (rule edit_step_eqI [where m = "gmem s" and x = "xpos s + int n" and l = "lpos s + int n" and k = "sect s" and n = "llen s" and tr = "shown s"], simp_all)
  have r: "ready ps ?s" "ready ps ?x" using assms(1) ready_step st by (auto simp: editing_def)
  have t: "text_in ?s (forward_by n e)" "text_in ?x (forward_by n e)"
    using assms by (auto simp: editing_def text_in_def)
  have full: "does ps s (cl_refresh True 0 ?s) (forward_by n e)"
    using refresh_does [OF r(1) t(1), of True] by (intro does_after [OF st(1)]) simp
  have "does ps s (if is_dumb ?x then put_range (lpos ?x - int n) (lpos ?x) ?x else goto_xpos ?x) (forward_by n e)"
    if "\<not> CMDLINE_WIDTH \<le> xpos s + int n"
  proof (rule does_after [OF st(2)], rule does_shows)
    have "fits_on_screen ?x" using that assms(1) by (auto simp: editing_def fits_on_screen_def column_def CMDLINE_WIDTH_def)
    with r(2) t(2) show "editing ps ?x (forward_by n e)" by (simp add: editing_def)
    show "only_shows ?x (if is_dumb ?x then put_range (lpos ?x - int n) (lpos ?x) ?x else goto_xpos ?x)"
      using r(2) put_range_shows [of ?x] goto_xpos_shows [of ?x] by (auto simp: ready_def)
  qed
  with full show ?thesis by (simp add: cl_forward_def Let_def)
qed

end
