(* ===== verification/Grub_Cmdline_Edits.thy ===== *)
theory Grub_Cmdline_Edits
  imports Grub_Cmdline_Text
begin

text \<open>
  What \<open>cl_insert\<close> and \<open>cl_delete\<close> do to the line in memory and, as one operation on the text, to the
  whole state.
\<close>

section \<open>Inserting and deleting in memory\<close>

lemma part_outside:
  "k + length bs \<le> N \<Longrightarrow> N \<le> 4294967296 \<Longrightarrow> \<not> in_region a p N \<Longrightarrow> write_bytes m (p + of_nat k) bs a = m a"
  using in_region_sub [of a p k "length bs" N] by (intro write_bytes_outside) auto

lemma cstr_at_behind:
  assumes "cstr_at m p (xs @ ys)" and "cstr_at (write_bytes m (p + of_nat (length xs)) bs) (p + of_nat (length xs)) zs"
    and "length xs + length bs \<le> 4294967296"
  shows "cstr_at (write_bytes m (p + of_nat (length xs)) bs) p (xs @ zs)"
proof -
  have "read_bytes (write_bytes m (p + of_nat (length xs)) bs) p (length xs) = read_bytes m p (length xs)"
    using assms(3) by (intro read_bytes_cong write_bytes_before) auto
  with assms(1,2) show ?thesis by (simp add: cstr_at_append)
qed

lemma cstr_at_suffix: "cstr_at m p (xs @ ys) \<Longrightarrow> cstr_at m (p + of_nat (length xs)) ys"
  by (simp add: cstr_at_append)

lemma cstr_at_no_zero: "cstr_at m p bs \<Longrightarrow> 0 \<notin> set bs"
  by (simp add: cstr_at_iff)

text \<open>\<open>cl_delete\<close> copies the rest of the line and as many bytes more as there are before the cursor.\<close>

lemma delete_in_memory:
  assumes "cstr_at m p (xs @ ys @ zs)" and "2 * length xs + length zs < N" and "N < 4294967296"
    and "m' = write_bytes m (p + of_nat (length xs)) (read_bytes m (p + of_nat (length xs + length ys)) (length xs + length zs + 1))"
  shows "cstr_at m' p (xs @ zs)" and "\<And>a. \<not> in_region a p N \<Longrightarrow> m' a = m a"
proof -
  have z: "cstr_at m (p + of_nat (length xs + length ys)) zs"
    using assms(1) cstr_at_suffix [of m p "xs @ ys" zs] by simp
  obtain junk where j: "read_bytes m (p + of_nat (length xs + length ys)) (length xs + length zs + 1) = zs @ 0 # junk"
    "length junk = length xs"
    using copied_text [OF z, of "length xs + length zs + 1"] by auto
  have "cstr_at (write_bytes m (p + of_nat (length xs)) (zs @ 0 # junk)) (p + of_nat (length xs)) zs"
    using cstr_at_no_zero [OF z] assms(2,3) j(2) by (intro cstr_at_written) auto
  then show "cstr_at m' p (xs @ zs)"
    unfolding assms(4) j(1) using assms(1-3) j(2) by (intro cstr_at_behind) auto
  show "m' a = m a" if "\<not> in_region a p N" for a
    unfolding assms(4) using that assms(2,3) by (intro part_outside [where N = N]) auto
qed

lemma append_in_memory:
  assumes "cstr_at m p xs" and "cstr_at m str is'" and "length xs + length is' < N" and "N < 4294967296"
    and "m' = write_bytes m (p + of_nat (length xs)) (read_bytes m str (length is' + 1))"
  shows "cstr_at m' p (xs @ is')" and "\<And>a. \<not> in_region a p N \<Longrightarrow> m' a = m a"
proof -
  have r: "read_bytes m str (length is' + 1) = is' @ 0 # []"
    using copied_text [OF assms(2), of "length is' + 1"] by auto
  have "cstr_at (write_bytes m (p + of_nat (length xs)) (is' @ 0 # [])) (p + of_nat (length xs)) is'"
    using cstr_at_no_zero [OF assms(2)] assms(3,4) by (intro cstr_at_written) auto
  then show "cstr_at m' p (xs @ is')"
    unfolding assms(5) r using assms(1,3,4) by (intro cstr_at_behind [where ys = "[]"]) auto
  show "m' a = m a" if "\<not> in_region a p N" for a
    unfolding assms(5) using that assms(3,4) by (intro part_outside [where N = N]) auto
qed

lemma insert_in_memory:
  assumes "cstr_at m p (xs @ ys)" and "cstr_at m str is'" and "length xs + length is' + length ys < N" and "N < 4294967296"
    and "\<And>a. in_region a str (Suc (length is')) \<Longrightarrow> \<not> in_region a p N"
    and "m1 = write_bytes m (p + of_nat (length xs + length is')) (read_bytes m (p + of_nat (length xs)) (length ys + 1))"
    and "m' = write_bytes m1 (p + of_nat (length xs)) (read_bytes m1 str (length is'))"
  shows "cstr_at m' p (xs @ is' @ ys)" and "\<And>a. \<not> in_region a p N \<Longrightarrow> m' a = m a"
proof -
  have y: "cstr_at m (p + of_nat (length xs)) ys" using assms(1) by (rule cstr_at_suffix)
  have r: "read_bytes m (p + of_nat (length xs)) (length ys + 1) = ys @ 0 # []"
    using copied_text [OF y, of "length ys + 1"] by auto
  have o1: "m1 a = m a" if "\<not> in_region a p N" for a
    unfolding assms(6) using that assms(3,4) by (intro part_outside [where N = N]) auto
  have "cstr_at m1 str is'" using assms(2,3,4,5) o1 by (auto intro: cstr_at_cong)
  then have i: "read_bytes m1 str (length is') = is'" by (simp add: cstr_at_iff)
  show "m' a = m a" if "\<not> in_region a p N" for a
    unfolding assms(7) using that o1 assms(3,4) part_outside [of "length xs" "read_bytes m1 str (length is')" N a p m1] by auto
  have y1: "cstr_at m1 (p + of_nat (length xs + length is')) ys"
    unfolding assms(6) r using cstr_at_no_zero [OF y] assms(3,4) by (intro cstr_at_written) auto
  have keep: "write_bytes m1 (p + of_nat (length xs)) is' a = m1 a"
    if rg: "in_region a (p + of_nat (length xs + length is')) (Suc (length ys))" for a
  proof (rule write_bytes_outside)
    obtain j where j: "j < Suc (length ys)" "a = p + of_nat (length xs) + of_nat (length is' + j)"
      using in_regionE [OF rg] that by (auto simp: algebra_simps)
    show "\<not> in_region a (p + of_nat (length xs)) (length is')"
      unfolding j(2) in_region_def using j(1) assms(3,4) by (subst unat_offset_u32) auto
  qed (use assms(3,4) in simp)
  have "cstr_at m' (p + of_nat (length xs + length is')) ys"
    unfolding assms(7) i by (rule cstr_at_cong [OF y1 keep]) (use assms(3,4) in auto)
  then have y2: "cstr_at m' (p + of_nat (length xs) + of_nat (length is')) ys" by (simp add: add.assoc)
  have "cstr_at m' (p + of_nat (length xs)) (is' @ ys)"
    unfolding cstr_at_append using y2 cstr_at_no_zero [OF assms(2)] assms(3,4) read_write_bytes [of is' m1 "p + of_nat (length xs)"]
    by (simp add: assms(7) i)
  moreover have "read_bytes m' p (length xs) = xs"
  proof -
    have "read_bytes m' p (length xs) = read_bytes m1 p (length xs)"
      unfolding assms(7) i using assms(3,4) by (intro read_bytes_cong write_bytes_before) auto
    also have "\<dots> = read_bytes m p (length xs)"
      unfolding assms(6) r using assms(3,4) by (intro read_bytes_cong write_bytes_before) auto
    finally show ?thesis using assms(1) by (simp add: cstr_at_append)
  qed
  ultimately show "cstr_at m' p (xs @ is' @ ys)" using assms(1) by (simp add: cstr_at_append)
qed

section \<open>Deleting and inserting\<close>

lemma buf_regions:
  "in_region a CMDLINE_BUF 1600 \<Longrightarrow> editor_writes s a"
  "in_region a KILL_BUF n \<Longrightarrow> n \<le> 1600 \<Longrightarrow> \<not> in_region a CMDLINE_BUF 1600 \<and> editor_writes s a"
proof -
  show "in_region a CMDLINE_BUF 1600 \<Longrightarrow> editor_writes s a" by (auto simp: editor_writes_def intro: in_region_mono)
  assume "in_region a KILL_BUF n" "n \<le> 1600"
  then obtain i where i: "i < 1600" "a = CMDLINE_BUF + of_nat (1600 + i)"
  proof -
    from \<open>in_region a KILL_BUF n\<close> obtain j where "j < n" "a = KILL_BUF + of_nat j" by (rule in_regionE)
    then show ?thesis using that [of j] \<open>n \<le> 1600\<close> by (simp add: kill_buf add.assoc)
  qed
  have "unat (a - CMDLINE_BUF) = 1600 + i" unfolding i(2) using i(1) by (subst unat_offset_u32) auto
  then show "\<not> in_region a CMDLINE_BUF 1600 \<and> editor_writes s a"
    using i(1) by (simp add: in_region_def editor_writes_def)
qed

lemma line_short: "editing ps s e \<Longrightarrow> length (line_of e) < 1600 \<and> length (before e) + length (after e) < 1600"
  by (auto simp: editing_def ready_def text_in_def line_of_def)

text \<open>A change of the line in memory, the kill buffer and everything else being as before.\<close>

lemma line_changed:
  assumes "editing ps s e" and "cstr_at m CMDLINE_BUF (line_of e')" and "\<And>a. \<not> in_region a CMDLINE_BUF 1600 \<Longrightarrow> m a = gmem s a"
    and "length (line_of e') < nat (maxlen s)" and "killed e' = killed e"
    and "s1 = s\<lparr>gmem := m, lpos := int (length (before e')), llen := int (length (line_of e'))\<rparr>"
  shows "edit_step s s1" and "ready ps s1" and "text_in s1 e'"
proof -
  show st: "edit_step s s1"
    by (rule edit_step_eqI [where m = m and x = "xpos s" and l = "int (length (before e'))" and k = "sect s"
        and n = "int (length (line_of e'))" and tr = "shown s"])
      (use assms(3,6) buf_regions(1) [of _ s] in auto)
  show "ready ps s1" using assms(1) ready_step [OF _ st] by (simp add: editing_def)
  have k: "cstr_at (gmem s) KILL_BUF (killed e)" "length (killed e) < 1600" using assms(1) by (auto simp: editing_def text_in_def)
  have "cstr_at m KILL_BUF (killed e)"
  proof (rule cstr_at_cong [OF k(1)])
    show "m a = gmem s a" if "in_region a KILL_BUF (Suc (length (killed e)))" for a
      using assms(3) buf_regions(2) [OF that, of s] k(2) by simp
  qed (use k(2) in simp)
  then show "text_in s1 e'" using assms(2,4,5,6) k(2) by (auto simp: text_in_def)
qed

definition delete :: "nat \<Rightarrow> edit \<Rightarrow> edit" where
  "delete n e = e\<lparr>after := drop n (after e)\<rparr>"

lemma cl_delete_does:
  assumes "editing ps s e" and "0 < n" and "n \<le> length (after e)" and "2 * length (before e) + length (drop n (after e)) < 1600"
  shows "does ps s (cl_delete (int n) s) (delete n e)"
proof -
  let ?b = "length (before e)" and ?z = "length (drop n (after e))"
  have t: "lpos s = int ?b" "llen s = int (length (line_of e))" "llen s < maxlen s" "maxlen s \<le> 1600" "low_memory_ok s"
    "cstr_at (gmem s) CMDLINE_BUF (line_of e)" and sc: "fits_on_screen s" "plen s = int (length ps)"
    using assms(1) by (auto simp: editing_def text_in_def ready_def)
  have len: "length (line_of e) = ?b + n + ?z" "?b + n + ?z < 1600"
    using assms(3) line_short [OF assms(1)] by (auto simp: line_of_def)
  define m where "m = write_bytes (gmem s) (CMDLINE_BUF + of_nat ?b) (read_bytes (gmem s) (CMDLINE_BUF + of_nat (?b + n)) (?b + ?z + 1))"
  have i: "lpos s + int n = int (?b + n)" "llen s - int n + 1 = int (?b + ?z + 1)" "llen s - int n = int (?b + ?z)"
    using t(1,2) len(1) by simp_all
  have c: "copy (buf_at (lpos s)) (buf_at (lpos s + int n)) (llen s - int n + 1) s = s\<lparr>gmem := m\<rparr>"
    unfolding i(1,2) unfolding t(1) buf_at_nat m_def using len(2) by (intro copy_buf t(5)) (simp_all only: unat_buf)
  have x: "line_of e = before e @ take n (after e) @ drop n (after e)" "length (take n (after e)) = n" "take n (after e) \<noteq> []"
    using assms(2,3) by (auto simp: line_of_def)
  note dm = delete_in_memory [OF t(6) [unfolded x(1)], of 1600 m]
  have l': "line_of (delete n e) = before e @ drop n (after e)" by (simp add: line_of_def delete_def)
  define s1 where "s1 = s\<lparr>gmem := m, lpos := int (length (before (delete n e))), llen := int (length (line_of (delete n e)))\<rparr>"
  have s1: "edit_step s s1" "ready ps s1" "text_in s1 (delete n e)"
    using line_changed [OF assms(1) _ _ _ _ s1_def] dm t(2,3,4) len x(2) assms(4) unfolding l' m_def by (auto simp: delete_def)
  have e: "s\<lparr>gmem := m, llen := llen s - int n\<rparr> = s1"
    unfolding s1_def l' i(3) by (simp add: delete_def t(1) [symmetric])
  have "does ps s (cl_refresh False k s1) (delete n e)" for k
    by (rule does_after [OF s1(1)], rule refresh_does [OF s1(2,3)])
      (use sc in \<open>auto simp: s1_def fits_on_screen_def delete_def t(1) [symmetric]\<close>)
  then show ?thesis
    unfolding cl_delete_def c Let_def using e by simp
qed

definition insert_text :: "int \<Rightarrow> u8 list \<Rightarrow> edit \<Rightarrow> edit" where
  "insert_text M is' e = (if int (length (line_of e) + length is') < M then e\<lparr>before := before e @ is'\<rparr> else e)"

lemma cl_insert_does:
  assumes "editing ps s e" and "cstr_at (gmem s) str is'" and "length is' < 1600" and "unat str + Suc (length is') < 4294967296"
    and "\<And>a. in_region a str (Suc (length is')) \<Longrightarrow> \<not> in_region a CMDLINE_BUF 1600"
  shows "does ps s (cl_insert str s) (insert_text (maxlen s) is' e)"
proof -
  let ?b = "length (before e)" and ?a = "length (after e)" and ?l = "length is'"
  have t: "lpos s = int ?b" "llen s = int (length (line_of e))" "llen s < maxlen s" "maxlen s \<le> 1600" "low_memory_ok s"
    "cstr_at (gmem s) CMDLINE_BUF (line_of e)" and sc: "fits_on_screen s" "plen s = int (length ps)"
    using assms(1) by (auto simp: editing_def text_in_def ready_def)
  have len: "length (line_of e) = ?b + ?a" by (simp add: line_of_def)
  have sl: "grub_strlen (gmem s) str = Some (of_nat ?l)" "sint (of_nat ?l :: u32) = int ?l"
    using grub_strlen_cstr [OF assms(2)] assms(3) by (simp_all add: sint_of_nat_u32)
  show ?thesis
  proof (cases "llen s + int ?l < maxlen s")
    case False
    then have "insert_text (maxlen s) is' e = e" using t(2) by (simp add: insert_text_def)
    then show ?thesis using False sl assms(1) by (simp add: cl_insert_def Let_def)
  next
    case fits: True
    define e' where "e' = e\<lparr>before := before e @ is'\<rparr>"
    have e': "insert_text (maxlen s) is' e = e'" using fits t(2) by (simp add: insert_text_def e'_def)
    have l': "line_of e' = before e @ is' @ after e" by (simp add: line_of_def e'_def)
    have small: "?b + ?l + ?a < 1600" using fits t(2,4) len by simp
    define r where "r = (if lpos s = llen s then copy (buf_at (lpos s)) str (int ?l + 1) s
      else let s = copy (buf_at (lpos s + int ?l)) (buf_at (lpos s)) (llen s - lpos s + 1) s in copy (buf_at (lpos s)) str (int ?l) s)"
    have "\<exists>m. r = s\<lparr>gmem := m\<rparr> \<and> cstr_at m CMDLINE_BUF (line_of e') \<and> (\<forall>a. \<not> in_region a CMDLINE_BUF 1600 \<longrightarrow> m a = gmem s a)"
    proof (cases "after e = []")
      case True
      define m where "m = write_bytes (gmem s) (CMDLINE_BUF + of_nat ?b) (read_bytes (gmem s) str (?l + 1))"
      have "copy (CMDLINE_BUF + of_nat ?b) str (int (?l + 1)) s = s\<lparr>gmem := m\<rparr>"
        unfolding m_def using small assms(3,4) by (intro copy_buf t(5)) auto
      then have "r = s\<lparr>gmem := m\<rparr>" unfolding r_def t(1,2) len buf_at_nat using True by (simp add: add.commute)
      moreover have "cstr_at m CMDLINE_BUF (before e @ is')" "\<And>a. \<not> in_region a CMDLINE_BUF 1600 \<Longrightarrow> m a = gmem s a"
        using append_in_memory [OF _ assms(2) _ _ m_def, of 1600] t(6) small True by (auto simp: line_of_def)
      ultimately show ?thesis using True l' by auto
    next
      case False
      define m1 where "m1 = write_bytes (gmem s) (CMDLINE_BUF + of_nat (?b + ?l)) (read_bytes (gmem s) (CMDLINE_BUF + of_nat ?b) (?a + 1))"
      define m where "m = write_bytes m1 (CMDLINE_BUF + of_nat ?b) (read_bytes m1 str ?l)"
      have c1: "copy (CMDLINE_BUF + of_nat (?b + ?l)) (CMDLINE_BUF + of_nat ?b) (int (?a + 1)) s = s\<lparr>gmem := m1\<rparr>"
        unfolding m1_def using small by (intro copy_buf t(5)) (simp_all only: unat_buf)
      have "low_memory_ok (s\<lparr>gmem := m1\<rparr>)" using t(5) by (simp add: low_memory_ok_def)
      then have c2: "copy (CMDLINE_BUF + of_nat ?b) str (int ?l) (s\<lparr>gmem := m1\<rparr>) = s\<lparr>gmem := m\<rparr>"
        using copy_buf [of "s\<lparr>gmem := m1\<rparr>" ?b ?l str] small assms(3,4) by (simp add: m_def)
      have i: "lpos s + int ?l = int (?b + ?l)" "llen s - lpos s + 1 = int (?a + 1)" using t(1,2) len by simp_all
      have "lpos s \<noteq> llen s" using False t(1,2) len by simp
      then have "r = s\<lparr>gmem := m\<rparr>"
        unfolding r_def i Let_def unfolding t(1) buf_at_nat c1 using c2 by (simp add: t(1) buf_at_nat)
      moreover have "cstr_at m CMDLINE_BUF (before e @ is' @ after e)" "\<And>a. \<not> in_region a CMDLINE_BUF 1600 \<Longrightarrow> m a = gmem s a"
        using insert_in_memory [OF t(6) [unfolded line_of_def] assms(2) _ _ assms(5) m1_def m_def] small by auto
      ultimately show ?thesis using l' by auto
    qed
    then obtain m where m: "r = s\<lparr>gmem := m\<rparr>" "cstr_at m CMDLINE_BUF (line_of e')"
      "\<And>a. \<not> in_region a CMDLINE_BUF 1600 \<Longrightarrow> m a = gmem s a" by blast
    define s1 where "s1 = s\<lparr>gmem := m, lpos := int (length (before e')), llen := int (length (line_of e'))\<rparr>"
    have s1: "edit_step s s1" "ready ps s1" "text_in s1 e'"
    proof -
      have "length (line_of e') < nat (maxlen s)" using fits t(2) l' len by simp
      then show "edit_step s s1" "ready ps s1" "text_in s1 e'"
        using line_changed [OF assms(1) m(2,3) _ _ s1_def] by (simp_all add: e'_def)
    qed
    have p: "lpos s1 = lpos s + int ?l" "xpos s1 = xpos s" "sect s1 = sect s" "plen s1 = plen s"
      by (simp_all add: s1_def t(1) e'_def)
    have e: "s\<lparr>gmem := m, llen := llen s + int ?l, lpos := lpos s + int ?l\<rparr> = s1"
      unfolding s1_def l' by (simp add: t(1,2) len e'_def)
    have full: "does ps s (cl_refresh True 0 s1) e'"
      by (rule does_after [OF s1(1)], rule refresh_does [OF s1(2,3)]) simp
    have part: "does ps s (cl_refresh False k s1) e'" if "\<not> CMDLINE_WIDTH \<le> xpos s1 + int ?l" for k
      by (rule does_after [OF s1(1)], rule refresh_does [OF s1(2,3)])
        (use that sc p in \<open>auto simp: fits_on_screen_def column_def CMDLINE_WIDTH_def\<close>)
    have "cl_insert str s = (if xpos s1 + int ?l \<ge> CMDLINE_WIDTH then cl_refresh True 0 s1
      else if xpos s1 + int ?l + llen s1 - lpos s1 > CMDLINE_WIDTH then cl_refresh False (CMDLINE_WIDTH - xpos s1) s1
      else cl_refresh False (int ?l + llen s1 - lpos s1) s1)"
      using fits unfolding cl_insert_def sl(1) Option.bind.simps sl(2) Let_def r_def [unfolded Let_def, symmetric] m(1)
      by (simp add: e)
    then show ?thesis unfolding e' using full part by simp
  qed
qed

end
