(* ===== verification/Grub_Cmdline_Keys.thy ===== *)
theory Grub_Cmdline_Keys
  imports Grub_Cmdline_Edits
begin

text \<open>
  What each key of the command line editor does to the text and the kill buffer, and what the keys typed
  up to Return do.
\<close>

section \<open>Killing\<close>

text \<open>A change of the kill buffer alone.\<close>

lemma kill_changed:
  assumes "editing ps s e" and "cstr_at m KILL_BUF k" and "\<And>a. \<not> in_region a KILL_BUF 1600 \<Longrightarrow> m a = gmem s a" and "length k < 1600"
  shows "edit_step s (s\<lparr>gmem := m\<rparr>)" and "editing ps (s\<lparr>gmem := m\<rparr>) (e\<lparr>killed := k\<rparr>)"
proof -
  show st: "edit_step s (s\<lparr>gmem := m\<rparr>)"
    by (rule edit_step_eqI [where m = m and x = "xpos s" and l = "lpos s" and k = "sect s" and n = "llen s" and tr = "shown s"])
      (use assms(3) buf_regions(2) [of _ 1600 s] in auto)
  have l: "cstr_at (gmem s) CMDLINE_BUF (line_of e)" using assms(1) by (simp add: editing_def text_in_def)
  have "cstr_at m CMDLINE_BUF (line_of e)"
  proof (rule cstr_at_cong [OF l])
    fix a assume "in_region a CMDLINE_BUF (Suc (length (line_of e)))"
    then have "in_region a CMDLINE_BUF 1600" using line_short [OF assms(1)] by (auto intro: in_region_mono)
    then show "m a = gmem s a" using assms(3) buf_regions(2) [of a 1600 s] by auto
  qed (use line_short [OF assms(1)] in simp)
  then show "editing ps (s\<lparr>gmem := m\<rparr>) (e\<lparr>killed := k\<rparr>)"
    using assms(1,2,4) ready_step [OF _ st] by (auto simp: editing_def text_in_def fits_on_screen_def line_of_def)
qed

lemma kill_written:
  assumes "cstr_at m0 q k" and "length k < 1600" and "m = write_bytes m0 KILL_BUF (k @ [0])"
  shows "cstr_at m KILL_BUF k" and "\<And>a. \<not> in_region a KILL_BUF 1600 \<Longrightarrow> m a = m0 a"
proof -
  show "cstr_at m KILL_BUF k"
    unfolding assms(3) using cstr_at_written [of k "[]"] cstr_at_no_zero [OF assms(1)] assms(2) by simp
  show "m a = m0 a" if "\<not> in_region a KILL_BUF 1600" for a
    unfolding assms(3) using that assms(2) in_region_mono [of a KILL_BUF "length (k @ [0])" 1600] by (intro write_bytes_outside) auto
qed

definition kill_head :: "edit \<Rightarrow> edit" where
  "kill_head e = (if before e = [] then e else \<lparr>before = [], after = after e, killed = before e\<rparr>)"

definition kill_tail :: "edit \<Rightarrow> edit" where
  "kill_tail e = (if after e = [] then e else \<lparr>before = before e, after = [], killed = after e\<rparr>)"

lemma kill_before_does:
  assumes "editing ps s e"
  shows "does ps s (kill_before s) (kill_head e)"
proof (cases "before e = []")
  case True
  then show ?thesis using assms by (simp add: kill_before_def kill_head_def editing_def text_in_def)
next
  case False
  let ?n = "length (before e)"
  have t: "lpos s = int ?n" "low_memory_ok s" "cstr_at (gmem s) CMDLINE_BUF (before e @ after e)"
    using assms by (auto simp: editing_def text_in_def ready_def line_of_def)
  have n: "?n < 1600" "lpos s \<noteq> 0" using line_short [OF assms] False t(1) by simp_all
  have rd: "read_bytes (gmem s) CMDLINE_BUF ?n = before e" using t(3) by (simp add: cstr_at_append)
  define m where "m = write_bytes (gmem s) KILL_BUF (before e @ [0])"
  have "copy (CMDLINE_BUF + of_nat 1600) CMDLINE_BUF (int ?n) s = s\<lparr>gmem := write_bytes (gmem s) KILL_BUF (before e)\<rparr>"
    using copy_buf [OF t(2), of 1600 ?n CMDLINE_BUF] n(1) unat_buf [of 0] rd by (simp add: kill_buf)
  then have c1: "copy KILL_BUF CMDLINE_BUF (int ?n) s = s\<lparr>gmem := write_bytes (gmem s) KILL_BUF (before e)\<rparr>"
    unfolding kill_buf [symmetric] .
  have c2: "store (KILL_BUF + word_of_int (int ?n)) 0 (s\<lparr>gmem := write_bytes (gmem s) KILL_BUF (before e)\<rparr>) = s\<lparr>gmem := m\<rparr>"
    by (simp add: store_def write_bytes_snoc m_def)
  have z: "0 \<notin> set (before e)" using t(3) by (auto simp: cstr_at_iff)
  have k: "cstr_at m KILL_BUF (before e)" "\<And>a. \<not> in_region a KILL_BUF 1600 \<Longrightarrow> m a = gmem s a"
    unfolding m_def using cstr_at_written [of "before e" "[]"] z n(1)
      write_bytes_outside [of "before e @ [0]" _ KILL_BUF "gmem s"] in_region_mono [of _ KILL_BUF "length (before e @ [0])" 1600] by auto
  note s1 = kill_changed [OF assms k n(1)]
  let ?e = "e\<lparr>killed := before e\<rparr>" and ?s = "s\<lparr>gmem := m\<rparr>"
  have b: "before (back_by ?n ?e) = []" "after (back_by ?n ?e) = before e @ after e"
    by (simp_all add: back_by_def)
  have "does ps ?s (cl_backward (int ?n) ?s \<bind> (\<lambda>s. cl_delete (int ?n) s)) (delete ?n (back_by ?n ?e))"
  proof (rule does_bind [OF cl_backward_does [OF s1(2)]])
    show "?n \<le> length (before ?e)" by simp
    show "does ps s' (cl_delete (int ?n) s') (delete ?n (back_by ?n ?e))" if "editing ps s' (back_by ?n ?e)" for s'
      using False line_short [OF assms] by (intro cl_delete_does [OF that]) (simp_all add: b)
  qed
  moreover have "delete ?n (back_by ?n ?e) = kill_head e" using False by (simp add: delete_def b kill_head_def back_by_def)
  moreover have "kill_before s = cl_backward (int ?n) ?s \<bind> (\<lambda>s. cl_delete (int ?n) s)"
    unfolding kill_before_def using n(2) False by (simp add: t(1) c1 c2 [simplified])
  ultimately show ?thesis using does_after [OF s1(1)] by simp
qed

lemma kill_after_does:
  assumes "editing ps s e" and "2 * length (before e) < 1600"
  shows "does ps s (kill_after s) (kill_tail e)"
proof (cases "after e = []")
  case True
  then show ?thesis using assms(1) by (simp add: kill_after_def kill_tail_def editing_def text_in_def line_of_def)
next
  case False
  let ?b = "length (before e)" and ?n = "length (after e)"
  have t: "lpos s = int ?b" "llen s = int (?b + ?n)" "low_memory_ok s" "cstr_at (gmem s) CMDLINE_BUF (before e @ after e)"
    using assms(1) by (auto simp: editing_def text_in_def ready_def line_of_def)
  have n: "?b + ?n < 1600" using line_short [OF assms(1)] by simp
  have a: "cstr_at (gmem s) (CMDLINE_BUF + of_nat ?b) (after e)" using t(4) by (rule cstr_at_suffix)
  have rd: "read_bytes (gmem s) (CMDLINE_BUF + of_nat ?b) (?n + 1) = after e @ [0]"
    using copied_text [OF a, of "?n + 1"] by auto
  define m where "m = write_bytes (gmem s) KILL_BUF (after e @ [0])"
  have "copy (CMDLINE_BUF + of_nat 1600) (CMDLINE_BUF + of_nat ?b) (int (?n + 1)) s = s\<lparr>gmem := m\<rparr>"
    unfolding m_def rd [symmetric] kill_buf using n by (intro copy_buf t(3)) (simp_all only: unat_buf)
  moreover have i: "llen s - lpos s + 1 = int (?n + 1)" using t(1,2) by simp
  ultimately have c: "copy KILL_BUF (buf_at (lpos s)) (llen s - lpos s + 1) s = s\<lparr>gmem := m\<rparr>"
    unfolding i unfolding t(1) buf_at_nat kill_buf by simp
  have k: "cstr_at m KILL_BUF (after e)" "\<And>a. \<not> in_region a KILL_BUF 1600 \<Longrightarrow> m a = gmem s a"
    using kill_written [OF a _ m_def] n by auto
  have s: "length (after e) < 1600" using n by simp
  note s1 = kill_changed [OF assms(1) k s]
  let ?e = "e\<lparr>killed := after e\<rparr>" and ?s = "s\<lparr>gmem := m\<rparr>"
  have "does ps s (cl_delete (int ?n) ?s) (delete ?n ?e)"
    using False assms(2) by (intro does_after [OF s1(1)] cl_delete_does [OF s1(2)]) simp_all
  moreover have "delete ?n ?e = kill_tail e" using False by (simp add: delete_def kill_tail_def)
  moreover have "lpos s \<noteq> llen s" "llen s - lpos s = int ?n" using False t(1,2) by simp_all
  ultimately show ?thesis unfolding kill_after_def c Let_def by simp
qed

section \<open>Keys\<close>

text \<open>
  \<open>cl_delete\<close> moves more bytes than the line has behind the cursor. They stay in the 1600 bytes of its buffer
  in these cases, above all whenever the line has at most 800 characters.
\<close>

definition deletes_in_line :: "bool \<Rightarrow> u32 \<Rightarrow> edit \<Rightarrow> bool" where
  "deletes_in_line rl c e \<longleftrightarrow>
     (c = 4 \<and> after e \<noteq> [] \<longrightarrow> 2 * length (before e) + length (after e) \<le> 1600)
     \<and> (c = 8 \<and> before e \<noteq> [] \<longrightarrow> 2 * length (before e) + length (after e) \<le> 1601)
     \<and> (c = 11 \<and> rl \<and> after e \<noteq> [] \<longrightarrow> 2 * length (before e) < 1600)"

lemma short_deletes_in_line: "length (line_of e) \<le> 800 \<Longrightarrow> deletes_in_line rl c e"
  by (cases "after e") (auto simp: deletes_in_line_def line_of_def)

definition edit_command :: "int \<Rightarrow> u32 \<Rightarrow> edit \<Rightarrow> edit" where
  "edit_command M c e =
     (if c = 1 then back_by (length (before e)) e
      else if c = 5 then forward_by (length (after e)) e
      else if c = 6 then forward_by (min 1 (length (after e))) e
      else if c = 2 then back_by (min 1 (length (before e))) e
      else if c = 21 then kill_head e
      else if c = 11 then kill_tail e
      else if c = 25 then insert_text M (killed e) e
      else e)"

definition edit_basic :: "int \<Rightarrow> u32 \<Rightarrow> edit \<Rightarrow> edit" where
  "edit_basic M c e =
     (if c = 4 then delete (min 1 (length (after e))) e
      else if c = 8 then if before e = [] then e else delete 1 (back_by 1 e)
      else if 32 \<le> unat c \<and> unat c \<le> 126 then insert_text M [lo8 c] e
      else e)"

definition edit_key :: "int \<Rightarrow> bool \<Rightarrow> u32 \<Rightarrow> edit \<Rightarrow> edit" where
  "edit_key M rl c e = edit_basic M c (if rl then edit_command M c e else e)"

lemma move_nothing [simp]: "back_by 0 e = e" "forward_by 0 e = e" "delete 0 e = e"
  by (simp_all add: back_by_def forward_by_def delete_def)

lemma editing_lengths:
  "editing ps s e \<Longrightarrow> lpos s = int (length (before e)) \<and> llen s = int (length (before e) + length (after e))
     \<and> length (killed e) < 1600 \<and> cstr_at (gmem s) KILL_BUF (killed e)"
  by (auto simp: editing_def text_in_def line_of_def)

lemma yank_does:
  assumes "editing ps s e"
  shows "does ps s (cl_insert KILL_BUF s) (insert_text (maxlen s) (killed e) e)"
proof (rule cl_insert_does [OF assms])
  show "unat KILL_BUF + Suc (length (killed e)) < 4294967296"
    using unat_buf [of 1600] editing_lengths [OF assms] by (simp add: kill_buf)
  show "\<not> in_region a CMDLINE_BUF 1600" if "in_region a KILL_BUF (Suc (length (killed e)))" for a
    using buf_regions(2) [OF that, of s] editing_lengths [OF assms] by simp
qed (use editing_lengths [OF assms] in auto)

lemma readline_key_does:
  assumes "editing ps s e" and "c \<notin> {9, 14, 16}" and "deletes_in_line True c e"
  shows "does ps s (readline_key pc c s) (edit_command (maxlen s) c e)"
proof -
  note l = editing_lengths [OF assms(1)]
  have "does ps s (if lpos s < llen s then cl_forward 1 s else Some s) (forward_by (min 1 (length (after e))) e)"
    using cl_forward_does [OF assms(1), of 1] l assms(1) by (cases "after e = []") (auto simp: Suc_le_eq)
  moreover have "does ps s (if lpos s > 0 then cl_backward 1 s else Some s) (back_by (min 1 (length (before e))) e)"
    using cl_backward_does [OF assms(1), of 1] l assms(1) by (cases "before e = []") (auto simp: Suc_le_eq)
  moreover have "does ps s (cl_forward (llen s - lpos s) s) (forward_by (length (after e)) e)"
    using cl_forward_does [OF assms(1), of "length (after e)"] l by simp
  moreover have "does ps s (cl_backward (lpos s) s) (back_by (length (before e)) e)"
    using cl_backward_does [OF assms(1), of "length (before e)"] l by simp
  moreover have "does ps s (kill_after s) (kill_tail e)" if "c = 11"
    using kill_after_does [OF assms(1)] assms(1,3) that l
    by (cases "after e = []") (auto simp: deletes_in_line_def kill_after_def kill_tail_def)
  ultimately show ?thesis
    using assms kill_before_does [OF assms(1)] yank_does [OF assms(1)] unfolding readline_key_def edit_command_def by simp
qed

lemma char_stored:
  assumes "editing ps s e" and "c \<noteq> 0"
  defines "s1 \<equiv> store (str_at s + 1) 0 (store (str_at s) c s)"
  shows "edit_step s s1" and "editing ps s1 e" and "cstr_at (gmem s1) (str_at s) [c]"
proof -
  have s1: "s1 = s\<lparr>gmem := (gmem s)(str_at s := c, str_at s + 1 := 0)\<rparr>" by (simp add: s1_def store_def)
  have r: "in_region (str_at s) (str_at s) 2" "in_region (str_at s + 1) (str_at s) 2"
    using in_region_offset [of 2 0 "str_at s"] in_region_offset [of 2 1 "str_at s"] by simp_all
  show st: "edit_step s s1"
    by (rule edit_step_eqI [where m = "gmem s1" and x = "xpos s" and l = "lpos s" and k = "sect s" and n = "llen s" and tr = "shown s"])
      (use r in \<open>auto simp: s1 editor_writes_def\<close>)
  have d: "disjoint_regions CMDLINE_BUF 3200 (str_at s) 2" using assms(1) by (simp add: editing_def ready_def)
  have keep: "gmem s1 a = gmem s a" if "in_region a CMDLINE_BUF 3200" for a
    using disjoint_regionsD [OF d that] r by (auto simp: s1)
  have c: "cstr_at (gmem s1) p bs" if "cstr_at (gmem s) p bs" "p = CMDLINE_BUF + of_nat k" "k + Suc (length bs) \<le> 3200" for p bs k
    by (rule cstr_at_cong [OF that(1)]) (use that keep in_region_sub [of _ CMDLINE_BUF k "Suc (length bs)" 3200] in auto)
  have "cstr_at (gmem s1) CMDLINE_BUF (line_of e)" "cstr_at (gmem s1) KILL_BUF (killed e)"
    using assms(1) line_short [OF assms(1)] c [of CMDLINE_BUF "line_of e" 0] c [of KILL_BUF "killed e" 1600]
    by (auto simp: editing_def text_in_def kill_buf)
  then show "editing ps s1 e"
    using assms(1) ready_step [OF _ st] by (auto simp: editing_def text_in_def fits_on_screen_def s1)
  show "cstr_at (gmem s1) (str_at s) [c]" using assms(2) by (simp add: s1)
qed

lemma type_char_does:
  assumes "editing ps s e" and "c \<noteq> 0"
  shows "does ps s (cl_insert (str_at s) (store (str_at s + 1) 0 (store (str_at s) c s))) (insert_text (maxlen s) [c] e)"
proof -
  let ?s = "store (str_at s + 1) 0 (store (str_at s) c s)"
  note s1 = char_stored [OF assms]
  have d: "disjoint_regions (str_at s) 2 CMDLINE_BUF 3200" and u: "unat (str_at s) < 4294966000" "maxlen ?s = maxlen s"
    using assms(1) disjoint_regions_sym by (auto simp: editing_def ready_def store_def)
  have "does ps ?s (cl_insert (str_at s) ?s) (insert_text (maxlen ?s) [c] e)"
  proof (rule cl_insert_does [OF s1(2,3)])
    show "\<not> in_region a CMDLINE_BUF 1600" if "in_region a (str_at s) (Suc (length [c]))" for a
      using disjoint_regionsD [OF d, of a] that in_region_mono [of a CMDLINE_BUF 1600 3200] by (auto simp: numeral_2_eq_2)
  qed (use u in simp_all)
  then have "does ps ?s (cl_insert (str_at s) ?s) (insert_text (maxlen s) [c] e)" by (simp add: u(2))
  with s1(1) show ?thesis by (rule does_after)
qed

lemma basic_key_does:
  assumes "editing ps s e" and "c \<noteq> 27" and "unat c < 256" and "deletes_in_line rl c e"
  shows "\<exists>s'. basic_key c s = Some (False, s') \<and> edit_step s s' \<and> editing ps s' (edit_basic (maxlen s) c e)"
proof -
  note l = editing_lengths [OF assms(1)]
  have d: "does ps s (if lpos s = llen s then Some s else cl_delete 1 s) (delete (min 1 (length (after e))) e)" if "c = 4"
    using cl_delete_does [OF assms(1), of 1] l assms(1,4) that
    by (cases "after e = []") (auto simp: Suc_le_eq deletes_in_line_def)
  have b: "does ps s (if lpos s > 0 then do { s \<leftarrow> cl_backward 1 s; cl_delete 1 s } else Some s)
      (if before e = [] then e else delete 1 (back_by 1 e))" if c: "c = 8"
  proof (cases "before e = []")
    case False
    have "does ps s (cl_backward (int 1) s \<bind> cl_delete (int 1)) (delete 1 (back_by 1 e))"
    proof (rule does_bind [OF cl_backward_does [OF assms(1)]])
      show "1 \<le> length (before e)" using False by (cases "before e") auto
      have "2 * (length (before e) - 1) + length (after e) < 1600"
        using assms(4) c False by (cases "before e") (auto simp: deletes_in_line_def)
      then show "does ps s' (cl_delete (int 1) s') (delete 1 (back_by 1 e))" if "editing ps s' (back_by 1 e)" for s'
        using that False by (intro cl_delete_does) (auto simp: back_by_def Suc_le_eq Let_def)
    qed
    then show ?thesis using False l by simp
  qed (use l assms(1) in simp)
  have si: "sint c = int (unat c)" using assms(3) sint_of_nat_u32 [of "unat c"] by simp
  have n: "sint (0x20 :: u32) = int 32" "sint (0x7E :: u32) = int 126" by simp_all
  have p: "0x20 \<le>s c \<and> c \<le>s 0x7E \<longleftrightarrow> 32 \<le> unat c \<and> unat c \<le> 126"
    unfolding word_sle_eq si n of_nat_le_iff ..
  have i: "does ps s (if 0x20 \<le>s c \<and> c \<le>s 0x7E
      then cl_insert (str_at s) (store (str_at s + 1) 0 (store (str_at s) (lo8 c) s)) else Some s)
      (if 32 \<le> unat c \<and> unat c \<le> 126 then insert_text (maxlen s) [lo8 c] e else e)"
  proof (cases "32 \<le> unat c \<and> unat c \<le> 126")
    case True
    have "unat (lo8 c) = unat c" using assms(3) by (simp add: lo8_def unsigned_ucast_eq unsigned_take_bit_eq take_bit_nat_eq_self)
    then have "lo8 c \<noteq> 0" using True by auto
    from type_char_does [OF assms(1) this] show ?thesis using True p by simp
  next
    case False
    then show ?thesis unfolding p using assms(1) by (simp only: if_False does_nothing)
  qed
  have "does ps s (if c = 4 then if lpos s = llen s then Some s else cl_delete 1 s
      else if c = 8 then if lpos s > 0 then do { s \<leftarrow> cl_backward 1 s; cl_delete 1 s } else Some s
      else if 0x20 \<le>s c \<and> c \<le>s 0x7E
      then cl_insert (str_at s) (store (str_at s + 1) 0 (store (str_at s) (lo8 c) s)) else Some s) (edit_basic (maxlen s) c e)"
    unfolding edit_basic_def using d b i by (cases "c = 4"; cases "c = 8") simp_all
  then show ?thesis unfolding basic_key_def does_def using assms(2) by auto
qed

definition editing_key :: "bool \<Rightarrow> u32 \<Rightarrow> bool" where
  "editing_key rl c \<longleftrightarrow> (rl \<longrightarrow> c \<notin> {9, 14, 16}) \<and> c \<noteq> 27 \<and> unat c < 256"

lemma deletes_after_command:
  "deletes_in_line rl c e \<Longrightarrow> deletes_in_line rl c (if rl then edit_command M c e else e)"
  by (auto simp: deletes_in_line_def edit_command_def kill_tail_def)

lemma cl_key_does:
  assumes "editing ps s e" and "editing_key (readline s) c" and "deletes_in_line (readline s) c e"
  shows "\<exists>s'. cl_key pc c s = Some (False, s') \<and> edit_step s s' \<and> editing ps s' (edit_key (maxlen s) (readline s) c e)"
proof -
  let ?e = "if readline s then edit_command (maxlen s) c e else e"
  have "does ps s (if readline s then readline_key pc c s else Some s) ?e"
    using readline_key_does [OF assms(1)] assms by (auto simp: editing_key_def)
  then obtain s1 where s1: "(if readline s then readline_key pc c s else Some s) = Some s1" "edit_step s s1" "editing ps s1 ?e"
    by (auto simp: does_def)
  obtain s2 where s2: "basic_key c s1 = Some (False, s2)" "edit_step s1 s2" "editing ps s2 (edit_basic (maxlen s1) c ?e)"
    using basic_key_does [OF s1(3), of c] assms(2) deletes_after_command [OF assms(3)] by (auto simp: editing_key_def)
  have "edit_step s s2" using s1(2) s2(2) by (rule edit_step_trans)
  moreover have "cl_key pc c s = Some (False, s2)" using s1(1) s2(1) by (simp add: cl_key_def)
  ultimately show ?thesis
    using s2(3) edit_step_fields(3) [OF s1(2)] by (auto simp: edit_key_def)
qed

text \<open>A keyboard that delivers the given keys.\<close>

definition keys_come :: "u32 list \<Rightarrow> 'a cmdline_scheme \<Rightarrow> bool" where
  "keys_come ks s \<longleftrightarrow> (\<forall>tr. pressed tr < length ks \<longrightarrow> term_getkey (current_term s) tr = ks ! pressed tr)"

lemma editing_shown: "editing ps (s\<lparr>shown := tr\<rparr>) e = editing ps s e"
proof -
  have "editor_writes (s\<lparr>shown := tr\<rparr>) = editor_writes s" "is_dumb (s\<lparr>shown := tr\<rparr>) = is_dumb s"
    by (auto simp: editor_writes_def is_dumb_def fun_eq_iff)
  then show ?thesis by (simp add: editing_def ready_def text_in_def fits_on_screen_def low_memory_ok_def)
qed

end
