(* ===== verification/Grub_Cmdline_History.thy ===== *)
theory Grub_Cmdline_History
  imports Grub_Cmdline_Keys
begin

text \<open>
  The history of the command line editor: \<open>add_history\<close> inserts a line among at most five.
\<close>

section \<open>History\<close>

lemma in_region_offsets:
  assumes "i < 4294967296" and "k + n \<le> 4294967296"
  shows "in_region (p + of_nat i) (p + of_nat k) n \<longleftrightarrow> k \<le> i \<and> i < k + n"
proof (cases "k \<le> i")
  case True
  then obtain d where d: "i = k + d" using le_Suc_ex by blast
  have e: "p + of_nat i - (p + of_nat k) = (of_nat d :: u32)" by (simp add: d)
  have "unat (of_nat d :: u32) = d" using d assms(1) by (intro unat_of_nat_u32) simp
  then show ?thesis unfolding in_region_def e using d by auto
next
  case False
  then show ?thesis using assms not_in_region_before [of i k n p] by auto
qed

lemma write_bytes_offset:
  assumes "i < 4294967296" and "k + length bs \<le> 4294967296"
  shows "write_bytes m (p + of_nat k) bs (p + of_nat i) = (if k \<le> i \<and> i < k + length bs then bs ! (i - k) else m (p + of_nat i))"
proof (cases "k \<le> i \<and> i < k + length bs")
  case True
  then show ?thesis using assms write_bytes_at [of k bs i m p] by simp
next
  case False
  then show ?thesis using assms in_region_offsets [OF assms, of p] by (auto intro!: write_bytes_outside)
qed

lemma cstr_at_moved:
  assumes "cstr_at m p bs" and "\<And>j. j \<le> length bs \<Longrightarrow> m' (q + of_nat j) = m (p + of_nat j)"
  shows "cstr_at m' q bs"
proof -
  have "read_bytes m' q (length bs) = read_bytes m p (length bs)"
    using assms(2) by (intro nth_equalityI) (simp_all add: nth_read_bytes)
  then show ?thesis using assms by (simp add: cstr_at_iff)
qed

definition history_at :: "nat \<Rightarrow> u32" where
  "history_at i = HISTORY_BUF + of_nat (1600 * i)"

text \<open>The lines of the history, the newest first.\<close>

definition history_in :: "'a cmdline_scheme \<Rightarrow> u8 list list \<Rightarrow> bool" where
  "history_in s h \<longleftrightarrow> num_history s = int (length h) \<and> length h \<le> 5
     \<and> (\<forall>i < length h. cstr_at (gmem s) (history_at i) (h ! i) \<and> length (h ! i) < 1600)"

definition insert_line :: "nat \<Rightarrow> u8 list \<Rightarrow> u8 list list \<Rightarrow> u8 list list" where
  "insert_line no t h = take 5 (take no h @ t # drop no h)"

lemma unat_history: "i \<le> 9600 \<Longrightarrow> unat (HISTORY_BUF + of_nat i) = 495328 + i"
  by (subst unat_add_lem [THEN iffD1])
    (simp_all add: unat_of_nat_u32 HISTORY_BUF_def KILL_BUF_def CMDLINE_BUF_def DEFAULT_FILE_BUF_def PASSWORD_BUF_def)

definition history_ok :: "'a grub_scheme \<Rightarrow> bool" where
  "history_ok s \<longleftrightarrow> low_memory_ok s \<and> 494 \<le> unat (mem_lower s)"

lemma history_fits: "history_ok s \<Longrightarrow> a + n \<le> 9600 \<Longrightarrow> fits_low (HISTORY_BUF + of_nat a) n s"
  by (auto simp: history_ok_def low_memory_ok_def fits_low_def unat_history)

lemma add_history_spec:
  assumes "history_in s h" and "no \<le> length h" and "no < 5" and "cstr_at (gmem s) q t" and "length t < 1600"
    and "history_ok s" and "disjoint_regions q (Suc (length t)) HISTORY_BUF 9600" and "unat q + 1600 < 4294967296"
  shows "\<exists>m. add_history q (int no) s = Some (s\<lparr>gmem := m, num_history := int (length (insert_line no t h))\<rparr>)
    \<and> (\<forall>a. \<not> in_region a HISTORY_BUF 9600 \<longrightarrow> m a = gmem s a)
    \<and> history_in (s\<lparr>gmem := m, num_history := int (length (insert_line no t h))\<rparr>) (insert_line no t h)"
proof -
  let ?n = "length h" and ?H = HISTORY_BUF
  have n: "?n \<le> 5" "num_history s = int ?n" using assms(1) by (simp_all add: history_in_def)
  define bs where "bs = read_bytes (gmem s) (?H + of_nat (1600 * no)) (1600 * (?n - no))"
  define m1 where "m1 = write_bytes (gmem s) (?H + of_nat (1600 * (no + 1))) bs"
  define m where "m = write_bytes m1 (?H + of_nat (1600 * no)) (t @ [0])"
  have i: "MAX_CMDLINE * (int no + 1) = int (1600 * (no + 1))" "MAX_CMDLINE * int no = int (1600 * no)"
    "MAX_CMDLINE * (num_history s - int no) = int (1600 * (?n - no))"
    using assms(2) n(2) by (simp_all add: MAX_CMDLINE_def of_nat_diff)
  have lb: "length bs = 1600 * (?n - no)" by (simp add: bs_def)
  have f1: "fits_low (?H + of_nat (1600 * (no + 1))) (1600 * (?n - no)) s"
    using n(1) assms(2,3) by (intro history_fits assms(6)) (simp add: diff_mult_distrib2)
  have c1: "copy (?H + of_nat (1600 * (no + 1))) (?H + of_nat (1600 * no)) (int (1600 * (?n - no))) s = s\<lparr>gmem := m1\<rparr>"
    using grub_memmove_low [OF f1, of "?H + of_nat (1600 * no)"] n(1) assms(2,3)
    unfolding copy_def m1_def bs_def by (simp add: unat_history diff_mult_distrib2 del: of_nat_mult of_nat_add of_nat_Suc)
  have out1: "m1 a = gmem s a" if "\<not> in_region a ?H 9600" for a
    unfolding m1_def using that n(1) assms(2,3) lb by (intro part_outside [where N = 9600]) auto
  have "cstr_at m1 q t"
    by (rule cstr_at_cong [OF assms(4)]) (use out1 disjoint_regionsD [OF assms(7)] assms(5) in auto)
  moreover have "fits_low (?H + of_nat (1600 * no)) (Suc (length t)) (s\<lparr>gmem := m1\<rparr>)"
    using assms(3,5,6) by (intro history_fits) (auto simp: history_ok_def low_memory_ok_def)
  ultimately have c2: "strcpy_to (?H + of_nat (1600 * no)) q (s\<lparr>gmem := m1\<rparr>) = Some (s\<lparr>gmem := m\<rparr>)"
    using grub_strcpy_low [of "s\<lparr>gmem := m1\<rparr>" q t "?H + of_nat (1600 * no)"] assms(5,8) by (simp add: strcpy_to_def m_def)
  have ln: "length (insert_line no t h) = min 5 (Suc ?n)" using assms(2) by (simp add: insert_line_def)
  have "add_history q (int no) s = Some (s\<lparr>gmem := m, num_history := int (length (insert_line no t h))\<rparr>)"
    unfolding add_history_def i of_int_of_nat_eq c1 using n c2 by (auto simp: HISTORY_SIZE_def ln min_def Let_def)
  moreover have "m a = gmem s a" if "\<not> in_region a ?H 9600" for a
    using that out1 assms(3,5) part_outside [of "1600 * no" "t @ [0]" 9600 a ?H m1] by (auto simp: m_def)
  moreover have "cstr_at m (history_at i) (insert_line no t h ! i) \<and> length (insert_line no t h ! i) < 1600"
    if "i < length (insert_line no t h)" for i
  proof -
    have i: "i < 5" "i \<le> ?n" using that ln by auto
    have m: "m (?H + of_nat k) = (if 1600 * no \<le> k \<and> k \<le> 1600 * no + length t then (t @ [0]) ! (k - 1600 * no)
        else if 1600 * (no + 1) \<le> k \<and> k < 1600 * (?n + 1) then gmem s (?H + of_nat (k - 1600)) else gmem s (?H + of_nat k))"
      if k: "k < 9600" for k
    proof -
      have "bs ! (k - 1600 * (no + 1)) = gmem s (?H + of_nat (k - 1600))" if ge: "1600 * (no + 1) \<le> k" and lt: "k < 1600 * (?n + 1)"
      proof -
        obtain d where d: "k = 1600 * (no + 1) + d" using le_Suc_ex [OF ge] by blast
        have "d < 1600 * (?n - no)" using lt d assms(2) by (simp add: diff_mult_distrib2)
        then have "bs ! d = gmem s (?H + of_nat (1600 * no) + of_nat d)" unfolding bs_def by (rule nth_read_bytes)
        moreover have "k - 1600 * (no + 1) = d" "k - 1600 = 1600 * no + d" using d by simp_all
        ultimately show ?thesis by (simp only: of_nat_add add.assoc)
      qed
      moreover have "k < 1600 * (no + 1) + length bs \<longleftrightarrow> k < 1600 * (?n + 1)" using lb assms(2) by auto
      ultimately show ?thesis
        unfolding m_def m1_def using k assms(3,5) n(1) lb
        by (simp add: write_bytes_offset less_Suc_eq_le del: of_nat_mult of_nat_add)
    qed
    have h: "cstr_at (gmem s) (history_at j) (h ! j) \<and> length (h ! j) < 1600" if "j < ?n" for j
      using assms(1) that by (simp add: history_in_def)
    have at: "history_at i + of_nat j = ?H + of_nat (1600 * i + j)" for i j by (simp add: history_at_def add.assoc)
    consider "i < no" | "i = no" | "no < i" by linarith
    then show ?thesis
    proof cases
      case 1
      then have l: "insert_line no t h ! i = h ! i" using i assms(2) by (simp add: insert_line_def nth_append)
      have "cstr_at m (history_at i) (h ! i)"
        by (rule cstr_at_moved [of "gmem s" "history_at i"])
          (use h [of i] 1 assms(2,3) in \<open>auto simp: at m simp del: of_nat_mult of_nat_add\<close>)
      then show ?thesis using l h [of i] 1 assms(2) by simp
    next
      case 2
      then have l: "insert_line no t h ! i = t" using i assms(2) by (simp add: insert_line_def nth_append)
      have "cstr_at (write_bytes m1 (?H + of_nat (1600 * no)) (t @ [0])) (?H + of_nat (1600 * no)) t"
        using cstr_at_written [of t "[]"] cstr_at_no_zero [OF assms(4)] assms(5) by simp
      then show ?thesis using l 2 assms(5) by (simp add: m_def history_at_def)
    next
      case 3
      then have l: "insert_line no t h ! i = h ! (i - 1)" using i assms(2) by (simp add: insert_line_def nth_append nth_Cons')
      have "cstr_at m (history_at i) (h ! (i - 1))"
      proof (rule cstr_at_moved [of "gmem s" "history_at (i - 1)"])
        fix j assume j: "j \<le> length (h ! (i - 1))"
        have "length (h ! (i - 1)) < 1600" using h [of "i - 1"] 3 i by simp
        then show "m (history_at i + of_nat j) = gmem s (history_at (i - 1) + of_nat j)"
          using j 3 i assms(3,5) unfolding at by (subst m) (auto simp: diff_mult_distrib2)
      qed (use h [of "i - 1"] 3 i in simp)
      then show ?thesis using l h [of "i - 1"] 3 i by simp
    qed
  qed
  ultimately show ?thesis using ln by (auto simp: history_in_def)
qed

end
