(* ===== verification/Grub_Cmdline_Session.thy ===== *)
theory Grub_Cmdline_Session
  imports Grub_Cmdline_History
begin

text \<open>
  A session of the editor with its history: C-p and C-n go through the earlier lines, store what has
  been changed in them and keep the line that was being typed in the caller's buffer.
\<close>

section \<open>The abstract session\<close>

text \<open>The text, the lines of the history (the newest first), the index of the one that is shown, and what
  the caller's buffer holds.\<close>

record session =
  typed :: edit
  hist :: "u8 list list"
  browsed :: "nat option"
  saved :: "u8 list"

definition show_text :: "u8 list \<Rightarrow> session \<Rightarrow> session" where
  "show_text t S = S\<lparr>typed := \<lparr>before = t, after = [], killed = killed (typed S)\<rparr>\<rparr>"

text \<open>A shown line that has been changed becomes a line of its own, before the one it was made from.\<close>

definition keep_line :: "nat \<Rightarrow> session \<Rightarrow> session" where
  "keep_line i S = (if hist S ! i = line_of (typed S) then S else S\<lparr>hist := insert_line i (line_of (typed S)) (hist S)\<rparr>)"

definition go_back :: "session \<Rightarrow> session" where
  "go_back S =
     (let (i, S) = (case browsed S of None \<Rightarrow> (0, S\<lparr>saved := line_of (typed S)\<rparr>) | Some i \<Rightarrow> (Suc i, keep_line i S))
      in if i < length (hist S) then show_text (hist S ! i) (S\<lparr>browsed := Some i\<rparr>) else S)"

definition go_on :: "session \<Rightarrow> session" where
  "go_on S =
     (case browsed S of
        None \<Rightarrow> S
      | Some i \<Rightarrow>
          let S = keep_line i S
          in case i of 0 \<Rightarrow> show_text (saved S) (S\<lparr>browsed := None\<rparr>) | Suc j \<Rightarrow> show_text (hist S ! j) (S\<lparr>browsed := Some j\<rparr>))"

definition session_key :: "int \<Rightarrow> bool \<Rightarrow> u32 \<Rightarrow> session \<Rightarrow> session" where
  "session_key M rl c S =
     (if rl \<and> c = 16 then go_back S else if rl \<and> c = 14 then go_on S else S\<lparr>typed := edit_key M rl c (typed S)\<rparr>)"

section \<open>What it is in memory\<close>

definition session_writes :: "'a cmdline_scheme \<Rightarrow> u32 \<Rightarrow> bool" where
  "session_writes s a \<longleftrightarrow> editor_writes s a \<or> in_region a HISTORY_BUF 9600 \<or> in_region a (cmdline_at s) 1600"

text \<open>Where the buffers lie: those of the editor, the array for a typed character, and the caller's.\<close>

definition session_layout :: "'a cmdline_scheme \<Rightarrow> bool" where
  "session_layout s \<longleftrightarrow> history_ok s \<and> fits_low (cmdline_at s) 1600 s \<and> disjoint_regions CMDLINE_BUF 12800 (str_at s) 2
     \<and> disjoint_regions (cmdline_at s) 1600 CMDLINE_BUF 12800 \<and> disjoint_regions (cmdline_at s) 1600 (str_at s) 2"

definition in_session :: "u8 list \<Rightarrow> 'a cmdline_scheme \<Rightarrow> session \<Rightarrow> bool" where
  "in_session ps s S \<longleftrightarrow> editing ps s (typed S) \<and> history_in s (hist S) \<and> (\<forall>l \<in> set (hist S). int (length l) < maxlen s)
     \<and> history s = (case browsed S of None \<Rightarrow> -1 | Some i \<Rightarrow> int i) \<and> (\<forall>i. browsed S = Some i \<longrightarrow> i < length (hist S))
     \<and> cstr_at (gmem s) (cmdline_at s) (saved S) \<and> int (length (saved S)) < maxlen s \<and> session_layout s
     \<and> string_ready (session_writes s) (gmem s) (literal_at s ''%s'') [0x25, 0x73]
     \<and> string_ready (session_writes s) (gmem s) (prompt s) ps"

definition session_frame :: "'a cmdline_scheme \<Rightarrow> 'a cmdline_scheme \<Rightarrow> bool" where
  "session_frame s s' \<longleftrightarrow> maxlen s' = maxlen s \<and> readline s' = readline s \<and> echo_char s' = echo_char s
     \<and> cmdline_at s' = cmdline_at s \<and> current_term s' = current_term s \<and> str_at s' = str_at s
     \<and> (\<forall>a. \<not> session_writes s a \<longrightarrow> gmem s' a = gmem s a)"

lemma session_frame_writes: "session_frame s s' \<Longrightarrow> session_writes s' = session_writes s"
  by (auto simp: session_frame_def session_writes_def editor_writes_def fun_eq_iff)

lemma session_frame_refl: "session_frame s s"
  by (simp add: session_frame_def)

lemma session_frame_trans: "session_frame s s1 \<Longrightarrow> session_frame s1 s2 \<Longrightarrow> session_frame s s2"
  using session_frame_writes [of s s1] by (auto simp: session_frame_def)

lemma edit_step_frame: "edit_step s s' \<Longrightarrow> session_frame s s'"
  using edit_step_fields [of s s'] by (auto simp: session_frame_def session_writes_def)

text \<open>The caller's buffer and the history lie outside of what editing writes.\<close>

lemma history_region:
  assumes "in_region a HISTORY_BUF 9600"
  shows "in_region a CMDLINE_BUF 12800" and "\<not> in_region a CMDLINE_BUF 3200"
proof -
  obtain i where i: "i < 9600" "a = HISTORY_BUF + of_nat i" using assms by (rule in_regionE)
  then have a: "a = CMDLINE_BUF + of_nat (3200 + i)" by (simp add: HISTORY_BUF_def KILL_BUF_def add.assoc)
  show "in_region a CMDLINE_BUF 12800" "\<not> in_region a CMDLINE_BUF 3200"
    unfolding a using i(1) in_region_offsets [of "3200 + i" 0 12800 CMDLINE_BUF] in_region_offsets [of "3200 + i" 0 3200 CMDLINE_BUF]
    by simp_all
qed

lemma layout_apart:
  assumes "session_layout s"
  shows "in_region a HISTORY_BUF 9600 \<Longrightarrow> \<not> editor_writes s a" and "in_region a (cmdline_at s) 1600 \<Longrightarrow> \<not> editor_writes s a"
    and "in_region a (cmdline_at s) 1600 \<Longrightarrow> \<not> in_region a HISTORY_BUF 9600"
proof -
  have d: "disjoint_regions CMDLINE_BUF 12800 (str_at s) 2" "disjoint_regions (cmdline_at s) 1600 CMDLINE_BUF 12800"
    "disjoint_regions (cmdline_at s) 1600 (str_at s) 2" using assms by (simp_all add: session_layout_def)
  show "\<not> editor_writes s a" if "in_region a HISTORY_BUF 9600"
    using history_region [OF that] disjoint_regionsD [OF d(1)] by (auto simp: editor_writes_def)
  have "\<not> in_region a CMDLINE_BUF 3200" if "in_region a (cmdline_at s) 1600"
    using disjoint_regionsD [OF d(2) that] in_region_mono [of a CMDLINE_BUF 3200 12800] by auto
  then show "\<not> editor_writes s a" if "in_region a (cmdline_at s) 1600"
    using that disjoint_regionsD [OF d(3) that] by (simp add: editor_writes_def)
  show "\<not> in_region a HISTORY_BUF 9600" if "in_region a (cmdline_at s) 1600"
    using disjoint_regionsD [OF d(2) that] history_region(1) [of a] by auto
qed

lemma history_in_frame:
  assumes "history_in s h" and "num_history s' = num_history s" and "\<And>a. in_region a HISTORY_BUF 9600 \<Longrightarrow> gmem s' a = gmem s a"
  shows "history_in s' h"
proof -
  have "cstr_at (gmem s') (history_at i) (h ! i)" if "i < length h" for i
  proof (rule cstr_at_cong)
    have l: "length h \<le> 5" "length (h ! i) < 1600" using assms(1) that by (auto simp: history_in_def)
    show "cstr_at (gmem s) (history_at i) (h ! i)" using assms(1) that by (simp add: history_in_def)
    show "gmem s' a = gmem s a" if "in_region a (history_at i) (Suc (length (h ! i)))" for a
      using that l \<open>i < length h\<close> in_region_sub [of a HISTORY_BUF "1600 * i" "Suc (length (h ! i))" 9600]
      unfolding history_at_def by (intro assms(3)) simp
  qed (use assms(1) that in \<open>auto simp: history_in_def\<close>)
  then show ?thesis using assms(1,2) by (simp add: history_in_def)
qed

lemma maxlen_bound: "editing ps s e \<Longrightarrow> maxlen s \<le> 1600"
  by (simp add: editing_def ready_def)

section \<open>Editing in a session\<close>

text \<open>The part of a session that editing leaves alone.\<close>

definition around :: "u8 list \<Rightarrow> 'a cmdline_scheme \<Rightarrow> session \<Rightarrow> bool" where
  "around ps s S \<longleftrightarrow> history_in s (hist S) \<and> (\<forall>l \<in> set (hist S). int (length l) < maxlen s)
     \<and> history s = (case browsed S of None \<Rightarrow> -1 | Some i \<Rightarrow> int i) \<and> (\<forall>i. browsed S = Some i \<longrightarrow> i < length (hist S))
     \<and> cstr_at (gmem s) (cmdline_at s) (saved S) \<and> int (length (saved S)) < maxlen s \<and> session_layout s
     \<and> string_ready (session_writes s) (gmem s) (literal_at s ''%s'') [0x25, 0x73]
     \<and> string_ready (session_writes s) (gmem s) (prompt s) ps"

lemma in_session_around: "in_session ps s S \<longleftrightarrow> editing ps s (typed S) \<and> around ps s S"
  by (simp add: in_session_def around_def)

lemma around_step:
  assumes "around ps s S" and "edit_step s s'" and "maxlen s \<le> 1600"
  shows "around ps s' (S\<lparr>typed := e\<rparr>)"
proof -
  have l: "session_layout s" using assms(1) by (simp add: around_def)
  note f = edit_step_fields [OF assms(2)] and apart = layout_apart [OF l] and fr = edit_step_frame [OF assms(2)]
  have h: "history_in s' (hist S)"
  proof (rule history_in_frame)
    show "history_in s (hist S)" using assms(1) by (simp add: around_def)
    show "gmem s' a = gmem s a" if "in_region a HISTORY_BUF 9600" for a using apart(1) [OF that] by (rule f(19))
  qed (rule f(10))
  have n: "length (saved S) < 1600" using assms(1,3) by (simp add: around_def)
  have c: "cstr_at (gmem s) (cmdline_at s) (saved S)" using assms(1) by (simp add: around_def)
  have "cstr_at (gmem s') (cmdline_at s) (saved S)"
  proof (rule cstr_at_cong [OF c])
    show "gmem s' a = gmem s a" if "in_region a (cmdline_at s) (Suc (length (saved S)))" for a
      using that n in_region_mono [of a "cmdline_at s" _ 1600] apart(2) f(19) by auto
  qed (use n in simp)
  moreover have "session_layout s'" using l f by (simp add: session_layout_def history_ok_def low_memory_ok_def fits_low_def)
  moreover have "string_ready (session_writes s') (gmem s') p bs" if "string_ready (session_writes s) (gmem s) p bs" for p bs
    unfolding session_frame_writes [OF fr] using string_ready_frame [OF that] fr by (simp add: session_frame_def)
  ultimately show ?thesis using assms(1) h f by (simp add: around_def)
qed

lemma session_edited:
  assumes "in_session ps s S" and "edit_step s s'" and "editing ps s' e"
  shows "in_session ps s' (S\<lparr>typed := e\<rparr>)"
  using assms around_step [OF _ assms(2), of ps S e] maxlen_bound [of ps s "typed S"] by (simp add: in_session_around)

section \<open>Going through the history\<close>

text \<open>A change of the history or of the caller's buffer leaves the text as it is.\<close>

lemma editing_elsewhere:
  assumes "editing ps s e" and "session_layout s" and "\<And>a. editor_writes s a \<Longrightarrow> m a = gmem s a"
    and "string_ready (session_writes s) (gmem s) (literal_at s ''%s'') [0x25, 0x73]"
    and "string_ready (session_writes s) (gmem s) (prompt s) ps" and "\<And>a. \<not> session_writes s a \<Longrightarrow> m a = gmem s a"
    and "s' = s\<lparr>gmem := m, num_history := n, history := k\<rparr>"
  shows "editing ps s' e" and "string_ready (session_writes s') m (literal_at s ''%s'') [0x25, 0x73]"
    and "string_ready (session_writes s') m (prompt s) ps"
proof -
  have w: "editor_writes s' = editor_writes s" "session_writes s' = session_writes s"
    by (auto simp: assms(7) editor_writes_def session_writes_def fun_eq_iff)
  show r: "string_ready (session_writes s') m (literal_at s ''%s'') [0x25, 0x73]" "string_ready (session_writes s') m (prompt s) ps"
    unfolding w using assms(4,5,6) string_ready_frame by blast+
  then have "string_ready (editor_writes s') m (literal_at s ''%s'') [0x25, 0x73]" "string_ready (editor_writes s') m (prompt s) ps"
    unfolding w string_ready_def session_writes_def by auto
  moreover have "cstr_at m p bs" if "cstr_at (gmem s) p bs" "p = CMDLINE_BUF + of_nat i" "i + Suc (length bs) \<le> 3200" for p bs i
    by (rule cstr_at_cong [OF that(1)])
      (use that assms(3) in_region_sub [of _ CMDLINE_BUF i "Suc (length bs)" 3200] in \<open>auto simp: editor_writes_def\<close>)
  from this [of CMDLINE_BUF "line_of e" 0] this [of KILL_BUF "killed e" 1600]
  have "cstr_at m CMDLINE_BUF (line_of e)" "cstr_at m KILL_BUF (killed e)"
    using assms(1) line_short [OF assms(1)] by (auto simp: editing_def text_in_def kill_buf)
  ultimately show "editing ps s' e"
    using assms(1) unfolding assms(7) by (auto simp: editing_def ready_def text_in_def fits_on_screen_def is_dumb_def low_memory_ok_def)
qed

text \<open>One step of the routines that browse.\<close>

definition browses :: "u8 list \<Rightarrow> 'a cmdline_scheme \<Rightarrow> 'a cmdline_scheme option \<Rightarrow> session \<Rightarrow> bool" where
  "browses ps s r S \<longleftrightarrow> (\<exists>s'. r = Some s' \<and> in_session ps s' S \<and> session_frame s s' \<and> pressed (shown s') = pressed (shown s))"

lemma browses_nothing: "in_session ps s S \<Longrightarrow> browses ps s (Some s) S"
  using session_frame_refl by (auto simp: browses_def)

lemma browses_bind:
  assumes "browses ps s r S1" and "\<And>s'. r = Some s' \<Longrightarrow> in_session ps s' S1 \<Longrightarrow> session_frame s s' \<Longrightarrow> browses ps s' (f s') S2"
  shows "browses ps s (r \<bind> f) S2"
  using assms session_frame_trans unfolding browses_def by fastforce

lemma browses_edit: "in_session ps s S \<Longrightarrow> does ps s r e \<Longrightarrow> browses ps s r (S\<lparr>typed := e\<rparr>)"
  using session_edited edit_step_frame edit_step_fields(16) unfolding does_def browses_def by blast

lemma session_index:
  assumes "in_session ps s S" and "k = (case b of None \<Rightarrow> -1 | Some i \<Rightarrow> int i)" and "\<And>i. b = Some i \<Longrightarrow> i < length (hist S)"
  shows "in_session ps (s\<lparr>history := k\<rparr>) (S\<lparr>browsed := b\<rparr>)" and "session_frame s (s\<lparr>history := k\<rparr>)"
proof -
  have l: "session_layout s" "editing ps s (typed S)" using assms(1) by (simp_all add: in_session_def)
  have e: "s\<lparr>history := k\<rparr> = s\<lparr>gmem := gmem s, num_history := num_history s, history := k\<rparr>" by simp
  have el: "editing ps (s\<lparr>history := k\<rparr>) (typed S)" "string_ready (session_writes (s\<lparr>history := k\<rparr>)) (gmem s) (literal_at s ''%s'') [0x25, 0x73]"
    "string_ready (session_writes (s\<lparr>history := k\<rparr>)) (gmem s) (prompt s) ps"
    using editing_elsewhere [OF l(2,1) _ _ _ _ e] assms(1) by (auto simp: in_session_def)
  have "session_layout (s\<lparr>history := k\<rparr>)" using l by (simp add: session_layout_def history_ok_def low_memory_ok_def fits_low_def)
  with el show "in_session ps (s\<lparr>history := k\<rparr>) (S\<lparr>browsed := b\<rparr>)"
    using assms by (auto simp: in_session_def history_in_def)
  show "session_frame s (s\<lparr>history := k\<rparr>)" by (simp add: session_frame_def)
qed

lemma session_lengths:
  assumes "in_session ps s S"
  shows "length (line_of (typed S)) < 1600" and "length (saved S) < 1600" and "int (length (line_of (typed S))) < maxlen s"
    and "length (hist S) \<le> 5" and "i < length (hist S) \<Longrightarrow> length (hist S ! i) < 1600 \<and> int (length (hist S ! i)) < maxlen s"
    and "maxlen s \<le> 1600"
  using assms line_short [of ps s "typed S"] maxlen_bound [of ps s "typed S"]
  by (auto simp: in_session_def editing_def text_in_def history_in_def)

lemma keep_line_does:
  assumes "in_session ps s S" and "browsed S = Some i"
  shows "browses ps s (save_line s) (keep_line i S)"
proof -
  let ?l = "line_of (typed S)"
  have S: "session_layout s" "editing ps s (typed S)" "history_in s (hist S)" "i < length (hist S)" "history s = int i"
    "history_ok s" "cstr_at (gmem s) (cmdline_at s) (saved S)"
    using assms by (auto simp: in_session_def session_layout_def)
  have c: "cstr_at (gmem s) CMDLINE_BUF ?l" "cstr_at (gmem s) (history_at i) (hist S ! i)"
    using S(2,3,4) by (auto simp: editing_def text_in_def history_in_def)
  have g: "get_history (int i) s = history_at i"
    using S(3-5) by (simp add: get_history_def history_in_def history_at_def MAX_CMDLINE_def)
  obtain r where r: "grub_strcmp (gmem s) (history_at i) CMDLINE_BUF = Some r" "r = 0 \<longleftrightarrow> hist S ! i = ?l"
    using grub_strcmp_cstr [OF c(2,1)] c_order_eq [of "hist S ! i" ?l] by (auto simp: not_less_iff_gr_or_eq)
  show ?thesis
  proof (cases "hist S ! i = ?l")
    case True
    then show ?thesis
      using browses_nothing [OF assms(1)] r by (simp add: save_line_def g S(5) keep_line_def)
  next
    case False
    note len = session_lengths [OF assms(1)]
    have d: "disjoint_regions CMDLINE_BUF (Suc (length ?l)) HISTORY_BUF 9600"
    proof (rule disjoint_regionsI)
      show "\<not> in_region a HISTORY_BUF 9600" if "in_region a CMDLINE_BUF (Suc (length ?l))" for a
        using history_region(2) [of a] in_region_mono [OF that, of 3200] len(1) by auto
    qed
    have b: "unat CMDLINE_BUF + 1600 < 4294967296" using unat_buf [of 0] by simp
    have i: "i \<le> length (hist S)" "i < 5" using S(4) len(4) by simp_all
    let ?h = "insert_line i ?l (hist S)"
    obtain m where m: "add_history CMDLINE_BUF (int i) s = Some (s\<lparr>gmem := m, num_history := int (length ?h)\<rparr>)"
      "\<forall>a. \<not> in_region a HISTORY_BUF 9600 \<longrightarrow> m a = gmem s a" "history_in (s\<lparr>gmem := m, num_history := int (length ?h)\<rparr>) ?h"
      using add_history_spec [OF S(3) i c(1) len(1) S(6) d b] by blast
    let ?s = "s\<lparr>gmem := m, num_history := int (length ?h)\<rparr>"
    have e: "?s = s\<lparr>gmem := m, num_history := int (length ?h), history := int i\<rparr>" using S(5) by simp
    have out: "m a = gmem s a" if "editor_writes s a \<or> \<not> session_writes s a" for a
      using that m(2) layout_apart(1) [OF S(1), of a] by (auto simp: session_writes_def)
    have st: "string_ready (session_writes s) (gmem s) (literal_at s ''%s'') [0x25, 0x73]"
      "string_ready (session_writes s) (gmem s) (prompt s) ps" using assms(1) by (simp_all add: in_session_def)
    note ed = editing_elsewhere [OF S(2,1) out [OF disjI1] st out [OF disjI2] e]
    have "set ?h \<subseteq> insert ?l (set (hist S))"
      using set_take_subset set_drop_subset by (fastforce simp: insert_line_def dest: in_set_takeD in_set_dropD)
    then have hl: "\<forall>l \<in> set ?h. int (length l) < maxlen s" using len(3) assms(1) by (auto simp: in_session_def)
    have hi: "i < length ?h" using i S(4) len(4) by (simp add: insert_line_def)
    have "cstr_at m (cmdline_at s) (saved S)"
    proof (rule cstr_at_cong [OF S(7)])
      show "m a = gmem s a" if "in_region a (cmdline_at s) (Suc (length (saved S)))" for a
        using layout_apart(3) [OF S(1), of a] in_region_mono [OF that, of 1600] len(2) m(2) by auto
    qed (use len(2) in simp)
    moreover have "session_layout ?s" using S(1) by (simp add: session_layout_def history_ok_def low_memory_ok_def fits_low_def)
    ultimately have "in_session ps ?s (S\<lparr>hist := ?h\<rparr>)"
      using ed hl hi m(3) assms by (simp add: in_session_def)
    moreover have "session_frame s ?s" using m(2) by (simp add: session_frame_def session_writes_def)
    ultimately show ?thesis
      using False r m(1) S(5) by (auto simp: browses_def save_line_def g keep_line_def)
  qed
qed

lemma keep_text_does:
  assumes "in_session ps s S"
  shows "browses ps s (strcpy_to (cmdline_at s) CMDLINE_BUF s) (S\<lparr>saved := line_of (typed S)\<rparr>)"
proof -
  let ?l = "line_of (typed S)" and ?q = "cmdline_at s"
  have S: "session_layout s" "editing ps s (typed S)" "fits_low ?q 1600 s"
    using assms by (auto simp: in_session_def session_layout_def)
  have c: "cstr_at (gmem s) CMDLINE_BUF ?l" using S(2) by (simp add: editing_def text_in_def)
  note len = session_lengths [OF assms]
  define m where "m = write_bytes (gmem s) ?q (?l @ [0])"
  have f: "fits_low ?q (Suc (length ?l)) s" using S(3) len(1) by (auto simp: fits_low_def)
  have b: "unat CMDLINE_BUF + Suc (length ?l) < 4294967296" using unat_buf [of 0] len(1) by simp
  have cp: "strcpy_to ?q CMDLINE_BUF s = Some (s\<lparr>gmem := m\<rparr>)"
    using grub_strcpy_low [OF c f b] by (simp add: strcpy_to_def m_def)
  have out: "m a = gmem s a" if "\<not> in_region a ?q 1600" for a
    using that len(1) part_outside [of 0 "?l @ [0]" 1600 a ?q] by (simp add: m_def)
  have o2: "m a = gmem s a" if "editor_writes s a \<or> \<not> session_writes s a" for a
    using that out layout_apart(2) [OF S(1), of a] by (auto simp: session_writes_def)
  have st: "string_ready (session_writes s) (gmem s) (literal_at s ''%s'') [0x25, 0x73]"
    "string_ready (session_writes s) (gmem s) (prompt s) ps" using assms by (simp_all add: in_session_def)
  have e: "s\<lparr>gmem := m\<rparr> = s\<lparr>gmem := m, num_history := num_history s, history := history s\<rparr>" by simp
  have ed: "editing ps (s\<lparr>gmem := m\<rparr>) (typed S)" "string_ready (session_writes (s\<lparr>gmem := m\<rparr>)) m (literal_at s ''%s'') [0x25, 0x73]"
    "string_ready (session_writes (s\<lparr>gmem := m\<rparr>)) m (prompt s) ps"
    using editing_elsewhere [OF S(2,1) o2 [OF disjI1] st o2 [OF disjI2] e] by simp_all
  have h: "history_in (s\<lparr>gmem := m\<rparr>) (hist S)"
  proof (rule history_in_frame)
    show "history_in s (hist S)" using assms by (simp add: in_session_def)
    show "gmem (s\<lparr>gmem := m\<rparr>) a = gmem s a" if "in_region a HISTORY_BUF 9600" for a
      using that layout_apart(3) [OF S(1)] out by auto
  qed simp
  have "cstr_at m ?q ?l" using cstr_at_written [of ?l "[]"] cstr_at_no_zero [OF c] len(1) by (simp add: m_def)
  moreover have "session_layout (s\<lparr>gmem := m\<rparr>)" using S(1) by (simp add: session_layout_def history_ok_def low_memory_ok_def fits_low_def)
  ultimately have "in_session ps (s\<lparr>gmem := m\<rparr>) (S\<lparr>saved := ?l\<rparr>)" using ed h len(3) assms by (simp add: in_session_def)
  moreover have "session_frame s (s\<lparr>gmem := m\<rparr>)" using out by (simp add: session_frame_def session_writes_def)
  ultimately show ?thesis by (auto simp: browses_def cp)
qed

lemma show_line_does:
  assumes "in_session ps s S" and "cstr_at (gmem s) p t" and "length t < 1600" and "int (length t) < maxlen s" and "unat p + 1600 < 4294967296"
  shows "browses ps s (show_line p s) (show_text t S)"
proof -
  let ?e = "\<lparr>before = t, after = [], killed = killed (typed S)\<rparr>" and ?n = "int (length t)"
  have ed: "editing ps s (typed S)" using assms(1) by (simp add: in_session_def)
  define m where "m = write_bytes (gmem s) CMDLINE_BUF (t @ [0])"
  have low: "low_memory_ok s" using ed by (simp add: editing_def ready_def)
  have f: "fits_low CMDLINE_BUF (Suc (length t)) s" "unat p + Suc (length t) < 4294967296"
    using low unat_buf [of 0] assms(3,5) by (auto simp: low_memory_ok_def fits_low_def)
  have cp: "strcpy_to CMDLINE_BUF p s = Some (s\<lparr>gmem := m\<rparr>)"
    using grub_strcpy_low [OF assms(2) f] by (simp add: strcpy_to_def m_def)
  have c: "cstr_at m CMDLINE_BUF t" using cstr_at_written [of t "[]"] cstr_at_no_zero [OF assms(2)] assms(3) by (simp add: m_def)
  have l: "grub_strlen m CMDLINE_BUF = Some (of_nat (length t))" "sint (of_nat (length t) :: u32) = ?n"
    using grub_strlen_cstr [OF c] assms(3) by (simp_all add: sint_of_nat_u32)
  let ?s = "s\<lparr>gmem := m, lpos := int (length (before ?e)), llen := int (length (line_of ?e))\<rparr>"
  have out: "\<And>a. \<not> in_region a CMDLINE_BUF 1600 \<Longrightarrow> m a = gmem s a"
    using assms(3) part_outside [of 0 "t @ [0]" 1600 _ CMDLINE_BUF] by (simp add: m_def)
  have ch: "edit_step s ?s" "ready ps ?s" "text_in ?s ?e"
    using line_changed [OF ed _ out _ _ refl, of ?e] c assms(4) by (simp_all add: line_of_def)
  have "does ps s (cl_refresh True 0 ?s) ?e"
    by (rule does_after [OF ch(1)], rule refresh_does [OF ch(2,3)]) simp
  moreover have "s\<lparr>gmem := m, llen := ?n, lpos := ?n\<rparr> = ?s" by (simp add: line_of_def)
  then have "show_line p s = cl_refresh True 0 ?s" by (simp add: show_line_def cp l)
  ultimately show ?thesis using browses_edit [OF assms(1)] by (simp add: show_text_def)
qed

lemma history_line:
  assumes "in_session ps s S" and "i < length (hist S)"
  shows "get_history (int i) s = history_at i" and "history_at i \<noteq> 0" and "cstr_at (gmem s) (history_at i) (hist S ! i)"
    and "unat (history_at i) + 1600 < 4294967296"
proof -
  have h: "history_in s (hist S)" "i < 5" using assms session_lengths(4) [OF assms(1)] by (simp_all add: in_session_def)
  have u: "unat (history_at i) = 495328 + 1600 * i" unfolding history_at_def using h(2) by (intro unat_history) simp
  then show "history_at i \<noteq> 0" "unat (history_at i) + 1600 < 4294967296" using h(2) by auto
  show "get_history (int i) s = history_at i" "cstr_at (gmem s) (history_at i) (hist S ! i)"
    using h(1) assms(2) by (simp_all add: get_history_def history_in_def history_at_def MAX_CMDLINE_def)
qed

text \<open>The line with the index \<open>i\<close> is shown, if there is one.\<close>

lemma shown_history:
  assumes "in_session ps s S" and "i < length (hist S)"
  shows "browses ps s (show_line (history_at i) (s\<lparr>history := int i\<rparr>)) (show_text (hist S ! i) (S\<lparr>browsed := Some i\<rparr>))"
proof -
  have i: "in_session ps (s\<lparr>history := int i\<rparr>) (S\<lparr>browsed := Some i\<rparr>)" "session_frame s (s\<lparr>history := int i\<rparr>)"
    using session_index [OF assms(1), of "int i" "Some i"] assms(2) by simp_all
  have "browses ps (s\<lparr>history := int i\<rparr>) (show_line (history_at i) (s\<lparr>history := int i\<rparr>)) (show_text (hist S ! i) (S\<lparr>browsed := Some i\<rparr>))"
    using session_lengths(5) [OF assms] history_line [OF assms] by (intro show_line_does [OF i(1)]) simp_all
  then show ?thesis using session_frame_trans [OF i(2)] by (auto simp: browses_def)
qed

lemma fetch_previous_does:
  assumes "in_session ps s S"
  shows "browses ps s (fetch_previous s) (go_back S)"
proof -
  define i where "i = (case browsed S of None \<Rightarrow> 0 | Some i \<Rightarrow> Suc i)"
  define S1 where "S1 = (case browsed S of None \<Rightarrow> S\<lparr>saved := line_of (typed S)\<rparr> | Some i \<Rightarrow> keep_line i S)"
  have h: "history s = (case browsed S of None \<Rightarrow> -1 | Some i \<Rightarrow> int i)" using assms by (simp add: in_session_def)
  have b: "browsed S1 = browsed S" by (simp add: S1_def keep_line_def split: option.split)
  have first: "browses ps s (if history s < 0 then strcpy_to (cmdline_at s) CMDLINE_BUF s else save_line s) S1"
    using keep_text_does [OF assms] keep_line_does [OF assms] h by (simp add: S1_def split: option.split)
  have g: "go_back S = (if i < length (hist S1) then show_text (hist S1 ! i) (S1\<lparr>browsed := Some i\<rparr>) else S1)"
    by (simp add: go_back_def i_def S1_def split: option.split)
  have rest: "browses ps s1 (let s = s1\<lparr>history := history s1 + 1\<rparr>; p = get_history (history s) s
      in if p = 0 then Some (s\<lparr>history := history s - 1\<rparr>) else show_line p s) (go_back S)" if s1: "in_session ps s1 S1" for s1
  proof -
    have k: "history s1 + 1 = int i" using s1 b by (simp add: in_session_def i_def split: option.splits)
    have g1: "get_history (int i) (s1\<lparr>history := int i\<rparr>) = get_history (int i) s1" by (simp add: get_history_def)
    show ?thesis
    proof (cases "i < length (hist S1)")
      case True
      then show ?thesis
        using shown_history [OF s1 True] history_line [OF s1 True] unfolding g k Let_def by (simp add: g1)
    next
      case False
      then have "get_history (int i) s1 = 0" using s1 by (simp add: get_history_def in_session_def history_in_def)
      moreover have "s1\<lparr>history := int i - 1\<rparr> = s1" using k by simp
      ultimately show ?thesis using False browses_nothing [OF s1] unfolding g k Let_def by (simp add: g1)
    qed
  qed
  show ?thesis unfolding fetch_previous_def Let_def using browses_bind [OF first rest] by (simp add: Let_def)
qed

lemma fetch_next_does:
  assumes "in_session ps s S"
  shows "browses ps s (fetch_next s) (go_on S)"
proof (cases "browsed S")
  case None
  then have "history s < 0" using assms by (simp add: in_session_def)
  then show ?thesis using None browses_nothing [OF assms] by (simp add: fetch_next_def go_on_def)
next
  case (Some i)
  have k: "history s = int i" using assms Some by (simp add: in_session_def)
  let ?S = "keep_line i S"
  have b: "browsed ?S = Some i" by (simp add: keep_line_def Some)
  have rest: "browses ps s1 (let s = s1\<lparr>history := history s1 - 1\<rparr>; p = get_history (history s) s
      in show_line (if p = 0 then cmdline_at s else p) s) (go_on S)" if s1: "in_session ps s1 ?S" for s1
  proof (cases i)
    case 0
    have h: "history s1 = 0" using s1 b 0 by (simp add: in_session_def)
    have s2: "in_session ps (s1\<lparr>history := -1\<rparr>) (?S\<lparr>browsed := None\<rparr>)" "session_frame s1 (s1\<lparr>history := -1\<rparr>)"
      using session_index [OF s1, of "-1" None] by simp_all
    have c: "cstr_at (gmem s1) (cmdline_at s1) (saved ?S)" "fits_low (cmdline_at s1) 1600 s1"
      using s1 by (simp_all add: in_session_def session_layout_def)
    have "unat (cmdline_at s1) + 1600 < 4294967296" using c(2) by (simp add: fits_low_def)
    then have "browses ps (s1\<lparr>history := -1\<rparr>) (show_line (cmdline_at s1) (s1\<lparr>history := -1\<rparr>)) (show_text (saved ?S) (?S\<lparr>browsed := None\<rparr>))"
      using c(1) session_lengths(2) [OF s1] s1 by (intro show_line_does [OF s2(1)]) (simp_all add: in_session_def)
    then have "browses ps s1 (show_line (cmdline_at s1) (s1\<lparr>history := -1\<rparr>)) (show_text (saved ?S) (?S\<lparr>browsed := None\<rparr>))"
      using session_frame_trans [OF s2(2)] by (auto simp: browses_def)
    then show ?thesis by (simp add: go_on_def Some 0 h get_history_def Let_def)
  next
    case (Suc j)
    have h: "history s1 = int i" using s1 b by (simp add: in_session_def)
    have j: "j < length (hist ?S)" using s1 b Suc by (simp add: in_session_def)
    have g1: "get_history (int j) (s1\<lparr>history := int j\<rparr>) = history_at j" using history_line(1) [OF s1 j] by (simp add: get_history_def)
    show ?thesis using shown_history [OF s1 j] history_line(2) [OF s1 j] by (simp add: go_on_def Some Suc h g1 Let_def)
  qed
  show ?thesis
    unfolding fetch_next_def Let_def using k browses_bind [OF keep_line_does [OF assms Some] rest] by (simp add: Let_def)
qed

section \<open>Keys and the loop\<close>

lemma session_key_does:
  assumes "in_session ps s S" and "c \<noteq> 27" and "unat c < 256" and "readline s \<Longrightarrow> c \<noteq> 9" and "deletes_in_line (readline s) c (typed S)"
  shows "\<exists>s'. cl_key pc c s = Some (False, s') \<and> in_session ps s' (session_key (maxlen s) (readline s) c S) \<and> session_frame s s'
    \<and> pressed (shown s') = pressed (shown s)"
proof (cases "readline s \<and> (c = 16 \<or> c = 14)")
  case True
  then have n: "c \<noteq> 4" "c \<noteq> 8" "c \<noteq> 27" "\<not> 0x20 \<le>s c" by (auto simp: word_sle_eq)
  have b: "basic_key c s' = Some (False, s')" for s' :: "'a cmdline_scheme" using n by (simp add: basic_key_def)
  have "browses ps s (readline_key pc c s) (session_key (maxlen s) (readline s) c S)"
    using True fetch_previous_does [OF assms(1)] fetch_next_does [OF assms(1)] by (auto simp: readline_key_def session_key_def)
  then show ?thesis using True b by (auto simp: browses_def cl_key_def)
next
  case False
  then have k: "editing_key (readline s) c" using assms(2-4) by (auto simp: editing_key_def)
  have e: "editing ps s (typed S)" using assms(1) by (simp add: in_session_def)
  obtain s' where s': "cl_key pc c s = Some (False, s')" "edit_step s s'" "editing ps s' (edit_key (maxlen s) (readline s) c (typed S))"
    using cl_key_does [OF e k assms(5)] by blast
  have "session_key (maxlen s) (readline s) c S = S\<lparr>typed := edit_key (maxlen s) (readline s) c (typed S)\<rparr>"
    using False by (auto simp: session_key_def)
  then show ?thesis
    using s'(1) session_edited [OF assms(1) s'(2,3)] edit_step_frame [OF s'(2)] edit_step_fields(16) [OF s'(2)] by auto
qed

definition is_enter :: "u32 \<Rightarrow> bool" where
  "is_enter k \<longleftrightarrow> k AND 0xFF = 0x0A \<or> k AND 0xFF = 0x0D"

text \<open>
  The keys before the one that ends a session: no TAB where names are completed, and no deletion that
  moves bytes behind the buffer of the line.
\<close>

fun session_keys :: "int \<Rightarrow> bool \<Rightarrow> u32 list \<Rightarrow> session \<Rightarrow> bool" where
  "session_keys M rl [] S \<longleftrightarrow> True"
| "session_keys M rl (k # ks) S \<longleftrightarrow> (let c = k AND 0xFF in \<not> is_enter k \<and> c \<noteq> 27 \<and> (rl \<longrightarrow> c \<noteq> 9) \<and> deletes_in_line rl c (typed S)
     \<and> session_keys M rl ks (session_key M rl c S))"

lemma in_session_shown: "in_session ps (s\<lparr>shown := tr\<rparr>) S = in_session ps s S"
proof -
  have "session_writes (s\<lparr>shown := tr\<rparr>) = session_writes s"
    by (auto simp: session_writes_def editor_writes_def fun_eq_iff)
  then show ?thesis
    by (simp add: in_session_def editing_shown history_in_def session_layout_def history_ok_def low_memory_ok_def fits_low_def)
qed

lemma session_frame_shown: "session_frame (s\<lparr>shown := tr\<rparr>) s' = session_frame s s'"
  by (simp add: session_frame_def session_writes_def editor_writes_def)

lemma cl_loop_session:
  assumes "in_session ps s S" and "keys_come ks s" and "drop (pressed (shown s)) ks = cs @ r # rest"
    and "session_keys (maxlen s) (readline s) cs S" and "is_enter r \<or> r AND 0xFF = 27"
  shows "\<exists>s'. cl_loop pc s = Some (\<not> is_enter r, s') \<and> session_frame s s'
    \<and> in_session ps s' (fold (\<lambda>k. session_key (maxlen s) (readline s) (k AND 0xFF)) cs S)"
  using assms
proof (induction cs arbitrary: s S)
  case Nil
  have "pressed (shown s) < length ks" using Nil.prems(3) by (metis append_Nil drop_eq_Nil2 leI list.discI)
  then have "term_getkey (current_term s) (shown s) = r"
    using Nil.prems(2,3) by (simp add: keys_come_def) (metis Cons_nth_drop_Suc list.inject)
  then have g: "getkey s = (r, s\<lparr>shown := GetKey r # shown s\<rparr>)" by (simp add: getkey_def emit_def)
  have esc: "cl_key pc 27 s' = Some (True, s')" for s' :: "'a cmdline_scheme"
    by (simp add: cl_key_def readline_key_def basic_key_def)
  have "cl_loop pc s = Some (\<not> is_enter r, s\<lparr>shown := GetKey r # shown s\<rparr>)"
    using Nil.prems(5) by (subst cl_loop.simps) (auto simp: g is_enter_def esc)
  then show ?case
    using Nil.prems(1) session_frame_refl [of s] by (auto simp: in_session_shown session_frame_def)
next
  case (Cons k cs)
  let ?c = "k AND 0xFF" and ?s = "s\<lparr>shown := GetKey k # shown s\<rparr>"
  have "pressed (shown s) < length ks" using Cons.prems(3) by (metis append_Cons drop_eq_Nil2 leI list.discI)
  then have "term_getkey (current_term s) (shown s) = k" and dr: "drop (Suc (pressed (shown s))) ks = cs @ r # rest"
    using Cons.prems(2,3) Cons_nth_drop_Suc [of "pressed (shown s)" ks] by (auto simp: keys_come_def)
  then have g: "getkey s = (k, ?s)" by (simp add: getkey_def emit_def)
  have i: "in_session ps ?s S" using Cons.prems(1) by (simp only: in_session_shown)
  have k: "\<not> is_enter k" "?c \<noteq> 27" "readline s \<Longrightarrow> ?c \<noteq> 9" "deletes_in_line (readline s) ?c (typed S)"
    "session_keys (maxlen s) (readline s) cs (session_key (maxlen s) (readline s) ?c S)"
    using Cons.prems(4) by (simp_all add: Let_def)
  have c: "unat ?c < 256" using word_and_le1 [of k "0xFF"] by (simp add: word_le_nat_alt)
  obtain s1 where s1: "cl_key pc ?c ?s = Some (False, s1)" "in_session ps s1 (session_key (maxlen s) (readline s) ?c S)"
    "session_frame s s1" "pressed (shown s1) = Suc (pressed (shown s))"
    using session_key_does [OF i k(2) c, of pc] k(3,4) by (auto simp: session_frame_shown)
  have l: "cl_loop pc s = cl_loop pc s1"
    using k(1) by (subst cl_loop.simps) (auto simp: g s1(1) is_enter_def)
  have f: "maxlen s1 = maxlen s" "readline s1 = readline s" "current_term s1 = current_term s"
    using s1(3) by (simp_all add: session_frame_def)
  have "keys_come ks s1" "drop (pressed (shown s1)) ks = cs @ r # rest" "session_keys (maxlen s1) (readline s1) cs (session_key (maxlen s) (readline s) ?c S)"
    using Cons.prems(2) dr s1(4) k(5) f by (simp_all add: keys_come_def)
  from Cons.IH [OF s1(2) this Cons.prems(5)] show ?case
    using l session_frame_trans [OF s1(3)] f by auto
qed

end
