(* ===== verification/Grub_Cmdline_Props.thy ===== *)
theory Grub_Cmdline_Props
  imports Grub_Cmdline_Session
begin

text \<open>
  Properties of the command line editor: what each key does, what a whole session returns, and what
  \<open>cl_delete\<close> does to the kill buffer.
\<close>

section \<open>A session\<close>

text \<open>What a call of \<open>real_get_cmdline\<close> relies on: the prompt \<open>ps\<close> at \<open>p\<close> and the terminal.\<close>

definition workplace :: "u8 list \<Rightarrow> u32 \<Rightarrow> 'a cmdline_scheme \<Rightarrow> bool" where
  "workplace ps p s \<longleftrightarrow> count_lines s < 0 \<and> (is_dumb s \<or> term_getxy (current_term s) \<noteq> None) \<and> history_ok s
     \<and> string_ready (editor_writes s) (gmem s) (literal_at s ''%s'') [0x25, 0x73]
     \<and> string_ready (editor_writes s) (gmem s) p ps \<and> length ps < 2147483648
     \<and> disjoint_regions CMDLINE_BUF 12800 (str_at s) 2 \<and> unat (str_at s) < 4294966000"

text \<open>A session writes to the caller's buffer and to the history, too.\<close>

definition session_place :: "u8 list \<Rightarrow> u32 \<Rightarrow> u32 \<Rightarrow> 'a cmdline_scheme \<Rightarrow> bool" where
  "session_place ps p q s \<longleftrightarrow> workplace ps p s \<and> session_layout (s\<lparr>cmdline_at := q\<rparr>)
     \<and> string_ready (session_writes (s\<lparr>cmdline_at := q\<rparr>)) (gmem s) (literal_at s ''%s'') [0x25, 0x73]
     \<and> string_ready (session_writes (s\<lparr>cmdline_at := q\<rparr>)) (gmem s) p ps"

lemma cl_setup_starts:
  assumes "session_place ps p q s" and "cstr_at (gmem s) q old" and "M = min len 1600" and "int (length old) < M"
    and "cstr_at (gmem s) KILL_BUF kl" and "length kl < 1600" and "history_in s h" and "\<forall>l \<in> set h. int (length l) < M"
  shows "\<exists>s'. cl_setup p q len echo rl s = Some s'
    \<and> in_session ps s' \<lparr>typed = \<lparr>before = old, after = [], killed = kl\<rparr>, hist = h, browsed = None, saved = old\<rparr>
    \<and> maxlen s' = M \<and> readline s' = rl \<and> echo_char s' = echo \<and> cmdline_at s' = q \<and> current_term s' = current_term s
    \<and> pressed (shown s') = pressed (shown s)"
proof -
  let ?e = "\<lparr>before = old, after = [], killed = kl\<rparr>"
  let ?S = "\<lparr>typed = ?e, hist = h, browsed = None, saved = old\<rparr>"
  define s1 where "s1 = s\<lparr>prompt := p, cmdline_at := q, maxlen := M, echo_char := echo, readline := rl, history := -1,
    plen := int (length ps), llen := int (length old), lpos := int (length old)\<rparr>"
  have M: "M \<le> 1600" using assms(3) by simp
  have wp: "workplace ps p s" "session_layout (s\<lparr>cmdline_at := q\<rparr>)" using assms(1) by (simp_all add: session_place_def)
  have w: "string_ready (editor_writes s) (gmem s) p ps" "length ps < 2147483648" "low_memory_ok s"
    "disjoint_regions CMDLINE_BUF 12800 (str_at s) 2"
    using wp(1) by (auto simp: workplace_def history_ok_def)
  have q: "unat q + 1600 < 4294967296" using wp(2) by (simp add: session_layout_def fits_low_def)
  have ew: "editor_writes s1 = editor_writes s" "session_writes s1 = session_writes (s\<lparr>cmdline_at := q\<rparr>)"
    by (auto simp: s1_def editor_writes_def session_writes_def fun_eq_iff)
  have pl: "grub_strlen (gmem s) p = Some (of_nat (length ps))" "sint (of_nat (length ps) :: u32) = int (length ps)"
    using grub_strlen_cstr [of "gmem s" p ps] w(1,2) by (auto simp: string_ready_def sint_of_nat_u32)
  have tl: "grub_strlen (gmem s) q = Some (of_nat (length old))" "sint (of_nat (length old) :: u32) = int (length old)"
    using grub_strlen_cstr [OF assms(2)] assms(4) M by (auto simp: sint_of_nat_u32)
  define m where "m = write_bytes (gmem s) CMDLINE_BUF (old @ [0])"
  have fits: "fits_low CMDLINE_BUF (Suc (length old)) s1"
    using assms(4) M w(3) unat_buf [of 0] by (auto simp: fits_low_def low_memory_ok_def s1_def)
  have c: "strcpy_to CMDLINE_BUF q s1 = Some (s1\<lparr>gmem := m\<rparr>)"
    using grub_strcpy_low [OF _ fits, of q] assms(2,4) q M by (simp add: strcpy_to_def m_def s1_def)
  have out: "m a = gmem s a" if "\<not> in_region a CMDLINE_BUF 1600" for a
    using that assms(4) M part_outside [of 0 "old @ [0]" 1600 a CMDLINE_BUF] by (simp add: m_def)
  have st: "edit_step s1 (s1\<lparr>gmem := m\<rparr>)"
    by (rule edit_step_eqI [where m = m and x = "xpos s" and l = "lpos s1" and k = "sect s" and n = "llen s1" and tr = "shown s"])
      (use out buf_regions(1) in \<open>auto simp: s1_def editor_writes_def\<close>)
  have "ready ps s1"
    using wp(1) disjoint_regions_mono [OF w(4), of 3200 2] ew(1) M
    by (auto simp: ready_def workplace_def history_ok_def s1_def is_dumb_def low_memory_ok_def)
  then have r: "ready ps (s1\<lparr>gmem := m\<rparr>)" using st by (rule ready_step)
  have "cstr_at m CMDLINE_BUF old"
    using cstr_at_written [of old "[]"] cstr_at_no_zero [OF assms(2)] assms(4) M by (simp add: m_def)
  moreover have "cstr_at m KILL_BUF kl"
  proof (rule cstr_at_cong [OF assms(5)])
    show "m a = gmem s a" if "in_region a KILL_BUF (Suc (length kl))" for a
      using out buf_regions(2) [OF that, of s] assms(6) by simp
  qed (use assms(6) in simp)
  ultimately have t: "text_in (s1\<lparr>gmem := m\<rparr>) ?e" using assms(4,6) by (simp add: text_in_def line_of_def s1_def)
  have cl: "count_lines (s1\<lparr>gmem := m\<rparr>) < 0" using r by (simp add: ready_def)
  obtain tr where tr: "pressed tr = pressed (shown s)" "grub_putchar 0x0A (s1\<lparr>gmem := m\<rparr>) = Some (s1\<lparr>gmem := m, shown := tr\<rparr>)"
    using grub_putchar_shows [OF cl, of "0x0A"] by (auto simp: only_shows_def s1_def)
  have st2: "edit_step (s1\<lparr>gmem := m\<rparr>) (s1\<lparr>gmem := m, shown := tr\<rparr>)"
    by (rule edit_step_eqI [where m = m and x = "xpos s" and l = "lpos s1" and k = "sect s" and n = "llen s1" and tr = tr])
      (use tr(1) in \<open>simp_all add: s1_def\<close>)
  have t2: "text_in (s1\<lparr>gmem := m, shown := tr\<rparr>) ?e" using t by (simp add: text_in_def)
  obtain s' where s': "cl_refresh True 0 (s1\<lparr>gmem := m, shown := tr\<rparr>) = Some s'" "edit_step (s1\<lparr>gmem := m, shown := tr\<rparr>) s'" "editing ps s' ?e"
    using refresh_does [OF ready_step [OF r st2] t2, of True 0] by (auto simp: does_def)
  have started: "cl_setup p q len echo rl s = Some s'"
  proof -
    have "cl_setup p q len echo rl s = do { s \<leftarrow> strcpy_to CMDLINE_BUF q s1; cl_init s }"
    proof (cases "len > 1600")
      case True
      then have "s\<lparr>prompt := p, cmdline_at := q, echo_char := echo, readline := rl, history := -1, plen := int (length ps),
          llen := int (length old), maxlen := 1600, lpos := int (length old)\<rparr> = s1" using assms(3) by (simp add: s1_def)
      then show ?thesis using True assms(3,4) unfolding cl_setup_def Let_def by (simp add: pl tl MAX_CMDLINE_def)
    next
      case False
      then show ?thesis using assms(3) unfolding cl_setup_def Let_def by (simp add: pl tl MAX_CMDLINE_def s1_def)
    qed
    then show ?thesis using c tr(2) s'(1) by (simp add: cl_init_def)
  qed
  have st3: "edit_step s1 s'" using st st2 s'(2) edit_step_trans by blast
  have "around ps s1 ?S"
    using assms(1,2,4,7,8) wp(2) unfolding around_def ew session_place_def
    by (simp add: s1_def history_in_def session_layout_def history_ok_def low_memory_ok_def fits_low_def)
  moreover have "maxlen s1 \<le> 1600" using M by (simp add: s1_def)
  ultimately have "around ps s' (?S\<lparr>typed := ?e\<rparr>)" using st3 by (intro around_step)
  then have "in_session ps s' ?S" using s'(3) by (simp add: in_session_around)
  then show ?thesis using started edit_step_fields [OF st3] by (auto simp: s1_def)
qed

lemma scan_spaces:
  "cstr_at m (CMDLINE_BUF + of_nat i) l \<Longrightarrow> scan_buf m (\<lambda>c. c = 0x20) (int i) = Some (int (i + length (takeWhile (\<lambda>c. c = 0x20) l)))"
proof (induction l arbitrary: i)
  case Nil
  then show ?case by (subst scan_buf.simps) (simp add: buf_at_nat)
next
  case (Cons c l)
  then have "cstr_at m (CMDLINE_BUF + of_nat (Suc i)) l" by (simp add: algebra_simps)
  from Cons.IH [OF this] Cons.prems show ?case by (subst scan_buf.simps) (simp add: buf_at_nat algebra_simps)
qed

text \<open>The line that is returned: without leading spaces, unless something else was echoed.\<close>

definition returned :: "u32 \<Rightarrow> edit \<Rightarrow> u8 list" where
  "returned echo e = (if echo = 0 then dropWhile (\<lambda>c. c = 0x20) (line_of e) else line_of e)"

lemma cl_finish_spec:
  assumes "in_session ps s S"
  shows "\<exists>s'. cl_finish s = Some s' \<and> cstr_at (gmem s') (cmdline_at s) (returned (echo_char s) (typed S))
    \<and> history_in s' (if readline s \<and> returned (echo_char s) (typed S) \<noteq> []
        then insert_line 0 (returned (echo_char s) (typed S)) (hist S) else hist S)"
proof -
  define e where "e = typed S"
  let ?r = "returned (echo_char s) e" and ?q = "cmdline_at s" and ?h = "hist S"
  have ed: "editing ps s e" and hi: "history_in s ?h" and ok: "history_ok s" and fq: "fits_low ?q 1600 s"
    and lay: "session_layout s"
    using assms by (simp_all add: in_session_def session_layout_def e_def)
  have dq: "disjoint_regions ?q 1600 HISTORY_BUF 9600"
    using layout_apart(3) [OF lay] by (intro disjoint_regionsI) blast
  have c: "count_lines s < 0" "cstr_at (gmem s) CMDLINE_BUF (line_of e)" "llen s = int (length (line_of e))"
    using ed by (auto simp: editing_def ready_def text_in_def)
  obtain tr where tr: "grub_putchar 0x0A s = Some (s\<lparr>shown := tr\<rparr>)"
    using grub_putchar_shows [OF c(1)] by (auto simp: only_shows_def)
  define k where "k = length (line_of e) - length ?r"
  have r: "line_of e = take k (line_of e) @ ?r" "k \<le> length (line_of e)" "length ?r = length (line_of e) - k"
    "(if echo_char s = 0 then scan_buf (gmem s) (\<lambda>c. c = 0x20) 0 else Some 0) = Some (int k)"
  proof -
    have d: "dropWhile P l = drop (length (takeWhile P l)) l" for P and l :: "u8 list" by (rule dropWhile_eq_drop)
    have k: "k = (if echo_char s = 0 then length (takeWhile (\<lambda>c. c = 0x20) (line_of e)) else 0)"
      using length_takeWhile_le [of "\<lambda>c. c = 0x20" "line_of e"] by (simp add: k_def returned_def d)
    show "line_of e = take k (line_of e) @ ?r" by (simp add: k returned_def takeWhile_eq_take [symmetric])
    show "k \<le> length (line_of e)" "length ?r = length (line_of e) - k"
      using length_takeWhile_le [of "\<lambda>c. c = 0x20" "line_of e"] by (simp_all add: k returned_def d)
    show "(if echo_char s = 0 then scan_buf (gmem s) (\<lambda>c. c = 0x20) 0 else Some 0) = Some (int k)"
      using scan_spaces [of "gmem s" 0 "line_of e"] c(2) by (simp add: k)
  qed
  have l: "length ?r < 1600" using r(3) line_short [OF ed] by linarith
  have src: "cstr_at (gmem s) (CMDLINE_BUF + of_nat k) ?r"
    using cstr_at_suffix [of "gmem s" CMDLINE_BUF "take k (line_of e)" ?r] c(2) r(1,2) by simp
  have rd: "read_bytes (gmem s) (CMDLINE_BUF + of_nat k) (Suc (length ?r)) = ?r @ [0]"
    using copied_text [OF src, of "Suc (length ?r)"] by auto
  define m where "m = write_bytes (gmem s) ?q (?r @ [0])"
  define s1 where "s1 = s\<lparr>gmem := m, lpos := int k, shown := tr\<rparr>"
  have i: "llen s - int k + 1 = int (Suc (length ?r))" using c(3) r(2,3) by simp
  have "fits_low ?q (Suc (length ?r)) (s\<lparr>shown := tr, lpos := int k\<rparr>)" "unat ?q < 0x100000"
    using fq l by (auto simp: fits_low_def)
  then have cp: "copy ?q (buf_at (int k)) (int (Suc (length ?r))) (s\<lparr>shown := tr, lpos := int k\<rparr>) = s1"
    using grub_memmove_low [of ?q "Suc (length ?r)" "s\<lparr>shown := tr, lpos := int k\<rparr>" "CMDLINE_BUF + of_nat k"] r(2) l line_short [OF ed]
    unfolding copy_def s1_def m_def by (simp add: buf_at_nat unat_buf rd del: read_bytes.simps of_nat_Suc)
  have f: "cl_finish s = (if readline s \<and> int k < llen s then add_history ?q 0 s1 else Some s1)"
  proof -
    have "cl_finish s = (let s = copy ?q (buf_at (int k)) (llen s - int k + 1) (s\<lparr>shown := tr, lpos := int k\<rparr>)
        in if readline s \<and> lpos s < llen s then add_history (cmdline_at s) 0 s else Some s)"
      using r(4) unfolding cl_finish_def by (cases "echo_char s = 0") (simp_all add: tr)
    then show ?thesis unfolding i cp Let_def by (simp add: s1_def)
  qed
  have q: "cstr_at m ?q ?r" using cstr_at_written [of ?r "[]"] cstr_at_no_zero [OF src] l by (simp add: m_def)
  have d: "disjoint_regions ?q (Suc (length ?r)) HISTORY_BUF 9600" by (rule disjoint_regions_mono [OF dq]) (use l in simp_all)
  have "m a = gmem s a" if "in_region a HISTORY_BUF 9600" for a
    unfolding m_def using disjoint_regionsD [OF disjoint_regions_sym [OF d] that] l by (intro write_bytes_outside) auto
  then have h: "history_in s1 ?h" by (intro history_in_frame [OF hi]) (simp_all add: s1_def)
  have "k < length (line_of e) \<longleftrightarrow> length ?r \<noteq> 0" using r(2,3) by linarith
  then have ne: "int k < llen s \<longleftrightarrow> ?r \<noteq> []" using c(3) by simp
  have "history_ok s1" "unat ?q + 1600 < 4294967296"
    using ok fq by (auto simp: history_ok_def low_memory_ok_def fits_low_def s1_def)
  then obtain m' where m': "add_history ?q (int 0) s1 = Some (s1\<lparr>gmem := m', num_history := int (length (insert_line 0 ?r ?h))\<rparr>)"
    "\<forall>a. \<not> in_region a HISTORY_BUF 9600 \<longrightarrow> m' a = gmem s1 a"
    "history_in (s1\<lparr>gmem := m', num_history := int (length (insert_line 0 ?r ?h))\<rparr>) (insert_line 0 ?r ?h)"
    using add_history_spec [OF h, of 0 ?q ?r] q l d by (auto simp: s1_def)
  have "cstr_at m' ?q ?r"
    by (rule cstr_at_cong [OF q]) (use m'(2) disjoint_regionsD [OF d] l in \<open>auto simp: s1_def\<close>)
  then show ?thesis
    using m'(1,3) h q unfolding f ne e_def [symmetric] by (auto simp: s1_def)
qed

section \<open>Properties\<close>


text \<open>C1: a session of the editor, of any length of the line. Whatever keys come before Return or ESC, but for TAB
  where names are completed and for deletions that leave the line's buffer, the routine returns: 0 for Return, and the
  line they make of the old one is in the caller's buffer, without leading spaces unless another character is
  echoed, and with \<open>readline\<close> a line that is not empty becomes the first of at most five in the history; 1 for
  ESC, and the caller's buffer holds the old line, or the one that was left for the history. A length above
  1600 counts as 1600, as in the calls with 2048.\<close>

theorem real_get_cmdline_edits:
  assumes "session_place ps p q s" and "cstr_at (gmem s) q old" and "M = min len 1600" and "int (length old) < M"
    and "cstr_at (gmem s) KILL_BUF kl" and "length kl < 1600" and "history_in s h" and "\<forall>l \<in> set h. int (length l) < M"
    and "keys_come ks s" and "drop (pressed (shown s)) ks = cs @ r # rest" and "is_enter r \<or> r AND 0xFF = 27"
    and "S = \<lparr>typed = \<lparr>before = old, after = [], killed = kl\<rparr>, hist = h, browsed = None, saved = old\<rparr>"
    and "session_keys M rl cs S" and "S' = fold (\<lambda>k. session_key M rl (k AND 0xFF)) cs S" and "line = returned echo (typed S')"
  shows "\<exists>s'. real_get_cmdline print_completions p q len echo rl s = Some (if is_enter r then 0 else 1, s')
    \<and> cstr_at (gmem s') q (if is_enter r then line else saved S')
    \<and> history_in s' (if is_enter r \<and> rl \<and> line \<noteq> [] then insert_line 0 line (hist S') else hist S')"
proof -
  obtain s1 where s1: "cl_setup p q len echo rl s = Some s1" "in_session ps s1 S" "maxlen s1 = M" "readline s1 = rl" "echo_char s1 = echo"
    "cmdline_at s1 = q" "current_term s1 = current_term s" "pressed (shown s1) = pressed (shown s)"
    using cl_setup_starts [OF assms(1-8), of echo rl] assms(12) by blast
  have k: "keys_come ks s1" "drop (pressed (shown s1)) ks = cs @ r # rest" "session_keys (maxlen s1) (readline s1) cs S"
    using assms(9,10,13) s1 by (simp_all add: keys_come_def)
  obtain s2 where s2: "cl_loop print_completions s1 = Some (\<not> is_enter r, s2)" "session_frame s1 s2" "in_session ps s2 S'"
    using cl_loop_session [OF s1(2) k assms(11), of print_completions] s1(3,4) assms(14) by auto
  have f: "cmdline_at s2 = q" "echo_char s2 = echo" "readline s2 = rl" using s2(2) s1 by (simp_all add: session_frame_def)
  show ?thesis
  proof (cases "is_enter r")
    case True
    obtain s3 where "cl_finish s2 = Some s3" "cstr_at (gmem s3) q line"
      "history_in s3 (if rl \<and> line \<noteq> [] then insert_line 0 line (hist S') else hist S')"
      using cl_finish_spec [OF s2(3)] unfolding f assms(15) [symmetric] by blast
    then show ?thesis using True s1(1) s2(1) by (simp add: real_get_cmdline_def)
  next
    case False
    then show ?thesis using s1(1) s2(1,3) f(1) by (simp add: real_get_cmdline_def in_session_def)
  qed
qed

text \<open>C32: \<open>cl_delete\<close> copies as many bytes too many as there are characters before the cursor. With a cursor
  far enough into a long line it writes behind the buffer: one deleted character shifts the kill buffer, so
  that a later C-y inserts a text that was never killed.\<close>

theorem cl_delete_shifts_kill_buffer:
  assumes "workplace ps (prompt s) s" and "lpos s = int b" and "llen s = int n" and "b < n" and "n < 1600"
    and "1600 + i < b + n"
  shows "\<exists>s'. cl_delete 1 s = Some s' \<and> gmem s' (KILL_BUF + of_nat i) = gmem s (KILL_BUF + of_nat (i + 1))"
proof -
  define m where "m = write_bytes (gmem s) (CMDLINE_BUF + of_nat b) (read_bytes (gmem s) (CMDLINE_BUF + of_nat (b + 1)) n)"
  have low: "low_memory_ok s" using assms(1) by (simp add: workplace_def history_ok_def)
  have i: "lpos s + 1 = int (b + 1)" "llen s - 1 + 1 = int n" using assms(2,3) by simp_all
  have c: "copy (buf_at (lpos s)) (buf_at (lpos s + 1)) (llen s - 1 + 1) s = s\<lparr>gmem := m\<rparr>"
    unfolding i unfolding assms(2) buf_at_nat m_def using assms(4,5) by (intro copy_buf low) (simp_all only: unat_buf)
  let ?s = "s\<lparr>gmem := m, llen := llen s - 1\<rparr>"
  have "m a = gmem s a" if "\<not> editor_writes s a" for a
    unfolding m_def using that assms(4,5) by (intro part_outside [where N = 3200]) (auto simp: editor_writes_def)
  then have "string_ready (editor_writes s) m (literal_at s ''%s'') [0x25, 0x73]" "string_ready (editor_writes s) m (prompt s) ps"
    using assms(1) string_ready_frame [of "editor_writes s" "gmem s" _ _ m] unfolding workplace_def by blast+
  then have "screen_ready ps ?s"
    using assms(1) unfolding workplace_def screen_ready_def string_ready_def by (simp add: is_dumb_def)
  note ref = cl_refresh_spec [OF this, of False]
  obtain s' where s': "cl_delete 1 s = Some s'" "gmem s' = m"
    using ref [of "CMDLINE_WIDTH - xpos ?s"] ref [of "llen ?s + 1 - lpos ?s"]
    unfolding cl_delete_def c Let_def by (cases "xpos ?s + llen ?s + 1 - lpos ?s > CMDLINE_WIDTH") auto
  have "m (CMDLINE_BUF + of_nat (1600 + i)) = read_bytes (gmem s) (CMDLINE_BUF + of_nat (b + 1)) n ! (1600 + i - b)"
    unfolding m_def using assms(4,5,6) by (subst write_bytes_offset) auto
  also have "\<dots> = gmem s (CMDLINE_BUF + of_nat (b + 1) + of_nat (1600 + i - b))"
    using assms(4,5,6) by (intro nth_read_bytes) linarith
  also have "\<dots> = gmem s (CMDLINE_BUF + of_nat (1600 + (i + 1)))"
    unfolding add.assoc of_nat_add [symmetric] using assms(4,5) by simp
  finally show ?thesis using s' by (auto simp: kill_buf add.assoc)
qed

section \<open>Witnesses\<close>

text \<open>A dumb terminal on which b, C-b, a, C-p and Return are typed; the text b is in the buffer, xy was killed.\<close>

definition demo_session :: cmdline where
  "demo_session = \<lparr>gmem = write_bytes (write_bytes (write_bytes (write_bytes (\<lambda>_. 0) 0x1000 [0x25, 0x73]) 0x1010 [0x3E, 0x20])
       CMDLINE_BUF [0x62]) KILL_BUF [0x78, 0x79],
     errnum = ERR_NONE, mem_lower = 640, mem_upper = 0,
     current_term = \<lparr>flags = TERM_DUMB, term_getkey = \<lambda>tr. [0x62, 0x02, 0x61, 0x10, 0x0D] ! pressed tr, term_checkkey = \<lambda>_. 0,
       term_getxy = None, has_setcolorstate = False, term_setcursor = None\<rparr>,
     max_lines = 24, count_lines = -1, shown = [], num_history = 0, buf_drive = -1, prompt = 0x1010, cmdline_at = 0x2000,
     maxlen = 1501, echo_char = 0, readline = True, xpos = 3, lpos = 1, sect = 0, plen = 2, llen = 1, history = -1,
     literal_at = \<lambda>_. 0x1000, frame = 0x3100, str_at = 0x3000\<rparr>"

lemma buffer_numbers: "CMDLINE_BUF = 0x78260" "KILL_BUF = 0x788A0" "HISTORY_BUF = 0x78EE0"
  by (simp_all add: HISTORY_BUF_def KILL_BUF_def CMDLINE_BUF_def DEFAULT_FILE_BUF_def PASSWORD_BUF_def)

lemma demo_session_at:
  "cstr_at (gmem demo_session) 0x1000 [0x25, 0x73]" "cstr_at (gmem demo_session) 0x1010 [0x3E, 0x20]"
  "cstr_at (gmem demo_session) CMDLINE_BUF [0x62]" "cstr_at (gmem demo_session) KILL_BUF [0x78, 0x79]"
  "cstr_at (gmem demo_session) 0x2000 []"
  by (simp_all add: demo_session_def buffer_numbers)

lemma demo_regions:
  "in_region a p n \<Longrightarrow> unat p + n \<le> 0x2000 \<Longrightarrow> \<not> session_writes demo_session a"
  "disjoint_regions CMDLINE_BUF 12800 0x3000 2" "disjoint_regions 0x2000 1600 CMDLINE_BUF 12800" "disjoint_regions 0x2000 1600 0x3000 2"
  by (auto simp: session_writes_def editor_writes_def in_region_def unat_minus_u32 disjoint_regions_def buffer_numbers demo_session_def split: if_splits)

lemma demo_string_ready:
  "string_ready (session_writes demo_session) (gmem demo_session) 0x1000 [0x25, 0x73]"
  "string_ready (session_writes demo_session) (gmem demo_session) 0x1010 [0x3E, 0x20]"
  using demo_session_at demo_regions(1) by (auto simp: string_ready_def)

lemma demo_editor_ready:
  "string_ready (editor_writes demo_session) (gmem demo_session) 0x1000 [0x25, 0x73]"
  "string_ready (editor_writes demo_session) (gmem demo_session) 0x1010 [0x3E, 0x20]"
  using demo_string_ready by (auto simp: string_ready_def session_writes_def)

lemma demo_layout: "session_layout demo_session"
  using demo_regions(2-4)
  by (simp add: session_layout_def history_ok_def low_memory_ok_def fits_low_def) (simp add: demo_session_def)

lemma demo_workplace: "workplace [0x3E, 0x20] 0x1010 demo_session"
  using demo_editor_ready demo_regions(2)
  by (auto simp: workplace_def is_dumb_def history_ok_def low_memory_ok_def) (simp_all add: demo_session_def TERM_DUMB_def)

lemma demo_same [simp]: "demo_session\<lparr>cmdline_at := 0x2000\<rparr> = demo_session"
  by (simp add: demo_session_def)

lemma demo_place: "session_place [0x3E, 0x20] 0x1010 0x2000 demo_session"
  using demo_workplace demo_layout demo_string_ready by (simp add: session_place_def) (simp add: demo_session_def)

definition demo_start :: session where
  "demo_start = \<lparr>typed = \<lparr>before = [0x62], after = [], killed = [0x78, 0x79]\<rparr>, hist = [], browsed = None, saved = []\<rparr>"

lemma demo_in_session: "in_session [0x3E, 0x20] demo_session demo_start"
proof -
  have r: "ready [0x3E, 0x20] demo_session"
    using demo_workplace demo_editor_ready disjoint_regions_mono [OF demo_regions(2), of 3200 2]
    by (auto simp: ready_def workplace_def history_ok_def) (simp_all add: demo_session_def)
  have "fits_on_screen demo_session" by (simp add: fits_on_screen_def column_def demo_session_def)
  with r have "editing [0x3E, 0x20] demo_session (typed demo_start)"
    using demo_session_at by (auto simp: editing_def text_in_def line_of_def demo_start_def) (simp_all add: demo_session_def)
  moreover have "history_in demo_session []" by (simp add: history_in_def) (simp add: demo_session_def)
  moreover have "literal_at demo_session ''%s'' = 0x1000" "prompt demo_session = 0x1010" "cmdline_at demo_session = 0x2000" "history demo_session = -1"
    "maxlen demo_session = 1501"
    by (simp_all add: demo_session_def)
  ultimately show ?thesis
    using demo_string_ready demo_layout demo_session_at(5) by (simp add: in_session_def demo_start_def)
qed


text \<open>With 2048 as the length: b, C-b, a and C-p, which finds no earlier line, then Return.\<close>

lemma real_get_cmdline_edits_witness:
  "\<exists>s'. real_get_cmdline (\<lambda>_ _ _. None) 0x1010 0x2000 2048 0 True demo_session = Some (0, s')
    \<and> cstr_at (gmem s') 0x2000 (bytes_of ''ab'') \<and> history_in s' [bytes_of ''ab'']"
proof -
  let ?S = "\<lparr>typed = \<lparr>before = [], after = [], killed = [0x78, 0x79]\<rparr>, hist = [], browsed = None, saved = []\<rparr>"
  let ?cs = "[0x62, 0x02, 0x61, 0x10] :: u32 list" and ?key = "\<lambda>k. session_key 1600 True (k AND 0xFF)"
  note defs = session_key_def edit_key_def edit_command_def edit_basic_def back_by_def insert_text_def lo8_def line_of_def go_back_def
  let ?at = "\<lambda>b a sv. \<lparr>typed = \<lparr>before = b, after = a, killed = [0x78, 0x79]\<rparr>, hist = [], browsed = None, saved = sv\<rparr>"
  have 1: "session_key 1600 True 0x62 (?at [] [] []) = ?at [0x62] [] []" by (simp add: defs)
  have 2: "session_key 1600 True 0x02 (?at [0x62] [] []) = ?at [] [0x62] []" by (simp add: defs)
  have 3: "session_key 1600 True 0x61 (?at [] [0x62] []) = ?at [0x61] [0x62] []" by (simp add: defs)
  have 4: "session_key 1600 True 0x10 (?at [0x61] [0x62] []) = ?at [0x61] [0x62] [0x61, 0x62]" by (simp add: defs)
  have c: "(0x62 :: u32) AND 0xFF = 0x62" "(0x02 :: u32) AND 0xFF = 0x02" "(0x61 :: u32) AND 0xFF = 0x61" "(0x10 :: u32) AND 0xFF = 0x10"
    by simp_all
  have S': "fold ?key ?cs ?S = ?at [0x61] [0x62] [0x61, 0x62]" by (simp only: fold_simps c 1 2 3 4)
  have k: "session_keys 1600 True ?cs ?S"
    unfolding session_keys.simps Let_def c 1 2 3 4 by (simp add: is_enter_def deletes_in_line_def)
  have h: "history_in demo_session []" by (simp add: history_in_def) (simp add: demo_session_def)
  have ks: "keys_come [0x62, 0x02, 0x61, 0x10, 0x0D] demo_session"
    "drop (pressed (shown demo_session)) [0x62, 0x02, 0x61, 0x10, 0x0D] = ?cs @ 0x0D # []"
    by (simp_all add: keys_come_def demo_session_def)
  have e: "is_enter 0x0D \<or> (0x0D :: u32) AND 0xFF = 27" "is_enter 0x0D" by (simp_all add: is_enter_def)
  have M: "(1600 :: int) = min 2048 1600" by simp
  show ?thesis
    using real_get_cmdline_edits [OF demo_place demo_session_at(5) M _ demo_session_at(4) _ h _ ks e(1) refl k S' [symmetric] refl, where echo = 0 and print_completions = "\<lambda>_ _ _. None"] e(2)
    by (simp add: insert_line_def bytes_of_def returned_def line_of_def)
qed

lemma cl_delete_shifts_kill_buffer_witness:
  "\<exists>s'. cl_delete 1 (demo_session\<lparr>lpos := 1000, llen := 1200\<rparr>) = Some s' \<and> gmem s' KILL_BUF = 0x79"
proof -
  let ?s = "demo_session\<lparr>lpos := 1000, llen := 1200\<rparr>"
  have "editor_writes ?s = editor_writes demo_session" "is_dumb ?s = is_dumb demo_session"
    by (auto simp: editor_writes_def is_dumb_def fun_eq_iff)
  then have w: "workplace [0x3E, 0x20] (prompt ?s) ?s"
    using demo_workplace unfolding workplace_def history_ok_def low_memory_ok_def by (simp add: demo_session_def)
  have "gmem ?s (KILL_BUF + of_nat (0 + 1)) = 0x79" using demo_session_at(4) by simp
  then show ?thesis using cl_delete_shifts_kill_buffer [OF w, of 1000 1200 0] by simp
qed

end
