(* ===== verification/Grub_Tparm.thy ===== *)
theory Grub_Tparm
  imports Grub_Memory
begin

text \<open>
  The terminfo interpreter of GRUB, src/grub-0.97/stage2/tparm.c: a stack machine that expands a
  parameterized string capability into \<open>out_buff\<close>. Parameters, variables and the stack are words; strings
  are in the flat memory.
\<close>

section \<open>State\<close>

datatype stack_frame = Num u32 | Str u32

text \<open>The stack has its top first. The addresses of the static arrays, of the constant "%d", of the empty
  string and of the array in \<open>grub_sprintf\<close> do not change.\<close>

record tparm = grub +
  stack :: "stack_frame list"
  out_used :: u32
  p_is_s :: "u32 list"
  param :: "u32 list"
  dynamic_var :: "u32 list"
  static_vars :: "u32 list"
  out_buff :: u32
  format_at :: u32
  dummy :: u32
  percent_d :: u32
  sprintf_array :: u32

definition STACKSIZE :: nat where "STACKSIZE = 20"
definition MAX_FORMAT_LEN :: u32 where "MAX_FORMAT_LEN = 256"

section \<open>Output\<close>

text \<open>A full buffer is noticed, and nothing is done about it.\<close>

definition get_space :: "u32 \<Rightarrow> 'a tparm_scheme \<Rightarrow> 'a tparm_scheme" where
  "get_space need s = (let need = need + out_used s in if 256 <s need then s else s)"

definition save_formatted :: "u32 \<Rightarrow> u32 \<Rightarrow> 'a tparm_scheme \<Rightarrow> 'a tparm_scheme option" where
  "save_formatted fmt a s =
     do {
       (_, m) \<leftarrow> grub_sprintf (sprintf_array s) (gmem s) (out_buff s + out_used s) fmt [a];
       l \<leftarrow> grub_strlen m (out_buff s + out_used s);
       Some (s\<lparr>gmem := m, out_used := out_used s + l\<rparr>)
     }"

definition save_text :: "u32 \<Rightarrow> u32 \<Rightarrow> u32 \<Rightarrow> 'a tparm_scheme \<Rightarrow> 'a tparm_scheme option" where
  "save_text fmt str len s =
     do {
       s_len \<leftarrow> grub_strlen (gmem s) str;
       let s_len = (if s_len <s len then len else s_len);
       save_formatted fmt str (get_space (s_len + 1) s)
     }"

definition save_number :: "u32 \<Rightarrow> u32 \<Rightarrow> u32 \<Rightarrow> 'a tparm_scheme \<Rightarrow> 'a tparm_scheme option" where
  "save_number fmt number len s =
     (let len = (if len <s 30 then 30 else len) in save_formatted fmt number (get_space (len + 1) s))"

definition save_char :: "u32 \<Rightarrow> 'a tparm_scheme \<Rightarrow> 'a tparm_scheme" where
  "save_char c s =
     (let c = (if c = 0 then 0x80 else c);
          s = get_space 1 s
      in s\<lparr>gmem := (gmem s)(out_buff s + out_used s := lo8 c), out_used := out_used s + 1\<rparr>)"

section \<open>Stack\<close>

definition npush :: "u32 \<Rightarrow> 'a tparm_scheme \<Rightarrow> 'a tparm_scheme" where
  "npush x s = (if length (stack s) < STACKSIZE then s\<lparr>stack := Num x # stack s\<rparr> else s)"

definition npop :: "'a tparm_scheme \<Rightarrow> u32 \<times> 'a tparm_scheme" where
  "npop s =
     (case stack s of
        [] \<Rightarrow> (0, s)
      | f # fs \<Rightarrow> (case f of Num x \<Rightarrow> x | Str p \<Rightarrow> 0, s\<lparr>stack := fs\<rparr>))"

definition spush :: "u32 \<Rightarrow> 'a tparm_scheme \<Rightarrow> 'a tparm_scheme" where
  "spush x s = (if length (stack s) < STACKSIZE then s\<lparr>stack := Str x # stack s\<rparr> else s)"

definition spop :: "'a tparm_scheme \<Rightarrow> u32 \<times> 'a tparm_scheme" where
  "spop s =
     (case stack s of
        [] \<Rightarrow> (dummy s, s)
      | f # fs \<Rightarrow> (case f of Num x \<Rightarrow> dummy s | Str p \<Rightarrow> if p \<noteq> 0 then p else dummy s, s\<lparr>stack := fs\<rparr>))"

section \<open>Formats\<close>

definition isdigit :: "u8 \<Rightarrow> bool" where
  "isdigit c \<longleftrightarrow> 0x30 \<le> c \<and> c \<le> 0x39"

text \<open>The loop of \<open>parse_format\<close>: it copies flags and digits and stops at the conversion.\<close>

type_synonym format_state = "memory \<times> u32 \<times> u32 \<times> u32 \<times> u32 \<times> bool \<times> bool"

partial_function (option) format_loop :: "memory \<Rightarrow> u32 \<Rightarrow> u32 \<Rightarrow> u32 \<Rightarrow> u32 \<Rightarrow> bool \<Rightarrow> bool \<Rightarrow> bool \<Rightarrow> format_state option" where
  "format_loop m s format prec val dot err allowminus =
     (let c = m s in
      if c = 0 then Some (m, s, format, prec, val, dot, err)
      else if c \<in> {0x63, 0x64, 0x6F, 0x78, 0x58, 0x73} then Some (m(format := c), s, format + 1, prec, val, dot, err)
      else if c = 0x2E then
        if dot then format_loop (m(format := c)) (s + 1) (format + 1) prec 0 dot True allowminus
        else format_loop (m(format := c)) (s + 1) (format + 1) val 0 True err allowminus
      else if c = 0x23 \<or> c = 0x20 then format_loop (m(format := c)) (s + 1) (format + 1) prec val dot err allowminus
      else if c = 0x3A then format_loop m (s + 1) format prec val dot err True
      else if c = 0x2D then
        if allowminus then format_loop (m(format := c)) (s + 1) (format + 1) prec val dot err allowminus
        else Some (m, s, format, prec, val, dot, err)
      else if isdigit c then
        let val = val * 10 + (sx8 c - 0x30)
        in format_loop (m(format := c)) (s + 1) (format + 1) prec val dot (err \<or> 10000 <s val) allowminus
      else Some (m, s, format, prec, val, dot, err))"

text \<open>The result is where the conversion is, the maximal width of what it prints, and the memory.\<close>

definition parse_format :: "memory \<Rightarrow> u32 \<Rightarrow> u32 \<Rightarrow> (u32 \<times> u32 \<times> memory) option" where
  "parse_format m s format =
     do {
       (m, s, end', prec, val, dot, err) \<leftarrow> format_loop (m(format := 0x25)) s (format + 1) 0 0 False False False;
       let width = 0;
       let (prec, width, val, end', m) =
         (if err then let m = m(format := 0x25) in (0, 0, 0, format + 2, m(format + 1 := m s)) else (prec, width, val, end', m));
       let (prec, width) = (if dot then (prec, val) else (val, width));
       Some (s, if width <s prec then prec else width, m(end' := 0))
     }"

section \<open>Counting the parameters\<close>

partial_function (option) skip_digits :: "memory \<Rightarrow> u32 \<Rightarrow> u32 option" where
  "skip_digits m cp = (if 0x30 \<le> m cp \<and> m cp \<le> 0x39 then skip_digits m (cp + 1) else Some cp)"

text \<open>\<open>number\<close>, \<open>lastpop\<close> and \<open>popcount\<close> are small.\<close>

type_synonym counts = "int \<times> int \<times> int \<times> u32 list"

definition count_conversion :: "memory \<Rightarrow> u32 \<Rightarrow> u32 \<Rightarrow> counts \<Rightarrow> (u32 \<times> counts) option" where
  "count_conversion m dummy' cp n =
     (let (number, lastpop, popcount, is_s) = n; c = m cp in
      if c \<in> {0x64, 0x6F, 0x78, 0x58, 0x63} then Some (cp, number + 1, -1, popcount, is_s)
      else if c = 0x6C \<or> c = 0x73 then
        Some (cp, number + 1, lastpop, popcount, if lastpop > 0 then is_s[nat (lastpop - 1) := dummy'] else is_s)
      else if c = 0x70 then
        let i = sint (sx8 (m (cp + 1)) - 0x30)
        in Some (cp + 1, if i \<ge> 0 \<and> i \<le> 9 then (number, i, if i > popcount then i else popcount, is_s) else n)
      else if c = 0x50 \<or> c = 0x67 then Some (cp + 1, n)
      else if c = 0x27 then Some (cp + 2, number, -1, popcount, is_s)
      else if c = 0x7B then do { cp \<leftarrow> skip_digits m (cp + 1); Some (cp, n) }
      else if c \<in> {0x2B, 0x2D, 0x2A, 0x2F, 0x6D, 0x41, 0x4F, 0x26, 0x7C, 0x5E, 0x3D, 0x3C, 0x3E, 0x21, 0x7E} then
        Some (cp, number + 2, -1, popcount, is_s)
      else if c = 0x69 then Some (cp, number, -1, if popcount < 2 then 2 else popcount, is_s)
      else Some (cp, n))"

partial_function (option) count_loop :: "memory \<Rightarrow> u32 \<Rightarrow> u32 \<Rightarrow> u32 \<Rightarrow> u32 \<Rightarrow> u32 \<Rightarrow> counts \<Rightarrow> (memory \<times> counts) option" where
  "count_loop m format dummy' string len2 cp n =
     (if cp - string <s len2 then
        do {
          (m, cp, n) \<leftarrow> (if m cp = 0x25 then
              do {
                (cp, _, m) \<leftarrow> parse_format m (cp + 1) format;
                (cp, n) \<leftarrow> count_conversion m dummy' cp n;
                Some (m, cp, n)
              }
            else Some (m, cp, n));
          count_loop m format dummy' string len2 (if m cp \<noteq> 0 then cp + 1 else cp) n
        }
      else Some (m, n))"

text \<open>The parameters are taken from the caller's arguments; there are enough of them or the result is not
  defined.\<close>

fun load_params :: "nat \<Rightarrow> nat \<Rightarrow> u32 list \<Rightarrow> 'a tparm_scheme \<Rightarrow> 'a tparm_scheme option" where
  "load_params i 0 args s = Some s"
| "load_params i (Suc n) args s =
     (case args of
        [] \<Rightarrow> None
      | a # args \<Rightarrow>
          load_params (i + 1) n args
            (if p_is_s s ! i \<noteq> 0 then s\<lparr>p_is_s := (p_is_s s)[i := a]\<rparr> else s\<lparr>param := (param s)[i := a]\<rparr>))"

fun push_params :: "nat \<Rightarrow> 'a tparm_scheme \<Rightarrow> 'a tparm_scheme" where
  "push_params 0 s = s"
| "push_params (Suc i) s = push_params i (npush (param s ! i) s)"

section \<open>Conversions\<close>

partial_function (option) skip_delay :: "memory \<Rightarrow> u32 \<Rightarrow> u32 option" where
  "skip_delay m string =
     (if m string \<noteq> 0 \<and> m string \<noteq> 0x3E then skip_delay m (string + 1)
      else Some (if m string = 0x3E then string + 1 else string))"

text \<open>\<open>%t\<close> with a false condition stops at the \<open>%e\<close> or \<open>%;\<close> of its level, \<open>%e\<close> at the \<open>%;\<close>.\<close>

partial_function (option) skip_part :: "bool \<Rightarrow> memory \<Rightarrow> nat \<Rightarrow> u32 \<Rightarrow> u32 option" where
  "skip_part stop_at_e m level string =
     (if m string = 0 then Some string
      else if m string \<noteq> 0x25 then skip_part stop_at_e m level (string + 1)
      else
        let string = string + 1; c = m string; after = (if c \<noteq> 0 then string + 1 else string) in
        if c = 0x3F then skip_part stop_at_e m (level + 1) after
        else if c = 0x3B then if level > 0 then skip_part stop_at_e m (level - 1) after else Some string
        else if c = 0x65 \<and> level = 0 \<and> stop_at_e then Some string
        else skip_part stop_at_e m level after)"

partial_function (option) read_number :: "memory \<Rightarrow> u32 \<Rightarrow> u32 \<Rightarrow> (u32 \<times> u32) option" where
  "read_number m number string =
     (if 0x30 \<le> m string \<and> m string \<le> 0x39 then read_number m (number * 10 + sx8 (m string) - 0x30) (string + 1)
      else Some (number, string))"

definition isUPPER :: "u8 \<Rightarrow> bool" where "isUPPER c \<longleftrightarrow> 0x41 \<le> c \<and> c \<le> 0x5A"
definition isLOWER :: "u8 \<Rightarrow> bool" where "isLOWER c \<longleftrightarrow> 0x61 \<le> c \<and> c \<le> 0x7A"

text \<open>Operators on two numbers: the second operand is popped first. The conjunction and the disjunction pop
  the second number only when the first does not decide.\<close>

definition binary :: "(u32 \<Rightarrow> u32 \<Rightarrow> u32) \<Rightarrow> 'a tparm_scheme \<Rightarrow> 'a tparm_scheme" where
  "binary f s = (let (y, s) = npop s; (x, s) = npop s in npush (f x y) s)"

definition logical_and :: "'a tparm_scheme \<Rightarrow> 'a tparm_scheme" where
  "logical_and s =
     (let (a, s) = npop s
      in if a \<noteq> 0 then let (b, s) = npop s in npush (if b \<noteq> 0 then 1 else 0) s else npush 0 s)"

definition logical_or :: "'a tparm_scheme \<Rightarrow> 'a tparm_scheme" where
  "logical_or s =
     (let (a, s) = npop s
      in if a \<noteq> 0 then npush 1 s else let (b, s) = npop s in npush (if b \<noteq> 0 then 1 else 0) s)"

definition unary :: "(u32 \<Rightarrow> u32) \<Rightarrow> 'a tparm_scheme \<Rightarrow> 'a tparm_scheme" where
  "unary f s = (let (x, s) = npop s in npush (f x) s)"

definition word_of_bool :: "bool \<Rightarrow> u32" where
  "word_of_bool b = (if b then 1 else 0)"

fun operator :: "u8 \<Rightarrow> (u32 \<Rightarrow> u32 \<Rightarrow> u32) option" where
  "operator c =
     (if c = 0x2B then Some (+)
      else if c = 0x2D then Some (-)
      else if c = 0x2A then Some (*)
      else if c = 0x2F then Some (\<lambda>x y. if y \<noteq> 0 then c_div x y else 0)
      else if c = 0x6D then Some (\<lambda>x y. if y \<noteq> 0 then c_mod x y else 0)
      else if c = 0x26 then Some (AND)
      else if c = 0x7C then Some (OR)
      else if c = 0x5E then Some (XOR)
      else if c = 0x3D then Some (\<lambda>x y. word_of_bool (x = y))
      else if c = 0x3C then Some (\<lambda>x y. word_of_bool (x <s y))
      else if c = 0x3E then Some (\<lambda>x y. word_of_bool (y <s x))
      else None)"

definition increment_params :: "'a tparm_scheme \<Rightarrow> 'a tparm_scheme" where
  "increment_params s =
     (let s = (if p_is_s s ! 0 = 0 then s\<lparr>param := (param s)[0 := param s ! 0 + 1]\<rparr> else s)
      in if p_is_s s ! 1 = 0 then s\<lparr>param := (param s)[1 := param s ! 1 + 1]\<rparr> else s)"

text \<open>The conversion at \<open>string\<close>. The result is where the loop goes on.\<close>

definition conversion :: "u32 \<Rightarrow> u32 \<Rightarrow> 'a tparm_scheme \<Rightarrow> (u32 \<times> 'a tparm_scheme) option" where
  "conversion len string s =
     (let c = gmem s string; here = map_option (Pair string) in
      if c = 0x25 then Some (string, save_char 0x25 s)
      else if c \<in> {0x64, 0x6F, 0x78, 0x58, 0x63} then let (x, s) = npop s in here (save_number (format_at s) x len s)
      else if c = 0x6C then
        let (p, s) = spop s in do { l \<leftarrow> grub_strlen (gmem s) p; here (save_number (percent_d s) l 0 s) }
      else if c = 0x73 then let (p, s) = spop s in here (save_text (format_at s) p len s)
      else if c = 0x70 then
        let string = string + 1; i = sint (sx8 (gmem s string) - 0x31) in
        Some (string,
          if i \<ge> 0 \<and> i < 9
          then if p_is_s s ! nat i \<noteq> 0 then spush (p_is_s s ! nat i) s else npush (param s ! nat i) s
          else s)
      else if c = 0x50 then
        let string = string + 1; v = gmem s string in
        Some (string,
          if isUPPER v then let (x, s) = npop s in s\<lparr>static_vars := (static_vars s)[unat (v - 0x41) := x]\<rparr>
          else if isLOWER v then let (x, s) = npop s in s\<lparr>dynamic_var := (dynamic_var s)[unat (v - 0x61) := x]\<rparr>
          else s)
      else if c = 0x67 then
        let string = string + 1; v = gmem s string in
        Some (string,
          if isUPPER v then npush (static_vars s ! unat (v - 0x41)) s
          else if isLOWER v then npush (dynamic_var s ! unat (v - 0x61)) s
          else s)
      else if c = 0x27 then Some (string + 2, npush (sx8 (gmem s (string + 1))) s)
      else if c = 0x7B then
        do { (number, string) \<leftarrow> read_number (gmem s) 0 (string + 1); Some (string, npush number s) }
      else if c = 0x41 then Some (string, logical_and s)
      else if c = 0x4F then Some (string, logical_or s)
      else if c = 0x21 then Some (string, unary (\<lambda>x. word_of_bool (x = 0)) s)
      else if c = 0x7E then Some (string, unary (NOT) s)
      else if c = 0x69 then Some (string, increment_params s)
      else if c = 0x74 then
        let (x, s) = npop s in
        if x = 0 then do { string \<leftarrow> skip_part True (gmem s) 0 (string + 1); Some (string, s) } else Some (string, s)
      else if c = 0x65 then do { string \<leftarrow> skip_part False (gmem s) 0 (string + 1); Some (string, s) }
      else case operator c of Some f \<Rightarrow> Some (string, binary f s) | None \<Rightarrow> Some (string, s))"

partial_function (option) expand_loop :: "u32 \<Rightarrow> 'a tparm_scheme \<Rightarrow> 'a tparm_scheme option" where
  "expand_loop string s =
     (if gmem s string = 0 then Some s
      else
        do {
          (string, s) \<leftarrow> (if gmem s string = 0x24 \<and> gmem s (string + 1) = 0x3C then
              do { string \<leftarrow> skip_delay (gmem s) string; Some (string, s) }
            else if gmem s string = 0x25 then
              do {
                (string, len, m) \<leftarrow> parse_format (gmem s) (string + 1) (format_at s);
                conversion len string (s\<lparr>gmem := m\<rparr>)
              }
            else Some (string, save_char (sx8 (gmem s string)) s));
          if gmem s string = 0 then Some s else expand_loop (string + 1) s
        })"

section \<open>The interpreter\<close>

text \<open>\<open>local_is_s\<close> is where the local array of pointers is: it is cleared if \<open>grub_memset\<close> lets it be. The
  contents that a call finds in \<open>param\<close> and \<open>p_is_s\<close> are what the processor's stack held.\<close>

definition tparam_internal :: "u32 \<Rightarrow> u32 \<Rightarrow> u32 list \<Rightarrow> 'a tparm_scheme \<Rightarrow> (u32 \<times> 'a tparm_scheme) option" where
  "tparam_internal local_is_s string args s =
     (let s = s\<lparr>out_used := 0\<rparr> in
      if string = 0 then Some (0, s)
      else
        do {
          len2 \<leftarrow> grub_strlen (gmem s) string;
          if MAX_FORMAT_LEN <s len2 then Some (0, s)
          else
            do {
              let (fits, s) = memcheck local_is_s 36 s;
              (m, number, lastpop, popcount, is_s) \<leftarrow>
                count_loop (gmem s) (format_at s) (dummy s) string len2 string
                  (0, -1, 0, if fits then replicate 9 0 else p_is_s s);
              let number = (if number > 9 then 9 else number);
              s \<leftarrow> load_params 0 (nat (max popcount number)) args (s\<lparr>gmem := m, p_is_s := is_s\<rparr>);
              let s = s\<lparr>stack := []\<rparr>;
              let s = (if popcount = 0 then push_params (nat number) s else s);
              s \<leftarrow> expand_loop string s;
              let s = get_space 1 s;
              Some (out_buff s, s\<lparr>gmem := (gmem s)(out_buff s + out_used s := 0)\<rparr>)
            }
        })"

definition grub_tparm :: "u32 \<Rightarrow> u32 \<Rightarrow> u32 list \<Rightarrow> 'a tparm_scheme \<Rightarrow> (u32 \<times> 'a tparm_scheme) option" where
  "grub_tparm local_is_s string args s = tparam_internal local_is_s string args s"

declare operator.simps [simp del]

end
