(* ===== verification/Grub_Tparm_Code.thy ===== *)
theory Grub_Tparm_Code
  imports Grub_Tparm
begin

text \<open>
  The terminfo interpreter as a compiler target: an expression, written in the language of the capabilities,
  leaves its value on the stack.
\<close>

section \<open>Expressions and their code\<close>

datatype arith = Add | Sub | Mul | Div | Mod | BitAnd | BitOr | BitXor | Equal | Less | Greater

datatype texp = Const nat | Char u8 | Par nat | Op arith texp texp | Not texp | Inv texp

text \<open>The letter of an operator in a capability, and what it means on 32-bit integers: the results of the arithmetic
  are reduced to 32 bits, division truncates towards zero, and a division by zero gives 0.\<close>

fun letter :: "arith \<Rightarrow> u8" where
  "letter Add = 0x2B"
| "letter Sub = 0x2D"
| "letter Mul = 0x2A"
| "letter Div = 0x2F"
| "letter Mod = 0x6D"
| "letter BitAnd = 0x26"
| "letter BitOr = 0x7C"
| "letter BitXor = 0x5E"
| "letter Equal = 0x3D"
| "letter Less = 0x3C"
| "letter Greater = 0x3E"

definition truncated :: "int \<Rightarrow> int \<Rightarrow> int" where
  "truncated x y = (if (x < 0) = (y < 0) then \<bar>x\<bar> div \<bar>y\<bar> else - (\<bar>x\<bar> div \<bar>y\<bar>))"

fun meaning :: "arith \<Rightarrow> u32 \<Rightarrow> u32 \<Rightarrow> u32" where
  "meaning Add a b = word_of_int (sint a + sint b)"
| "meaning Sub a b = word_of_int (sint a - sint b)"
| "meaning Mul a b = word_of_int (sint a * sint b)"
| "meaning Div a b = (if b = 0 then 0 else word_of_int (truncated (sint a) (sint b)))"
| "meaning Mod a b = (if b = 0 then 0 else word_of_int (sint a - truncated (sint a) (sint b) * sint b))"
| "meaning BitAnd a b = a AND b"
| "meaning BitOr a b = a OR b"
| "meaning BitXor a b = a XOR b"
| "meaning Equal a b = (if a = b then 1 else 0)"
| "meaning Less a b = (if sint a < sint b then 1 else 0)"
| "meaning Greater a b = (if sint b < sint a then 1 else 0)"

fun code :: "texp \<Rightarrow> u8 list" where
  "code (Const n) = [0x25, 0x7B] @ number_text 10 n @ [0x7D]"
| "code (Char c) = [0x25, 0x27, c, 0x27]"
| "code (Par i) = [0x25, 0x70, of_nat (49 + i)]"
| "code (Op c a b) = code a @ code b @ [0x25, letter c]"
| "code (Not a) = code a @ [0x25, 0x21]"
| "code (Inv a) = code a @ [0x25, 0x7E]"

fun val_of :: "u32 list \<Rightarrow> texp \<Rightarrow> u32" where
  "val_of ps (Const n) = of_nat n"
| "val_of ps (Char c) = word_of_int (sint c)"
| "val_of ps (Par i) = ps ! i"
| "val_of ps (Op c a b) = meaning c (val_of ps a) (val_of ps b)"
| "val_of ps (Not a) = (if val_of ps a = 0 then 1 else 0)"
| "val_of ps (Inv a) = NOT (val_of ps a)"

fun depth :: "texp \<Rightarrow> nat" where
  "depth (Op c a b) = max (depth a) (Suc (depth b))"
| "depth (Not a) = depth a"
| "depth (Inv a) = depth a"
| "depth e = 1"

lemma depth_pos: "0 < depth e"
  by (induction e) auto

text \<open>Parameters below \<open>n\<close>, no NUL.\<close>

fun wf_exp :: "nat \<Rightarrow> texp \<Rightarrow> bool" where
  "wf_exp n (Const k) \<longleftrightarrow> True"
| "wf_exp n (Char c) \<longleftrightarrow> c \<noteq> 0"
| "wf_exp n (Par i) \<longleftrightarrow> i < n"
| "wf_exp n (Op c a b) \<longleftrightarrow> wf_exp n a \<and> wf_exp n b"
| "wf_exp n (Not a) \<longleftrightarrow> wf_exp n a"
| "wf_exp n (Inv a) \<longleftrightarrow> wf_exp n a"

text \<open>The operators of the interpreter have these meanings.\<close>

lemma sx8_int: "sx8 c = word_of_int (sint c)"
  by (rule bit_word_eqI) (simp add: sx8_def bit_simps min_def bit_sint_iff)

lemma truncated_sdiv: "truncated x y = x sdiv y"
  by (auto simp: truncated_def signed_divide_int_def sgn_if)

lemma truncated_rest: "x - truncated x y * y = x smod y"
  using sdiv_mult_smod_eq [of x y] by (simp add: truncated_sdiv)

lemma meaning_words:
  "meaning Add = (+)" "meaning Sub = (-)" "meaning Mul = (*)"
  "meaning Div = (\<lambda>x y. if y \<noteq> 0 then c_div x y else 0)" "meaning Mod = (\<lambda>x y. if y \<noteq> 0 then c_mod x y else 0)"
  "meaning Less = (\<lambda>x y. word_of_bool (x <s y))" "meaning Greater = (\<lambda>x y. word_of_bool (y <s x))"
  "meaning Equal = (\<lambda>x y. word_of_bool (x = y))"
  unfolding fun_eq_iff meaning.simps truncated_rest
  by (simp_all add: c_div_def c_mod_def truncated_sdiv word_of_bool_def word_sless_alt)

lemma operator_meaning: "operator (letter c) = Some (meaning c)"
  by (cases c; simp add: operator.simps meaning_words del: meaning.simps) (simp_all add: fun_eq_iff)

section \<open>Steps\<close>

text \<open>Conversions that are neither flags nor digits nor letters with a format.\<close>

definition plain :: "u8 \<Rightarrow> bool" where
  "plain c \<longleftrightarrow> c \<notin> {0, 0x63, 0x64, 0x6F, 0x78, 0x58, 0x73, 0x2E, 0x23, 0x20, 0x3A} \<and> \<not> isdigit c"

definition format_written :: "memory \<Rightarrow> u32 \<Rightarrow> memory" where
  "format_written m f = m(f := 0x25, f + 1 := 0)"

lemma parse_format_plain:
  assumes "plain (m p)" and "p \<noteq> f"
  shows "parse_format m p f = Some (p, 0, format_written m f)"
proof -
  have "format_loop (m(f := 0x25)) p (f + 1) 0 0 False False False = Some (m(f := 0x25), p, f + 1, 0, 0, False, False)"
    using assms by (subst format_loop.simps) (auto simp: plain_def Let_def)
  then show ?thesis by (simp add: parse_format_def format_written_def)
qed

lemma parse_format_d:
  assumes "m p = 0x64" and "p \<noteq> f"
  shows "parse_format m p f = Some (p, 0, m(f := 0x25, f + 1 := 0x64, f + 2 := 0))"
proof -
  have "format_loop (m(f := 0x25)) p (f + 1) 0 0 False False False
      = Some (m(f := 0x25, f + 1 := 0x64), p, f + 1 + 1, 0, 0, False, False)"
    using assms by (subst format_loop.simps) (auto simp: Let_def)
  then show ?thesis by (simp add: parse_format_def add.assoc)
qed

lemma operator_plain: "operator c \<noteq> None \<Longrightarrow> plain c"
  by (auto simp: plain_def isdigit_def operator.simps split: if_splits)

lemma plain_codes [simp]: "plain 0x7B" "plain 0x27" "plain 0x70" "plain 0x21" "plain 0x7E" "plain 0x69"
  by (simp_all add: plain_def isdigit_def)

text \<open>One round of the loop on a conversion that moves on.\<close>

lemma expand_conversion:
  assumes "gmem s p = 0x25" and "plain (gmem s (p + 1))" and "p + 1 \<noteq> format_at s"
    and "conversion 0 (p + 1) (s\<lparr>gmem := format_written (gmem s) (format_at s)\<rparr>) = Some (q, s')" and "gmem s' q \<noteq> 0"
  shows "expand_loop p s = expand_loop (q + 1) s'"
proof -
  have "parse_format (gmem s) (p + 1) (format_at s) = Some (p + 1, 0, format_written (gmem s) (format_at s))"
    using assms(2,3) by (rule parse_format_plain)
  with assms show ?thesis by (subst expand_loop.simps) simp
qed

lemma npush_room: "length (stack s) < 20 \<Longrightarrow> npush x s = s\<lparr>stack := Num x # stack s\<rparr>"
  by (simp add: npush_def STACKSIZE_def)

lemma read_number_text:
  assumes "\<And>i. i < length ds \<Longrightarrow> m (p + of_nat i) = ds ! i" and "\<forall>d \<in> set ds. 0x30 \<le> d \<and> d \<le> 0x39"
    and "\<not> (0x30 \<le> m (p + of_nat (length ds)) \<and> m (p + of_nat (length ds)) \<le> 0x39)"
  shows "read_number m n p = Some (foldl (\<lambda>n d. n * 10 + sx8 d - 0x30) n ds, p + of_nat (length ds))"
  using assms
proof (induction ds arbitrary: n p)
  case Nil
  then have "\<not> (0x30 \<le> m p \<and> m p \<le> 0x39)" by simp
  then show ?case by (subst read_number.simps, subst if_not_P) simp_all
next
  case (Cons d ds)
  have d: "m p = d" "0x30 \<le> d \<and> d \<le> 0x39" using Cons.prems(1) [of 0] Cons.prems(2) by simp_all
  have "read_number m (n * 10 + sx8 d - 0x30) (p + 1)
      = Some (foldl (\<lambda>n d. n * 10 + sx8 d - 0x30) (n * 10 + sx8 d - 0x30) ds, p + 1 + of_nat (length ds))"
    using Cons.prems(1) [of "Suc _"] Cons.prems(2,3) by (intro Cons.IH) (auto simp: add.assoc)
  then show ?case using d by (subst read_number.simps) (simp add: add.assoc)
qed

lemma digit_chars: "d \<in> set (number_text 10 n) \<Longrightarrow> \<exists>k < 10. d = of_nat (48 + k)"
  using digits_le_bound [of 10 _ n] by (fastforce simp: number_text_def digit_char_def)

lemma digit_value:
  assumes "k < 10"
  shows "0x30 \<le> (of_nat (48 + k) :: u8) \<and> (of_nat (48 + k) :: u8) \<le> 0x39"
    and "sx8 (of_nat (48 + k)) = of_nat (48 + k)" and "digit_of False (of_nat (48 + k)) = Some k"
proof -
  have u: "unat (of_nat (48 + k) :: u8) = 48 + k"
    by (simp only: unat_of_nat) (use assms in simp)
  then show "0x30 \<le> (of_nat (48 + k) :: u8) \<and> (of_nat (48 + k) :: u8) \<le> 0x39"
    using assms by (simp add: word_le_nat_alt)
  show "sx8 (of_nat (48 + k)) = of_nat (48 + k)" by (rule sx8_small [of "of_nat (48 + k)", unfolded u]) (use assms in simp)
  show "digit_of False (of_nat (48 + k)) = Some k"
    using digit_of_digit_char [of k False] assms by (simp add: digit_char_def base_of_def)
qed

lemma foldl_number:
  "\<forall>d \<in> set ds. \<exists>k < 10. d = of_nat (48 + k) \<Longrightarrow>
   foldl (\<lambda>n d. n * 10 + sx8 d - 0x30) (of_nat v) ds = of_nat (number_value False v ds)"
proof (induction ds arbitrary: v)
  case Nil
  then show ?case by (simp add: number_value_def)
next
  case (Cons d ds)
  then obtain k where k: "k < 10" "d = of_nat (48 + k)" by auto
  have "of_nat v * 10 + sx8 d - 0x30 = (of_nat (v * 10 + k) :: u32)"
    unfolding k(2) digit_value(2) [OF k(1)] by simp
  then have "foldl (\<lambda>n d. n * 10 + sx8 d - 0x30) (of_nat v) (d # ds) = foldl (\<lambda>n d. n * 10 + sx8 d - 0x30) (of_nat (v * 10 + k)) ds"
    by (simp only: foldl.simps)
  moreover have "foldl (\<lambda>n d. n * 10 + sx8 d - 0x30) (of_nat (v * 10 + k)) ds = of_nat (number_value False (v * 10 + k) ds)"
    using Cons.prems by (intro Cons.IH) simp
  moreover have "number_value False v (d # ds) = number_value False (v * 10 + k) ds"
    using digit_value(3) [OF k(1)] by (simp add: number_value_def base_of_def k(2))
  ultimately show ?case by (simp only:)
qed

section \<open>Running the code of an expression\<close>

lemma string_ready_Cons: "string_ready W m p (c # cs) \<Longrightarrow> m p = c \<and> c \<noteq> 0 \<and> \<not> W p \<and> string_ready W m (p + 1) cs"
  using string_ready_tl [of W m p c cs] in_region_offset [of "Suc (Suc (length cs))" 0 p] by (auto simp: string_ready_def)

lemma string_ready_drop: "string_ready W m p (xs @ ys) \<Longrightarrow> string_ready W m (p + of_nat (length xs)) ys"
proof (induction xs arbitrary: p)
  case (Cons x xs)
  then have "string_ready W m (p + 1) (xs @ ys)" using string_ready_Cons [of W m p x "xs @ ys"] by simp
  from Cons.IH [OF this] show ?case by (simp add: add.assoc)
qed simp

lemma string_ready_nth:
  "string_ready W m p (xs @ ys) \<Longrightarrow> i < length xs \<Longrightarrow> m (p + of_nat i) = xs ! i \<and> \<not> W (p + of_nat i)"
proof (induction xs arbitrary: p i)
  case (Cons x xs)
  have r: "string_ready W m p (x # (xs @ ys))" using Cons.prems(1) by simp
  note c = string_ready_Cons [OF r]
  show ?case
  proof (cases i)
    case (Suc j)
    then show ?thesis using Cons.IH [of "p + 1" j] c Cons.prems(2) by (simp add: add.assoc)
  qed (use c in simp)
qed simp

text \<open>\<open>W\<close> holds of the two bytes of the format that plain conversions write.\<close>

definition covers_format :: "(u32 \<Rightarrow> bool) \<Rightarrow> 'a tparm_scheme \<Rightarrow> bool" where
  "covers_format W s \<longleftrightarrow> W (format_at s) \<and> W (format_at s + 1)"

lemma format_written_outside: "covers_format W s \<Longrightarrow> \<not> W a \<Longrightarrow> format_written m (format_at s) a = m a"
  by (auto simp: covers_format_def format_written_def)

lemma format_written_frame: "\<not> in_region a f 2 \<Longrightarrow> format_written m f a = m a"
  using in_region_offset [of 2 0 f] in_region_offset [of 2 1 f] by (auto simp: format_written_def)

text \<open>A conversion without arguments in the string, whose effect is \<open>f\<close>.\<close>

lemma run_operator:
  assumes "string_ready W (gmem s) p (0x25 # c # rest)" and "plain c" and "covers_format W s"
    and "conversion 0 (p + 1) (s\<lparr>gmem := format_written (gmem s) (format_at s)\<rparr>) = Some (p + 1, s')"
    and "gmem s' = format_written (gmem s) (format_at s)"
  shows "expand_loop p s = expand_loop (p + 2) s'"
proof -
  have c: "gmem s p = 0x25" "gmem s (p + 1) = c" "\<not> W (p + 1)" "c \<noteq> 0"
    using string_ready_Cons [OF assms(1)] string_ready_Cons [of W "gmem s" "p + 1" c rest] by auto
  have "expand_loop p s = expand_loop (p + 1 + 1) s'"
    using c assms(2-5) format_written_outside [OF assms(3) c(3)]
    by (intro expand_conversion) (auto simp: covers_format_def)
  then show ?thesis by (simp add: add.assoc)
qed

lemma no_operator:
  "c \<in> {0x25, 0x64, 0x6F, 0x78, 0x58, 0x63, 0x6C, 0x73, 0x70, 0x50, 0x67, 0x27, 0x7B, 0x41, 0x4F, 0x21, 0x7E, 0x69, 0x74, 0x65}
   \<Longrightarrow> operator c = None"
  by (elim insertE) (simp_all add: operator.simps)

lemma operator_conversion:
  assumes "operator (gmem s q) = Some f"
  shows "conversion n q s = Some (q, binary f s)"
proof -
  have "gmem s q \<notin> {0x25, 0x64, 0x6F, 0x78, 0x58, 0x63, 0x6C, 0x73, 0x70, 0x50, 0x67, 0x27, 0x7B, 0x41, 0x4F,
      0x21, 0x7E, 0x69, 0x74, 0x65}" using assms no_operator by fastforce
  then show ?thesis unfolding conversion_def Let_def assms insert_iff by (simp only: de_Morgan_disj if_False option.case simp_thms empty_iff)
qed

lemma unary_conversion:
  "gmem s q = 0x21 \<Longrightarrow> conversion n q s = Some (q, unary (\<lambda>x. word_of_bool (x = 0)) s)"
  "gmem s q = 0x7E \<Longrightarrow> conversion n q s = Some (q, unary (NOT) s)"
  unfolding conversion_def Let_def by simp_all

lemma covers_region: "covers_format W s \<Longrightarrow> in_region a (format_at s) 2 \<Longrightarrow> W a"
  by (auto simp: covers_format_def less_2_cases_iff elim!: in_regionE)

lemma run_unary:
  fixes s :: "'a tparm_scheme"
  assumes "string_ready W (gmem s) p (xs @ ([0x25, c] @ rest))"
    and "expand_loop p s = expand_loop (p + of_nat (length xs)) (s\<lparr>gmem := m1, stack := Num a # stack s\<rparr>)"
    and "\<forall>x. \<not> in_region x (format_at s) 2 \<longrightarrow> m1 x = gmem s x"
    and "plain c" and "\<And>s :: 'a tparm_scheme. \<And>q. gmem s q = c \<Longrightarrow> conversion 0 q s = Some (q, unary f s)"
    and "covers_format W s" and "length (stack s) < 20"
  shows "\<exists>m. expand_loop p s = expand_loop (p + of_nat (length xs + 2)) (s\<lparr>gmem := m, stack := Num (f a) # stack s\<rparr>)
    \<and> (\<forall>x. \<not> in_region x (format_at s) 2 \<longrightarrow> m x = gmem s x)"
proof -
  let ?p = "p + of_nat (length xs)" and ?s = "s\<lparr>gmem := m1, stack := Num a # stack s\<rparr>" and ?m = "format_written m1 (format_at s)"
  have rc: "string_ready W (gmem ?s) ?p (0x25 # c # rest)"
    using string_ready_frame [OF string_ready_drop [OF assms(1)], of m1] assms(3) covers_region [OF assms(6)] by auto
  have cs: "covers_format W ?s" using assms(6) by (simp add: covers_format_def)
  have c1: "?m (?p + 1) = c"
    using string_ready_nth [of W "gmem ?s" ?p "[0x25, c]" rest 1] rc format_written_outside [OF cs] by simp
  have "conversion 0 (?p + 1) (?s\<lparr>gmem := format_written (gmem ?s) (format_at ?s)\<rparr>)
      = Some (?p + 1, s\<lparr>gmem := ?m, stack := Num (f a) # stack s\<rparr>)"
    using c1 assms(5) [of "?s\<lparr>gmem := ?m\<rparr>" "?p + 1"] assms(7) by (simp add: unary_def npop_def npush_def STACKSIZE_def)
  then have "expand_loop ?p ?s = expand_loop (?p + 2) (s\<lparr>gmem := ?m, stack := Num (f a) # stack s\<rparr>)"
    using run_operator [OF rc assms(4) cs] by simp
  then show ?thesis
    using assms(2,3) format_written_frame by (intro exI [of _ ?m]) (auto simp: add_ac)
qed

lemma code_runs:
  assumes "wf_exp n e" and "n \<le> 9" and "\<forall>i < n. p_is_s s ! i = 0" and "covers_format W s"
    and "string_ready W (gmem s) p (code e @ rest)" and "length (stack s) + depth e \<le> 20"
  shows "\<exists>m. expand_loop p s = expand_loop (p + of_nat (length (code e))) (s\<lparr>gmem := m, stack := Num (val_of (param s) e) # stack s\<rparr>)
    \<and> (\<forall>a. \<not> in_region a (format_at s) 2 \<longrightarrow> m a = gmem s a)"
  using assms
proof (induction e arbitrary: p s rest)
  case (Const k)
  let ?t = "number_text 10 k" and ?m = "format_written (gmem s) (format_at s)"
  have all: "string_ready W (gmem s) p (([0x25, 0x7B] @ ?t @ [0x7D]) @ rest)" using Const.prems(5) by simp
  note nth = string_ready_nth [OF all]
  have out: "\<not> W a \<Longrightarrow> ?m a = gmem s a" for a using Const.prems(4) by (rule format_written_outside)
  have c: "gmem s p = 0x25" "gmem s (p + 1) = 0x7B" "\<not> W (p + 1)" using nth [of 0] nth [of 1] by simp_all
  have t: "?m (p + 2 + of_nat i) = (?t @ [0x7D]) ! i" if "i \<le> length ?t" for i
    using nth [of "Suc (Suc i)"] that out [of "p + 2 + of_nat i"] by (simp add: add.assoc)
  have "read_number ?m (of_nat 0) (p + 2) = Some (of_nat (number_value False 0 ?t), p + 2 + of_nat (length ?t))"
  proof -
    have "read_number ?m (of_nat 0) (p + 2) = Some (foldl (\<lambda>n d. n * 10 + sx8 d - 0x30) (of_nat 0) ?t, p + 2 + of_nat (length ?t))"
    proof (rule read_number_text)
      show "?m (p + 2 + of_nat i) = ?t ! i" if "i < length ?t" for i using t [of i] that by (simp add: nth_append)
      show "\<forall>d \<in> set ?t. 0x30 \<le> d \<and> d \<le> 0x39" using digit_chars digit_value(1) by blast
      show "\<not> (0x30 \<le> ?m (p + 2 + of_nat (length ?t)) \<and> ?m (p + 2 + of_nat (length ?t)) \<le> 0x39)" using t [of "length ?t"] by simp
    qed
    then show ?thesis using foldl_number [of ?t 0] digit_chars by simp
  qed
  then have r: "read_number ?m 0 (p + 1 + 1) = Some (of_nat k, p + 2 + of_nat (length ?t))"
    using number_text_value [of False k] by (simp add: base_of_def add.assoc)
  have "conversion 0 (p + 1) (s\<lparr>gmem := ?m\<rparr>) = Some (p + 2 + of_nat (length ?t), s\<lparr>gmem := ?m, stack := Num (of_nat k) # stack s\<rparr>)"
    using c out [OF c(3)] r Const.prems(6) by (simp add: conversion_def Let_def npush_room)
  then have "expand_loop p s = expand_loop (p + 2 + of_nat (length ?t) + 1) (s\<lparr>gmem := ?m, stack := Num (of_nat k) # stack s\<rparr>)"
    using c Const.prems(4) t [of "length ?t"] by (intro expand_conversion) (auto simp: covers_format_def)
  moreover have "p + 2 + of_nat (length ?t) + 1 = p + of_nat (length (code (Const k)))" by (simp add: algebra_simps)
  ultimately show ?case using format_written_frame by auto
next
  case (Char c)
  let ?m = "format_written (gmem s) (format_at s)"
  have all: "string_ready W (gmem s) p ([0x25, 0x27, c, 0x27] @ rest)" using Char.prems(5) by simp
  note nth = string_ready_nth [OF all]
  have out: "\<not> W a \<Longrightarrow> ?m a = gmem s a" for a using Char.prems(4) by (rule format_written_outside)
  have c: "gmem s p = 0x25" "gmem s (p + 1) = 0x27" "\<not> W (p + 1)" "?m (p + 2) = c" "?m (p + 3) = 0x27"
    using nth [of 0] nth [of 1] nth [of 2] nth [of 3] out [of "p + 2"] out [of "p + 3"] by (simp_all add: numeral_2_eq_2 numeral_3_eq_3)
  have "conversion 0 (p + 1) (s\<lparr>gmem := ?m\<rparr>) = Some (p + 3, s\<lparr>gmem := ?m, stack := Num (sx8 c) # stack s\<rparr>)"
    using c out [OF c(3)] Char.prems(6) by (simp add: conversion_def Let_def npush_room add.assoc)
  then have "expand_loop p s = expand_loop (p + 3 + 1) (s\<lparr>gmem := ?m, stack := Num (sx8 c) # stack s\<rparr>)"
    using c Char.prems(4) by (intro expand_conversion) (auto simp: covers_format_def)
  moreover have "p + 3 + 1 = p + of_nat (length (code (Char c)))" by simp
  ultimately show ?case using format_written_frame by (intro exI [of _ ?m]) (auto simp: sx8_int)
next
  case (Par i)
  let ?m = "format_written (gmem s) (format_at s)"
  have all: "string_ready W (gmem s) p ([0x25, 0x70, of_nat (49 + i)] @ rest)" using Par.prems(5) by simp
  note nth = string_ready_nth [OF all]
  have out: "\<not> W a \<Longrightarrow> ?m a = gmem s a" for a using Par.prems(4) by (rule format_written_outside)
  have c: "gmem s p = 0x25" "gmem s (p + 1) = 0x70" "\<not> W (p + 1)" "?m (p + 2) = of_nat (49 + i)"
    using nth [of 0] nth [of 1] nth [of 2] out [of "p + 2"] by (simp_all add: numeral_2_eq_2)
  have i: "i < 9" "p_is_s s ! i = 0" using Par.prems(1-3) by auto
  have "sx8 (of_nat (49 + i)) = of_nat (49 + i)" using digit_value(2) [of "Suc i"] i(1) by simp
  then have v: "sint (sx8 (of_nat (49 + i)) - 0x31) = int i" using i(1) sint_of_nat_u32 [of i] by simp
  have nz: "(of_nat (49 + i) :: u8) \<noteq> 0" using digit_value(1) [of "Suc i"] i(1) by auto
  have "conversion 0 (p + 1) (s\<lparr>gmem := ?m\<rparr>) = Some (p + 2, s\<lparr>gmem := ?m, stack := Num (param s ! i) # stack s\<rparr>)"
    using c out [OF c(3)] Par.prems(6) i v by (simp add: conversion_def Let_def npush_room add.assoc del: of_nat_add)
  then have "expand_loop p s = expand_loop (p + 2 + 1) (s\<lparr>gmem := ?m, stack := Num (param s ! i) # stack s\<rparr>)"
    using c nz Par.prems(4) by (intro expand_conversion) (auto simp: covers_format_def)
  moreover have "p + 2 + 1 = p + of_nat (length (code (Par i)))" by simp
  ultimately show ?case using format_written_frame by auto
next
  case (Op c a b)
  let ?a = "val_of (param s) a" and ?b = "val_of (param s) b"
  have d: "length (stack s) + depth a \<le> 20" "length (stack s) + Suc (depth b) \<le> 20" "wf_exp n a" "wf_exp n b"
    using Op.prems(1,6) by simp_all
  have ra: "string_ready W (gmem s) p (code a @ (code b @ [0x25, letter c] @ rest))" using Op.prems(5) by simp
  obtain m1 where m1: "expand_loop p s = expand_loop (p + of_nat (length (code a))) (s\<lparr>gmem := m1, stack := Num ?a # stack s\<rparr>)"
    "\<forall>x. \<not> in_region x (format_at s) 2 \<longrightarrow> m1 x = gmem s x"
    using Op.IH(1) [OF d(3) Op.prems(2,3,4) ra d(1)] by blast
  let ?p = "p + of_nat (length (code a))" and ?s = "s\<lparr>gmem := m1, stack := Num ?a # stack s\<rparr>"
  have rb: "string_ready W m1 ?p (code b @ ([0x25, letter c] @ rest))"
    using string_ready_frame [OF string_ready_drop [OF ra]] m1(2) covers_region [OF Op.prems(4)] by blast
  have "covers_format W ?s" using Op.prems(4) by (simp add: covers_format_def)
  then obtain m2 where m2: "expand_loop ?p ?s = expand_loop (?p + of_nat (length (code b))) (s\<lparr>gmem := m2, stack := Num ?b # Num ?a # stack s\<rparr>)"
    "\<forall>x. \<not> in_region x (format_at s) 2 \<longrightarrow> m2 x = m1 x"
    using Op.IH(2) [OF d(4) Op.prems(2), of ?s ?p "[0x25, letter c] @ rest"] Op.prems(3) d(2) rb by auto
  let ?q = "?p + of_nat (length (code b))" and ?s2 = "s\<lparr>gmem := m2, stack := Num ?b # Num ?a # stack s\<rparr>"
  note f = operator_meaning [of c]
  have rc: "string_ready W (gmem ?s2) ?q (0x25 # letter c # rest)"
    using string_ready_frame [OF string_ready_drop [OF rb], of m2] m2(2) covers_region [OF Op.prems(4)] by auto
  have cs2: "covers_format W ?s2" using Op.prems(4) by (simp add: covers_format_def)
  let ?m = "format_written m2 (format_at s)"
  have c1: "?m (?q + 1) = letter c"
    using string_ready_nth [of W "gmem ?s2" ?q "[0x25, letter c]" rest 1] rc format_written_outside [OF cs2] by simp
  have "conversion 0 (?q + 1) (?s2\<lparr>gmem := format_written (gmem ?s2) (format_at ?s2)\<rparr>)
      = Some (?q + 1, s\<lparr>gmem := ?m, stack := Num (meaning c ?a ?b) # stack s\<rparr>)"
    using operator_conversion [of "?s2\<lparr>gmem := ?m\<rparr>" "?q + 1" "meaning c" 0] f c1 Op.prems(6)
    by (simp add: binary_def npop_def npush_def STACKSIZE_def)
  from run_operator [OF rc operator_plain cs2 this] f
  have "expand_loop ?q ?s2 = expand_loop (?q + 2) (s\<lparr>gmem := ?m, stack := Num (meaning c ?a ?b) # stack s\<rparr>)" by simp
  moreover have "?q + 2 = p + of_nat (length (code (Op c a b)))" by (simp add: algebra_simps)
  ultimately show ?case
    using m1 m2 f format_written_frame by (intro exI [of _ ?m]) auto
next
  case (Not a)
  let ?a = "val_of (param s) a"
  have ra: "string_ready W (gmem s) p (code a @ ([0x25, 0x21] @ rest))" using Not.prems(5) by simp
  obtain m1 where m1: "expand_loop p s = expand_loop (p + of_nat (length (code a))) (s\<lparr>gmem := m1, stack := Num ?a # stack s\<rparr>)"
    "\<forall>x. \<not> in_region x (format_at s) 2 \<longrightarrow> m1 x = gmem s x"
    using Not.IH [OF _ Not.prems(2,3,4) ra] Not.prems(1,6) by auto
  show ?case using run_unary [OF ra m1 plain_codes(4) unary_conversion(1) Not.prems(4)] Not.prems(6) depth_pos [of a] by (auto simp: word_of_bool_def)
next
  case (Inv a)
  let ?a = "val_of (param s) a"
  have ra: "string_ready W (gmem s) p (code a @ ([0x25, 0x7E] @ rest))" using Inv.prems(5) by simp
  obtain m1 where m1: "expand_loop p s = expand_loop (p + of_nat (length (code a))) (s\<lparr>gmem := m1, stack := Num ?a # stack s\<rparr>)"
    "\<forall>x. \<not> in_region x (format_at s) 2 \<longrightarrow> m1 x = gmem s x"
    using Inv.IH [OF _ Inv.prems(2,3,4) ra] Inv.prems(1,6) by auto
  show ?case using run_unary [OF ra m1 plain_codes(5) unary_conversion(2) Inv.prems(4)] Inv.prems(6) depth_pos [of a] by auto
qed

end
