(* ===== verification/Grub_Tparm_Expand.thy ===== *)
theory Grub_Tparm_Expand
  imports Grub_Tparm_Code
begin

text \<open>
  What a capability made of characters, increments of the parameters and printed expressions expands to.
\<close>

section \<open>Capabilities\<close>

datatype item = Lit u8 | Incr | Print texp

fun code_item :: "item \<Rightarrow> u8 list" where
  "code_item (Lit c) = [c]"
| "code_item Incr = [0x25, 0x69]"
| "code_item (Print e) = code e @ [0x25, 0x64]"

definition capability :: "item list \<Rightarrow> u8 list" where
  "capability is' = concat (map code_item is')"

fun wf_item :: "item \<Rightarrow> bool" where
  "wf_item (Lit c) \<longleftrightarrow> c \<notin> {0, 0x24, 0x25}"
| "wf_item Incr \<longleftrightarrow> True"
| "wf_item (Print e) \<longleftrightarrow> wf_exp 9 e \<and> depth e \<le> 11"

definition incremented :: "u32 list \<Rightarrow> u32 list" where
  "incremented ps = ps[0 := ps ! 0 + 1, 1 := ps ! 1 + 1]"

fun expansion :: "u32 list \<Rightarrow> item list \<Rightarrow> u8 list" where
  "expansion ps [] = []"
| "expansion ps (Lit c # is') = c # expansion ps is'"
| "expansion ps (Incr # is') = expansion (incremented ps) is'"
| "expansion ps (Print e # is') = ascii_text 0x64 (val_of ps e) @ expansion ps is'"

section \<open>The output\<close>

text \<open>From the index \<open>k\<close> of the buffer on \<open>t\<close> has been written; only \<open>W\<close> has changed.\<close>

definition printed :: "(u32 \<Rightarrow> bool) \<Rightarrow> u32 \<Rightarrow> memory \<Rightarrow> nat \<Rightarrow> u8 list \<Rightarrow> memory \<Rightarrow> bool" where
  "printed W out m k t m' \<longleftrightarrow> (\<forall>a. \<not> W a \<longrightarrow> m' a = m a) \<and> (\<forall>i < k. m' (out + of_nat i) = m (out + of_nat i))
     \<and> read_bytes m' (out + of_nat k) (length t) = t"

lemma printed_append:
  assumes "printed W out m k t m1" and "printed W out m1 (k + length t) t' m'"
  shows "printed W out m k (t @ t') m'"
proof -
  have "read_bytes m' (out + of_nat k) (length t) = read_bytes m1 (out + of_nat k) (length t)"
  proof (rule read_bytes_cong)
    fix i assume "i < length t"
    then have "m' (out + of_nat (k + i)) = m1 (out + of_nat (k + i))" using assms(2) by (simp add: printed_def del: of_nat_add)
    then show "m' (out + of_nat k + of_nat i) = m1 (out + of_nat k + of_nat i)" by (simp add: add.assoc)
  qed
  then show ?thesis using assms by (auto simp: printed_def read_bytes_add add.assoc)
qed

text \<open>Where the interpreter writes: the format, the output buffer with \<open>N\<close> characters, the array of digits.\<close>

definition tparm_writes :: "nat \<Rightarrow> 'a tparm_scheme \<Rightarrow> u32 \<Rightarrow> bool" where
  "tparm_writes N s a \<longleftrightarrow> in_region a (format_at s) 3 \<or> sprintf_writes (out_buff s) N (sprintf_array s) a"

definition tparm_places :: "nat \<Rightarrow> 'a tparm_scheme \<Rightarrow> bool" where
  "tparm_places N s \<longleftrightarrow> N < 4294967295 \<and> disjoint_regions (out_buff s) (Suc N) (sprintf_array s) 12 \<and> unat (sprintf_array s) + 12 \<le> 4294967296
     \<and> (\<forall>a. in_region a (format_at s) 3 \<longrightarrow> \<not> sprintf_writes (out_buff s) N (sprintf_array s) a)"

lemma out_in_writes: "tparm_places N s \<Longrightarrow> i \<le> N \<Longrightarrow> sprintf_writes (out_buff s) N (sprintf_array s) (out_buff s + of_nat i)"
  by (simp add: tparm_places_def sprintf_writes_def in_region_offset)

lemma printed_nothing:
  assumes "tparm_places N s" and "k \<le> N" and "\<forall>a. \<not> in_region a (format_at s) 3 \<longrightarrow> m' a = m a"
  shows "printed (tparm_writes N s) (out_buff s) m k [] m'"
  using assms out_in_writes [OF assms(1)] by (auto simp: printed_def tparm_writes_def tparm_places_def)

lemma save_number_prints:
  assumes "tparm_places N s" and "cstr_at (gmem s) (format_at s) [0x25, 0x64]" and "out_used s = of_nat k"
    and "k + length (ascii_text 0x64 x) \<le> N"
  shows "\<exists>m. save_number (format_at s) x len s = Some (s\<lparr>gmem := m, out_used := of_nat (k + length (ascii_text 0x64 x))\<rparr>)
    \<and> printed (tparm_writes N s) (out_buff s) (gmem s) k (ascii_text 0x64 x) m"
proof -
  let ?t = "ascii_text 0x64 x" and ?o = "out_buff s" and ?W = "sprintf_writes (out_buff s) N (sprintf_array s)"
  have N: "N < 4294967295" "disjoint_regions ?o (Suc N) (sprintf_array s) 12" "unat (sprintf_array s) + 12 \<le> 4294967296"
    using assms(1) by (auto simp: tparm_places_def)
  have f: "format_out (\<lambda>_. []) [0x25, 0x64] [x] = Some ?t" by (simp add: arg_text_def)
  have r: "string_ready ?W (gmem s) (format_at s) [0x25, 0x64]"
    using assms(1,2) by (auto simp: string_ready_def tparm_places_def numeral_3_eq_3)
  obtain m' where m': "grub_sprintf_loop (sprintf_array s) (gmem s) (format_at s) (?o + of_nat k) [x] = Some (m', ?o + of_nat (k + length ?t))"
    "sprinted ?o N (sprintf_array s) (gmem s) k ?t m'"
    using grub_sprintf_loop_spec [OF N f r _ assms(4)] by auto
  define m where "m = m'(?o + of_nat (k + length ?t) := 0)"
  have keep: "m (?o + of_nat i) = m' (?o + of_nat i)" if "i < k + length ?t" for i
    using that assms(4) N(1) of_nat_u32_inj [of i "k + length ?t"] by (simp add: m_def del: of_nat_add)
  have tx: "read_bytes m (?o + of_nat k) (length ?t) = ?t"
  proof -
    have "read_bytes m (?o + of_nat k) (length ?t) = read_bytes m' (?o + of_nat k) (length ?t)"
      using keep [of "k + _"] by (intro read_bytes_cong) (simp add: add.assoc)
    then show ?thesis using m'(2) by (simp add: sprinted_def)
  qed
  moreover have "m (?o + of_nat k + of_nat (length ?t)) = 0" by (simp add: m_def add.assoc)
  ultimately have "cstr_at m (?o + of_nat k) ?t" using ascii_text_nonzero by (simp add: cstr_at_iff)
  then have l: "grub_strlen m (?o + of_nat k) = Some (of_nat (length ?t))" by (rule grub_strlen_cstr)
  have "save_number (format_at s) x len s = Some (s\<lparr>gmem := m, out_used := of_nat (k + length ?t)\<rparr>)"
    using m'(1) l assms(3) by (simp add: save_number_def save_formatted_def get_space_def grub_sprintf_def m_def Let_def)
  moreover have "m a = gmem s a" if "\<not> tparm_writes N s a" for a
    using that m'(2) out_in_writes [OF assms(1,4)] by (auto simp: m_def sprinted_def tparm_writes_def)
  moreover have "m (?o + of_nat i) = gmem s (?o + of_nat i)" if "i < k" for i
    using that keep [of i] m'(2) by (simp add: sprinted_def)
  ultimately show ?thesis using tx by (auto simp: printed_def)
qed

section \<open>The second loop\<close>

lemma tparm_writes_cong [simp]:
  "tparm_writes N (s\<lparr>gmem := m\<rparr>) = tparm_writes N s" "tparm_writes N (s\<lparr>out_used := u\<rparr>) = tparm_writes N s"
  "tparm_writes N (s\<lparr>param := ps\<rparr>) = tparm_writes N s" "tparm_writes N (s\<lparr>stack := st\<rparr>) = tparm_writes N s"
  by (simp_all add: tparm_writes_def fun_eq_iff)

lemma tparm_places_cong [simp]:
  "tparm_places N (s\<lparr>gmem := m\<rparr>) = tparm_places N s" "tparm_places N (s\<lparr>out_used := u\<rparr>) = tparm_places N s"
  "tparm_places N (s\<lparr>param := ps\<rparr>) = tparm_places N s" "tparm_places N (s\<lparr>stack := st\<rparr>) = tparm_places N s"
  by (simp_all add: tparm_places_def)

lemma covers_writes: "covers_format (tparm_writes N s) s"
  using in_region_offset [of 3 0 "format_at s"] in_region_offset [of 3 1 "format_at s"]
  by (simp add: covers_format_def tparm_writes_def)

lemma in_region_2_3: "in_region a p 2 \<Longrightarrow> in_region a p 3"
  by (rule in_region_mono) auto

lemma char_saved:
  assumes "tparm_places N s" and "out_used s = of_nat k" and "k < N" and "c \<noteq> 0"
  defines "m \<equiv> (gmem s)(out_buff s + of_nat k := c)"
  shows "save_char (sx8 c) s = s\<lparr>gmem := m, out_used := of_nat (Suc k)\<rparr>" and "printed (tparm_writes N s) (out_buff s) (gmem s) k [c] m"
proof -
  have "sx8 c \<noteq> 0" using sx8_inj [of c 0] assms(4) by simp
  then show "save_char (sx8 c) s = s\<lparr>gmem := m, out_used := of_nat (Suc k)\<rparr>"
    using assms(2) by (simp add: save_char_def get_space_def m_def lo8_sx8 add.commute)
  have "N < 4294967295" using assms(1) by (simp add: tparm_places_def)
  then have "i < k \<Longrightarrow> (of_nat i :: u32) \<noteq> of_nat k" for i using assms(3) of_nat_u32_inj [of i k] by simp
  then show "printed (tparm_writes N s) (out_buff s) (gmem s) k [c] m"
    using out_in_writes [OF assms(1), of k] assms(3) by (auto simp: printed_def m_def tparm_writes_def)
qed

lemma expand_items:
  assumes "\<forall>i \<in> set is'. wf_item i" and "tparm_places N s" and "out_used s = of_nat k"
    and "k + length (expansion (param s) is') \<le> N" and "\<forall>i < 9. p_is_s s ! i = 0" and "length (stack s) \<le> 9"
    and "string_ready (tparm_writes N s) (gmem s) p (capability is')"
  shows "\<exists>m ps. expand_loop p s = Some (s\<lparr>gmem := m, out_used := of_nat (k + length (expansion (param s) is')), param := ps\<rparr>)
    \<and> printed (tparm_writes N s) (out_buff s) (gmem s) k (expansion (param s) is') m"
  using assms
proof (induction is' arbitrary: p s k)
  case Nil
  then have "gmem s p = 0" by (simp add: capability_def string_ready_def)
  then have "expand_loop p s = Some (s\<lparr>gmem := gmem s, out_used := of_nat (k + length (expansion (param s) [])), param := param s\<rparr>)"
    using Nil.prems(3) by (subst expand_loop.simps) simp
  then show ?case by (intro exI conjI) (assumption, simp add: printed_def)
next
  case (Cons i is')
  let ?W = "tparm_writes N s" and ?o = "out_buff s"
  have ready: "string_ready ?W (gmem s) p (code_item i @ capability is')"
    using Cons.prems(7) by (simp add: capability_def)
  have wf: "\<forall>i \<in> set is'. wf_item i" "wf_item i" using Cons.prems(1) by auto
  have step: ?case
    if h: "expand_loop p s = expand_loop (p + of_nat (length (code_item i))) sx"
      "sx = s\<lparr>gmem := mx, out_used := of_nat (k + length t), param := px\<rparr>"
      "printed ?W ?o (gmem s) k t mx" "expansion (param s) (i # is') = t @ expansion px is'" for sx mx t px
  proof -
    have "string_ready ?W mx (p + of_nat (length (code_item i))) (capability is')"
      using string_ready_frame [OF string_ready_drop [OF ready]] h(3) by (simp add: printed_def)
    then obtain m ps where m: "expand_loop (p + of_nat (length (code_item i))) sx
        = Some (sx\<lparr>gmem := m, out_used := of_nat (k + length t + length (expansion px is')), param := ps\<rparr>)"
      "printed ?W ?o mx (k + length t) (expansion px is') m"
      using Cons.IH [OF wf(1), of sx "k + length t" "p + of_nat (length (code_item i))"] Cons.prems(2,4-6) h(2,4) by auto
    show ?thesis
      using h(1,2,4) m(1) printed_append [OF h(3) m(2)] by (auto simp: add.assoc)
  qed
  show ?case
  proof (cases i)
    case (Lit c)
    have c: "gmem s p = c" "c \<noteq> 0" "\<not> ?W p" "c \<noteq> 0x24" "c \<noteq> 0x25"
      using string_ready_Cons [of ?W "gmem s" p c "capability is'"] ready wf(2) Lit by auto
    have "k < N" using Cons.prems(4) Lit by simp
    note ch = char_saved [OF Cons.prems(2,3) this c(2)]
    let ?m = "(gmem s)(?o + of_nat k := c)"
    have "?m p = c" using ch(2) c(1,3) by (simp add: printed_def)
    then have "expand_loop p s = expand_loop (p + of_nat (length (code_item i))) (s\<lparr>gmem := ?m, out_used := of_nat (Suc k)\<rparr>)"
      using c Lit ch(1) by (subst expand_loop.simps) simp
    then show ?thesis using ch(2) Lit by (intro step [where mx = ?m and t = "[c]" and px = "param s"]) simp_all
  next
    case Incr
    have r: "string_ready ?W (gmem s) p (0x25 # 0x69 # capability is')" using ready Incr by simp
    let ?m = "format_written (gmem s) (format_at s)"
    have fr: "\<not> ?W a \<Longrightarrow> ?m a = gmem s a" for a using covers_writes by (rule format_written_outside)
    have "?m (p + 1) = 0x69"
      using string_ready_nth [of ?W "gmem s" p "[0x25, 0x69]" "capability is'" 1] r fr by simp
    moreover have "p_is_s s ! 0 = 0" "p_is_s s ! 1 = 0" using Cons.prems(5) by auto
    ultimately have "conversion 0 (p + 1) (s\<lparr>gmem := ?m\<rparr>) = Some (p + 1, s\<lparr>gmem := ?m, param := incremented (param s)\<rparr>)"
      by (simp add: conversion_def increment_params_def incremented_def Let_def)
    from run_operator [OF r _ covers_writes this] have "expand_loop p s = expand_loop (p + 2) (s\<lparr>gmem := ?m, param := incremented (param s)\<rparr>)"
      by simp
    moreover have "printed ?W ?o (gmem s) k [] ?m"
    proof (rule printed_nothing [OF Cons.prems(2)])
      show "\<forall>a. \<not> in_region a (format_at s) 3 \<longrightarrow> ?m a = gmem s a"
        using format_written_frame in_region_2_3 by blast
    qed (use Cons.prems(4) in simp)
    ultimately show ?thesis using Incr
      by (intro step [where mx = ?m and t = "[]" and px = "incremented (param s)"]) (simp_all add: Cons.prems(3) [symmetric])
  next
    case (Print e)
    let ?x = "val_of (param s) e" and ?q = "p + of_nat (length (code e))"
    have r: "string_ready ?W (gmem s) p (code e @ ([0x25, 0x64] @ capability is'))" using ready Print by simp
    have e: "wf_exp 9 e" "length (stack s) + depth e \<le> 20" using wf(2) Print Cons.prems(6) by simp_all
    obtain m1 where m1: "expand_loop p s = expand_loop ?q (s\<lparr>gmem := m1, stack := Num ?x # stack s\<rparr>)"
      "\<forall>a. \<not> in_region a (format_at s) 2 \<longrightarrow> m1 a = gmem s a"
      using code_runs [OF e(1) _ Cons.prems(5) covers_writes r e(2)] by auto
    have r1: "string_ready ?W m1 ?q ([0x25, 0x64] @ capability is')"
      using string_ready_frame [OF string_ready_drop [OF r]] m1(2) covers_region [OF covers_writes] by blast
    have q: "m1 ?q = 0x25" "m1 (?q + 1) = 0x64" "\<not> ?W (?q + 1)"
      using string_ready_nth [OF r1, of 0] string_ready_nth [OF r1, of 1] by simp_all
    define m2 where "m2 = m1(format_at s := 0x25, format_at s + 1 := 0x64, format_at s + 2 := 0)"
    have out2: "\<not> in_region a (format_at s) 3 \<Longrightarrow> m2 a = gmem s a" for a
      using m1(2) in_region_2_3 [of a "format_at s"] in_region_offset [of 3 0 "format_at s"] in_region_offset [of 3 1 "format_at s"]
        in_region_offset [of 3 2 "format_at s"] by (auto simp: m2_def)
    have nr: "\<not> in_region (?q + 1) (format_at s) 3" using q(3) by (simp add: tparm_writes_def)
    then have "m1 (?q + 1) = gmem s (?q + 1)" using m1(2) in_region_2_3 by blast
    with q(2) out2 [OF nr] have "m2 (?q + 1) = 0x64" by simp
    moreover have "?q + 1 \<noteq> format_at s" using nr in_region_offset [of 3 0 "format_at s"] by auto
    ultimately have q2: "m2 (?q + 1) = 0x64" "?q + 1 \<noteq> format_at s" .
    have p2: "printed ?W ?o (gmem s) k [] m2" using Cons.prems(4) out2 by (intro printed_nothing Cons.prems(2)) auto
    have "cstr_at (gmem (s\<lparr>gmem := m2\<rparr>)) (format_at s) [0x25, 0x64]" by (simp add: m2_def add.assoc)
    then obtain m3 where m3: "save_number (format_at s) ?x 0 (s\<lparr>gmem := m2\<rparr>)
        = Some (s\<lparr>gmem := m3, out_used := of_nat (k + length (ascii_text 0x64 ?x))\<rparr>)"
      "printed ?W ?o m2 k (ascii_text 0x64 ?x) m3"
      using save_number_prints [of N "s\<lparr>gmem := m2\<rparr>" k ?x 0] Cons.prems(2,3,4) Print by auto
    have "conversion 0 (?q + 1) (s\<lparr>stack := Num ?x # stack s, gmem := m2\<rparr>)
        = Some (?q + 1, s\<lparr>gmem := m3, out_used := of_nat (k + length (ascii_text 0x64 ?x))\<rparr>)"
      using q2(1) m3(1) by (simp add: conversion_def npop_def Let_def)
    moreover have "m3 (?q + 1) = 0x64" using m3(2) q(3) q2(1) by (simp add: printed_def)
    ultimately have "expand_loop ?q (s\<lparr>gmem := m1, stack := Num ?x # stack s\<rparr>)
        = expand_loop (?q + 1 + 1) (s\<lparr>gmem := m3, out_used := of_nat (k + length (ascii_text 0x64 ?x))\<rparr>)"
      using q(1) parse_format_d [of m1 "?q + 1" "format_at s"] q(2) q2(2)
      by (subst expand_loop.simps) (simp add: m2_def [symmetric])
    moreover have "?q + 1 + 1 = p + of_nat (length (code_item i))" using Print by (simp add: algebra_simps)
    moreover have "printed ?W ?o (gmem s) k (ascii_text 0x64 ?x) m3" using printed_append [OF p2] m3(2) by simp
    ultimately show ?thesis using m1(1) Print by (intro step [where mx = m3 and px = "param s"]) simp_all
  qed
qed

end
