(* ===== verification/Grub_Tparm_Props.thy ===== *)
theory Grub_Tparm_Props
  imports Grub_Tparm_Expand
begin

text \<open>
  Properties of the terminfo interpreter: the count of the parameters, what a whole call returns, and the
  conjunction that leaves an operand behind.
\<close>

section \<open>The first loop\<close>

fun pars :: "texp \<Rightarrow> nat set" where
  "pars (Par i) = {i}"
| "pars (Op c a b) = pars a \<union> pars b"
| "pars (Not a) = pars a"
| "pars (Inv a) = pars a"
| "pars e = {}"

lemma count_step:
  assumes "m p = 0x25" and "plain (m (p + 1))" and "p + 1 \<noteq> f" and "p - string <s len"
    and "count_conversion (format_written m f) d (p + 1) n = Some (q, n')" and "format_written m f q \<noteq> 0"
  shows "count_loop m f d string len p n = count_loop (format_written m f) f d string len (q + 1) n'"
proof -
  have "parse_format m (p + 1) f = Some (p + 1, 0, format_written m f)" using assms(2,3) by (rule parse_format_plain)
  with assms show ?thesis by (subst count_loop.simps) simp
qed

lemma skip_digits_text:
  assumes "\<And>i. i < length ds \<Longrightarrow> m (p + of_nat i) = ds ! i" and "\<forall>d \<in> set ds. 0x30 \<le> d \<and> d \<le> 0x39"
    and "\<not> (0x30 \<le> m (p + of_nat (length ds)) \<and> m (p + of_nat (length ds)) \<le> 0x39)"
  shows "skip_digits m p = Some (p + of_nat (length ds))"
  using assms
proof (induction ds arbitrary: p)
  case Nil
  then show ?case by (subst skip_digits.simps, subst if_not_P) simp_all
next
  case (Cons d ds)
  have d: "m p = d" "0x30 \<le> d \<and> d \<le> 0x39" using Cons.prems(1) [of 0] Cons.prems(2) by simp_all
  have "skip_digits m (p + 1) = Some (p + 1 + of_nat (length ds))"
    using Cons.prems(1) [of "Suc _"] Cons.prems(2,3) by (intro Cons.IH) (auto simp: add.assoc)
  then show ?case using d by (subst skip_digits.simps) (simp add: add.assoc)
qed

text \<open>How counting a piece of the string moves the counts on: the highest parameter of \<open>S\<close> is counted.\<close>

definition counted :: "nat set \<Rightarrow> counts \<Rightarrow> counts \<Rightarrow> bool" where
  "counted S n n' \<longleftrightarrow> (let (number, lastpop, popcount, is_s) = n; (number', lastpop', popcount', is_s') = n' in
     number \<le> number' \<and> popcount \<le> popcount' \<and> (popcount \<le> 9 \<longrightarrow> popcount' \<le> 9) \<and> (\<forall>i \<in> S. int i < popcount') \<and> is_s' = is_s)"

lemma counted_trans: "counted S n n1 \<Longrightarrow> counted T n1 n' \<Longrightarrow> counted (S \<union> T) n n'"
  by (auto simp: counted_def split: prod.splits)

lemma counted_refl: "counted {} n n"
  by (auto simp: counted_def split: prod.splits)

text \<open>The piece \<open>bs\<close> at \<open>p\<close> has been counted.\<close>

definition counts_piece :: "u32 \<Rightarrow> u32 \<Rightarrow> u32 \<Rightarrow> u32 \<Rightarrow> nat \<Rightarrow> nat set \<Rightarrow> memory \<Rightarrow> u32 \<Rightarrow> u8 list \<Rightarrow> counts \<Rightarrow> bool" where
  "counts_piece f d string len k S m p bs n \<longleftrightarrow> (\<exists>m' n'. count_loop m f d string len p n
     = count_loop m' f d string len (p + of_nat (length bs)) n' \<and> (\<forall>a. \<not> in_region a f k \<longrightarrow> m' a = m a) \<and> counted S n n')"

lemma operator_counts:
  assumes "operator (m q) \<noteq> None \<or> m q = 0x21 \<or> m q = 0x7E"
  shows "count_conversion m d q (number, lastpop, popcount, is_s) = Some (q, number + 2, -1, popcount, is_s)"
proof -
  have "m q \<in> {0x2B, 0x2D, 0x2A, 0x2F, 0x6D, 0x26, 0x7C, 0x5E, 0x3D, 0x3C, 0x3E, 0x21, 0x7E}"
    using assms unfolding operator.simps by (auto split: if_splits)
  then show ?thesis by (elim insertE) (simp_all add: count_conversion_def Let_def)
qed

lemma count_operator:
  assumes "string_ready W m p (0x25 # c # rest)" and "plain c" and "W f" and "W (f + 1)" and "p - string <s len"
    and "\<And>m q. m q = c \<Longrightarrow> count_conversion m d q n = Some (q, n')" and "counted S n n'"
  shows "counts_piece f d string len 2 S m p [0x25, c] n"
proof -
  have c: "m p = 0x25" "m (p + 1) = c" "\<not> W (p + 1)" "c \<noteq> 0"
    using string_ready_Cons [OF assms(1)] string_ready_Cons [of W m "p + 1" c rest] by auto
  have fw: "format_written m f (p + 1) = c" "p + 1 \<noteq> f" using c(2,3) assms(3,4) by (auto simp: format_written_def)
  have "count_loop m f d string len p n = count_loop (format_written m f) f d string len (p + 1 + 1) n'"
    using c fw assms(2,5) assms(6) [of "format_written m f" "p + 1"] by (intro count_step) simp_all
  then show ?thesis
    unfolding counts_piece_def using assms(7) format_written_frame by (intro exI [of _ "format_written m f"] exI [of _ n']) (simp add: add.assoc)
qed

lemma counts_append:
  assumes "counts_piece f d string len k S m p xs n"
    and "\<And>m' n'. (\<forall>a. \<not> in_region a f k \<longrightarrow> m' a = m a) \<Longrightarrow> counts_piece f d string len k T m' (p + of_nat (length xs)) ys n'"
  shows "counts_piece f d string len k (S \<union> T) m p (xs @ ys) n"
proof -
  obtain m1 n1 where 1: "count_loop m f d string len p n = count_loop m1 f d string len (p + of_nat (length xs)) n1"
    "\<forall>a. \<not> in_region a f k \<longrightarrow> m1 a = m a" "counted S n n1"
    using assms(1) unfolding counts_piece_def by blast
  obtain m2 n2 where 2: "count_loop m1 f d string len (p + of_nat (length xs)) n1
      = count_loop m2 f d string len (p + of_nat (length xs) + of_nat (length ys)) n2"
    "\<forall>a. \<not> in_region a f k \<longrightarrow> m2 a = m1 a" "counted T n1 n2"
    using assms(2) [OF 1(2), of n1] unfolding counts_piece_def by blast
  show ?thesis
    unfolding counts_piece_def using 1 2 counted_trans by (intro exI [of _ m2] exI [of _ n2]) (auto simp: add.assoc)
qed

lemma count_code:
  assumes "wf_exp 9 e" and "string_ready W m p (code e @ rest)" and "\<And>a. in_region a f 2 \<Longrightarrow> W a"
    and "p = string + of_nat j" and "j + length (code e) \<le> L" and "L < 2147483648"
  shows "counts_piece f d string (of_nat L) 2 (pars e) m p (code e) n"
  using assms
proof (induction e arbitrary: p m j n rest)
  have Wf: "W f" "W (f + 1)"
    using assms(3) in_region_offset [of 2 0 f] in_region_offset [of 2 1 f] by simp_all
  note less = of_nat_sless_u32
  have fr: "string_ready W m1 q bs" if "string_ready W m q bs" "\<forall>a. \<not> in_region a f 2 \<longrightarrow> m1 a = m a" for m1 m q bs
    using that assms(3) by (intro string_ready_frame [OF that(1)]) blast
  have count_last: "counts_piece f d string (of_nat L) 2 {} m q [0x25, c] n"
    if h: "string_ready W m q ([0x25, c] @ rest)" "q = string + of_nat j" "j < L" "operator c \<noteq> None \<or> c = 0x21 \<or> c = 0x7E"
    for m q c rest j and n :: counts
  proof -
    obtain nb lp pc is_s where n: "n = (nb, lp, pc, is_s)" by (cases n)
    have "q - string <s of_nat L" using h(2,3) assms(6) less [of j L] by simp
    moreover have "plain c" using h(4) operator_plain by auto
    moreover have "string_ready W m q (0x25 # c # rest)" using h(1) by simp
    ultimately show ?thesis
      unfolding n using operator_counts h(4) by (intro count_operator [where W = W, OF _ _ Wf]) (auto simp: counted_def)
  qed
  {
    case (Const k)
    let ?t = "number_text 10 k" and ?m = "format_written m f"
    have all: "string_ready W m p (([0x25, 0x7B] @ ?t @ [0x7D]) @ rest)" using Const.prems(2) by simp
    note nth = string_ready_nth [OF all]
    have out: "\<not> W a \<Longrightarrow> ?m a = m a" for a using Wf by (auto simp: format_written_def)
    have c: "m p = 0x25" "m (p + 1) = 0x7B" "\<not> W (p + 1)" using nth [of 0] nth [of 1] by simp_all
    have t: "?m (p + 2 + of_nat i) = (?t @ [0x7D]) ! i" if "i \<le> length ?t" for i
      using nth [of "Suc (Suc i)"] that out [of "p + 2 + of_nat i"] by (simp add: add.assoc)
    have "skip_digits ?m (p + 2) = Some (p + 2 + of_nat (length ?t))"
    proof (rule skip_digits_text)
      show "?m (p + 2 + of_nat i) = ?t ! i" if "i < length ?t" for i using t [of i] that by (simp add: nth_append)
      show "\<forall>d \<in> set ?t. 0x30 \<le> d \<and> d \<le> 0x39" using digit_chars digit_value(1) by blast
      show "\<not> (0x30 \<le> ?m (p + 2 + of_nat (length ?t)) \<and> ?m (p + 2 + of_nat (length ?t)) \<le> 0x39)" using t [of "length ?t"] by simp
    qed
    then have cv: "count_conversion ?m d (p + 1) n = Some (p + 2 + of_nat (length ?t), n)"
      using c(2) out [OF c(3)] by (simp add: count_conversion_def Let_def add.assoc split: prod.split)
    have "p - string <s of_nat L" using Const.prems(4-6) less [of j L] by simp
    then have "count_loop m f d string (of_nat L) p n = count_loop ?m f d string (of_nat L) (p + 2 + of_nat (length ?t) + 1) n"
      using c Wf cv t [of "length ?t"] by (intro count_step) auto
    moreover have "p + 2 + of_nat (length ?t) + 1 = p + of_nat (length (code (Const k)))" by (simp add: algebra_simps)
    ultimately show ?case
      unfolding counts_piece_def using format_written_frame counted_refl by (intro exI [of _ ?m] exI [of _ n]) simp
  next
    case (Char c)
    let ?m = "format_written m f"
    have all: "string_ready W m p ([0x25, 0x27, c, 0x27] @ rest)" using Char.prems(2) by simp
    note nth = string_ready_nth [OF all]
    have out: "\<not> W a \<Longrightarrow> ?m a = m a" for a using Wf by (auto simp: format_written_def)
    have c: "m p = 0x25" "m (p + 1) = 0x27" "\<not> W (p + 1)" "?m (p + 3) = 0x27"
      using nth [of 0] nth [of 1] nth [of 3] out [of "p + 3"] by (simp_all add: numeral_3_eq_3)
    obtain nb lp pc is_s where n: "n = (nb, lp, pc, is_s)" by (cases n)
    have cv: "count_conversion ?m d (p + 1) n = Some (p + 3, nb, -1, pc, is_s)"
      using c(2) out [OF c(3)] by (simp add: count_conversion_def Let_def n add.assoc)
    have "p - string <s of_nat L" using Char.prems(4-6) less [of j L] by simp
    then have "count_loop m f d string (of_nat L) p n = count_loop ?m f d string (of_nat L) (p + 3 + 1) (nb, -1, pc, is_s)"
      using c Wf cv by (intro count_step) auto
    moreover have "p + 3 + 1 = p + of_nat (length (code (Char c)))" by simp
    ultimately show ?case
      unfolding counts_piece_def using format_written_frame
      by (intro exI [of _ ?m] exI [of _ "(nb, -1, pc, is_s)"]) (simp add: counted_def n)
  next
    case (Par i)
    let ?m = "format_written m f"
    have all: "string_ready W m p ([0x25, 0x70, of_nat (49 + i)] @ rest)" using Par.prems(2) by simp
    note nth = string_ready_nth [OF all]
    have out: "\<not> W a \<Longrightarrow> ?m a = m a" for a using Wf by (auto simp: format_written_def)
    have c: "m p = 0x25" "m (p + 1) = 0x70" "\<not> W (p + 1)" "?m (p + 2) = of_nat (49 + i)"
      using nth [of 0] nth [of 1] nth [of 2] out [of "p + 2"] by (simp_all add: numeral_2_eq_2)
    obtain nb lp pc is_s where n: "n = (nb, lp, pc, is_s)" by (cases n)
    have i: "i < 9" using Par.prems(1) by simp
    have "sx8 (of_nat (49 + i)) = of_nat (49 + i)" using digit_value(2) [of "Suc i"] i by simp
    moreover have "(of_nat (49 + i) :: u32) - 0x30 = of_nat (Suc i)" by simp
    ultimately have v: "sint (sx8 (of_nat (49 + i)) - 0x30) = int (Suc i)" using i sint_of_nat_u32 [of "Suc i"] by (simp only:)
    have nz: "(of_nat (49 + i) :: u8) \<noteq> 0" using digit_value(1) [of "Suc i"] i by auto
    let ?n = "(nb, int (Suc i), if int (Suc i) > pc then int (Suc i) else pc, is_s)"
    have cv: "count_conversion ?m d (p + 1) n = Some (p + 2, ?n)"
      using c(2,4) out [OF c(3)] v i by (simp add: count_conversion_def Let_def n add.assoc del: of_nat_add of_nat_Suc)
    have "p - string <s of_nat L" using Par.prems(4-6) less [of j L] by simp
    then have "count_loop m f d string (of_nat L) p n = count_loop ?m f d string (of_nat L) (p + 2 + 1) ?n"
      using c Wf cv nz by (intro count_step) auto
    moreover have "p + 2 + 1 = p + of_nat (length (code (Par i)))" by simp
    ultimately show ?case
      unfolding counts_piece_def using format_written_frame i
      by (intro exI [of _ ?m] exI [of _ ?n]) (simp add: counted_def n)
  next
    case (Op c a b)
    obtain nb lp pc is_s where n: "n = (nb, lp, pc, is_s)" by (cases n)
    have ra: "string_ready W m p (code a @ (code b @ [0x25, letter c] @ rest))" using Op.prems(2) by simp
    have w: "wf_exp 9 a" "wf_exp 9 b" "operator (letter c) \<noteq> None" using Op.prems(1) by (simp_all add: operator_meaning)
    have 1: "counts_piece f d string (of_nat L) 2 (pars a) m p (code a) n"
      using Op.IH(1) [OF w(1) ra assms(3) Op.prems(4)] Op.prems(5,6) by simp
    have 2: "counts_piece f d string (of_nat L) 2 (pars b \<union> {}) m1 (p + of_nat (length (code a))) (code b @ [0x25, letter c]) n1"
      if m1: "\<forall>x. \<not> in_region x f 2 \<longrightarrow> m1 x = m x" for m1 and n1 :: counts
    proof (rule counts_append)
      have rb: "string_ready W m1 (p + of_nat (length (code a))) (code b @ ([0x25, letter c] @ rest))"
        using fr [OF string_ready_drop [OF ra] m1] .
      show "counts_piece f d string (of_nat L) 2 (pars b) m1 (p + of_nat (length (code a))) (code b) n1"
        using Op.IH(2) [OF w(2) rb assms(3), of "j + length (code a)"] Op.prems(4-6) by (simp add: add.assoc)
      fix m2 and n2 :: counts assume m2: "\<forall>x. \<not> in_region x f 2 \<longrightarrow> m2 x = m1 x"
      have rc: "string_ready W m2 (p + of_nat (length (code a)) + of_nat (length (code b))) (0x25 # letter c # rest)"
        using fr [OF string_ready_drop [OF rb] m2] by simp
      show "counts_piece f d string (of_nat L) 2 {} m2 (p + of_nat (length (code a)) + of_nat (length (code b))) [0x25, letter c] n2"
        using count_last [of m2 _ "letter c" rest "j + length (code a) + length (code b)" n2] rc w(3) Op.prems(4-6) by (simp add: add.assoc)
    qed
    show ?case using counts_append [OF 1 2] by simp
  next
    case (Not a)
    have ra: "string_ready W m p (code a @ ([0x25, 0x21] @ rest))" using Not.prems(2) by simp
    have 1: "counts_piece f d string (of_nat L) 2 (pars a) m p (code a) n"
      using Not.IH [OF _ ra assms(3) Not.prems(4)] Not.prems(1,5,6) by simp
    have 2: "counts_piece f d string (of_nat L) 2 {} m1 (p + of_nat (length (code a))) [0x25, 0x21] n1"
      if "\<forall>x. \<not> in_region x f 2 \<longrightarrow> m1 x = m x" for m1 and n1 :: counts
      using count_last [OF fr [OF string_ready_drop [OF ra] that], of "j + length (code a)" n1] Not.prems(4-6) by (simp add: add.assoc)
    show ?case using counts_append [OF 1 2] by simp
  next
    case (Inv a)
    have ra: "string_ready W m p (code a @ ([0x25, 0x7E] @ rest))" using Inv.prems(2) by simp
    have 1: "counts_piece f d string (of_nat L) 2 (pars a) m p (code a) n"
      using Inv.IH [OF _ ra assms(3) Inv.prems(4)] Inv.prems(1,5,6) by simp
    have 2: "counts_piece f d string (of_nat L) 2 {} m1 (p + of_nat (length (code a))) [0x25, 0x7E] n1"
      if "\<forall>x. \<not> in_region x f 2 \<longrightarrow> m1 x = m x" for m1 and n1 :: counts
      using count_last [OF fr [OF string_ready_drop [OF ra] that], of "j + length (code a)" n1] Inv.prems(4-6) by (simp add: add.assoc)
    show ?case using counts_append [OF 1 2] by simp
  }
qed

lemma counts_weaken: "counts_piece f d string len 2 S m p bs n \<Longrightarrow> counts_piece f d string len 3 S m p bs n"
  unfolding counts_piece_def using in_region_2_3 by blast

fun item_pars :: "item \<Rightarrow> nat set" where
  "item_pars (Lit c) = {}"
| "item_pars Incr = {0, 1}"
| "item_pars (Print e) = pars e"

lemma count_item:
  assumes "wf_item i" and "string_ready W m p (code_item i @ rest)" and "\<And>a. in_region a f 3 \<Longrightarrow> W a"
    and "p = string + of_nat j" and "j + length (code_item i) \<le> L" and "L < 2147483648"
  shows "counts_piece f d string (of_nat L) 3 (item_pars i) m p (code_item i) n"
proof -
  have W2: "in_region a f 2 \<Longrightarrow> W a" for a using assms(3) in_region_2_3 by blast
  have Wf: "W f" "W (f + 1)"
    using assms(3) in_region_offset [of 3 0 f] in_region_offset [of 3 1 f] by simp_all
  obtain nb lp pc is_s where n: "n = (nb, lp, pc, is_s)" by (cases n)
  have pos: "q - string <s of_nat L" if "q = string + of_nat k" "k < L" for q k
    using that assms(6) of_nat_sless_u32 [of k L] by simp
  show ?thesis
  proof (cases i)
    case (Lit c)
    have "m p = c" "c \<noteq> 0" "c \<noteq> 0x25" using string_ready_Cons [of W m p c rest] assms(1,2) Lit by auto
    then have "count_loop m f d string (of_nat L) p n = count_loop m f d string (of_nat L) (p + 1) n"
      using pos [OF assms(4)] assms(5) Lit by (subst count_loop.simps) simp
    then show ?thesis
      unfolding counts_piece_def using Lit counted_refl by (intro exI [of _ m] exI [of _ n]) simp
  next
    case Incr
    have r: "string_ready W m p (0x25 # 0x69 # rest)" using assms(2) Incr by simp
    have "counts_piece f d string (of_nat L) 2 {0, 1} m p [0x25, 0x69] n"
      using pos [OF assms(4)] assms(5) Incr
      by (intro count_operator [OF r _ Wf, where n' = "(nb, -1, if pc < 2 then 2 else pc, is_s)"])
        (auto simp: count_conversion_def counted_def n)
    then show ?thesis using Incr counts_weaken by simp
  next
    case (Print e)
    have re: "string_ready W m p (code e @ ([0x25, 0x64] @ rest))" and w: "wf_exp 9 e" using assms(1,2) Print by simp_all
    have 1: "counts_piece f d string (of_nat L) 3 (pars e) m p (code e) n"
      using counts_weaken [OF count_code [OF w re W2 assms(4)]] assms(5,6) Print by simp
    have 2: "counts_piece f d string (of_nat L) 3 {} m1 (p + of_nat (length (code e))) [0x25, 0x64] n1"
      if m1: "\<forall>x. \<not> in_region x f 3 \<longrightarrow> m1 x = m x" for m1 and n1 :: counts
    proof -
      let ?q = "p + of_nat (length (code e))"
      have "string_ready W m1 ?q ([0x25, 0x64] @ rest)"
        using string_ready_frame [OF string_ready_drop [OF re]] m1 assms(3) by blast
      note q = string_ready_nth [OF this, of 0] string_ready_nth [OF this, of 1]
      obtain nb1 lp1 pc1 is1 where n1: "n1 = (nb1, lp1, pc1, is1)" by (cases n1)
      let ?m = "m1(f := 0x25, f + 1 := 0x64, f + 2 := 0)"
      have out: "?m a = m1 a" if "\<not> in_region a f 3" for a
        using that in_region_offset [of 3 0 f] in_region_offset [of 3 1 f] in_region_offset [of 3 2 f] by auto
      have o: "\<not> in_region (?q + 1) f 3" "?q + 1 \<noteq> f" using q assms(3) Wf by auto
      have "parse_format m1 (?q + 1) f = Some (?q + 1, 0, ?m)" using q o(2) by (intro parse_format_d) simp_all
      moreover have "?m (?q + 1) = 0x64" using out [OF o(1)] q by simp
      then have "count_conversion ?m d (?q + 1) n1 = Some (?q + 1, nb1 + 1, -1, pc1, is1)"
        unfolding count_conversion_def n1 Let_def by simp
      moreover have "?q - string <s of_nat L"
        using pos [of ?q "j + length (code e)"] assms(4,5) Print by (simp add: add.assoc)
      ultimately have "count_loop m1 f d string (of_nat L) ?q n1 = count_loop ?m f d string (of_nat L) (?q + 1 + 1) (nb1 + 1, -1, pc1, is1)"
        using q \<open>?m (?q + 1) = 0x64\<close> by (subst count_loop.simps) (simp del: fun_upd_apply)
      moreover have "\<forall>a. \<not> in_region a f 3 \<longrightarrow> ?m a = m1 a" using out by blast
      moreover have "counted {} n1 (nb1 + 1, -1, pc1, is1)" by (simp add: counted_def n1)
      ultimately show ?thesis
        unfolding counts_piece_def by (intro exI [of _ ?m] exI [of _ "(nb1 + 1, -1, pc1, is1)"]) (simp add: add.assoc del: fun_upd_apply)
    qed
    show ?thesis using counts_append [OF 1 2] Print by simp
  qed
qed

lemma count_items:
  assumes "\<forall>i \<in> set is'. wf_item i" and "string_ready W m p (capability is')" and "\<And>a. in_region a f 3 \<Longrightarrow> W a"
    and "p = string + of_nat j" and "j + length (capability is') \<le> L" and "L < 2147483648"
  shows "counts_piece f d string (of_nat L) 3 (\<Union>i \<in> set is'. item_pars i) m p (capability is') n"
  using assms
proof (induction is' arbitrary: p m j n)
  case (Nil p m j n)
  then show ?case
    unfolding counts_piece_def using counted_refl by (intro exI [of _ m] exI [of _ n]) (simp add: capability_def)
next
  case (Cons i is' p m j n)
  have r: "string_ready W m p (code_item i @ capability is')" using Cons.prems(2) by (simp add: capability_def)
  have l: "j + (length (code_item i) + length (capability is')) \<le> L" using Cons.prems(5) by (simp add: capability_def)
  have 1: "counts_piece f d string (of_nat L) 3 (item_pars i) m p (code_item i) n"
    using count_item [OF _ r Cons.prems(3,4)] Cons.prems(1,6) l by simp
  have 2: "counts_piece f d string (of_nat L) 3 (\<Union>i \<in> set is'. item_pars i) m1 (p + of_nat (length (code_item i))) (capability is') n1"
    if m1: "\<forall>x. \<not> in_region x f 3 \<longrightarrow> m1 x = m x" for m1 and n1 :: counts
  proof (rule Cons.IH)
    show "string_ready W m1 (p + of_nat (length (code_item i))) (capability is')"
      using string_ready_frame [OF string_ready_drop [OF r]] m1 Cons.prems(3) by blast
    show "p + of_nat (length (code_item i)) = string + of_nat (j + length (code_item i))" using Cons.prems(4) by (simp add: add.assoc)
  qed (use Cons.prems l in auto)
  show ?case using counts_append [OF 1 2] by (simp add: capability_def)
qed

section \<open>The parameters\<close>

lemma load_params_spec:
  assumes "\<forall>j < 9. p_is_s s ! j = 0" and "length (param s) = 9" and "n \<le> length args" and "i + n \<le> 9"
  shows "\<exists>ps. load_params i n args s = Some (s\<lparr>param := ps\<rparr>) \<and> length ps = 9
    \<and> (\<forall>j < n. ps ! (i + j) = args ! j) \<and> (\<forall>j < i. ps ! j = param s ! j)"
  using assms
proof (induction n arbitrary: i args s)
  case 0
  then show ?case by (intro exI [of _ "param s"]) simp
next
  case (Suc n)
  then obtain a as where args: "args = a # as" by (cases args) auto
  let ?s = "s\<lparr>param := (param s)[i := a]\<rparr>"
  obtain ps where ps: "load_params (i + 1) n as ?s = Some (?s\<lparr>param := ps\<rparr>)" "length ps = 9"
    "\<forall>j < n. ps ! (i + 1 + j) = as ! j" "\<forall>j < i + 1. ps ! j = param ?s ! j"
    using Suc.IH [of ?s as "i + 1"] Suc.prems args by auto
  have "ps ! (i + j) = args ! j" if "j < Suc n" for j
    using that ps(3,4) Suc.prems(2,4) args by (cases j) auto
  then show ?case using ps Suc.prems args by (intro exI [of _ ps]) auto
qed

lemma push_params_spec: "\<exists>st. push_params n s = s\<lparr>stack := st\<rparr> \<and> length st \<le> n + length (stack s)"
proof (induction n arbitrary: s)
  case 0
  then show ?case by (intro exI [of _ "stack s"]) simp
next
  case (Suc n)
  obtain st where "push_params n (npush (param s ! n) s) = (npush (param s ! n) s)\<lparr>stack := st\<rparr>"
    "length st \<le> n + length (stack (npush (param s ! n) s))" using Suc by blast
  then show ?case by (intro exI [of _ st]) (auto simp: npush_def split: if_splits)
qed

lemma val_of_cong: "(\<And>i. i \<in> pars e \<Longrightarrow> ps ! i = qs ! i) \<Longrightarrow> val_of ps e = val_of qs e"
  by (induction e) auto

lemma expansion_cong:
  assumes "\<forall>i \<in> set is'. \<forall>j \<in> item_pars i. j < K" and "\<forall>j < K. ps ! j = qs ! j" and "K \<le> length ps" and "K \<le> length qs"
  shows "expansion ps is' = expansion qs is'"
  using assms
proof (induction is' arbitrary: ps qs)
  case (Cons i is')
  show ?case
  proof (cases i)
    case (Print e)
    have "val_of ps e = val_of qs e" using Cons.prems(1,2) Print by (intro val_of_cong) auto
    then show ?thesis using Cons Print by simp
  next
    case Incr
    have "expansion (incremented ps) is' = expansion (incremented qs) is'"
    proof (rule Cons.IH)
      have k: "1 < K" using Cons.prems(1) Incr by auto
      then have l: "0 < length ps" "1 < length ps" "0 < length qs" "1 < length qs" using Cons.prems(3,4) by linarith+
      show "\<forall>j < K. incremented ps ! j = incremented qs ! j"
      proof (intro allI impI)
        fix j assume "j < K"
        then show "incremented ps ! j = incremented qs ! j"
          using Cons.prems(2) k l by (cases "j = 0"; cases "j = 1") (auto simp: incremented_def)
      qed
    qed (use Cons.prems in \<open>auto simp: incremented_def\<close>)
    then show ?thesis using Incr by simp
  qed (use Cons in auto)
qed simp

section \<open>Properties\<close>

text \<open>C2: a call with a capability made of characters, \<open>%i\<close> and expressions printed with \<open>%d\<close> returns the
  output buffer, which holds the expansion and a NUL: each expression, evaluated over the words with C's
  division and comparisons, in decimal; nothing but the buffer and the two scratch arrays changes.\<close>

theorem tparm_expands:
  assumes "\<forall>i \<in> set is'. wf_item i" and "tparm_places N s" and "length (expansion args is') \<le> N"
    and "string_ready (tparm_writes N s) (gmem s) p (capability is')" and "length (capability is') \<le> 256" and "p \<noteq> 0"
    and "fst (memcheck local_is_s 36 s)" and "9 \<le> length args" and "length (param s) = 9"
  shows "\<exists>s'. grub_tparm local_is_s p args s = Some (out_buff s, s')
    \<and> read_bytes (gmem s') (out_buff s) (Suc (length (expansion args is'))) = expansion args is' @ [0]
    \<and> (\<forall>a. \<not> tparm_writes N s a \<longrightarrow> gmem s' a = gmem s a)"
proof -
  let ?W = "tparm_writes N s" and ?out = "expansion args is'" and ?L = "length (capability is')" and ?o = "out_buff s"
  have mc: "memcheck local_is_s 36 (s\<lparr>out_used := 0\<rparr>) = (True, s\<lparr>out_used := 0\<rparr>)"
    using assms(7) by (auto simp: memcheck_def Let_def split: if_splits)
  have len: "grub_strlen (gmem s) p = Some (of_nat ?L)" using assms(4) grub_strlen_cstr by (simp add: string_ready_def)
  have short: "\<not> MAX_FORMAT_LEN <s of_nat ?L" using assms(5) of_nat_sless_u32 [of 256 ?L] by (simp add: MAX_FORMAT_LEN_def)
  obtain m1 nb lp pc is_s where c: "count_loop (gmem s) (format_at s) (dummy s) p (of_nat ?L) p (0, -1, 0, replicate 9 0)
      = count_loop m1 (format_at s) (dummy s) p (of_nat ?L) (p + of_nat ?L) (nb, lp, pc, is_s)"
    "\<forall>a. \<not> in_region a (format_at s) 3 \<longrightarrow> m1 a = gmem s a"
    "counted (\<Union>i \<in> set is'. item_pars i) (0, -1, 0, replicate 9 0) (nb, lp, pc, is_s)"
    using count_items [OF assms(1,4), of "format_at s" p 0 ?L "dummy s" "(0, -1, 0, replicate 9 0)"] assms(5)
    unfolding counts_piece_def by (auto simp: tparm_writes_def)
  have n: "0 \<le> nb" "0 \<le> pc" "pc \<le> 9" "\<forall>i \<in> set is'. \<forall>j \<in> item_pars i. int j < pc" "is_s = replicate 9 0"
    using c(3) by (auto simp: counted_def)
  have cl: "count_loop (gmem s) (format_at s) (dummy s) p (of_nat ?L) p (0, -1, 0, replicate 9 0) = Some (m1, nb, lp, pc, replicate 9 0)"
    unfolding c(1) n(5) by (subst count_loop.simps) simp
  define K where "K = nat (max pc (min nb 9))"
  have K: "K \<le> 9" "\<forall>i \<in> set is'. \<forall>j \<in> item_pars i. j < K" using n(1-4) by (auto simp: K_def zless_nat_eq_int_zless less_max_iff_disj)
  define s1 where "s1 = s\<lparr>out_used := 0, gmem := m1, p_is_s := replicate 9 0\<rparr>"
  have z: "\<forall>j < 9. p_is_s s1 ! j = 0" by (simp add: s1_def)
  obtain ps where ps: "load_params 0 K args s1 = Some (s1\<lparr>param := ps\<rparr>)" "length ps = 9" "\<forall>j < K. ps ! j = args ! j"
    using load_params_spec [OF z, of K args 0] assms(8,9) K(1) by (auto simp: s1_def)
  have e: "expansion ps is' = ?out" using assms(8) ps(2,3) K by (intro expansion_cong [of _ K]) auto
  obtain st where st: "(if pc = 0 then push_params (nat (min nb 9)) (s1\<lparr>param := ps, stack := []\<rparr>) else s1\<lparr>param := ps, stack := []\<rparr>)
      = s1\<lparr>param := ps, stack := st\<rparr>" "length st \<le> 9"
  proof (cases "pc = 0")
    case True
    show ?thesis using push_params_spec [of "nat (min nb 9)" "s1\<lparr>param := ps, stack := []\<rparr>"] True that by auto
  qed (use that [of "[]"] in simp)
  let ?s2 = "s1\<lparr>param := ps, stack := st\<rparr>"
  have pl: "tparm_places N ?s2" "tparm_writes N ?s2 = ?W" "out_used ?s2 = of_nat 0" "out_buff ?s2 = ?o" "gmem ?s2 = m1"
    using assms(2) by (simp_all add: s1_def tparm_places_def tparm_writes_def fun_eq_iff)
  have r: "string_ready (tparm_writes N ?s2) (gmem ?s2) p (capability is')"
    unfolding pl using string_ready_frame [OF assms(4)] c(2) by (simp add: tparm_writes_def)
  obtain m qs where m: "expand_loop p ?s2 = Some (?s2\<lparr>gmem := m, out_used := of_nat (length ?out), param := qs\<rparr>)"
    "printed ?W ?o m1 0 ?out m"
    using expand_items [OF assms(1) pl(1,3) _ _ _ r] assms(3) e z st(2) unfolding pl by (auto simp: s1_def)
  let ?s3 = "?s2\<lparr>gmem := m, out_used := of_nat (length ?out), param := qs\<rparr>"
  let ?m = "m(?o + of_nat (length ?out) := 0)"
  have num: "(if nb > 9 then 9 else nb) = min nb 9" by simp
  have "grub_tparm local_is_s p args s = Some (?o, ?s3\<lparr>gmem := ?m\<rparr>)"
  proof -
    have s1: "s\<lparr>out_used := 0, gmem := m1, p_is_s := replicate 9 0\<rparr> = s1" by (simp add: s1_def)
    have "tparam_internal local_is_s p args s =
      do {
        s \<leftarrow> load_params 0 (nat (max pc (min nb 9))) args s1;
        s \<leftarrow> expand_loop p (if pc = 0 then push_params (nat (min nb 9)) (s\<lparr>stack := []\<rparr>) else s\<lparr>stack := []\<rparr>);
        let s = get_space 1 s;
        Some (out_buff s, s\<lparr>gmem := (gmem s)(out_buff s + out_used s := 0)\<rparr>)
      }"
      using assms(6) short unfolding tparam_internal_def Let_def num [symmetric]
      by (simp add: mc len cl s1 split del: if_split)
    then show ?thesis
      unfolding grub_tparm_def K_def [symmetric] ps(1) using st(1) m(1) by (simp add: get_space_def Let_def split del: if_split) (simp add: s1_def)
  qed
  moreover have "read_bytes ?m ?o (length ?out) = ?out"
  proof -
    have N: "N < 4294967295" using assms(2) by (simp add: tparm_places_def)
    have "?m (?o + of_nat i) = m (?o + of_nat i)" if "i < length ?out" for i
      using that assms(3) N of_nat_u32_inj [of i "length ?out"] by simp
    then have "read_bytes ?m ?o (length ?out) = read_bytes m ?o (length ?out)" by (intro read_bytes_cong)
    then show ?thesis using m(2) by (simp add: printed_def)
  qed
  then have "read_bytes ?m ?o (Suc (length ?out)) = ?out @ [0]" unfolding read_bytes_snoc by simp
  moreover have "?m a = gmem s a" if "\<not> ?W a" for a
    using that m(2) c(2) out_in_writes [OF assms(2,3)] by (auto simp: printed_def tparm_writes_def)
  ultimately show ?thesis by auto
qed

text \<open>C33: \<open>%A\<close> and \<open>%O\<close> push the conjunction and the disjunction of the two numbers on the stack, but pop the
  second one only when the first does not decide: below the result of \<open>%A\<close> on a zero, and of \<open>%O\<close> on a nonzero number,
  the other operand stays.\<close>

theorem tparm_logic_keeps_operand:
  assumes "stack s = Num a # Num b # fs" and "length (stack s) \<le> 20" and "gmem s p = c" and "c = 0x41 \<or> c = 0x4F"
  shows "conversion len p s = Some (p, s\<lparr>stack :=
    (if (a = 0) = (c = 0x41) then Num (word_of_bool (a \<noteq> 0)) # Num b # fs else Num (word_of_bool (b \<noteq> 0)) # fs)\<rparr>)"
  using assms(4) assms(1-3)
  by (elim disjE) (auto simp: conversion_def Let_def logical_and_def logical_or_def npop_def npush_def STACKSIZE_def word_of_bool_def)

section \<open>Witnesses\<close>

text \<open>Moving the cursor: ESC, [, the second parameter, a semicolon, the first one, H.\<close>

definition demo_move :: "item list" where
  "demo_move = [Lit 0x1B, Lit 0x5B, Incr, Print (Par 1), Lit 0x3B, Print (Par 0), Lit 0x48]"

definition demo_tparm :: tparm where
  "demo_tparm = \<lparr>gmem = write_bytes (\<lambda>_. 0) 0x1000 (capability demo_move), errnum = ERR_NONE, mem_lower = 640, mem_upper = 0,
     stack = [], out_used = 7, p_is_s = replicate 9 1, param = replicate 9 5, dynamic_var = replicate 26 0,
     static_vars = replicate 26 0, out_buff = 0x2000, format_at = 0x4000, dummy = 0x6000, percent_d = 0x6010,
     sprintf_array = 0x3000\<rparr>"

lemma demo_move_code:
  "capability demo_move = [0x1B, 0x5B, 0x25, 0x69, 0x25, 0x70, 0x32, 0x25, 0x64, 0x3B, 0x25, 0x70, 0x31, 0x25, 0x64, 0x48]"
  by (simp add: capability_def demo_move_def)

lemma demo_move_expands: "expansion (12 # 4 # replicate 7 0) demo_move = [0x1B, 0x5B, 0x35, 0x3B, 0x31, 0x33, 0x48]"
proof -
  have "number_text 10 5 = [0x35]" "number_text 10 13 = [0x31, 0x33]"
    by (simp_all add: number_text_def digits_le.simps digit_char_def)
  then show ?thesis by (simp add: demo_move_def incremented_def ascii_text_def)
qed

lemma tparm_logic_keeps_operand_witness:
  "conversion 0 0x1003 (demo_tparm\<lparr>gmem := \<lambda>_. 0x41, stack := [Num 0, Num 7]\<rparr>)
    = Some (0x1003, demo_tparm\<lparr>gmem := \<lambda>_. 0x41, stack := [Num 0, Num 7]\<rparr>)"
  using tparm_logic_keeps_operand [of "demo_tparm\<lparr>gmem := \<lambda>_. 0x41, stack := [Num 0, Num 7]\<rparr>" 0 7 "[]" "0x1003" "0x41" 0]
  by (simp add: word_of_bool_def)

lemma tparm_expands_witness:
  "\<exists>s'. grub_tparm 0x5000 0x1000 (12 # 4 # replicate 7 0) demo_tparm = Some (0x2000, s')
    \<and> read_bytes (gmem s') 0x2000 8 = [0x1B, 0x5B, 0x35, 0x3B, 0x31, 0x33, 0x48, 0]"
proof -
  have w: "\<forall>i \<in> set demo_move. wf_item i" by (simp add: demo_move_def)
  have places: "tparm_places 255 demo_tparm"
    by (auto simp: tparm_places_def demo_tparm_def disjoint_regions_def sprintf_writes_def in_region_def unat_minus_u32 split: if_splits)
  have c: "cstr_at (gmem demo_tparm) 0x1000 (capability demo_move)" by (simp add: demo_move_code) (simp add: demo_tparm_def demo_move_code)
  have l: "Suc (length (capability demo_move)) = 17" by (simp add: demo_move_code)
  have "\<not> tparm_writes 255 demo_tparm a" if "in_region a 0x1000 17" for a
    using that by (auto simp: tparm_writes_def demo_tparm_def sprintf_writes_def in_region_def unat_minus_u32 split: if_splits)
  then have r: "string_ready (tparm_writes 255 demo_tparm) (gmem demo_tparm) 0x1000 (capability demo_move)"
    using c unfolding string_ready_def l by (simp add: demo_move_code)
  have l8: "Suc (length [0x1B, 0x5B, 0x35, 0x3B, 0x31, 0x33, 0x48 :: u8]) = 8" by simp
  have o: "out_buff demo_tparm = 0x2000" "fst (memcheck 0x5000 36 demo_tparm)" "length (param demo_tparm) = 9"
    by (simp_all add: demo_tparm_def memcheck_def)
  show ?thesis
    using tparm_expands [OF w places _ r _ _ o(2) _ o(3), of "12 # 4 # replicate 7 0", unfolded demo_move_expands l8 o(1)]
    by (auto simp: demo_move_code simp del: read_bytes.simps)
qed

end
