(* ===== verification/Grub_Bios.thy ===== *)
theory Grub_Bios
  imports Grub_Memory
begin

text \<open>
  The BIOS disk interface of GRUB, src/grub-0.97/stage2/bios.c: reading and writing sectors by address
  packets or by cylinder, head and sector, and finding out the geometry of a drive. The four assembly
  routines that issue the interrupt are the functions of a record.
\<close>

section \<open>Data\<close>

record geometry =
  cylinders :: u32
  heads :: u32
  sectors :: u32
  total_sectors :: u32
  sector_size :: u32
  flags :: u32

definition BIOSDISK_READ :: u32 where "BIOSDISK_READ = 0"
definition BIOSDISK_WRITE :: u32 where "BIOSDISK_WRITE = 1"
definition BIOSDISK_ERROR_GEOMETRY :: u32 where "BIOSDISK_ERROR_GEOMETRY = 0x100"
definition BIOSDISK_FLAG_LBA_EXTENSION :: u32 where "BIOSDISK_FLAG_LBA_EXTENSION = 1"
definition BIOSDISK_FLAG_CDROM :: u32 where "BIOSDISK_FLAG_CDROM = 2"
definition SECTOR_SIZE :: u32 where "SECTOR_SIZE = 0x200"

lemmas biosdisk_numbers =
  BIOSDISK_READ_def BIOSDISK_WRITE_def BIOSDISK_ERROR_GEOMETRY_def BIOSDISK_FLAG_LBA_EXTENSION_def
  BIOSDISK_FLAG_CDROM_def SECTOR_SIZE_def

text \<open>The packets on the stack, without the space after them.\<close>

record disk_address_packet =
  dap_length :: u8
  dap_reserved :: u8
  dap_blocks :: u16
  dap_buffer :: u32
  dap_block :: "64 word"

record iso_spec_packet =
  cd_size :: u8
  cd_media_type :: u8
  cd_drive_no :: u8
  cd_controller_no :: u8
  cd_image_lba :: u32
  cd_device_spec :: u16
  cd_cache_seg :: u16
  cd_load_seg :: u16
  cd_length_sec512 :: u16
  cd_cylinders :: u8
  cd_sectors :: u8
  cd_heads :: u8

text \<open>Of the drive parameters the members that are used.\<close>

record drive_parameters =
  dp_size :: u16
  dp_cylinders :: u32
  dp_heads :: u32
  dp_sectors :: u32
  dp_total_sectors :: "64 word"

text \<open>What the BIOS acts on: the memory and the bytes of each drive.\<close>

type_synonym hardware = "memory \<times> (u32 \<Rightarrow> nat \<Rightarrow> u8)"

text \<open>\<open>int13_extensions\<close> is one routine, here with its three kinds of packets: the transfers 0x42 and 0x43,
  the status 0x4B01 and the parameters 0x4800. The first component of a result is the error.\<close>

record bios =
  int13_transfer :: "u32 \<Rightarrow> u32 \<Rightarrow> disk_address_packet \<Rightarrow> hardware \<Rightarrow> u32 \<times> hardware"
  int13_status :: "u32 \<Rightarrow> iso_spec_packet \<Rightarrow> u32 \<times> iso_spec_packet"
  int13_parameters :: "u32 \<Rightarrow> drive_parameters \<Rightarrow> u32 \<times> drive_parameters"
  biosdisk_standard :: "u32 \<Rightarrow> u32 \<Rightarrow> u32 \<Rightarrow> u32 \<Rightarrow> u32 \<Rightarrow> u32 \<Rightarrow> u32 \<Rightarrow> hardware \<Rightarrow> u32 \<times> hardware"
  check_int13_extensions :: "u32 \<Rightarrow> u32"
  get_diskinfo_standard :: "u32 \<Rightarrow> u32 \<times> u32 \<times> u32 \<times> u32"

section \<open>Transfers\<close>

text \<open>By cylinder, head and sector; a division by zero has no result. The product in the fallback is
  computed in 32 bits.\<close>

definition chs_total :: "geometry \<Rightarrow> u32" where
  "chs_total g = cylinders g * heads g * sectors g"

definition biosdisk_chs :: "bios \<Rightarrow> u32 \<Rightarrow> u32 \<Rightarrow> geometry \<Rightarrow> u32 \<Rightarrow> u32 \<Rightarrow> u32 \<Rightarrow> hardware \<Rightarrow> (u32 \<times> hardware) option" where
  "biosdisk_chs bios read drive g sector nsec segment hw =
     (if sectors g = 0 \<or> heads g = 0 then None
      else
        let sector_offset = sector mod sectors g + 1;
            head = sector div sectors g;
            head_offset = head mod heads g;
            cylinder_offset = head div heads g
        in Some (if cylinders g \<le> cylinder_offset then (BIOSDISK_ERROR_GEOMETRY, hw)
                 else biosdisk_standard bios (read + 0x02) drive cylinder_offset head_offset sector_offset nsec segment hw))"

text \<open>When the packet interface fails, it is given up for good.\<close>

definition biosdisk ::
  "bios \<Rightarrow> u32 \<Rightarrow> u32 \<Rightarrow> geometry \<Rightarrow> u32 \<Rightarrow> u32 \<Rightarrow> u32 \<Rightarrow> hardware \<Rightarrow> (u32 \<times> geometry \<times> hardware) option" where
  "biosdisk bios read drive g sector nsec segment hw =
     (if flags g AND BIOSDISK_FLAG_LBA_EXTENSION \<noteq> 0 then
        let dap = \<lparr>dap_length = 0x10, dap_reserved = 0, dap_blocks = lo16 nsec, dap_buffer = push_bit 16 segment,
                    dap_block = scast sector\<rparr>;
            (err, hw) = int13_transfer bios (push_bit 8 (read + 0x42)) drive dap hw
        in if err \<noteq> 0 then
             if flags g AND BIOSDISK_FLAG_CDROM \<noteq> 0 then Some (err, g, hw)
             else
               let g = g\<lparr>flags := flags g AND NOT BIOSDISK_FLAG_LBA_EXTENSION\<rparr>;
                   g = g\<lparr>total_sectors := chs_total g\<rparr>
               in map_option (\<lambda>(err, hw). (err, g, hw)) (biosdisk_chs bios read drive g sector nsec segment hw)
           else Some (err, g, hw)
      else map_option (\<lambda>(err, hw). (err, g, hw)) (biosdisk_chs bios read drive g sector nsec segment hw))"

section \<open>Geometry\<close>

text \<open>The packets are local: where they are and what the stack held there before they are cleared (they are not
  when an error is pending) is part of the state.\<close>

record disk_bios = grub +
  drives :: "u32 \<Rightarrow> nat \<Rightarrow> u8"
  cdrp_at :: u32
  cdrp_stack :: iso_spec_packet
  drp_at :: u32
  drp_stack :: drive_parameters

definition no_spec :: iso_spec_packet where
  "no_spec = \<lparr>cd_size = 0, cd_media_type = 0, cd_drive_no = 0, cd_controller_no = 0, cd_image_lba = 0, cd_device_spec = 0,
     cd_cache_seg = 0, cd_load_seg = 0, cd_length_sec512 = 0, cd_cylinders = 0, cd_sectors = 0, cd_heads = 0\<rparr>"

definition no_parameters :: drive_parameters where
  "no_parameters = \<lparr>dp_size = 0, dp_cylinders = 0, dp_heads = 0, dp_sectors = 0, dp_total_sectors = 0\<rparr>"

text \<open>The status of a bootable CD-ROM: 1 without emulation, -1 with it, 0 for another drive.\<close>

definition get_cdinfo :: "bios \<Rightarrow> u32 \<Rightarrow> geometry \<Rightarrow> 'a disk_bios_scheme \<Rightarrow> u32 \<times> geometry \<times> 'a disk_bios_scheme" where
  "get_cdinfo bios drive g s =
     (let (fits, s) = memcheck (cdrp_at s) 35 s;
          cdrp = (if fits then no_spec else cdrp_stack s)\<lparr>cd_size := 19\<rparr>;
          (err, cdrp) = int13_status bios drive cdrp
      in if err = 0 \<and> ucast (cd_drive_no cdrp) = drive then
           if cd_media_type cdrp AND 0x0F = 0 then
             (1, g\<lparr>cylinders := 0, heads := 1, sectors := 15, total_sectors := 0x7FFFFFFF, sector_size := 2048,
                   flags := BIOSDISK_FLAG_LBA_EXTENSION OR BIOSDISK_FLAG_CDROM\<rparr>, s)
           else
             let g = g\<lparr>cylinders := ucast (cd_cylinders cdrp) + push_bit 2 (ucast (cd_sectors cdrp AND 0xC0)),
                       heads := ucast (cd_heads cdrp), sectors := ucast (cd_sectors cdrp AND 0x3F),
                       sector_size := SECTOR_SIZE\<rparr>
             in (-1, g\<lparr>total_sectors := chs_total g\<rparr>, s)
         else (0, g, s))"

text \<open>The total by the packet interface, and whether it is there: 64 bits are cut to 32.\<close>

definition lba_total :: "bios \<Rightarrow> u32 \<Rightarrow> geometry \<Rightarrow> 'a disk_bios_scheme \<Rightarrow> u32 \<times> geometry \<times> 'a disk_bios_scheme" where
  "lba_total bios drive g s =
     (let (fits, s) = memcheck (drp_at s) 82 s;
          drp = (if fits then no_parameters else drp_stack s)\<lparr>dp_size := 66\<rparr>;
          (err, drp) = int13_parameters bios drive drp
      in if err = 0 then
           (if dp_total_sectors drp \<noteq> 0 then ucast (dp_total_sectors drp) else dp_cylinders drp * dp_heads drp * dp_sectors drp,
            g\<lparr>flags := BIOSDISK_FLAG_LBA_EXTENSION\<rparr>, s)
         else (0, g, s))"

definition standard_geometry :: "bios \<Rightarrow> u32 \<Rightarrow> geometry \<Rightarrow> u32 \<times> geometry" where
  "standard_geometry bios drive g =
     (let (err, c, h, n) = get_diskinfo_standard bios drive in (err, g\<lparr>cylinders := c, heads := h, sectors := n\<rparr>))"

definition get_diskinfo :: "bios \<Rightarrow> u32 \<Rightarrow> geometry \<Rightarrow> 'a disk_bios_scheme \<Rightarrow> u32 \<times> geometry \<times> 'a disk_bios_scheme" where
  "get_diskinfo bios drive g s =
     (let g = g\<lparr>flags := 0\<rparr> in
      if drive AND 0x80 \<noteq> 0 then
        let version = check_int13_extensions bios drive;
            (cd, g, s) = (if 0x88 \<le>s drive \<or> version \<noteq> 0 then get_cdinfo bios drive g s else (0, g, s))
        in if cd \<noteq> 0 then (0, g, s)
           else
             let (total, g, s) = (if version \<noteq> 0 then lba_total bios drive g s else (0, g, s));
                 (err, g) = standard_geometry bios drive g
             in if err \<noteq> 0 then (err, g, s)
                else
                  let total = (if total = 0 then chs_total g else total)
                  in (0, g\<lparr>total_sectors := total, sector_size := SECTOR_SIZE\<rparr>, s)
      else
        let (err, g) = standard_geometry bios drive g
        in if err \<noteq> 0 then (err, g, s) else (0, g\<lparr>total_sectors := chs_total g, sector_size := SECTOR_SIZE\<rparr>, s))"

end
