(* ===== verification/Grub_Disk.thy ===== *)
theory Grub_Disk
  imports Grub_Bios
begin

text \<open>
  Sectors of a disk through the track buffer: \<open>rawread\<close>, \<open>devread\<close>, \<open>rawwrite\<close> and \<open>devwrite\<close> of
  src/grub-0.97/stage2/disk_io.c.
\<close>

section \<open>State\<close>

definition BUFFERADDR :: u32 where "BUFFERADDR = 0x70000"
definition BUFFERSEG :: u32 where "BUFFERSEG = 0x7000"
definition BUFFERLEN :: u32 where "BUFFERLEN = 0x7e00"
definition SCRATCHADDR :: u32 where "SCRATCHADDR = 0x77e00"
definition SCRATCHSEG :: u32 where "SCRATCHSEG = 0x77e0"
definition PC_SLICE_TYPE_EZD :: u8 where "PC_SLICE_TYPE_EZD = 0x55"

lemmas buffer_addresses = BUFFERADDR_def BUFFERSEG_def BUFFERLEN_def SCRATCHADDR_def SCRATCHSEG_def

text \<open>The globals of the file that sector access uses. A call of \<open>disk_read_func\<close>, when it is set, is an
  event: the sector, the offset in it and the length.\<close>

record disk = disk_bios +
  current_drive :: u32
  part_start :: u32
  part_length :: u32
  buf_drive :: u32
  buf_track :: u32
  buf_geom :: geometry
  disk_read_func :: bool
  reads_seen :: "(u32 \<times> u32 \<times> u32) list"

text \<open>The instruction \<open>bsf\<close>: the lowest bit that is set. Of 0 it has no result; what it leaves then is not
  used.\<close>

definition log2 :: "u32 \<Rightarrow> nat" where
  "log2 w = length (takeWhile (\<lambda>n. \<not> bit w n) [0..<32])"

definition PC_SLICE_TYPE :: "memory \<Rightarrow> u32 \<Rightarrow> nat \<Rightarrow> u8" where
  "PC_SLICE_TYPE m mbr part = m (mbr + 446 + 4 + of_nat (16 * part))"

definition ezd_marked :: "memory \<Rightarrow> u32 \<Rightarrow> bool" where
  "ezd_marked m mbr \<longleftrightarrow> PC_SLICE_TYPE m mbr 0 = PC_SLICE_TYPE_EZD \<or> PC_SLICE_TYPE m mbr 1 = PC_SLICE_TYPE_EZD
     \<or> PC_SLICE_TYPE m mbr 2 = PC_SLICE_TYPE_EZD \<or> PC_SLICE_TYPE m mbr 3 = PC_SLICE_TYPE_EZD"

section \<open>Reading\<close>

text \<open>A transfer with the geometry of the buffer, which a failing packet interface changes.\<close>

definition transfer :: "bios \<Rightarrow> u32 \<Rightarrow> u32 \<Rightarrow> u32 \<Rightarrow> u32 \<Rightarrow> u32 \<Rightarrow> 'a disk_scheme \<Rightarrow> (u32 \<times> 'a disk_scheme) option" where
  "transfer bios read drive sector nsec segment s =
     do {
       (err, g, m, ds) \<leftarrow> biosdisk bios read drive (buf_geom s) sector nsec segment (gmem s, drives s);
       Some (err, s\<lparr>gmem := m, drives := ds, buf_geom := g\<rparr>)
     }"

text \<open>Another drive than the buffered one: its geometry is asked for.\<close>

definition check_drive :: "bios \<Rightarrow> u32 \<Rightarrow> 'a disk_scheme \<Rightarrow> bool \<times> 'a disk_scheme" where
  "check_drive bios drive s =
     (if buf_drive s \<noteq> drive then
        let (err, g, s) = get_diskinfo bios drive (buf_geom s) s; s = s\<lparr>buf_geom := g\<rparr>
        in if err \<noteq> 0 then (False, s\<lparr>errnum := ERR_NO_DISK\<rparr>) else (True, s\<lparr>buf_drive := drive, buf_track := -1\<rparr>)
      else (True, s))"

definition sectors_per_vtrack :: "geometry \<Rightarrow> u32" where
  "sectors_per_vtrack g =
     (if BUFFERLEN < push_bit (log2 (sector_size g)) (sectors g) then drop_bit (log2 (sector_size g)) BUFFERLEN else sectors g)"

text \<open>The track is read, or its part from \<open>sector\<close> on when the request goes beyond it. The result is where
  the sector is in the buffer.\<close>

definition read_track :: "bios \<Rightarrow> u32 \<Rightarrow> u32 \<Rightarrow> u32 \<Rightarrow> u32 \<Rightarrow> u32 \<Rightarrow> u32 \<Rightarrow> u32 \<Rightarrow> 'a disk_scheme
    \<Rightarrow> (u32 \<times> 'a disk_scheme) option" where
  "read_track bios drive sector byte_offset track slen num_sect bufaddr s =
     do {
       let (read_start, read_len, bufaddr) =
         (if num_sect <s slen then (sector, num_sect, BUFFERADDR + byte_offset)
          else (track, sectors_per_vtrack (buf_geom s), bufaddr));
       (err, s) \<leftarrow> transfer bios BIOSDISK_READ drive read_start read_len BUFFERSEG s;
       if err \<noteq> 0 then
         let s = s\<lparr>buf_track := -1\<rparr> in
         if err = BIOSDISK_ERROR_GEOMETRY then Some (bufaddr, s\<lparr>errnum := ERR_GEOM\<rparr>)
         else
           do {
             (failed, s) \<leftarrow> (if num_sect <s slen then Some (True, s)
                else do { (err, s) \<leftarrow> transfer bios BIOSDISK_READ drive sector slen BUFFERSEG s; Some (err \<noteq> 0, s) });
             Some (BUFFERADDR + byte_offset, if failed then s\<lparr>errnum := ERR_READ\<rparr> else s)
           }
       else Some (bufaddr, s\<lparr>buf_track := track\<rparr>)
     }"

text \<open>An EZD disk maps its sector 0 to sector 1.\<close>

definition map_ezd :: "bios \<Rightarrow> u32 \<Rightarrow> u32 \<Rightarrow> u32 \<Rightarrow> 'a disk_scheme \<Rightarrow> 'a disk_scheme option" where
  "map_ezd bios drive sector slen s =
     (if (buf_track s = 0 \<or> sector = 0) \<and> ezd_marked (gmem s) BUFFERADDR then
        if buf_track s = 0 \<or> 2 \<le>s slen then
          Some (snd (grub_memmove BUFFERADDR (BUFFERADDR + sector_size (buf_geom s)) (sector_size (buf_geom s)) s))
        else
          do {
            (err, s) \<leftarrow> transfer bios BIOSDISK_READ drive 1 1 BUFFERSEG s;
            Some (if err \<noteq> 0 then s\<lparr>errnum := ERR_READ\<rparr> else s)
          }
      else Some s)"

definition note_read :: "u32 \<Rightarrow> u32 \<Rightarrow> u32 \<Rightarrow> 'a disk_scheme \<Rightarrow> 'a disk_scheme" where
  "note_read sector off len s = s\<lparr>reads_seen := (sector, off, len) # reads_seen s\<rparr>"

partial_function (option) note_rest :: "u32 \<Rightarrow> u32 \<Rightarrow> 'a disk_scheme \<Rightarrow> 'a disk_scheme option" where
  "note_rest sector len s =
     (if sector_size (buf_geom s) < len
      then note_rest (sector + 1) (len - sector_size (buf_geom s)) (note_read sector 0 (sector_size (buf_geom s)) s)
      else Some (note_read sector 0 len s))"

definition note_reads :: "u32 \<Rightarrow> u32 \<Rightarrow> u32 \<Rightarrow> 'a disk_scheme \<Rightarrow> 'a disk_scheme option" where
  "note_reads sector byte_offset nbytes s =
     (if disk_read_func s then
        let len = sector_size (buf_geom s) - byte_offset;
            len = (if nbytes <s len then nbytes else len);
            s = note_read sector byte_offset len s;
            len = nbytes - len
        in if 0 <s len then note_rest (sector + 1) len s else Some s
      else Some s)"

partial_function (option) rawread_loop :: "bios \<Rightarrow> u32 \<Rightarrow> u32 \<Rightarrow> u32 \<Rightarrow> u32 \<Rightarrow> u32 \<Rightarrow> 'a disk_scheme \<Rightarrow> (bool \<times> 'a disk_scheme) option" where
  "rawread_loop bios drive sector byte_offset byte_len buf s =
     (if 0 <s byte_len \<and> errnum s = ERR_NONE then
        let (known, s) = check_drive bios drive s in
        if \<not> known then Some (False, s)
        else if sector <s 0 \<or> total_sectors (buf_geom s) \<le> sector then Some (False, s\<lparr>errnum := ERR_GEOM\<rparr>)
        else
          let bits = log2 (sector_size (buf_geom s));
              slen = drop_bit bits (byte_offset + byte_len + sector_size (buf_geom s) - 1);
              spt = sectors_per_vtrack (buf_geom s)
          in if spt = 0 then None
             else
               let soff = c_mod sector spt;
                   track = sector - soff;
                   num_sect = spt - soff;
                   bufaddr = BUFFERADDR + push_bit bits soff + byte_offset
               in do {
                 (bufaddr, s) \<leftarrow> (if track \<noteq> buf_track s then
                     do {
                       (bufaddr, s) \<leftarrow> read_track bios drive sector byte_offset track slen num_sect bufaddr s;
                       s \<leftarrow> map_ezd bios drive sector slen s;
                       Some (bufaddr, s)
                     }
                   else Some (bufaddr, s));
                 let rest = push_bit bits num_sect - byte_offset;
                 let nbytes = (if rest <s byte_len then rest else byte_len);
                 s \<leftarrow> note_reads sector byte_offset nbytes s;
                 let s = snd (grub_memmove buf bufaddr nbytes s);
                 rawread_loop bios drive (sector + num_sect) 0 (byte_len - nbytes) (buf + nbytes) s
               }
      else Some (errnum s = ERR_NONE, s))"

definition rawread :: "bios \<Rightarrow> u32 \<Rightarrow> u32 \<Rightarrow> u32 \<Rightarrow> u32 \<Rightarrow> u32 \<Rightarrow> 'a disk_scheme \<Rightarrow> (bool \<times> 'a disk_scheme) option" where
  "rawread bios drive sector byte_offset byte_len buf s =
     (if byte_len \<le>s 0 then Some (True, s) else rawread_loop bios drive sector byte_offset byte_len buf s)"

text \<open>Relative to the open partition. The sector of the last byte is compared without a sign. The line that is printed
  in debug mode is left out.\<close>

definition devread :: "bios \<Rightarrow> u32 \<Rightarrow> u32 \<Rightarrow> u32 \<Rightarrow> u32 \<Rightarrow> 'a disk_scheme \<Rightarrow> (bool \<times> 'a disk_scheme) option" where
  "devread bios sector byte_offset byte_len buf s =
     (if sector <s 0 \<or> part_length s \<le> sector + signed_drop_bit 9 (byte_offset + byte_len - 1)
      then Some (False, s\<lparr>errnum := ERR_OUTSIDE_PART\<rparr>)
      else
        let sector = sector + signed_drop_bit 9 byte_offset;
            byte_offset = byte_offset AND (SECTOR_SIZE - 1)
        in rawread bios (current_drive s) (part_start s + sector) byte_offset byte_len buf s)"

section \<open>Writing\<close>

definition rawwrite :: "bios \<Rightarrow> u32 \<Rightarrow> u32 \<Rightarrow> u32 \<Rightarrow> 'a disk_scheme \<Rightarrow> (bool \<times> 'a disk_scheme) option" where
  "rawwrite bios drive sector buf s =
     do {
       (failed, sector, s) \<leftarrow> (if sector = 0 then
           do {
             (err, s) \<leftarrow> transfer bios BIOSDISK_READ drive 0 1 SCRATCHSEG s;
             Some (err \<noteq> 0, if ezd_marked (gmem s) SCRATCHADDR then 1 else sector, s)
           }
         else Some (False, sector, s));
       if failed then Some (False, s\<lparr>errnum := ERR_WRITE\<rparr>)
       else
         do {
           let s = snd (grub_memmove SCRATCHADDR buf SECTOR_SIZE s);
           (err, s) \<leftarrow> transfer bios BIOSDISK_WRITE drive sector 1 SCRATCHSEG s;
           if err \<noteq> 0 then Some (False, s\<lparr>errnum := ERR_WRITE\<rparr>)
           else if sectors (buf_geom s) = 0 then None
           else Some (True, if sector - sector mod sectors (buf_geom s) = buf_track s then s\<lparr>buf_track := -1\<rparr> else s)
         }
     }"

fun devwrite_loop :: "bios \<Rightarrow> nat \<Rightarrow> nat \<Rightarrow> u32 \<Rightarrow> u32 \<Rightarrow> 'a disk_scheme \<Rightarrow> (bool \<times> 'a disk_scheme) option" where
  "devwrite_loop bios i 0 sector buf s = Some (True, s)"
| "devwrite_loop bios i (Suc n) sector buf s =
     do {
       (ok, s) \<leftarrow> rawwrite bios (current_drive s) (part_start s + sector + of_nat i) (buf + push_bit 9 (of_nat i)) s;
       if \<not> ok then Some (False, s) else devwrite_loop bios (Suc i) n sector buf s
     }"

definition devwrite :: "bios \<Rightarrow> u32 \<Rightarrow> u32 \<Rightarrow> u32 \<Rightarrow> 'a disk_scheme \<Rightarrow> (bool \<times> 'a disk_scheme) option" where
  "devwrite bios sector sector_count buf s = devwrite_loop bios 0 (nat (sint sector_count)) sector buf s"

end
