(* ===== verification/Grub_Disk_Read.thy ===== *)
theory Grub_Disk_Read
  imports Grub_Disk
begin

text \<open>
  Reading through the track buffer: what a drive holds, what is expected of the BIOS, the invariant of the
  buffer, and \<open>rawread\<close> against the bytes of the drive.
\<close>

section \<open>Numbers\<close>

text \<open>Sectors have 512 or 2048 bytes, a track fits in the buffer, and the disk has whole tracks.\<close>

abbreviation ss :: "geometry \<Rightarrow> nat" where "ss g \<equiv> unat (sector_size g)"
abbreviation spt :: "geometry \<Rightarrow> nat" where "spt g \<equiv> unat (sectors g)"
abbreviation total :: "geometry \<Rightarrow> nat" where "total g \<equiv> unat (total_sectors g)"

definition geometry_ok :: "geometry \<Rightarrow> bool" where
  "geometry_ok g \<longleftrightarrow> (sector_size g = 512 \<or> sector_size g = 2048) \<and> 0 < spt g \<and> spt g * ss g \<le> 0x7e00
     \<and> spt g dvd total g \<and> total g < 2147483648 \<and> 0 < unat (heads g)
     \<and> (flags g AND 1 = 0 \<longrightarrow> total g \<le> unat (cylinders g) * unat (heads g) * spt g)"

lemma log2_values [simp]: "log2 512 = 9" "log2 2048 = 11"
  by (simp_all add: log2_def upt_rec)

lemma ss_values: "geometry_ok g \<Longrightarrow> ss g = 512 \<or> ss g = 2048"
  by (auto simp: geometry_ok_def)

lemma shift_up: "geometry_ok g \<Longrightarrow> push_bit (log2 (sector_size g)) (of_nat x :: u32) = of_nat (x * ss g)"
  by (auto simp: geometry_ok_def push_bit_eq_mult)

lemma shift_down:
  assumes "geometry_ok g" and "x < 4294967296"
  shows "drop_bit (log2 (sector_size g)) (of_nat x :: u32) = of_nat (x div ss g)"
proof -
  have "drop_bit k (of_nat x :: u32) = of_nat (x div 2 ^ k)" for k
  proof -
    have "unat (drop_bit k (of_nat x :: u32)) = x div 2 ^ k"
      unfolding unat_drop_bit_eq using assms(2) by (simp add: unat_of_nat_u32 drop_bit_eq_div)
    then show ?thesis using le_less_trans [OF div_le_dividend assms(2), of "2 ^ k"] by (simp only: word_unat_eq_iff unat_of_nat_u32)
  qed
  then show ?thesis using assms(1) by (auto simp: geometry_ok_def)
qed


lemma spt_bounds: "geometry_ok g \<Longrightarrow> 0 < spt g \<and> spt g \<le> 63"
  by (auto simp: geometry_ok_def)

lemma spv: "geometry_ok g \<Longrightarrow> sectors_per_vtrack g = of_nat (spt g)"
  using shift_up [of g "spt g"] unat_of_nat_u32 [of "spt g * ss g"]
  by (auto simp: sectors_per_vtrack_def geometry_ok_def BUFFERLEN_def word_less_nat_alt)

lemma c_mod_nat:
  assumes "m < 2147483648" and "n < 2147483648"
  shows "c_mod (of_nat m) (of_nat n) = of_nat (m mod n)"
proof -
  have "int m smod int n = int (m mod n)"
    by (simp add: signed_modulo_int_def signed_divide_int_def sgn_if minus_div_mult_eq_mod of_nat_mod)
  then show ?thesis unfolding c_mod_def sint_of_nat_u32 [OF assms(1)] sint_of_nat_u32 [OF assms(2)] by simp
qed

lemma of_nat_div_mod_u32:
  assumes "x < 4294967296"
  shows "(of_nat x :: u32) div w = of_nat (x div unat w)" and "(of_nat x :: u32) mod w = of_nat (x mod unat w)"
  using assms by (simp_all add: word_unat_eq_iff unat_mod unat_div unat_of_nat_u32 le_less_trans [OF div_le_dividend] le_less_trans [OF mod_less_eq_dividend])

section \<open>The drive\<close>

definition disk_bytes :: "(u32 \<Rightarrow> nat \<Rightarrow> u8) \<Rightarrow> u32 \<Rightarrow> nat \<Rightarrow> nat \<Rightarrow> u8 list" where
  "disk_bytes ds d a n = map (\<lambda>i. ds d (a + i)) [0..<n]"

lemma length_disk_bytes [simp]: "length (disk_bytes ds d a n) = n"
  by (simp add: disk_bytes_def)

lemma nth_disk_bytes [simp]: "i < n \<Longrightarrow> disk_bytes ds d a n ! i = ds d (a + i)"
  by (simp add: disk_bytes_def)

lemma disk_bytes_add: "disk_bytes ds d a (n + k) = disk_bytes ds d a n @ disk_bytes ds d (a + n) k"
  by (simp add: list_eq_iff_nth_eq nth_append)

text \<open>What is expected of the BIOS: a transfer of sectors that the drive has, within a track when they are given
  by cylinder, head and sector, succeeds and puts them at the segment.\<close>

definition bios_reads :: "bios \<Rightarrow> u32 \<Rightarrow> geometry \<Rightarrow> bool" where
  "bios_reads bios d g \<longleftrightarrow>
     (if flags g AND 1 \<noteq> 0 then
        \<forall>n seg b m ds. 0 < n \<longrightarrow> n \<le> 63 \<longrightarrow> b + n \<le> total g \<longrightarrow> seg < 65536 \<longrightarrow>
          int13_transfer bios 0x4200 d \<lparr>dap_length = 0x10, dap_reserved = 0, dap_blocks = of_nat n,
             dap_buffer = push_bit 16 (of_nat seg), dap_block = of_nat b\<rparr> (m, ds)
          = (0, write_bytes m (of_nat (16 * seg)) (disk_bytes ds d (b * ss g) (n * ss g)), ds)
      else
        \<forall>c h k n seg m ds. c < unat (cylinders g) \<longrightarrow> h < unat (heads g) \<longrightarrow> 0 < n \<longrightarrow> k + n \<le> spt g \<longrightarrow> seg < 65536 \<longrightarrow>
          biosdisk_standard bios 2 d (of_nat c) (of_nat h) (of_nat (Suc k)) (of_nat n) (of_nat seg) (m, ds)
          = (0, write_bytes m (of_nat (16 * seg)) (disk_bytes ds d (((c * unat (heads g) + h) * spt g + k) * ss g) (n * ss g)), ds))"

text \<open>The address by cylinder, head and sector that \<open>biosdisk\<close> computes.\<close>

lemma biosdisk_standard_at:
  fixes b :: nat and g :: geometry
  defines "c \<equiv> b div spt g div unat (heads g)" and "h \<equiv> b div spt g mod unat (heads g)" and "k \<equiv> b mod spt g"
  assumes "geometry_ok g" and "flags g AND 1 = 0" and "b < total g"
  shows "c < unat (cylinders g)" and "h < unat (heads g)" and "(c * unat (heads g) + h) * spt g + k = b"
    and "biosdisk_standard bios (read + 2) d (of_nat c) (of_nat h) (of_nat (Suc k)) n seg hw = (0, hw')
      \<Longrightarrow> biosdisk bios read d g (of_nat b) n seg hw = Some (0, g, hw')"
proof -
  have g: "0 < spt g" "0 < unat (heads g)" "total g < 2147483648" "total g \<le> unat (cylinders g) * unat (heads g) * spt g"
    using assms(4,5) by (auto simp: geometry_ok_def)
  have b: "b < 4294967296" using assms(6) g(3) by simp
  then have b': "b div spt g < 4294967296" by (rule le_less_trans [OF div_le_dividend])
  show c: "c < unat (cylinders g)" unfolding c_def div_mult2_eq [symmetric]
    using assms(6) g(4) by (intro less_mult_imp_div_less) (simp add: mult.commute mult.left_commute)
  show "h < unat (heads g)" using g(2) by (simp add: h_def)
  show "(c * unat (heads g) + h) * spt g + k = b" by (simp add: c_def h_def k_def)
  assume s: "biosdisk_standard bios (read + 2) d (of_nat c) (of_nat h) (of_nat (Suc k)) n seg hw = (0, hw')"
  have "\<not> cylinders g \<le> of_nat c" "sectors g \<noteq> 0" "heads g \<noteq> 0"
    using c g(1,2) b by (auto simp: c_def word_le_nat_alt unat_of_nat_u32 div_mult2_eq [symmetric] le_less_trans [OF div_le_dividend])
  then show "biosdisk bios read d g (of_nat b) n seg hw = Some (0, g, hw')"
    using s assms(5) b b'
    by (simp add: biosdisk_def biosdisk_chs_def biosdisk_numbers Let_def of_nat_div_mod_u32 add.commute c_def h_def k_def)
qed

lemma biosdisk_packet:
  assumes "flags g AND 1 \<noteq> 0" and "b < 2147483648" and "n \<le> 63"
    and "int13_transfer bios (push_bit 8 (read + 0x42)) d \<lparr>dap_length = 0x10, dap_reserved = 0, dap_blocks = of_nat n,
      dap_buffer = push_bit 16 seg, dap_block = of_nat b\<rparr> hw = (0, hw')"
  shows "biosdisk bios read d g (of_nat b) (of_nat n) seg hw = Some (0, g, hw')"
proof -
  have "(scast (of_nat b :: u32) :: 64 word) = of_nat b" "lo16 (of_nat n) = of_nat n"
    using assms(2,3) by (simp_all add: lo16_def signed_of_nat unsigned_of_nat take_bit_nat_eq_self signed_take_bit_int_eq_self)
  then show ?thesis using assms(1,4) by (simp add: biosdisk_def biosdisk_numbers)
qed

text \<open>The two ways of addressing agree on a request within a track.\<close>

lemma biosdisk_reads:
  assumes "geometry_ok g" and "bios_reads bios d g" and "0 < n" and "b mod spt g + n \<le> spt g" and "b + n \<le> total g" and "seg < 65536"
  shows "biosdisk bios BIOSDISK_READ d g (of_nat b) (of_nat n) (of_nat seg) (m, ds)
    = Some (0, g, write_bytes m (of_nat (16 * seg)) (disk_bytes ds d (b * ss g) (n * ss g)), ds)"
proof (cases "flags g AND 1 = 0")
  case True
  have "b < total g" using assms(3,5) by simp
  note at = biosdisk_standard_at [OF assms(1) True this]
  show ?thesis
    using True assms(2-4,6) at(1-3) by (intro at(4)) (simp add: bios_reads_def BIOSDISK_READ_def del: of_nat_Suc)
next
  case False
  have "b < 2147483648" "n \<le> 63" using assms(1,3-5) spt_bounds [of g] by (auto simp: geometry_ok_def)
  then show ?thesis
    using False assms(2,3,5,6) by (intro biosdisk_packet) (simp_all add: bios_reads_def BIOSDISK_READ_def)
qed

section \<open>The buffer\<close>

text \<open>The track in the buffer, if there is one, is what the drive holds.\<close>

definition holds_track :: "u32 \<Rightarrow> geometry \<Rightarrow> nat \<Rightarrow> 'a disk_scheme \<Rightarrow> bool" where
  "holds_track d g t s \<longleftrightarrow> read_bytes (gmem s) BUFFERADDR (spt g * ss g) = disk_bytes (drives s) d (t * ss g) (spt g * ss g)"

definition buffered :: "u32 \<Rightarrow> geometry \<Rightarrow> 'a disk_scheme \<Rightarrow> bool" where
  "buffered d g s \<longleftrightarrow> buf_drive s = d \<and> buf_geom s = g
     \<and> (\<forall>t < total g. spt g dvd t \<longrightarrow> buf_track s = of_nat t \<longrightarrow> holds_track d g t s)"

text \<open>No sector of the first track is marked as the partition table of an EZD disk.\<close>

definition not_ezd :: "(u32 \<Rightarrow> nat \<Rightarrow> u8) \<Rightarrow> u32 \<Rightarrow> geometry \<Rightarrow> bool" where
  "not_ezd ds d g \<longleftrightarrow> (\<forall>k < spt g. \<forall>i < 4. ds d (k * ss g + 450 + 16 * i) \<noteq> 0x55)"

text \<open>A destination that \<open>memcheck\<close> lets through.\<close>

definition room :: "u32 \<Rightarrow> nat \<Rightarrow> 'a grub_scheme \<Rightarrow> bool" where
  "room a n s \<longleftrightarrow> errnum s = ERR_NONE \<and>
     (0x1000 \<le> unat a \<and> unat a + n \<le> 0x100000 \<and> unat a + n \<le> unat (mem_lower s) * 1024 \<and> unat (mem_lower s) < 4194304
      \<or> 0x100000 \<le> unat a \<and> unat a + n \<le> 2147483648 \<and> unat a + n \<le> unat (mem_upper s) * 1024 + 0x100000 \<and> unat (mem_upper s) < 4194304)"

lemma room_bounds: "room a n s \<Longrightarrow> unat a + n \<le> 2147483648"
  by (auto simp: room_def)

lemma room_part:
  assumes "room a n s" and "k + l \<le> n" and "0 < l"
  shows "room (a + of_nat k) l s" and "unat (a + of_nat k) = unat a + k"
proof -
  show u: "unat (a + of_nat k) = unat a + k"
    using assms room_bounds [OF assms(1)] by (subst unat_add_lem [THEN iffD1]) (simp_all add: unat_of_nat_u32)
  show "room (a + of_nat k) l s" using assms unfolding room_def u by auto
qed

lemma room_memcheck:
  assumes "room a n s" and "0 < n"
  shows "memcheck a (of_nat n) s = (True, s)"
proof -
  have e: "errnum s = ERR_NONE" using assms(1) by (simp add: room_def)
  have u: "unat (a + of_nat n) = unat a + n" "sint a = int (unat a)"
    using assms room_bounds [OF assms(1)] sint_of_nat_u32 [of "unat a"] by (subst unat_add_lem [THEN iffD1], simp_all add: unat_of_nat_u32)
  have up: "unat (a - 0x100000 + of_nat n) = unat a - 0x100000 + n" if h: "0x100000 \<le> unat a"
  proof -
    have "unat (a - 0x100000) = unat a - 0x100000" using h by (subst unat_sub) (simp_all add: word_le_nat_alt)
    then show ?thesis using room_bounds [OF assms(1)] h by (subst unat_add_lem [THEN iffD1]) (simp_all add: unat_of_nat_u32)
  qed
  have "sint (0x1000 :: u32) = 0x1000" "sint (0x100000 :: u32) = 0x100000" by simp_all
  then have lt: "a <s 0x1000 \<longleftrightarrow> unat a < 0x1000" "a <s 0x100000 \<longleftrightarrow> unat a < 0x100000" "0x100000 \<le>s a \<longleftrightarrow> 0x100000 \<le> unat a"
    unfolding word_sless_alt word_sle_eq u(2) by linarith+
  have m: "unat (x * 1024) = unat x * 1024" if "unat x < 4194304" for x :: u32
    using that by (subst unat_mult_lem [THEN iffD1]) simp_all
  show ?thesis
  proof (cases "0x100000 \<le> unat a")
    case True
    then have "unat a + n \<le> unat (mem_upper s) * 1024 + 0x100000" "unat (mem_upper s) < 4194304"
      using assms by (auto simp: room_def)
    then show ?thesis using True e by (simp add: memcheck_def lt word_less_nat_alt up m)
  next
    case False
    then have "unat a + n \<le> unat (mem_lower s) * 1024" "unat (mem_lower s) < 4194304" "0x1000 \<le> unat a"
      using assms by (auto simp: room_def)
    then show ?thesis using False e by (simp add: memcheck_def lt u(1) word_less_nat_alt m)
  qed
qed

lemma room_move:
  assumes "room a n s" and "0 < n" and "unat b + n < 4294967296"
  shows "snd (grub_memmove a b (of_nat n) s) = s\<lparr>gmem := write_bytes (gmem s) a (read_bytes (gmem s) b n)\<rparr>"
proof -
  have "unat a + n < 4294967296" using room_bounds [OF assms(1)] by simp
  from rep_movsb_moves [OF this assms(3), of "gmem s"] show ?thesis
    using room_memcheck [OF assms(1,2)] by (cases "a < b") (simp_all add: grub_memmove_def Let_def)
qed

section \<open>One iteration\<close>

lemma read_bytes_slice:
  "i + n \<le> k \<Longrightarrow> read_bytes m (p + of_nat i) n = take n (drop i (read_bytes m p k))"
  by (intro nth_equalityI) (simp_all add: nth_read_bytes add.assoc)

lemma disk_bytes_slice: "i + n \<le> k \<Longrightarrow> take n (drop i (disk_bytes ds d a k)) = disk_bytes ds d (a + i) n"
  by (intro nth_equalityI) (simp_all add: add.assoc)

lemma note_rest_ends:
  "0 < sector_size (buf_geom s) \<Longrightarrow> \<exists>ev. note_rest sector len s = Some (s\<lparr>reads_seen := ev\<rparr>)"
proof (induction "unat len" arbitrary: sector len s rule: less_induct)
  case less
  show ?case
  proof (cases "sector_size (buf_geom s) < len")
    case True
    let ?s = "note_read sector 0 (sector_size (buf_geom s)) s"
    have "unat (len - sector_size (buf_geom s)) < unat len"
      using True less.prems by (simp add: unat_sub word_less_nat_alt word_le_nat_alt)
    from less.hyps [OF this, of ?s "sector + 1"] less.prems
    obtain ev where "note_rest (sector + 1) (len - sector_size (buf_geom s)) ?s = Some (?s\<lparr>reads_seen := ev\<rparr>)"
      by (auto simp: note_read_def)
    then show ?thesis using True by (subst note_rest.simps) (auto simp: note_read_def)
  next
    case False
    then show ?thesis by (subst note_rest.simps) (auto simp: note_read_def)
  qed
qed

lemma note_reads_ends:
  assumes "0 < sector_size (buf_geom s)"
  shows "\<exists>ev. note_reads sector byte_offset len s = Some (s\<lparr>reads_seen := ev\<rparr>)"
proof (cases "disk_read_func s")
  case True
  have e: "\<exists>ev. note_rest k l (note_read a b c s) = Some (s\<lparr>reads_seen := ev\<rparr>)" for k l a b c
    using note_rest_ends [of "note_read a b c s" k l] assms by (auto simp: note_read_def)
  have "\<exists>ev. note_read a b c s = s\<lparr>reads_seen := ev\<rparr>" for a b c by (auto simp: note_read_def)
  with e True show ?thesis by (auto simp: note_reads_def Let_def)
next
  case False
  then have "note_reads sector byte_offset len s = Some (s\<lparr>reads_seen := reads_seen s\<rparr>)" by (simp add: note_reads_def)
  then show ?thesis by blast
qed

lemma round_up_less: "0 < (k :: nat) \<Longrightarrow> n < (x + k - 1) div k \<longleftrightarrow> n * k < x"
  by (auto simp: less_eq_div_iff_mult_less_eq Suc_le_eq [symmetric])


lemma ezd_free:
  assumes "not_ezd ds d g" and "geometry_ok g" and "k < spt g" and "0 < n"
    and "\<And>i. i < n * ss g \<Longrightarrow> m (BUFFERADDR + of_nat i) = ds d (k * ss g + i)"
  shows "\<not> ezd_marked m BUFFERADDR"
proof -
  have "PC_SLICE_TYPE m BUFFERADDR i \<noteq> PC_SLICE_TYPE_EZD" if "i < 4" for i
  proof -
    have "450 + 16 * i < ss g" using that ss_values [OF assms(2)] by auto
    also have "ss g \<le> n * ss g" using assms(4) by simp
    finally have "m (BUFFERADDR + of_nat (450 + 16 * i)) = ds d (k * ss g + (450 + 16 * i))" by (rule assms(5))
    moreover have "ds d (k * ss g + 450 + 16 * i) \<noteq> 0x55" using assms(1,3) that by (simp add: not_ezd_def)
    ultimately show ?thesis by (simp add: PC_SLICE_TYPE_def PC_SLICE_TYPE_EZD_def add.assoc)
  qed
  from this [of 0] this [of 1] this [of 2] this [of 3] show ?thesis by (simp add: ezd_marked_def)
qed

text \<open>A transfer into the buffer.\<close>

lemma transfer_reads:
  assumes "geometry_ok g" and "bios_reads bios d g" and "0 < n" and "b mod spt g + n \<le> spt g" and "b + n \<le> total g" and "buf_geom s = g"
  shows "transfer bios BIOSDISK_READ d (of_nat b) (of_nat n) BUFFERSEG s
    = Some (0, s\<lparr>gmem := write_bytes (gmem s) BUFFERADDR (disk_bytes (drives s) d (b * ss g) (n * ss g))\<rparr>)"
  using biosdisk_reads [OF assms(1-5), of "0x7000" "gmem s" "drives s"] assms(6)
  by (simp add: transfer_def buffer_addresses)

lemma buffer_written:
  fixes ds :: "u32 \<Rightarrow> nat \<Rightarrow> u8" and d :: u32 and a :: nat and mm :: memory
  assumes "geometry_ok g" and "n \<le> spt g"
  defines "m \<equiv> write_bytes mm BUFFERADDR (disk_bytes ds d a (n * ss g))"
  shows "n * ss g \<le> 0x7e00" and "read_bytes m BUFFERADDR (n * ss g) = disk_bytes ds d a (n * ss g)"
    and "\<not> in_region x BUFFERADDR 0x7e00 \<Longrightarrow> m x = mm x"
    and "i < n * ss g \<Longrightarrow> m (BUFFERADDR + of_nat i) = ds d (a + i)"
proof -
  have "n * ss g \<le> spt g * ss g" using assms(2) by (rule mult_le_mono1)
  then show n: "n * ss g \<le> 0x7e00" using assms(1) by (auto simp: geometry_ok_def)
  show r: "read_bytes m BUFFERADDR (n * ss g) = disk_bytes ds d a (n * ss g)"
    using n read_write_bytes [of "disk_bytes ds d a (n * ss g)"] by (simp add: m_def)
  show "m x = mm x" if "\<not> in_region x BUFFERADDR 0x7e00"
    using that n in_region_mono by (auto simp: m_def intro!: write_bytes_outside)
  show "m (BUFFERADDR + of_nat i) = ds d (a + i)" if "i < n * ss g"
    using that r nth_read_bytes [OF that, of m BUFFERADDR] by simp
qed


text \<open>The numbers of an iteration: the track, the sector's place in it, and how many sectors it has from there.\<close>

lemma track_numbers:
  fixes sector :: nat and g :: geometry
  defines "t \<equiv> sector - sector mod spt g" and "soff \<equiv> sector mod spt g"
  defines "num \<equiv> spt g - soff"
  assumes "geometry_ok g" and "sector < total g"
  shows "sector = t + soff" and "soff < spt g" and "spt g dvd t" and "num + soff = spt g" and "0 < num"
    and "t + spt g \<le> total g" and "t < 2147483648" and "soff * ss g + num * ss g = spt g * ss g"
proof -
  have spt: "0 < spt g" "spt g dvd total g" "total g < 2147483648" using assms(4) by (auto simp: geometry_ok_def)
  show sec: "sector = t + soff" "soff < spt g" "spt g dvd t" "num + soff = spt g" "0 < num"
    using spt(1) by (simp_all add: t_def soff_def num_def minus_mod_eq_mult_div)
  show tt: "t + spt g \<le> total g"
  proof -
    obtain i k where i: "t = spt g * i" "total g = spt g * k" using sec(3) spt(2) by (elim dvdE)
    then have "spt g * i < spt g * k" using assms(5) sec(1) by linarith
    then have "i < k" by simp
    then have "spt g * Suc i \<le> spt g * k" by (intro mult_le_mono2) simp
    then show ?thesis using i by simp
  qed
  then show "t < 2147483648" using spt by simp
  show "soff * ss g + num * ss g = spt g * ss g" using sec(4) by (metis add.commute add_mult_distrib)
qed

lemma beyond_track:
  assumes "geometry_ok g" and "num \<le> spt g" and "off < ss g" and "len < 2147479552"
  shows "of_nat num <s (of_nat ((off + len + ss g - 1) div ss g) :: u32) \<longleftrightarrow> num * ss g < off + len"
proof -
  have "(off + len + ss g - 1) div ss g \<le> off + len + ss g - 1" by (rule div_le_dividend)
  then have "(off + len + ss g - 1) div ss g < 2147483648" using assms(3,4) ss_values [OF assms(1)] by auto
  moreover have "num < 2147483648" using assms(2) spt_bounds [OF assms(1)] by simp
  moreover have "0 < ss g" using ss_values [OF assms(1)] by auto
  ultimately show ?thesis using round_up_less [of "ss g" num "off + len"] by (simp add: of_nat_sless_u32)
qed

text \<open>A request that goes beyond the track loads only its part from the sector on; any other one loads the whole
  track.\<close>

lemma read_track_part:
  fixes sector off len :: nat and g :: geometry
  defines "t \<equiv> sector - sector mod spt g" and "num \<equiv> spt g - sector mod spt g"
  assumes "geometry_ok g" and "bios_reads bios d g" and "buf_geom s = g" and "sector < total g" and "off < ss g" and "len < 2147479552"
    and "num * ss g < off + len"
  shows "read_track bios d (of_nat sector) (of_nat off) (of_nat t) (of_nat ((off + len + ss g - 1) div ss g)) (of_nat num) bufaddr s
    = Some (BUFFERADDR + of_nat off, s\<lparr>gmem := write_bytes (gmem s) BUFFERADDR (disk_bytes (drives s) d (sector * ss g) (num * ss g)),
        buf_track := of_nat t\<rparr>)"
proof -
  note n = track_numbers [OF assms(3,6), folded t_def, folded assms(2)]
  have "num \<le> spt g" using n(4) by simp
  then have "of_nat num <s (of_nat ((off + len + ss g - 1) div ss g) :: u32)"
    using beyond_track [OF assms(3) _ assms(7,8)] assms(9) by simp
  moreover have "transfer bios BIOSDISK_READ d (of_nat sector) (of_nat num) BUFFERSEG s
      = Some (0, s\<lparr>gmem := write_bytes (gmem s) BUFFERADDR (disk_bytes (drives s) d (sector * ss g) (num * ss g))\<rparr>)"
  proof (rule transfer_reads [OF assms(3,4)])
    show "sector mod spt g + num \<le> spt g" using n(4) by simp
    show "sector + num \<le> total g" using n(1,4,6) by linarith
  qed (use n(5) assms(5) in simp_all)
  ultimately show ?thesis by (simp add: read_track_def)
qed

lemma read_track_whole:
  fixes sector off len :: nat and g :: geometry
  defines "t \<equiv> sector - sector mod spt g" and "num \<equiv> spt g - sector mod spt g"
  assumes "geometry_ok g" and "bios_reads bios d g" and "buf_geom s = g" and "sector < total g" and "off < ss g" and "len < 2147479552"
    and "\<not> num * ss g < off + len"
  shows "read_track bios d (of_nat sector) (of_nat off) (of_nat t) (of_nat ((off + len + ss g - 1) div ss g)) (of_nat num) bufaddr s
    = Some (bufaddr, s\<lparr>gmem := write_bytes (gmem s) BUFFERADDR (disk_bytes (drives s) d (t * ss g) (spt g * ss g)),
        buf_track := of_nat t\<rparr>)"
proof -
  note n = track_numbers [OF assms(3,6), folded t_def, folded assms(2)]
  have "num \<le> spt g" using n(4) by simp
  then have "\<not> of_nat num <s (of_nat ((off + len + ss g - 1) div ss g) :: u32)"
    using beyond_track [OF assms(3) _ assms(7,8)] assms(9) by simp
  moreover have "transfer bios BIOSDISK_READ d (of_nat t) (of_nat (spt g)) BUFFERSEG s
      = Some (0, s\<lparr>gmem := write_bytes (gmem s) BUFFERADDR (disk_bytes (drives s) d (t * ss g) (spt g * ss g))\<rparr>)"
    using n(2,3,6) assms(5) by (intro transfer_reads [OF assms(3,4)]) (simp_all add: dvd_eq_mod_eq_0)
  ultimately show ?thesis using assms(5) spv [OF assms(3)] by (simp add: read_track_def)
qed

lemma map_ezd_nothing:
  fixes sector t n :: nat
  assumes "geometry_ok g" and "(t = 0 \<or> sector = 0) \<longrightarrow> not_ezd (drives s) d g" and "(t = 0 \<or> sector = 0) \<longrightarrow> k < spt g"
    and "t < 2147483648" and "sector < 2147483648" and "0 < n" and "buf_track s = of_nat t"
    and "\<And>i. i < n * ss g \<Longrightarrow> gmem s (BUFFERADDR + of_nat i) = drives s d (k * ss g + i)"
  shows "map_ezd bios d (of_nat sector) slen s = Some s"
proof -
  have "(of_nat t :: u32) = 0 \<longleftrightarrow> t = 0" "(of_nat sector :: u32) = 0 \<longleftrightarrow> sector = 0"
    using assms(4,5) of_nat_u32_inj [of t 0] of_nat_u32_inj [of sector 0] by simp_all
  moreover have "\<not> ezd_marked (gmem s) BUFFERADDR" if "t = 0 \<or> sector = 0"
    using that assms(1-3,6,8) by (intro ezd_free [of "drives s" d g k n]) simp_all
  ultimately show ?thesis using assms(7) by (auto simp: map_ezd_def)
qed

text \<open>After the first half of an iteration the buffer has the bytes that are asked for, up to the end of the
  track; when no more is asked for, it has the whole track.\<close>

lemma get_track:
  fixes sector off len :: nat and g :: geometry
  defines "t \<equiv> sector - sector mod spt g" and "soff \<equiv> sector mod spt g"
  defines "num \<equiv> spt g - soff" and "slen \<equiv> (off + len + ss g - 1) div ss g"
  assumes g: "geometry_ok g" "bios_reads bios d g" "sector < spt g \<longrightarrow> not_ezd (drives s) d g"
    and s: "buf_geom s = g" "buf_track s = of_nat t \<longrightarrow> holds_track d g t s"
    and r: "sector < total g" "off < ss g" "0 < len" "len < 2147479552" "sector * ss g + off + len \<le> total g * ss g"
  shows "\<exists>m b. (if of_nat t \<noteq> buf_track s then
        do {
          (bufaddr, s) \<leftarrow> read_track bios d (of_nat sector) (of_nat off) (of_nat t) (of_nat slen) (of_nat num)
             (BUFFERADDR + of_nat (soff * ss g + off)) s;
          s \<leftarrow> map_ezd bios d (of_nat sector) (of_nat slen) s;
          Some (bufaddr, s)
        }
      else Some (BUFFERADDR + of_nat (soff * ss g + off), s)) = Some (BUFFERADDR + of_nat b, s\<lparr>gmem := m, buf_track := of_nat t\<rparr>)
    \<and> b + min len (num * ss g - off) \<le> 0x7e00
    \<and> read_bytes m (BUFFERADDR + of_nat b) (min len (num * ss g - off)) = disk_bytes (drives s) d (sector * ss g + off) (min len (num * ss g - off))
    \<and> (\<forall>a. \<not> in_region a BUFFERADDR 0x7e00 \<longrightarrow> m a = gmem s a)
    \<and> (len \<le> num * ss g - off \<longrightarrow> holds_track d g t (s\<lparr>gmem := m\<rparr>))"
proof -
  let ?n = "min len (num * ss g - off)"
  have spt: "0 < spt g" "spt g * ss g \<le> 0x7e00" "sector < 2147483648" using g(1) r(1) by (auto simp: geometry_ok_def)
  note sec = track_numbers [OF g(1) r(1), folded t_def, folded soff_def, folded num_def]
  have track: "soff * ss g + off + ?n \<le> spt g * ss g" using sec(8) r(2) sec(5) by (cases num) auto
  have slice: "read_bytes m (BUFFERADDR + of_nat (soff * ss g + off)) ?n = disk_bytes (drives s) d (sector * ss g + off) ?n"
    if "read_bytes m BUFFERADDR (spt g * ss g) = disk_bytes (drives s) d (t * ss g) (spt g * ss g)" for m
  proof -
    have "read_bytes m (BUFFERADDR + of_nat (soff * ss g + off)) ?n = disk_bytes (drives s) d (t * ss g + (soff * ss g + off)) ?n"
      using that track by (simp only: read_bytes_slice disk_bytes_slice)
    then show ?thesis unfolding sec(1) by (simp add: add_mult_distrib add.assoc)
  qed
  consider "of_nat t = buf_track s" | "of_nat t \<noteq> buf_track s" "num * ss g < off + len" | "of_nat t \<noteq> buf_track s" "\<not> num * ss g < off + len"
    by blast
  then show ?thesis
  proof cases
    case 1
    then have "holds_track d g t s" using s(2) by simp
    then show ?thesis
      using 1 slice [of "gmem s"] track spt(2) by (intro exI [of _ "gmem s"] exI [of _ "soff * ss g + off"]) (auto simp: holds_track_def)
  next
    case 2
    let ?m = "write_bytes (gmem s) BUFFERADDR (disk_bytes (drives s) d (sector * ss g) (num * ss g))"
    have "num \<le> spt g" using sec(4) by simp
    note w1 = buffer_written(1) [OF g(1) this]
      and w = buffer_written(2-4) [OF g(1) this, where mm = "gmem s" and ds = "drives s" and d = d and a = "sector * ss g"]
    have e: "map_ezd bios d (of_nat sector) (of_nat slen) (s\<lparr>gmem := ?m, buf_track := of_nat t\<rparr>) = Some (s\<lparr>gmem := ?m, buf_track := of_nat t\<rparr>)"
      using sec(1,2,5,7) w(3) g(3) spt by (intro map_ezd_nothing [OF g(1), of t sector _ d sector num]) auto
    have o: "off + ?n \<le> num * ss g" using sec(5) r(2) 2(2) by (cases num) auto
    have "read_bytes ?m (BUFFERADDR + of_nat off) ?n = disk_bytes (drives s) d (sector * ss g + off) ?n"
      using o w(1) by (simp only: read_bytes_slice disk_bytes_slice)
    moreover have "\<not> len \<le> num * ss g - off" using 2(2) o by simp
    ultimately show ?thesis
      using 2 o w1 w(2) e read_track_part [OF g(1,2) s(1) r(1,2,4), folded t_def, folded soff_def, folded num_def slen_def]
      by (intro exI [of _ ?m] exI [of _ off]) auto
  next
    case 3
    let ?m = "write_bytes (gmem s) BUFFERADDR (disk_bytes (drives s) d (t * ss g) (spt g * ss g))"
    note w = buffer_written(2-4) [OF g(1) order_refl, where mm = "gmem s" and ds = "drives s" and d = d and a = "t * ss g"]
    have e: "map_ezd bios d (of_nat sector) (of_nat slen) (s\<lparr>gmem := ?m, buf_track := of_nat t\<rparr>) = Some (s\<lparr>gmem := ?m, buf_track := of_nat t\<rparr>)"
      using sec(1,2,7) w(3) g(3) spt by (intro map_ezd_nothing [OF g(1), of t sector _ d t "spt g"]) auto
    show ?thesis
      using 3 slice [OF w(1)] w(1,2) e track spt(2) read_track_whole [OF g(1,2) s(1) r(1,2,4), folded t_def, folded soff_def, folded num_def slen_def]
      by (intro exI [of _ ?m] exI [of _ "soff * ss g + off"]) (auto simp: holds_track_def)
  qed
qed

section \<open>The loop\<close>

lemma rawread_step:
  fixes sector off len :: nat and g :: geometry
  defines "t \<equiv> sector - sector mod spt g" and "soff \<equiv> sector mod spt g"
  defines "num \<equiv> spt g - soff" and "slen \<equiv> (off + len + ss g - 1) div ss g"
  assumes g: "geometry_ok g" and s: "buf_drive s = d" "buf_geom s = g" "errnum s = ERR_NONE"
    and r: "sector < total g" "off < ss g" "0 < len" "len < 2147479552"
  shows "rawread_loop bios d (of_nat sector) (of_nat off) (of_nat len) buf s =
    do {
      (bufaddr, s) \<leftarrow> (if of_nat t \<noteq> buf_track s then
        do {
          (bufaddr, s) \<leftarrow> read_track bios d (of_nat sector) (of_nat off) (of_nat t) (of_nat slen) (of_nat num)
             (BUFFERADDR + of_nat (soff * ss g + off)) s;
          s \<leftarrow> map_ezd bios d (of_nat sector) (of_nat slen) s;
          Some (bufaddr, s)
        }
      else Some (BUFFERADDR + of_nat (soff * ss g + off), s));
      s \<leftarrow> note_reads (of_nat sector) (of_nat off) (of_nat (min len (num * ss g - off))) s;
      let s = snd (grub_memmove buf bufaddr (of_nat (min len (num * ss g - off))) s);
      rawread_loop bios d (of_nat sector + of_nat num) 0 (of_nat (len - min len (num * ss g - off))) (buf + of_nat (min len (num * ss g - off))) s
    }"
proof -
  have spt: "0 < spt g" "spt g \<le> 63" "total g < 2147483648" "0 < ss g" "ss g \<le> 2048" "spt g * ss g \<le> 0x7e00"
    using g spt_bounds [OF g] by (auto simp: geometry_ok_def)
  have soff: "soff < spt g" "soff \<le> sector" using spt(1) by (simp_all add: soff_def)
  have "num * ss g \<le> spt g * ss g" unfolding num_def by (rule mult_le_mono1) simp
  moreover have "off < num * ss g" using soff(1) r(2) by (cases num) (auto simp: num_def)
  ultimately have num: "off < num * ss g" "num * ss g < 2147483648" using spt(6) by linarith+
  have sector: "sector < 2147483648" using r(1) spt(3) by simp
  have c: "0 <s (of_nat len :: u32)" "\<not> of_nat sector <s (0 :: u32)" "\<not> total_sectors g \<le> of_nat sector" "sectors_per_vtrack g \<noteq> 0"
    using of_nat_sless_u32 [of 0 len] of_nat_sless_u32 [of sector 0] r(1,3,4) sector spv [OF g] spt(1)
    by (auto simp: word_le_nat_alt unat_of_nat_u32)
  have sl: "drop_bit (log2 (sector_size g)) (of_nat off + of_nat len + sector_size g - 1) = of_nat slen"
  proof -
    have "of_nat off + of_nat len + sector_size g - 1 = of_nat (off + len + ss g - 1)" using spt(4) by (simp add: of_nat_diff)
    moreover have "off + len + ss g - 1 < 4294967296" using r(2,4) spt(5) by simp
    ultimately show ?thesis unfolding slen_def by (simp only: shift_down [OF g])
  qed
  have so: "c_mod (of_nat sector) (sectors_per_vtrack g) = of_nat soff"
    using c_mod_nat [of sector "spt g"] sector spt(2) by (simp add: spv [OF g] soff_def)
  have tr: "of_nat sector - of_nat soff = (of_nat t :: u32)" "sectors_per_vtrack g - of_nat soff = of_nat num"
    using soff by (simp_all add: t_def num_def spv [OF g] of_nat_diff soff_def)
  have ba: "BUFFERADDR + push_bit (log2 (sector_size g)) (of_nat soff) + of_nat off = BUFFERADDR + of_nat (soff * ss g + off)"
    by (simp add: shift_up [OF g] add.assoc)
  have re: "push_bit (log2 (sector_size g)) (of_nat num) - of_nat off = (of_nat (num * ss g - off) :: u32)"
    using num(1) by (simp only: shift_up [OF g] of_nat_diff less_imp_le)
  have mi: "(if (of_nat (num * ss g - off) :: u32) <s of_nat len then of_nat (num * ss g - off) else of_nat len) = (of_nat (min len (num * ss g - off)) :: u32)"
    using of_nat_sless_u32 [of "num * ss g - off" len] num(2) r(4) by (simp add: min_def)
  have le: "(of_nat len - of_nat (min len (num * ss g - off)) :: u32) = of_nat (len - min len (num * ss g - off))"
    by (simp add: of_nat_diff)
  show ?thesis
    unfolding rawread_loop.simps [of bios d "of_nat sector" "of_nat off" "of_nat len" buf s] check_drive_def
    using c s by (simp add: Let_def sl so tr ba re mi le del: of_nat_add of_nat_mult of_nat_diff cong: if_cong)
qed


text \<open>The whole loop. A track that is in the buffer when it starts counts only if it is the one that is needed
  first.\<close>

lemma rawread_loop_reads:
  fixes sector off len :: nat and g :: geometry
  assumes g: "geometry_ok g" "bios_reads bios d g" "sector < spt g \<longrightarrow> not_ezd (drives s) d g"
    and s: "buf_drive s = d" "buf_geom s = g" "buf_track s = of_nat (sector - sector mod spt g) \<longrightarrow> holds_track d g (sector - sector mod spt g) s"
    and r: "off < ss g" "0 < len" "len < 2147479552" "sector * ss g + off + len \<le> total g * ss g"
    and b: "room buf len s" "disjoint_regions buf len BUFFERADDR 0x7e00"
  shows "\<exists>m tr ev. rawread_loop bios d (of_nat sector) (of_nat off) (of_nat len) buf s
      = Some (True, s\<lparr>gmem := m, buf_track := tr, reads_seen := ev\<rparr>)
    \<and> read_bytes m buf len = disk_bytes (drives s) d (sector * ss g + off) len
    \<and> (\<forall>a. \<not> in_region a buf len \<longrightarrow> \<not> in_region a BUFFERADDR 0x7e00 \<longrightarrow> m a = gmem s a)
    \<and> buffered d g (s\<lparr>gmem := m, buf_track := tr\<rparr>)"
  using g s r b
proof (induction len arbitrary: sector off buf s rule: less_induct)
  case (less len)
  note g = less.prems(1-3) and s = less.prems(4-6) and r = less.prems(7-10) and b = less.prems(11,12)
  define t soff num slen where "t = sector - sector mod spt g" and "soff = sector mod spt g"
    and "num = spt g - soff" and "slen = (off + len + ss g - 1) div ss g"
  note defs = t_def soff_def num_def slen_def
  let ?n = "min len (num * ss g - off)"
  have gg: "0 < spt g" "spt g * ss g \<le> 0x7e00" "spt g dvd total g" "total g < 2147483648" "0 < ss g"
    using g(1) by (auto simp: geometry_ok_def)
  have sec: "sector < total g"
  proof -
    have "sector * ss g < total g * ss g" using r(2,4) by linarith
    then show ?thesis by simp
  qed
  have e: "errnum s = ERR_NONE" using b(1) by (simp add: room_def)
  have soff: "sector = t + soff" "soff < spt g" "spt g dvd t" "soff + num = spt g" "0 < num"
    using gg(1) by (simp_all add: defs minus_mod_eq_mult_div)
  have n: "0 < ?n" using r(1,2) soff(5) by (cases num) auto
  have tb: "t < total g" "t + spt g < 4294967296" "total g < 4294967296"
    using sec soff(1) gg(4) spt_bounds [OF g(1)] by simp_all
  obtain m k where mk: "(if of_nat t \<noteq> buf_track s then
        do {
          (bufaddr, s) \<leftarrow> read_track bios d (of_nat sector) (of_nat off) (of_nat t) (of_nat slen) (of_nat num)
             (BUFFERADDR + of_nat (soff * ss g + off)) s;
          s \<leftarrow> map_ezd bios d (of_nat sector) (of_nat slen) s;
          Some (bufaddr, s)
        }
      else Some (BUFFERADDR + of_nat (soff * ss g + off), s)) = Some (BUFFERADDR + of_nat k, s\<lparr>gmem := m, buf_track := of_nat t\<rparr>)"
    "k + ?n \<le> 0x7e00" "read_bytes m (BUFFERADDR + of_nat k) ?n = disk_bytes (drives s) d (sector * ss g + off) ?n"
    "\<And>a. \<not> in_region a BUFFERADDR 0x7e00 \<Longrightarrow> m a = gmem s a" "len \<le> num * ss g - off \<Longrightarrow> holds_track d g t (s\<lparr>gmem := m\<rparr>)"
    using get_track [OF g s(2,3) sec r] unfolding defs by blast
  obtain ev where ev: "note_reads (of_nat sector) (of_nat off) (of_nat ?n) (s\<lparr>gmem := m, buf_track := of_nat t\<rparr>)
      = Some (s\<lparr>gmem := m, buf_track := of_nat t, reads_seen := ev\<rparr>)"
    using note_reads_ends [of "s\<lparr>gmem := m, buf_track := of_nat t\<rparr>" "of_nat sector" "of_nat off" "of_nat ?n"] s(2) gg(5)
    by (auto simp: word_less_nat_alt)
  let ?x = "disk_bytes (drives s) d (sector * ss g + off) ?n"
  let ?m = "write_bytes m buf ?x"
  let ?s = "s\<lparr>gmem := ?m, buf_track := of_nat t, reads_seen := ev\<rparr>"
  have rm: "room buf ?n (s\<lparr>gmem := m, buf_track := of_nat t, reads_seen := ev\<rparr>)" using b(1) by (auto simp: room_def)
  have "unat (BUFFERADDR + of_nat k) = 0x70000 + k"
    using mk(2) by (subst unat_add_lem [THEN iffD1]) (simp_all add: BUFFERADDR_def unat_of_nat_u32)
  then have mv: "snd (grub_memmove buf (BUFFERADDR + of_nat k) (of_nat ?n) (s\<lparr>gmem := m, buf_track := of_nat t, reads_seen := ev\<rparr>)) = ?s"
    using room_move [OF rm n] mk(2,3) by simp
  have step: "rawread_loop bios d (of_nat sector) (of_nat off) (of_nat len) buf s
      = rawread_loop bios d (of_nat sector + of_nat num) 0 (of_nat (len - ?n)) (buf + of_nat ?n) ?s"
    unfolding rawread_step [OF g(1) s(1,2) e sec r(1-3), folded t_def, folded soff_def, folded num_def slen_def] mk(1) using ev mv by simp
  have nl: "?n \<le> 4294967296" using r(3) by simp
  have out: "?m a = m a" if "\<not> in_region a buf ?n" for a using that nl by (simp add: write_bytes_outside)
  have apart: "\<not> in_region a buf len" if "in_region a BUFFERADDR 0x7e00" for a
    using b(2) that disjoint_regionsD disjoint_regions_sym by blast
  show ?case
  proof (cases "len \<le> num * ss g - off")
    case True
    then have n: "?n = len" by simp
    have "rawread_loop bios d (of_nat sector) (of_nat off) (of_nat len) buf s = Some (True, ?s)"
      unfolding step n by (subst rawread_loop.simps) (simp add: e)
    moreover have "read_bytes ?m buf len = disk_bytes (drives s) d (sector * ss g + off) len"
      using read_write_bytes [of ?x m buf] nl unfolding n by simp
    moreover have "?m a = gmem s a" if "\<not> in_region a buf len" "\<not> in_region a BUFFERADDR 0x7e00" for a
      using that out mk(4) unfolding n by simp
    moreover have "buffered d g (s\<lparr>gmem := ?m, buf_track := of_nat t\<rparr>)"
    proof -
      have "read_bytes ?m BUFFERADDR (spt g * ss g) = read_bytes m BUFFERADDR (spt g * ss g)"
        using gg(2) apart out in_region_mono unfolding n by (intro read_bytes_outside) (blast, simp)
      then have "holds_track d g t (s\<lparr>gmem := ?m, buf_track := of_nat t\<rparr>)"
        using mk(5) [OF True] by (simp add: holds_track_def)
      then show ?thesis using s(1,2) of_nat_u32_inj tb by (auto simp: buffered_def)
    qed
    ultimately show ?thesis by (intro exI [of _ ?m] exI [of _ "of_nat t"] exI [of _ ev]) auto
  next
    case False
    then have n': "?n = num * ss g - off" and less: "len - ?n < len" using n by simp_all
    have num: "off < num * ss g" "?n + off = num * ss g" using n n' by simp_all
    have next': "(sector + num) - (sector + num) mod spt g = t + spt g"
      using soff(1,3,4) by (simp add: add.assoc)
    have q: "(sector + num) * ss g = sector * ss g + off + ?n" using num(2) by (simp add: add_mult_distrib)
    have "(of_nat t :: u32) \<noteq> of_nat (t + spt g)" using of_nat_u32_inj [of t "t + spt g"] tb gg(1) by simp
    then have IH: "\<exists>m' tr ev'. rawread_loop bios d (of_nat (sector + num)) (of_nat 0) (of_nat (len - ?n)) (buf + of_nat ?n) ?s
        = Some (True, ?s\<lparr>gmem := m', buf_track := tr, reads_seen := ev'\<rparr>)
      \<and> read_bytes m' (buf + of_nat ?n) (len - ?n) = disk_bytes (drives ?s) d ((sector + num) * ss g + 0) (len - ?n)
      \<and> (\<forall>a. \<not> in_region a (buf + of_nat ?n) (len - ?n) \<longrightarrow> \<not> in_region a BUFFERADDR 0x7e00 \<longrightarrow> m' a = gmem ?s a)
      \<and> buffered d g (?s\<lparr>gmem := m', buf_track := tr\<rparr>)"
    proof (intro less.IH [OF less g(1,2)])
      show "room (buf + of_nat ?n) (len - ?n) ?s" using room_part [OF b(1), of ?n "len - ?n"] False by (simp add: room_def)
      show "disjoint_regions (buf + of_nat ?n) (len - ?n) BUFFERADDR 0x7e00"
        using b(2) r(3) by (intro disjoint_subregion) auto
      show "(sector + num) * ss g + 0 + (len - ?n) \<le> total g * ss g" unfolding q using r(4) by simp
    qed (use g s r(3) False n gg(5) in \<open>simp_all add: next' del: of_nat_add\<close>)
    then obtain m' tr ev' where IH: "rawread_loop bios d (of_nat (sector + num)) 0 (of_nat (len - ?n)) (buf + of_nat ?n) ?s
        = Some (True, ?s\<lparr>gmem := m', buf_track := tr, reads_seen := ev'\<rparr>)"
      "read_bytes m' (buf + of_nat ?n) (len - ?n) = disk_bytes (drives s) d (sector * ss g + off + ?n) (len - ?n)"
      "\<And>a. \<not> in_region a (buf + of_nat ?n) (len - ?n) \<Longrightarrow> \<not> in_region a BUFFERADDR 0x7e00 \<Longrightarrow> m' a = ?m a"
      "buffered d g (?s\<lparr>gmem := m', buf_track := tr\<rparr>)"
      unfolding q by auto
    have "read_bytes m' buf ?n = read_bytes ?m buf ?n"
    proof (rule read_bytes_outside [OF _ nl])
      fix a assume a: "in_region a buf ?n"
      then obtain i where i: "i < ?n" "a = buf + of_nat i" by (rule in_regionE)
      have "?n + (len - ?n) \<le> 4294967296" using r(3) by simp
      from not_in_region_before [OF i(1) this, of buf] have "\<not> in_region a (buf + of_nat ?n) (len - ?n)" unfolding i(2) .
      moreover have "in_region a buf len" using a by (rule in_region_mono) simp
      ultimately show "m' a = ?m a" using apart IH(3) by blast
    qed
    also have "\<dots> = ?x" using read_write_bytes [of ?x m buf] nl by simp
    finally have "read_bytes m' buf (?n + (len - ?n)) = disk_bytes (drives s) d (sector * ss g + off) (?n + (len - ?n))"
      unfolding read_bytes_add disk_bytes_add IH(2) by simp
    then have "read_bytes m' buf len = disk_bytes (drives s) d (sector * ss g + off) len" by simp
    moreover have "m' a = gmem s a" if a: "\<not> in_region a buf len" "\<not> in_region a BUFFERADDR 0x7e00" for a
    proof -
      have "\<not> in_region a (buf + of_nat ?n) (len - ?n)" "\<not> in_region a buf ?n"
        using a(1) in_region_sub [of a buf ?n "len - ?n" len] in_region_mono r(3) by auto
      then show ?thesis using IH(3) [OF _ a(2)] out mk(4) [OF a(2)] by simp
    qed
    moreover have "buffered d g (s\<lparr>gmem := m', buf_track := tr\<rparr>)" using IH(4) by (simp add: buffered_def holds_track_def)
    ultimately show ?thesis
      using IH(1) unfolding step by (intro exI [of _ m'] exI [of _ tr] exI [of _ ev']) (auto simp: s(2))
  qed
qed

end
