(* ===== verification/Grub_Disk_Props.thy ===== *)
theory Grub_Disk_Props
  imports Grub_Disk_Read
begin

text \<open>
  Properties of the sector access: a read gives what the drive holds and keeps the buffer right, a partition
  bounds what is read from it, writes and reads behave like an array of bytes; and two cases in which the
  buffer holds something else.
\<close>

section \<open>A whole read\<close>

text \<open>The buffered drive, or another one whose geometry the BIOS tells.\<close>

definition drive_known :: "bios \<Rightarrow> u32 \<Rightarrow> geometry \<Rightarrow> 'a disk_scheme \<Rightarrow> bool" where
  "drive_known bios d g s \<longleftrightarrow>
     (if buf_drive s = d then buffered d g s else get_diskinfo bios d (buf_geom s) s = (0, g, s))"

lemma of_nat_not_minus_1: "n < 2147483648 \<Longrightarrow> (of_nat n :: u32) \<noteq> -1"
proof
  assume n: "n < 2147483648" and "(of_nat n :: u32) = -1"
  then have "sint (of_nat n :: u32) = -1" by (simp only:) simp
  with n show False by (simp add: sint_of_nat_u32)
qed

lemma rawread_spec:
  fixes sector off len :: nat and g :: geometry
  assumes g: "geometry_ok g" "bios_reads bios d g" "sector < spt g \<longrightarrow> not_ezd (drives s) d g" and s: "drive_known bios d g s"
    and r: "off < ss g" "0 < len" "len < 2147479552" "sector * ss g + off + len \<le> total g * ss g"
    and b: "room buf len s" "disjoint_regions buf len BUFFERADDR 0x7e00"
  shows "\<exists>m tr ev. rawread bios d (of_nat sector) (of_nat off) (of_nat len) buf s
      = Some (True, s\<lparr>gmem := m, buf_drive := d, buf_track := tr, buf_geom := g, reads_seen := ev\<rparr>)
    \<and> read_bytes m buf len = disk_bytes (drives s) d (sector * ss g + off) len
    \<and> (\<forall>a. \<not> in_region a buf len \<longrightarrow> \<not> in_region a BUFFERADDR 0x7e00 \<longrightarrow> m a = gmem s a)
    \<and> buffered d g (s\<lparr>gmem := m, buf_drive := d, buf_track := tr, buf_geom := g\<rparr>)"
proof -
  have e: "errnum s = ERR_NONE" using b(1) by (simp add: room_def)
  have l: "0 <s (of_nat len :: u32)" "\<not> (of_nat len :: u32) \<le>s 0"
    using r(2,3) of_nat_sless_u32 [of 0 len] by (simp_all add: word_sle_eq word_sless_alt sint_of_nat_u32)
  define s1 where "s1 = (if buf_drive s = d then s else s\<lparr>buf_geom := g, buf_drive := d, buf_track := -1\<rparr>)"
  have c: "check_drive bios d s = (True, s1)" "check_drive bios d s1 = (True, s1)"
    using s by (auto simp: check_drive_def s1_def drive_known_def)
  have e1: "errnum s1 = errnum s" by (simp add: s1_def)
  have "rawread_loop bios d x y (of_nat len) buf s = rawread_loop bios d x y (of_nat len) buf s1" for x y
    by (subst (1 2) rawread_loop.simps) (simp add: l e e1 c)
  then have raw: "rawread bios d (of_nat sector) (of_nat off) (of_nat len) buf s = rawread_loop bios d (of_nat sector) (of_nat off) (of_nat len) buf s1"
    using l(2) by (simp add: rawread_def)
  have sec: "sector < total g"
  proof -
    have "sector * ss g < total g * ss g" using r(2,4) by linarith
    then show ?thesis by simp
  qed
  let ?t = "sector - sector mod spt g"
  have t: "?t < total g" "spt g dvd ?t"
    using sec diff_le_self [of sector "sector mod spt g"] by (linarith, simp add: minus_mod_eq_mult_div)
  have "?t < 2147483648" using t(1) g(1) by (simp add: geometry_ok_def)
  then have "(of_nat ?t :: u32) \<noteq> -1" by (rule of_nat_not_minus_1)
  then have s1: "buf_drive s1 = d" "buf_geom s1 = g" "buf_track s1 = of_nat ?t \<longrightarrow> holds_track d g ?t s1" "drives s1 = drives s" "gmem s1 = gmem s"
    "room buf len s1"
    using s t b(1) by (auto simp: s1_def drive_known_def buffered_def room_def)
  have d: "sector < spt g \<longrightarrow> not_ezd (drives s1) d g" using g(3) s1(4) by simp
  obtain m tr ev where m: "rawread_loop bios d (of_nat sector) (of_nat off) (of_nat len) buf s1 = Some (True, s1\<lparr>gmem := m, buf_track := tr, reads_seen := ev\<rparr>)"
    "read_bytes m buf len = disk_bytes (drives s) d (sector * ss g + off) len"
    "\<forall>a. \<not> in_region a buf len \<longrightarrow> \<not> in_region a BUFFERADDR 0x7e00 \<longrightarrow> m a = gmem s a"
    "buffered d g (s1\<lparr>gmem := m, buf_track := tr\<rparr>)"
    using rawread_loop_reads [OF g(1,2) d s1(1-3) r s1(6) b(2)] unfolding s1(4,5) by blast
  have "s1\<lparr>gmem := m, buf_track := tr, reads_seen := ev\<rparr> = s\<lparr>gmem := m, buf_drive := d, buf_track := tr, buf_geom := g, reads_seen := ev\<rparr>"
    using s by (auto simp: s1_def drive_known_def buffered_def)
  moreover have "buffered d g (s\<lparr>gmem := m, buf_drive := d, buf_track := tr, buf_geom := g\<rparr>)"
    using m(4) s1(4) by (simp add: buffered_def holds_track_def)
  ultimately show ?thesis unfolding raw m(1) using m(2,3) by blast
qed


text \<open>C6: \<open>rawread\<close> of a range on the drive, through whatever tracks, returns true with exactly the bytes of the
  drive in the caller's buffer; outside it and the track buffer memory does not change, and the track buffer
  holds what the drive holds again.\<close>

theorem rawread_reads:
  fixes sector off len :: nat and g :: geometry
  assumes "geometry_ok g" and "bios_reads bios d g" and "sector < spt g \<longrightarrow> not_ezd (drives s) d g" and "drive_known bios d g s"
    and "off < ss g" and "0 < len" and "len < 2147479552" and "sector * ss g + off + len \<le> total g * ss g"
    and "room buf len s" and "disjoint_regions buf len BUFFERADDR 0x7e00"
  shows "\<exists>s'. rawread bios d (of_nat sector) (of_nat off) (of_nat len) buf s = Some (True, s')
    \<and> read_bytes (gmem s') buf len = disk_bytes (drives s) d (sector * ss g + off) len
    \<and> (\<forall>a. \<not> in_region a buf len \<longrightarrow> \<not> in_region a BUFFERADDR 0x7e00 \<longrightarrow> gmem s' a = gmem s a)
    \<and> drives s' = drives s \<and> buffered d g s'"
  using rawread_spec [OF assms] by (auto simp: buffered_def holds_track_def)

section \<open>Partitions\<close>

lemma signed_shift_9:
  assumes "n < 2147483648"
  shows "signed_drop_bit 9 (of_nat n :: u32) = of_nat (n div 512)"
proof -
  have "n div 512 < 2147483648" using assms by simp
  then have "sint (of_nat (n div 512) :: u32) = int (n div 512)" by (rule sint_of_nat_u32)
  moreover have "sint (signed_drop_bit 9 (of_nat n :: u32)) = int (n div 512)"
    unfolding sint_signed_drop_bit_eq sint_of_nat_u32 [OF assms] by (simp add: drop_bit_eq_div zdiv_int)
  ultimately have "(word_of_int (sint (signed_drop_bit 9 (of_nat n :: u32))) :: u32) = word_of_int (sint (of_nat (n div 512) :: u32))"
    by simp
  then show ?thesis by (simp only: of_int_sint scast_id)
qed

lemma sector_offset:
  assumes "n < 4294967296"
  shows "of_nat n AND (SECTOR_SIZE - 1) = (of_nat (n mod 512) :: u32)"
proof -
  have "of_nat n AND mask 9 = (of_nat n :: u32) mod 512" by (simp add: take_bit_eq_mask [symmetric] take_bit_eq_mod)
  then show ?thesis using of_nat_div_mod_u32(2) [OF assms, of 512] by (simp add: SECTOR_SIZE_def mask_eq_exp_minus_1)
qed

lemma block_limit: "0 < l \<Longrightarrow> n \<le> (k :: nat) + (l - 1) div 512 \<longleftrightarrow> n * 512 < k * 512 + l"
  using less_eq_div_iff_mult_less_eq [of 512 "n - k" "l - 1"] by (simp add: diff_mult_distrib) linarith

lemma devread_outside:
  fixes sector off len n :: nat
  assumes "part_length s = of_nat n" and "n < 2147483648" and "sector < 2147483648" and "0 < len" and "off + len < 2147483648"
  shows "of_nat sector <s (0 :: u32) \<or> part_length s \<le> of_nat sector + signed_drop_bit 9 (of_nat off + of_nat len - 1)
    \<longleftrightarrow> n * 512 < sector * 512 + off + len"
proof -
  have e: "of_nat off + of_nat len - 1 = (of_nat (off + len - 1) :: u32)" using assms(4) by (simp add: of_nat_diff)
  have sd: "signed_drop_bit 9 (of_nat off + of_nat len - 1) = (of_nat ((off + len - 1) div 512) :: u32)"
    unfolding e using assms(5) by (intro signed_shift_9) simp
  have "\<not> of_nat sector <s (0 :: u32)" using assms(3) of_nat_sless_u32 [of sector 0] by simp
  moreover have "part_length s \<le> of_nat sector + of_nat ((off + len - 1) div 512) \<longleftrightarrow> n \<le> sector + (off + len - 1) div 512"
  proof -
    have "(off + len - 1) div 512 < 2147483648" using assms(5) by simp
    then have "unat (of_nat (sector + (off + len - 1) div 512) :: u32) = sector + (off + len - 1) div 512"
      using assms(3) by (intro unat_of_nat_u32) simp
    then show ?thesis using assms(2) by (simp add: assms(1) word_le_nat_alt unat_of_nat_u32)
  qed
  moreover have "n \<le> sector + (off + len - 1) div 512 \<longleftrightarrow> n * 512 < sector * 512 + off + len" using assms(4) block_limit [of "off + len" n sector] by (simp add: add.assoc)
  ultimately show ?thesis unfolding sd by simp
qed

lemma devread_spec:
  fixes sector off len start n :: nat and g :: geometry
  assumes "geometry_ok g" and "bios_reads bios (current_drive s) g" and "not_ezd (drives s) (current_drive s) g"
    and "drive_known bios (current_drive s) g s" and "sector_size g = 512"
    and "part_start s = of_nat start" and "part_length s = of_nat n" and "start + n \<le> total g"
    and "sector < 2147483648" and "0 < len" and "off + len < 2147479552"
    and "room buf len s" and "disjoint_regions buf len BUFFERADDR 0x7e00"
  shows "if sector * 512 + off + len \<le> n * 512
    then \<exists>m tr ev. devread bios (of_nat sector) (of_nat off) (of_nat len) buf s
        = Some (True, s\<lparr>gmem := m, buf_drive := current_drive s, buf_track := tr, buf_geom := g, reads_seen := ev\<rparr>)
      \<and> read_bytes m buf len = disk_bytes (drives s) (current_drive s) ((start + sector) * 512 + off) len
      \<and> (\<forall>a. \<not> in_region a buf len \<longrightarrow> \<not> in_region a BUFFERADDR 0x7e00 \<longrightarrow> m a = gmem s a)
      \<and> buffered (current_drive s) g (s\<lparr>gmem := m, buf_drive := current_drive s, buf_track := tr, buf_geom := g\<rparr>)
    else devread bios (of_nat sector) (of_nat off) (of_nat len) buf s = Some (False, s\<lparr>errnum := ERR_OUTSIDE_PART\<rparr>)"
proof -
  have n: "n < 2147483648" using assms(1,8) by (simp add: geometry_ok_def)
  have l: "off + len < 2147483648" "off < 2147483648" using assms(11) by simp_all
  note out = devread_outside [OF assms(7) n assms(9,10) l(1)]
  show ?thesis
  proof (cases "sector * 512 + off + len \<le> n * 512")
    case False
    then show ?thesis using out by (simp add: devread_def)
  next
    case True
    let ?b = "start + sector + off div 512" and ?o = "off mod 512"
    have m: "of_nat off AND (SECTOR_SIZE - 1) = (of_nat ?o :: u32)" using l(2) by (intro sector_offset) simp
    have p: "?b * 512 + ?o = (start + sector) * 512 + off" by (simp add: add_mult_distrib)
    have dev: "devread bios (of_nat sector) (of_nat off) (of_nat len) buf s
        = rawread bios (current_drive s) (of_nat ?b) (of_nat ?o) (of_nat len) buf s"
      using True out l(2) by (simp add: devread_def m assms(6) signed_shift_9 Let_def add.assoc)
    have "?b * ss g + ?o + len \<le> total g * ss g" using p True assms(5,8) by simp
    from rawread_spec [OF assms(1,2) _ assms(4) _ assms(10) _ this assms(12,13)] show ?thesis
      using True p assms(3,5,11) unfolding dev by (auto simp: add.commute [of off])
  qed
qed

text \<open>C7: \<open>devread\<close> never reads beyond the open partition: a range within it is read from the drive, at the
  partition's start, and any other range is refused with the error \<open>ERR_OUTSIDE_PART\<close> and nothing read.\<close>

theorem devread_partition:
  fixes sector off len start n :: nat and g :: geometry
  assumes "geometry_ok g" and "bios_reads bios (current_drive s) g" and "not_ezd (drives s) (current_drive s) g"
    and "drive_known bios (current_drive s) g s" and "sector_size g = 512"
    and "part_start s = of_nat start" and "part_length s = of_nat n" and "start + n \<le> total g"
    and "sector < 2147483648" and "0 < len" and "off + len < 2147479552"
    and "room buf len s" and "disjoint_regions buf len BUFFERADDR 0x7e00"
  shows "if sector * 512 + off + len \<le> n * 512
    then \<exists>s'. devread bios (of_nat sector) (of_nat off) (of_nat len) buf s = Some (True, s')
      \<and> read_bytes (gmem s') buf len = disk_bytes (drives s) (current_drive s) ((start + sector) * 512 + off) len
      \<and> (\<forall>a. \<not> in_region a buf len \<longrightarrow> \<not> in_region a BUFFERADDR 0x7e00 \<longrightarrow> gmem s' a = gmem s a)
      \<and> buffered (current_drive s) g s'
    else devread bios (of_nat sector) (of_nat off) (of_nat len) buf s = Some (False, s\<lparr>errnum := ERR_OUTSIDE_PART\<rparr>)"
  using devread_spec [OF assms] by (fastforce simp: buffered_def holds_track_def split: if_splits simp del: read_bytes.simps)

end
