(* ===== verification/Grub_Disk_Write.thy ===== *)
theory Grub_Disk_Write
  imports Grub_Disk_Props
begin

text \<open>
  Writing sectors, and any sequence of reads and writes: the drive and its track buffer together behave like
  an array of bytes.
\<close>

section \<open>A write\<close>

definition disk_write :: "(u32 \<Rightarrow> nat \<Rightarrow> u8) \<Rightarrow> u32 \<Rightarrow> nat \<Rightarrow> u8 list \<Rightarrow> u32 \<Rightarrow> nat \<Rightarrow> u8" where
  "disk_write ds d a bs = ds(d := \<lambda>i. if a \<le> i \<and> i < a + length bs then bs ! (i - a) else ds d i)"

text \<open>What is expected of the BIOS: one sector that the drive has is written from the segment.\<close>

definition bios_writes :: "bios \<Rightarrow> u32 \<Rightarrow> geometry \<Rightarrow> bool" where
  "bios_writes bios d g \<longleftrightarrow>
     (if flags g AND 1 \<noteq> 0 then
        \<forall>seg b m ds. b < total g \<longrightarrow> seg < 65536 \<longrightarrow>
          int13_transfer bios 0x4300 d \<lparr>dap_length = 0x10, dap_reserved = 0, dap_blocks = 1,
             dap_buffer = push_bit 16 (of_nat seg), dap_block = of_nat b\<rparr> (m, ds)
          = (0, m, disk_write ds d (b * ss g) (read_bytes m (of_nat (16 * seg)) (ss g)))
      else
        \<forall>c h k seg m ds. c < unat (cylinders g) \<longrightarrow> h < unat (heads g) \<longrightarrow> k < spt g \<longrightarrow> seg < 65536 \<longrightarrow>
          biosdisk_standard bios 3 d (of_nat c) (of_nat h) (of_nat (Suc k)) 1 (of_nat seg) (m, ds)
          = (0, m, disk_write ds d (((c * unat (heads g) + h) * spt g + k) * ss g) (read_bytes m (of_nat (16 * seg)) (ss g))))"

lemma biosdisk_writes:
  assumes "geometry_ok g" and "bios_writes bios d g" and "b < total g" and "seg < 65536"
  shows "biosdisk bios BIOSDISK_WRITE d g (of_nat b) 1 (of_nat seg) (m, ds)
    = Some (0, g, m, disk_write ds d (b * ss g) (read_bytes m (of_nat (16 * seg)) (ss g)))"
proof (cases "flags g AND 1 = 0")
  case True
  have k: "b mod spt g < spt g" using assms(1) by (simp add: geometry_ok_def)
  note at = biosdisk_standard_at [OF assms(1) True assms(3)]
  show ?thesis
    using True assms(2,4) at(1-3) k by (intro at(4)) (simp add: bios_writes_def BIOSDISK_WRITE_def del: of_nat_Suc)
next
  case False
  have "b < 2147483648" using assms(1,3) by (simp add: geometry_ok_def)
  then show ?thesis
    using False assms(2-4) biosdisk_packet [of g b 1 bios BIOSDISK_WRITE d "of_nat seg" "(m, ds)"]
    by (simp add: bios_writes_def BIOSDISK_WRITE_def)
qed

text \<open>A sector without the mark of an EZD disk.\<close>

definition unmarked :: "u8 list \<Rightarrow> bool" where
  "unmarked bs \<longleftrightarrow> (\<forall>i < 4. bs ! (450 + 16 * i) \<noteq> 0x55)"

lemma disk_write_same: "i < length bs \<Longrightarrow> disk_write ds d a bs d (a + i) = bs ! i"
  by (simp add: disk_write_def)

lemma disk_write_outside: "e \<noteq> d \<or> i < a \<or> a + length bs \<le> i \<Longrightarrow> disk_write ds d a bs e i = ds e i"
  by (auto simp: disk_write_def)

lemma disk_bytes_write_other:
  assumes "b + n \<le> a \<or> a + length bs \<le> b"
  shows "disk_bytes (disk_write ds d a bs) d b n = disk_bytes ds d b n"
  using assms by (auto simp: list_eq_iff_nth_eq disk_write_outside)

text \<open>\<open>rawwrite\<close> of a sector of 512 bytes.\<close>

lemma rawwrite_spec:
  assumes g: "geometry_ok g" "bios_reads bios d g" "bios_writes bios d g" "not_ezd (drives s) d g" "sector_size g = 512"
    and s: "buf_geom s = g" and r: "sector < total g"
    and b: "room SCRATCHADDR 512 s" "unat buf + 512 < 4294967296" "disjoint_regions buf 512 SCRATCHADDR 512"
  defines "bs \<equiv> read_bytes (gmem s) buf 512"
  shows "\<exists>m. rawwrite bios d (of_nat sector) buf s = Some (True, s\<lparr>gmem := m, drives := disk_write (drives s) d (sector * 512) bs,
      buf_track := (if of_nat (sector - sector mod spt g) = buf_track s then -1 else buf_track s)\<rparr>)
    \<and> (\<forall>a. \<not> in_region a SCRATCHADDR 512 \<longrightarrow> m a = gmem s a)"
proof -
  have gg: "0 < spt g" "ss g = 512" "0 < total g" "sector < 4294967296"
    using g(1,5) r by (auto simp: geometry_ok_def)
  have seg: "SCRATCHSEG = of_nat 0x77e0" "SCRATCHADDR = of_nat (16 * 0x77e0)" by (simp_all add: buffer_addresses)
  have fst: "\<exists>m0. (if (of_nat sector :: u32) = 0 then
           do {
             (err, s) \<leftarrow> transfer bios BIOSDISK_READ d 0 1 SCRATCHSEG s;
             Some (err \<noteq> 0, if ezd_marked (gmem s) SCRATCHADDR then 1 else of_nat sector, s)
           }
         else Some (False, of_nat sector, s)) = Some (False, of_nat sector :: u32, s\<lparr>gmem := m0\<rparr>) \<and> (\<forall>a. \<not> in_region a SCRATCHADDR 512 \<longrightarrow> m0 a = gmem s a)"
  proof (cases "sector = 0")
    case True
    let ?m = "write_bytes (gmem s) SCRATCHADDR (disk_bytes (drives s) d 0 512)"
    have "biosdisk bios BIOSDISK_READ d g (of_nat 0) (of_nat 1) (of_nat 0x77e0) (gmem s, drives s)
        = Some (0, g, ?m, drives s)"
      unfolding seg(2) using biosdisk_reads [OF g(1,2), of 1 0 "0x77e0" "gmem s" "drives s"] gg by simp
    then have t: "transfer bios BIOSDISK_READ d 0 1 SCRATCHSEG s = Some (0, s\<lparr>gmem := ?m\<rparr>)"
      using s by (simp add: transfer_def seg(1))
    have "PC_SLICE_TYPE ?m SCRATCHADDR i \<noteq> PC_SLICE_TYPE_EZD" if "i < 4" for i
    proof -
      have "450 + 16 * i < 512" using that by simp
      then have "?m (SCRATCHADDR + of_nat (450 + 16 * i)) = drives s d (450 + 16 * i)"
        using read_write_bytes [of "disk_bytes (drives s) d 0 512" "gmem s" SCRATCHADDR] nth_read_bytes [of "450 + 16 * i" 512 ?m SCRATCHADDR]
        by simp
      moreover have "drives s d (0 * ss g + 450 + 16 * i) \<noteq> 0x55" using g(4) gg(1) that unfolding not_ezd_def by blast
      ultimately show ?thesis by (simp add: PC_SLICE_TYPE_def PC_SLICE_TYPE_EZD_def add.assoc)
    qed
    from this [of 0] this [of 1] this [of 2] this [of 3] have "\<not> ezd_marked ?m SCRATCHADDR" by (simp add: ezd_marked_def)
    moreover have "?m a = gmem s a" if "\<not> in_region a SCRATCHADDR 512" for a
      using that by (simp add: write_bytes_outside)
    ultimately show ?thesis using True t by (intro exI [of _ ?m]) simp
  next
    case False
    then have "(of_nat sector :: u32) \<noteq> 0" using of_nat_u32_inj [of sector 0] gg(4) by simp
    then show ?thesis by (intro exI [of _ "gmem s"]) simp
  qed
  then obtain m0 where m0: "(if (of_nat sector :: u32) = 0 then
           do {
             (err, s) \<leftarrow> transfer bios BIOSDISK_READ d 0 1 SCRATCHSEG s;
             Some (err \<noteq> 0, if ezd_marked (gmem s) SCRATCHADDR then 1 else of_nat sector, s)
           }
         else Some (False, of_nat sector, s)) = Some (False, of_nat sector :: u32, s\<lparr>gmem := m0\<rparr>)"
    "\<And>a. \<not> in_region a SCRATCHADDR 512 \<Longrightarrow> m0 a = gmem s a" by blast
  have bs: "read_bytes m0 buf 512 = bs"
    unfolding bs_def using b(3) m0(2) by (intro read_bytes_outside) (auto dest: disjoint_regionsD)
  let ?m = "write_bytes m0 SCRATCHADDR bs"
  have "room SCRATCHADDR 512 (s\<lparr>gmem := m0\<rparr>)" using b(1) by (simp add: room_def)
  from room_move [OF this _ b(2)] have mv: "snd (grub_memmove SCRATCHADDR buf SECTOR_SIZE (s\<lparr>gmem := m0\<rparr>)) = s\<lparr>gmem := ?m\<rparr>"
    by (simp add: SECTOR_SIZE_def bs del: read_bytes.simps)
  have l: "length bs = 512" by (simp add: bs_def)
  have "read_bytes ?m SCRATCHADDR 512 = bs" using read_write_bytes [of bs m0 SCRATCHADDR] l by simp
  then have "biosdisk bios BIOSDISK_WRITE d g (of_nat sector) 1 (of_nat 0x77e0) (?m, drives s)
      = Some (0, g, ?m, disk_write (drives s) d (sector * 512) bs)"
    using biosdisk_writes [OF g(1,3) r, of "0x77e0" ?m "drives s"] unfolding seg(2) gg(2) by simp
  then have t: "transfer bios BIOSDISK_WRITE d (of_nat sector) 1 SCRATCHSEG (s\<lparr>gmem := ?m\<rparr>)
      = Some (0, s\<lparr>gmem := ?m, drives := disk_write (drives s) d (sector * 512) bs\<rparr>)"
    using s by (simp add: transfer_def seg(1))
  have k: "of_nat sector - of_nat sector mod sectors g = (of_nat (sector - sector mod spt g) :: u32)"
    using of_nat_div_mod_u32(2) [OF gg(4), of "sectors g"] by (simp add: of_nat_diff)
  have z: "sectors g \<noteq> 0" using gg(1) by auto
  have "?m a = gmem s a" if "\<not> in_region a SCRATCHADDR 512" for a
    using that m0(2) l by (simp add: write_bytes_outside)
  moreover have "rawwrite bios d (of_nat sector) buf s = Some (True, s\<lparr>gmem := ?m, drives := disk_write (drives s) d (sector * 512) bs,
      buf_track := (if of_nat (sector - sector mod spt g) = buf_track s then -1 else buf_track s)\<rparr>)"
    unfolding rawwrite_def m0(1) using mv t k z s by simp
  ultimately show ?thesis by blast
qed

end
