(* ===== verification/Grub_Disk_Session.thy ===== *)
theory Grub_Disk_Session
  imports Grub_Disk_Write
begin

text \<open>
  Any sequence of reads and writes: the drive with its track buffer behaves like an array of bytes.
\<close>

section \<open>The invariant after a write\<close>

lemma buffered_after_write:
  assumes g: "geometry_ok g" "ss g = 512" and s: "buffered d g s" and r: "sector < total g" and l: "length bs = 512"
    and m: "\<And>a. \<not> in_region a SCRATCHADDR 512 \<Longrightarrow> m a = gmem s a"
  shows "buffered d g (s\<lparr>gmem := m, drives := disk_write (drives s) d (sector * 512) bs,
      buf_track := (if of_nat (sector - sector mod spt g) = buf_track s then -1 else buf_track s)\<rparr>)"
proof -
  let ?t = "sector - sector mod spt g"
  have gg: "0 < spt g" "spt g * 512 \<le> 0x7e00" "total g < 2147483648" using g by (auto simp: geometry_ok_def)
  have "holds_track d g t (s\<lparr>gmem := m, drives := disk_write (drives s) d (sector * 512) bs, buf_track := x\<rparr>)"
    if t: "t < total g" "spt g dvd t" "buf_track s = of_nat t" "of_nat ?t \<noteq> buf_track s" for t x
  proof -
    have "t \<noteq> ?t" using t(3,4) by auto
    moreover have "sector \<notin> {t..<t + spt g}"
    proof
      assume "sector \<in> {t..<t + spt g}"
      then obtain i where "sector = t + i" "i < spt g" by (auto simp: le_iff_add)
      with t(2) have "sector mod spt g = i" by (auto elim!: dvdE)
      then have "?t = t" using \<open>sector = t + i\<close> by simp
      with \<open>t \<noteq> ?t\<close> show False by simp
    qed
    then have "t * 512 + spt g * 512 \<le> sector * 512 \<or> sector * 512 + 512 \<le> t * 512" by auto
    then have "disk_bytes (disk_write (drives s) d (sector * 512) bs) d (t * 512) (spt g * 512) = disk_bytes (drives s) d (t * 512) (spt g * 512)"
      by (intro disk_bytes_write_other) (simp add: l)
    moreover have "read_bytes m BUFFERADDR (spt g * 512) = read_bytes (gmem s) BUFFERADDR (spt g * 512)"
    proof (rule read_bytes_outside)
      fix a assume "in_region a BUFFERADDR (spt g * 512)"
      then have "unat (a - 0x70000) < 0x7e00" using gg(2) by (simp add: in_region_def BUFFERADDR_def)
      then have "\<not> in_region a SCRATCHADDR 512" by (auto simp: in_region_def SCRATCHADDR_def unat_minus_u32 split: if_splits)
      then show "m a = gmem s a" by (rule m)
    qed (use gg(2) in simp)
    ultimately show ?thesis using s t by (simp add: buffered_def holds_track_def g(2))
  qed
  moreover have "(-1 :: u32) \<noteq> of_nat t" if "t < total g" for t using that gg(3) by (intro of_nat_not_minus_1 [THEN not_sym]) simp
  ultimately show ?thesis using s by (auto simp: buffered_def split: if_splits)
qed

lemma not_ezd_after_write:
  assumes "not_ezd ds d g" and "ss g = 512" and "length bs = 512" and "sector < spt g \<longrightarrow> unmarked bs"
  shows "not_ezd (disk_write ds d (sector * 512) bs) d g"
proof -
  have "disk_write ds d (sector * 512) bs d (k * 512 + 450 + 16 * i) \<noteq> 0x55" if k: "k < spt g" "i < 4" for k i
  proof (cases "k = sector")
    case True
    have "450 + 16 * i < length bs" using k(2) assms(3) by simp
    from disk_write_same [OF this, of ds d "sector * 512"] show ?thesis
      using True k assms(4) by (simp add: unmarked_def add.assoc)
  next
    case False
    then have "k * 512 + 450 + 16 * i < sector * 512 \<or> sector * 512 + 512 \<le> k * 512 + 450 + 16 * i"
      using k(2) by (cases "k < sector") auto
    moreover have "ds d (k * 512 + 450 + 16 * i) \<noteq> 0x55" using assms(1,2) k unfolding not_ezd_def by auto
    ultimately show ?thesis by (simp add: disk_write_outside assms(3))
  qed
  then show ?thesis by (simp add: not_ezd_def assms(2))
qed

section \<open>Sessions\<close>

text \<open>A read into a buffer, or a write of a sector that the caller has put in a buffer; and what they do to an
  array of bytes.\<close>

datatype io = Read nat nat nat u32 | Write nat "u8 list" u32

definition io_do :: "bios \<Rightarrow> u32 \<Rightarrow> io \<Rightarrow> 'a disk_scheme \<Rightarrow> (bool \<times> u8 list \<times> 'a disk_scheme) option" where
  "io_do bios d op s =
     (case op of
        Read sector off len buf \<Rightarrow>
          do { (ok, s) \<leftarrow> rawread bios d (of_nat sector) (of_nat off) (of_nat len) buf s; Some (ok, read_bytes (gmem s) buf len, s) }
      | Write sector bs buf \<Rightarrow>
          do { (ok, s) \<leftarrow> rawwrite bios d (of_nat sector) buf (s\<lparr>gmem := write_bytes (gmem s) buf bs\<rparr>); Some (ok, [], s) })"

fun io_run :: "bios \<Rightarrow> u32 \<Rightarrow> io list \<Rightarrow> 'a disk_scheme \<Rightarrow> ((bool \<times> u8 list) list \<times> 'a disk_scheme) option" where
  "io_run bios d [] s = Some ([], s)"
| "io_run bios d (op # ops) s =
     do {
       (ok, bs, s) \<leftarrow> io_do bios d op s;
       (rs, s) \<leftarrow> io_run bios d ops s;
       Some ((ok, bs) # rs, s)
     }"

definition store_at :: "(nat \<Rightarrow> u8) \<Rightarrow> nat \<Rightarrow> u8 list \<Rightarrow> nat \<Rightarrow> u8" where
  "store_at img a bs = (\<lambda>i. if a \<le> i \<and> i < a + length bs then bs ! (i - a) else img i)"

fun io_spec :: "io list \<Rightarrow> (nat \<Rightarrow> u8) \<Rightarrow> u8 list list \<times> (nat \<Rightarrow> u8)" where
  "io_spec [] img = ([], img)"
| "io_spec (Read sector off len buf # ops) img =
     (let (rs, img') = io_spec ops img in (map (\<lambda>i. img (sector * 512 + off + i)) [0..<len] # rs, img'))"
| "io_spec (Write sector bs buf # ops) img =
     (let (rs, img') = io_spec ops (store_at img (sector * 512) bs) in ([] # rs, img'))"

fun io_ok :: "geometry \<Rightarrow> 'a grub_scheme \<Rightarrow> io \<Rightarrow> bool" where
  "io_ok g s (Read sector off len buf) \<longleftrightarrow> off < 512 \<and> 0 < len \<and> len < 2147479552 \<and> sector * 512 + off + len \<le> total g * 512
     \<and> room buf len s \<and> disjoint_regions buf len BUFFERADDR 0x7e00"
| "io_ok g s (Write sector bs buf) \<longleftrightarrow> sector < total g \<and> length bs = 512 \<and> (sector < spt g \<longrightarrow> unmarked bs)
     \<and> unat buf + 512 < 4294967296 \<and> disjoint_regions buf 512 BUFFERADDR 0x7e00 \<and> disjoint_regions buf 512 SCRATCHADDR 512"

lemma io_ok_cong:
  "errnum s' = errnum s \<Longrightarrow> mem_lower s' = mem_lower s \<Longrightarrow> mem_upper s' = mem_upper s \<Longrightarrow> io_ok g s' op \<longleftrightarrow> io_ok g s op"
  by (cases op) (auto simp: room_def)

text \<open>What every operation keeps.\<close>

definition io_inv :: "bios \<Rightarrow> u32 \<Rightarrow> geometry \<Rightarrow> 'a disk_scheme \<Rightarrow> bool" where
  "io_inv bios d g s \<longleftrightarrow> geometry_ok g \<and> sector_size g = 512 \<and> bios_reads bios d g \<and> bios_writes bios d g
     \<and> buffered d g s \<and> not_ezd (drives s) d g \<and> room SCRATCHADDR 512 s"

lemma io_step:
  assumes "io_inv bios d g s" and "io_ok g s op"
  shows "\<exists>s' bs. io_do bios d op s = Some (True, bs, s') \<and> io_inv bios d g s' \<and> errnum s' = errnum s \<and> mem_lower s' = mem_lower s
    \<and> mem_upper s' = mem_upper s \<and> (\<forall>ops. io_spec (op # ops) (drives s d) = (let (rs, img) = io_spec ops (drives s' d) in (bs # rs, img)))"
proof (cases op)
  case (Read sector off len buf)
  have i: "geometry_ok g" "ss g = 512" "bios_reads bios d g" "buffered d g s" "not_ezd (drives s) d g" "drive_known bios d g s"
    using assms(1) by (auto simp: io_inv_def drive_known_def buffered_def)
  obtain m tr ev where m: "rawread bios d (of_nat sector) (of_nat off) (of_nat len) buf s
      = Some (True, s\<lparr>gmem := m, buf_drive := d, buf_track := tr, buf_geom := g, reads_seen := ev\<rparr>)"
    "read_bytes m buf len = disk_bytes (drives s) d (sector * 512 + off) len"
    "buffered d g (s\<lparr>gmem := m, buf_drive := d, buf_track := tr, buf_geom := g\<rparr>)"
    using rawread_spec [OF i(1,3) _ i(6), of sector off len buf] i(2,5) assms(2) by (auto simp: Read)
  have "io_inv bios d g (s\<lparr>gmem := m, buf_drive := d, buf_track := tr, buf_geom := g, reads_seen := ev\<rparr>)"
    using assms(1) m(3) by (auto simp: io_inv_def buffered_def holds_track_def room_def)
  with m(1,2) show ?thesis
    by (intro exI [of _ "s\<lparr>gmem := m, buf_drive := d, buf_track := tr, buf_geom := g, reads_seen := ev\<rparr>"] exI [of _ "read_bytes m buf len"])
      (simp add: Read io_do_def disk_bytes_def)
next
  case (Write sector bs buf)
  define s1 where "s1 = s\<lparr>gmem := write_bytes (gmem s) buf bs\<rparr>"
  have s1: "gmem s1 = write_bytes (gmem s) buf bs" "drives s1 = drives s" "errnum s1 = errnum s" "mem_lower s1 = mem_lower s"
    "mem_upper s1 = mem_upper s" by (simp_all add: s1_def)
  have o: "sector < total g" "length bs = 512" "sector < spt g \<longrightarrow> unmarked bs" "unat buf + 512 < 4294967296"
    "disjoint_regions buf 512 BUFFERADDR 0x7e00" "disjoint_regions buf 512 SCRATCHADDR 512"
    using assms(2) by (simp_all add: Write)
  have i: "geometry_ok g" "sector_size g = 512" "ss g = 512" "bios_reads bios d g" "bios_writes bios d g" "not_ezd (drives s1) d g"
    "room SCRATCHADDR 512 s1" "spt g * 512 \<le> 0x7e00" "buffered d g s"
    using assms(1) by (auto simp: io_inv_def room_def geometry_ok_def s1)
  have rb: "read_bytes (gmem s1) buf 512 = bs" using read_write_bytes [of bs "gmem s" buf] o(2) by (simp add: s1)
  have "read_bytes (gmem s1) BUFFERADDR (spt g * 512) = read_bytes (gmem s) BUFFERADDR (spt g * 512)"
  proof (rule read_bytes_outside)
    fix a assume "in_region a BUFFERADDR (spt g * 512)"
    then have "in_region a BUFFERADDR 0x7e00" using i(8) by (rule in_region_mono)
    then have "\<not> in_region a buf 512" using o(5) disjoint_regionsD by blast
    then show "gmem s1 a = gmem s a" using o(2) by (simp add: s1 write_bytes_outside)
  qed (use i(8) in simp)
  then have b: "buffered d g s1" using i(3,9) by (simp add: buffered_def holds_track_def s1_def)
  then have g: "buf_geom s1 = g" by (simp add: buffered_def)
  obtain m where m: "rawwrite bios d (of_nat sector) buf s1 = Some (True, s1\<lparr>gmem := m, drives := disk_write (drives s1) d (sector * 512) bs,
      buf_track := (if of_nat (sector - sector mod spt g) = buf_track s1 then -1 else buf_track s1)\<rparr>)"
    "\<And>a. \<not> in_region a SCRATCHADDR 512 \<Longrightarrow> m a = gmem s1 a"
    using rawwrite_spec [OF i(1,4-6,2) g o(1) i(7) o(4,6)] unfolding rb by blast
  let ?s' = "s1\<lparr>gmem := m, drives := disk_write (drives s1) d (sector * 512) bs,
      buf_track := (if of_nat (sector - sector mod spt g) = buf_track s1 then -1 else buf_track s1)\<rparr>"
  have "buffered d g ?s'" by (rule buffered_after_write [OF i(1,3) b o(1,2) m(2)])
  moreover have "not_ezd (drives ?s') d g" using not_ezd_after_write [OF i(6,3) o(2,3)] by simp
  ultimately have "io_inv bios d g ?s'" using i(1-5,7) by (simp add: io_inv_def room_def)
  moreover have "drives ?s' d = store_at (drives s d) (sector * 512) bs" by (simp add: disk_write_def store_at_def s1)
  moreover have "io_do bios d op s = Some (True, [], ?s')" using m(1) by (simp add: Write io_do_def s1_def)
  ultimately show ?thesis
    using s1 by (intro exI [of _ ?s'] exI [of _ "[]"]) (simp add: Write)
qed

text \<open>C5: in whatever order sectors are written and ranges of bytes are read through the track buffer, every
  operation succeeds and every read gives what an array of bytes would give after the writes before it; the drive
  ends as that array. The buffer is the one of this drive and geometry and, to begin with, holds either nothing
  or a track as the drive has it (\<open>buffered\<close>); the first track carries no EZD mark and no write puts one there.\<close>

theorem io_refines_array:
  assumes "io_inv bios d g s" and "\<forall>op \<in> set ops. io_ok g s op"
  shows "\<exists>s'. io_run bios d ops s = Some (map (Pair True) (fst (io_spec ops (drives s d))), s')
    \<and> drives s' d = snd (io_spec ops (drives s d)) \<and> io_inv bios d g s'"
  using assms
proof (induction ops arbitrary: s)
  case (Cons op ops)
  obtain s1 bs where 1: "io_do bios d op s = Some (True, bs, s1)" "io_inv bios d g s1" "errnum s1 = errnum s"
    "mem_lower s1 = mem_lower s" "mem_upper s1 = mem_upper s"
    "io_spec (op # ops) (drives s d) = (let (rs, img) = io_spec ops (drives s1 d) in (bs # rs, img))"
    using io_step [OF Cons.prems(1), of op] Cons.prems(2) by auto
  have "\<forall>op \<in> set ops. io_ok g s1 op" using Cons.prems(2) io_ok_cong [OF 1(3-5)] by simp
  from Cons.IH [OF 1(2) this] show ?case using 1(1) by (auto simp: 1(6) split: prod.splits simp del: io_spec.simps)
qed simp

end
