(* ===== verification/Grub_Partition.thy ===== *)
theory Grub_Partition
  imports Grub_Disk_Session
begin

text \<open>
  Partitions: the iteration over the PC slices and BSD partitions of a drive, opening a partition, and the two routines that
  change a partition table, of src/grub-0.97/stage2/disk_io.c, with the layouts of pc_slice.h.
\<close>

section \<open>Layouts\<close>

definition PC_MBR_SIGNATURE :: u16 where "PC_MBR_SIGNATURE = 0xaa55"
definition PC_SLICE_MAX :: u32 where "PC_SLICE_MAX = 4"
definition PC_SLICE_FLAG_BOOTABLE :: u8 where "PC_SLICE_FLAG_BOOTABLE = 0x80"
definition PC_SLICE_TYPE_HIDDEN_FLAG :: u8 where "PC_SLICE_TYPE_HIDDEN_FLAG = 0x10"
definition PC_SLICE_TYPE_NONE :: u32 where "PC_SLICE_TYPE_NONE = 0"
definition PC_SLICE_TYPE_EXTENDED :: u32 where "PC_SLICE_TYPE_EXTENDED = 5"
definition PC_SLICE_TYPE_WIN95_EXTENDED :: u32 where "PC_SLICE_TYPE_WIN95_EXTENDED = 0xf"
definition PC_SLICE_TYPE_LINUX_EXTENDED :: u32 where "PC_SLICE_TYPE_LINUX_EXTENDED = 0x85"
definition PC_SLICE_TYPE_FREEBSD :: u32 where "PC_SLICE_TYPE_FREEBSD = 0xa5"
definition PC_SLICE_TYPE_OPENBSD :: u32 where "PC_SLICE_TYPE_OPENBSD = 0xa6"
definition PC_SLICE_TYPE_NETBSD :: u32 where "PC_SLICE_TYPE_NETBSD = 0xa9"
definition BSD_LABEL_SECTOR :: u32 where "BSD_LABEL_SECTOR = 1"
definition BSD_LABEL_MAGIC :: u32 where "BSD_LABEL_MAGIC = 0x82564557"
definition DTYPE_SCSI :: u16 where "DTYPE_SCSI = 4"
definition NETWORK_DRIVE :: u32 where "NETWORK_DRIVE = 0x20"
definition BOOT_PART_TABLE :: u32 where "BOOT_PART_TABLE = 0x07be"

lemmas slice_numbers = PC_MBR_SIGNATURE_def PC_SLICE_MAX_def PC_SLICE_FLAG_BOOTABLE_def PC_SLICE_TYPE_HIDDEN_FLAG_def
  PC_SLICE_TYPE_NONE_def PC_SLICE_TYPE_EXTENDED_def PC_SLICE_TYPE_WIN95_EXTENDED_def PC_SLICE_TYPE_LINUX_EXTENDED_def
  PC_SLICE_TYPE_FREEBSD_def PC_SLICE_TYPE_OPENBSD_def PC_SLICE_TYPE_NETBSD_def NETWORK_DRIVE_def

definition load16 :: "memory \<Rightarrow> u32 \<Rightarrow> u16" where
  "load16 m p = ucast (m p) OR push_bit 8 (ucast (m (p + 1)))"

definition PC_MBR_CHECK_SIG :: "memory \<Rightarrow> u32 \<Rightarrow> bool" where
  "PC_MBR_CHECK_SIG m mbr \<longleftrightarrow> load16 m (mbr + 510) = PC_MBR_SIGNATURE"

text \<open>The entry of a table, at \<open>PC_SLICE_OFFSET\<close>: the addresses of the flag and the type, whose value is in \<open>Grub_Disk\<close>, the start
  and the length.\<close>

definition PC_SLICE_FLAG :: "u32 \<Rightarrow> nat \<Rightarrow> u32" where
  "PC_SLICE_FLAG mbr part = mbr + 446 + of_nat (16 * part)"

definition PC_SLICE_TYPE_AT :: "u32 \<Rightarrow> nat \<Rightarrow> u32" where
  "PC_SLICE_TYPE_AT mbr part = mbr + 446 + 4 + of_nat (16 * part)"

definition PC_SLICE_START :: "memory \<Rightarrow> u32 \<Rightarrow> nat \<Rightarrow> u32" where
  "PC_SLICE_START m mbr part = load32 m (mbr + 446 + 8 + of_nat (16 * part))"

definition PC_SLICE_LENGTH :: "memory \<Rightarrow> u32 \<Rightarrow> nat \<Rightarrow> u32" where
  "PC_SLICE_LENGTH m mbr part = load32 m (mbr + 446 + 12 + of_nat (16 * part))"

definition IS_PC_SLICE_TYPE_EXTENDED :: "u32 \<Rightarrow> bool" where
  "IS_PC_SLICE_TYPE_EXTENDED type \<longleftrightarrow> type = PC_SLICE_TYPE_EXTENDED \<or> type = PC_SLICE_TYPE_WIN95_EXTENDED
     \<or> type = PC_SLICE_TYPE_LINUX_EXTENDED"

definition IS_PC_SLICE_TYPE_BSD :: "u32 \<Rightarrow> bool" where
  "IS_PC_SLICE_TYPE_BSD type \<longleftrightarrow> type = PC_SLICE_TYPE_FREEBSD \<or> type = PC_SLICE_TYPE_OPENBSD \<or> type = PC_SLICE_TYPE_NETBSD"

text \<open>A BSD label.\<close>

definition BSD_LABEL_CHECK_MAG :: "memory \<Rightarrow> u32 \<Rightarrow> bool" where
  "BSD_LABEL_CHECK_MAG m l \<longleftrightarrow> load32 m l = BSD_LABEL_MAGIC"

definition BSD_LABEL_DTYPE :: "memory \<Rightarrow> u32 \<Rightarrow> u16" where
  "BSD_LABEL_DTYPE m l = load16 m (l + 4)"

definition BSD_LABEL_NPARTS :: "memory \<Rightarrow> u32 \<Rightarrow> u16" where
  "BSD_LABEL_NPARTS m l = load16 m (l + 138)"

definition BSD_PART_LENGTH :: "memory \<Rightarrow> u32 \<Rightarrow> nat \<Rightarrow> u32" where
  "BSD_PART_LENGTH m l part = load32 m (l + 148 + of_nat (16 * part))"

definition BSD_PART_START :: "memory \<Rightarrow> u32 \<Rightarrow> nat \<Rightarrow> u32" where
  "BSD_PART_START m l part = load32 m (l + 148 + 4 + of_nat (16 * part))"

definition BSD_PART_TYPE :: "memory \<Rightarrow> u32 \<Rightarrow> nat \<Rightarrow> u8" where
  "BSD_PART_TYPE m l part = m (l + 148 + 12 + of_nat (16 * part))"

section \<open>The next partition\<close>

text \<open>What the pointer arguments point to, and the globals. A drive number with bit 7 is a hard disk.\<close>

record slice_vars =
  partition :: u32
  slice_type :: u32
  slice_start :: u32
  slice_len :: u32
  table_offset :: u32
  table_entry :: u32
  ext_offset :: u32

record devices = disk +
  current_partition :: u32
  current_slice :: u32
  bsd_evil_hack :: u32
  saved_drive :: u32
  saved_partition :: u32
  cdrom_drive :: u32
  cur_part_offset :: u32
  cur_part_addr :: u32
  boot_part_addr :: u32

text \<open>The label is read when the current partition is the slice itself.\<close>

definition read_label :: "bios \<Rightarrow> u32 \<Rightarrow> u32 \<Rightarrow> slice_vars \<Rightarrow> 'a devices_scheme \<Rightarrow> (bool \<times> 'a devices_scheme) option" where
  "read_label bios drive buf v s =
     (if slice_len v < BSD_LABEL_SECTOR + 1 then Some (False, s\<lparr>errnum := ERR_BAD_PART_TABLE\<rparr>)
      else
        do {
          (ok, s) \<leftarrow> rawread bios drive (slice_start v + BSD_LABEL_SECTOR) 0 SECTOR_SIZE buf s;
          Some (if \<not> ok then (False, s)
                else if \<not> BSD_LABEL_CHECK_MAG (gmem s) buf then (False, s\<lparr>errnum := ERR_BAD_PART_TABLE\<rparr>)
                else (True, s))
        })"

definition next_bsd_partition ::
  "bios \<Rightarrow> u32 \<Rightarrow> u32 \<Rightarrow> slice_vars \<Rightarrow> 'a devices_scheme \<Rightarrow> (bool \<times> slice_vars \<times> 'a devices_scheme) option" where
  "next_bsd_partition bios drive buf v s =
     do {
       let no = drop_bit 8 (partition v AND 0xFF00);
       (labelled, no, s) \<leftarrow> (if no = 0xFF then do { (ok, s) \<leftarrow> read_label bios drive buf v s; Some (ok, -1, s) }
         else Some (True, no, s));
       if \<not> labelled then Some (False, v, s)
       else
         case find (\<lambda>i. BSD_PART_TYPE (gmem s) buf i \<noteq> 0) [unat (no + 1)..<unat (BSD_LABEL_NPARTS (gmem s) buf)] of
           Some i \<Rightarrow>
             Some (True,
               v\<lparr>partition := (partition v AND 0xFF00FF) OR push_bit 8 (of_nat i),
                 slice_type := push_bit 8 (ucast (BSD_PART_TYPE (gmem s) buf i)) OR (slice_type v AND 0xFF),
                 slice_start := BSD_PART_START (gmem s) buf i, slice_len := BSD_PART_LENGTH (gmem s) buf i\<rparr>,
               if drive AND 0x80 \<noteq> 0 \<and> BSD_LABEL_DTYPE (gmem s) buf = DTYPE_SCSI then s\<lparr>bsd_evil_hack := 4\<rparr> else s)
         | None \<Rightarrow> Some (False, v, s\<lparr>errnum := ERR_NO_PART\<rparr>)
     }"

text \<open>An extended partition in the table at hand leads to the next table; offsets in the chain are relative to its
  first table.\<close>

definition to_extended :: "memory \<Rightarrow> u32 \<Rightarrow> nat \<Rightarrow> slice_vars \<Rightarrow> slice_vars" where
  "to_extended m buf i v =
     (let v = v\<lparr>table_offset := ext_offset v + PC_SLICE_START m buf i\<rparr>;
          v = (if ext_offset v = 0 then v\<lparr>ext_offset := table_offset v\<rparr> else v)
      in v\<lparr>table_entry := -1\<rparr>)"

definition take_entry :: "memory \<Rightarrow> u32 \<Rightarrow> u32 \<Rightarrow> slice_vars \<Rightarrow> slice_vars" where
  "take_entry m buf no v =
     (let i = unat (table_entry v);
          v = v\<lparr>slice_type := ucast (PC_SLICE_TYPE m buf i), slice_start := table_offset v + PC_SLICE_START m buf i,
                slice_len := PC_SLICE_LENGTH m buf i\<rparr>;
          no = (if no <s PC_SLICE_MAX \<or> \<not> IS_PC_SLICE_TYPE_EXTENDED (slice_type v) \<and> slice_type v \<noteq> PC_SLICE_TYPE_NONE
                then no + 1 else no)
      in v\<lparr>partition := push_bit 16 no OR 0xFFFF\<rparr>)"

partial_function (option) next_pc_slice ::
  "bios \<Rightarrow> u32 \<Rightarrow> u32 \<Rightarrow> slice_vars \<Rightarrow> 'a devices_scheme \<Rightarrow> (bool \<times> slice_vars \<times> 'a devices_scheme) option" where
  "next_pc_slice bios drive buf v s =
     (let no = drop_bit 16 (partition v AND 0xFF0000);
          (v, no) = (if no = 0xFF then (v\<lparr>table_offset := 0, table_entry := -1, ext_offset := 0\<rparr>, -1) else (v, no))
      in do {
        (ok, s) \<leftarrow> rawread bios drive (table_offset v) 0 SECTOR_SIZE buf s;
        if \<not> ok then Some (False, v, s)
        else if \<not> PC_MBR_CHECK_SIG (gmem s) buf then Some (False, v, s\<lparr>errnum := ERR_BAD_PART_TABLE\<rparr>)
        else
          let v = v\<lparr>table_entry := table_entry v + 1\<rparr> in
          if table_entry v = PC_SLICE_MAX then
            (case find (\<lambda>i. IS_PC_SLICE_TYPE_EXTENDED (ucast (PC_SLICE_TYPE (gmem s) buf i))) [0..<4] of
               Some i \<Rightarrow> next_pc_slice bios drive buf (to_extended (gmem s) buf i v) s
             | None \<Rightarrow> Some (False, v, s\<lparr>errnum := ERR_NO_PART\<rparr>))
          else Some (True, take_entry (gmem s) buf no v, s)
      })"

definition next_partition ::
  "bios \<Rightarrow> u32 \<Rightarrow> u32 \<Rightarrow> u32 \<Rightarrow> slice_vars \<Rightarrow> 'a devices_scheme \<Rightarrow> (bool \<times> slice_vars \<times> 'a devices_scheme) option" where
  "next_partition bios drive dest buf v s =
     (if current_drive s = NETWORK_DRIVE then Some (False, v, s)
      else if (partition v \<noteq> 0xFFFFFF \<and> IS_PC_SLICE_TYPE_BSD (slice_type v AND 0xff)) \<or> drive AND 0x80 = 0 then
        do {
          let v = (if slice_type v = PC_SLICE_TYPE_NONE then v\<lparr>slice_type := PC_SLICE_TYPE_FREEBSD\<rparr> else v);
          (ok, v, s) \<leftarrow> next_bsd_partition bios drive buf v s;
          if ok then Some (True, v, s)
          else if dest AND 0xFF00 \<noteq> 0xFF00
              \<and> (dest AND 0xFF0000 = 0xFF0000 \<or> dest AND 0xFF0000 = partition v AND 0xFF0000) then Some (False, v, s)
          else next_pc_slice bios drive buf v (s\<lparr>errnum := ERR_NONE\<rparr>)
        }
      else next_pc_slice bios drive buf v s)"

section \<open>Opening a partition\<close>

definition sane_partition :: "'a devices_scheme \<Rightarrow> bool \<times> 'a devices_scheme" where
  "sane_partition s =
     (if current_drive s = NETWORK_DRIVE then (True, s)
      else if current_partition s AND 0xFF000000 = 0
          \<and> (current_drive s AND 0xFFFFFF7F < 8 \<or> current_drive s = cdrom_drive s)
          \<and> current_partition s AND 0xFF = 0xFF
          \<and> (current_partition s AND 0xFF00 = 0xFF00 \<or> current_partition s AND 0xFF00 < 0x800)
          \<and> (drop_bit 16 (current_partition s) = 0xFF \<or> current_drive s AND 0x80 \<noteq> 0) then (True, s)
      else (False, s\<lparr>errnum := ERR_DEV_VALUES\<rparr>))"

definition set_current :: "slice_vars \<Rightarrow> 'a devices_scheme \<Rightarrow> 'a devices_scheme" where
  "set_current v s =
     s\<lparr>part_start := slice_start v, part_length := slice_len v, current_partition := partition v, current_slice := slice_type v\<rparr>"

partial_function (option) open_loop ::
  "bios \<Rightarrow> u32 \<Rightarrow> u32 \<Rightarrow> slice_vars \<Rightarrow> 'a devices_scheme \<Rightarrow> (bool \<times> 'a devices_scheme) option" where
  "open_loop bios dest buf v s =
     do {
       (ok, v, s) \<leftarrow> next_partition bios (current_drive s) dest buf v s;
       let s = set_current v s;
       if \<not> ok then Some (False, s)
       else
         let s = s\<lparr>cur_part_offset := table_offset v, cur_part_addr := BOOT_PART_TABLE + push_bit 4 (table_entry v)\<rparr>
         in if current_slice s \<noteq> 0 then
              let s = s\<lparr>errnum := ERR_NONE\<rparr>
              in if dest = current_partition s
                   \<or> drop_bit 16 dest = 0xFF \<and> drop_bit 8 dest AND 0xFF = drop_bit 8 (current_partition s) AND 0xFF
                 then Some (True, s)
                 else open_loop bios dest buf v s
            else open_loop bios dest buf v s
     }"

text \<open>\<open>real_open_partition\<close> without flags; with them it prints the partitions. The locals that the iteration
  sets first are \<open>v\<close>, the sector on the stack is at \<open>buf\<close>.\<close>

definition open_partition :: "bios \<Rightarrow> u32 \<Rightarrow> slice_vars \<Rightarrow> 'a devices_scheme \<Rightarrow> (bool \<times> 'a devices_scheme) option" where
  "open_partition bios buf v s =
     (if current_drive s = NETWORK_DRIVE then Some (True, s)
      else
        let dest = current_partition s; (sane, s) = sane_partition s
        in if \<not> sane then Some (False, s)
           else
             let s = s\<lparr>part_start := 0, current_slice := 0, bsd_evil_hack := 0\<rparr>;
                 (known, s) = check_drive bios (current_drive s) s
             in if \<not> known then Some (False, s)
                else
                  let s = s\<lparr>part_length := total_sectors (buf_geom s)\<rparr>
                  in if dest = 0xFFFFFF then Some (True, s)
                     else
                       let s = s\<lparr>current_partition := 0xFFFFFF\<rparr>
                       in open_loop bios dest buf
                            (v\<lparr>partition := 0xFFFFFF, slice_type := 0, slice_start := 0, slice_len := part_length s\<rparr>) s)"

section \<open>Changing a partition table\<close>

definition make_saved_active :: "bios \<Rightarrow> u32 \<Rightarrow> 'a devices_scheme \<Rightarrow> (bool \<times> 'a devices_scheme) option" where
  "make_saved_active bios mbr s =
     (if saved_drive s AND 0x80 \<noteq> 0 then
        let part = drop_bit 16 (saved_partition s)
        in if 3 <s part then Some (False, s\<lparr>errnum := ERR_DEV_VALUES\<rparr>)
           else
             do {
               (ok, s) \<leftarrow> rawread bios (saved_drive s) 0 0 SECTOR_SIZE mbr s;
               if \<not> ok then Some (False, s)
               else if IS_PC_SLICE_TYPE_EXTENDED (ucast (PC_SLICE_TYPE (gmem s) mbr (unat part)))
               then Some (False, s\<lparr>errnum := ERR_DEV_VALUES\<rparr>)
               else if gmem s (PC_SLICE_FLAG mbr (unat part)) \<noteq> PC_SLICE_FLAG_BOOTABLE then
                 let s = for_n 0 4 (\<lambda>i s. s\<lparr>gmem := (gmem s)(PC_SLICE_FLAG mbr i := 0)\<rparr>) s;
                     s = s\<lparr>gmem := (gmem s)(PC_SLICE_FLAG mbr (unat part) := PC_SLICE_FLAG_BOOTABLE)\<rparr>
                 in do { (ok, s) \<leftarrow> rawwrite bios (saved_drive s) 0 mbr s; Some (ok, s) }
               else Some (True, s)
             }
      else Some (False, s\<lparr>errnum := ERR_DEV_VALUES\<rparr>))"

text \<open>The result is 0 for success.\<close>

definition hide :: "bool \<Rightarrow> u8 \<Rightarrow> u8" where
  "hide hidden type = (if hidden then type OR PC_SLICE_TYPE_HIDDEN_FLAG else type AND NOT PC_SLICE_TYPE_HIDDEN_FLAG)"

partial_function (option) hide_loop ::
  "bios \<Rightarrow> bool \<Rightarrow> u32 \<Rightarrow> slice_vars \<Rightarrow> 'a devices_scheme \<Rightarrow> (u32 \<times> 'a devices_scheme) option" where
  "hide_loop bios hidden mbr v s =
     do {
       (ok, v, s) \<leftarrow> next_partition bios (current_drive s) 0xFFFFFF mbr v s;
       if \<not> ok then Some (1, s)
       else if partition v = current_partition s then
         do {
           let a = PC_SLICE_TYPE_AT mbr (unat (table_entry v));
           let s = s\<lparr>gmem := (gmem s)(a := hide hidden (gmem s a))\<rparr>;
           let s = s\<lparr>buf_track := -1\<rparr>;
           (ok, s) \<leftarrow> rawwrite bios (current_drive s) (table_offset v) mbr s;
           Some (if ok then 0 else 1, s)
         }
       else hide_loop bios hidden mbr v s
     }"

definition set_partition_hidden_flag :: "bios \<Rightarrow> bool \<Rightarrow> u32 \<Rightarrow> slice_vars \<Rightarrow> 'a devices_scheme \<Rightarrow> (u32 \<times> 'a devices_scheme) option" where
  "set_partition_hidden_flag bios hidden mbr v s =
     (if current_drive s AND 0x80 = 0 then Some (1, s\<lparr>errnum := ERR_BAD_ARGUMENT\<rparr>)
      else if drop_bit 16 (current_partition s) = 0xFF \<or> current_partition s AND 0xFFFF \<noteq> 0xFFFF
      then Some (1, s\<lparr>errnum := ERR_BAD_ARGUMENT\<rparr>)
      else hide_loop bios hidden mbr (v\<lparr>partition := 0xFFFFFF\<rparr>) s)"

section \<open>The BSD boot device\<close>

definition MAKEBOOTDEV :: "u32 \<Rightarrow> u32 \<Rightarrow> u32 \<Rightarrow> u32 \<Rightarrow> u32 \<Rightarrow> u32" where
  "MAKEBOOTDEV type adaptor controller unit part =
     push_bit 0 type OR push_bit 24 adaptor OR push_bit 20 controller OR push_bit 16 unit OR push_bit 8 part OR 0xa0000000"

definition set_bootdev :: "bios \<Rightarrow> u32 \<Rightarrow> 'a devices_scheme \<Rightarrow> (u32 \<times> 'a devices_scheme) option" where
  "set_bootdev bios hdbias s =
     do {
       (ok, s) \<leftarrow> (if saved_drive s AND 0x80 \<noteq> 0 \<and> cur_part_addr s \<noteq> 0 then
           do {
             (ok, s) \<leftarrow> rawread bios (saved_drive s) (cur_part_offset s) 0 SECTOR_SIZE SCRATCHADDR s;
             if \<not> ok then Some (False, s)
             else
               let s = for_n 0 0x40 (\<lambda>k s. s\<lparr>gmem := (gmem s)(BOOT_PART_TABLE + of_nat k := gmem s (SCRATCHADDR + 0x1BE + of_nat k))\<rparr>) s;
                   s = for_n 0 4 (\<lambda>i s. s\<lparr>gmem := (gmem s)(PC_SLICE_FLAG BOOT_PART_TABLE i := 0)\<rparr>) s;
                   s = s\<lparr>gmem := (gmem s)(cur_part_addr s := PC_SLICE_FLAG_BOOTABLE)\<rparr>
               in Some (True, s\<lparr>boot_part_addr := cur_part_addr s\<rparr>)
           }
         else Some (True, s));
       if \<not> ok then Some (0, s)
       else
         let i = (if saved_partition s = 0xFFFFFF then 1 else if drop_bit 16 (saved_partition s) = 0xFF then 0
                  else drop_bit 16 (saved_partition s) + 2);
             j = (if saved_drive s AND 0x80 \<noteq> 0 then bsd_evil_hack s else 2)
         in Some (MAKEBOOTDEV j (signed_drop_bit 4 i) (i AND 0xF) ((saved_drive s - hdbias) AND 0x7F)
                (drop_bit 8 (saved_partition s) AND 0xFF), s)
     }"

end
