(* ===== verification/Grub_Slices.thy ===== *)
theory Grub_Slices
  imports Grub_Partition
begin

text \<open>
  What the iteration over the partitions of a hard disk visits: the four entries of the first table, then those of the
  tables that its extended partition chains, with their numbers.
\<close>

section \<open>Tables on a disk\<close>

text \<open>A sector as a memory of its own, at address 0; the entries of a table: type, first sector and length.\<close>

definition sector_at :: "(nat \<Rightarrow> u8) \<Rightarrow> nat \<Rightarrow> memory" where
  "sector_at img n = (\<lambda>a. img (n * 512 + unat a))"

definition table_type :: "(nat \<Rightarrow> u8) \<Rightarrow> nat \<Rightarrow> nat \<Rightarrow> u32" where
  "table_type img n i = ucast (PC_SLICE_TYPE (sector_at img n) 0 i)"

definition table_start :: "(nat \<Rightarrow> u8) \<Rightarrow> nat \<Rightarrow> nat \<Rightarrow> u32" where
  "table_start img n i = PC_SLICE_START (sector_at img n) 0 i"

definition table_entries :: "(nat \<Rightarrow> u8) \<Rightarrow> nat \<Rightarrow> (u32 \<times> u32 \<times> u32) list" where
  "table_entries img n =
     map (\<lambda>i. (table_type img n i, of_nat n + table_start img n i, PC_SLICE_LENGTH (sector_at img n) 0 i)) [0..<4]"

definition extended_in :: "(nat \<Rightarrow> u8) \<Rightarrow> nat \<Rightarrow> nat option" where
  "extended_in img n = find (\<lambda>i. IS_PC_SLICE_TYPE_EXTENDED (table_type img n i)) [0..<4]"

text \<open>A chain of valid tables on a drive of \<open>k\<close> sectors, without BSD slices. \<open>ext\<close> is the first table behind
  the one of the disk, or 0 before it is known.\<close>

fun chained :: "(nat \<Rightarrow> u8) \<Rightarrow> nat \<Rightarrow> nat \<Rightarrow> nat list \<Rightarrow> bool" where
  "chained img k ext [] \<longleftrightarrow> False"
| "chained img k ext (n # ns) \<longleftrightarrow> n < k \<and> PC_MBR_CHECK_SIG (sector_at img n) 0
     \<and> (\<forall>i < 4. \<not> IS_PC_SLICE_TYPE_BSD (table_type img n i))
     \<and> (case extended_in img n of
          None \<Rightarrow> ns = []
        | Some i \<Rightarrow> ns \<noteq> [] \<and> hd ns = ext + unat (table_start img n i) \<and> chained img k (if ext = 0 then hd ns else ext) ns)"

text \<open>The numbers: the first five entries have the numbers 0 to 4, whatever they are; of the others only proper
  partitions count.\<close>

definition proper :: "u32 \<times> u32 \<times> u32 \<Rightarrow> bool" where
  "proper e \<longleftrightarrow> \<not> IS_PC_SLICE_TYPE_EXTENDED (fst e) \<and> fst e \<noteq> PC_SLICE_TYPE_NONE"

fun numbered :: "nat \<Rightarrow> (u32 \<times> u32 \<times> u32) list \<Rightarrow> (nat \<times> u32 \<times> u32 \<times> u32) list" where
  "numbered p [] = []"
| "numbered p (e # es) = (let q = (if p \<le> 4 \<or> proper e then p else p - 1) in (q, e) # numbered (Suc q) es)"

definition slices :: "(nat \<Rightarrow> u8) \<Rightarrow> nat list \<Rightarrow> (nat \<times> u32 \<times> u32 \<times> u32) list" where
  "slices img ns = numbered 0 (concat (map (table_entries img) ns))"

text \<open>The number of a slice in a \<open>partition\<close>.\<close>

definition slice_no :: "nat \<Rightarrow> u32" where
  "slice_no q = push_bit 16 (of_nat q) OR 0xFFFF"


lemma byte_masks:
  "(0xFF :: u32) = mask 8" "(0xFFFF :: u32) = mask 16" "(0xFF00 :: u32) = push_bit 8 (mask 8)" "(0xFF0000 :: u32) = push_bit 16 (mask 8)"
  "(0xFF000000 :: u32) = push_bit 24 (mask 8)"
  by (simp_all add: mask_eq_exp_minus_1 push_bit_eq_mult)

lemma slice_no_fields:
  assumes "q < 256"
  shows "slice_no q AND 0xFF = 0xFF" "slice_no q AND 0xFFFF = 0xFFFF" "slice_no q AND 0xFF00 = 0xFF00" "slice_no q AND 0xFF000000 = 0"
    "drop_bit 16 (slice_no q AND 0xFF0000) = of_nat q" "drop_bit 16 (slice_no q) = of_nat q" "drop_bit 8 (slice_no q) AND 0xFF = 0xFF"
proof -
  have b: "n < 8" if "bit q n" for n
  proof (rule ccontr)
    assume "\<not> n < 8"
    then have "(2 :: nat) ^ 8 \<le> 2 ^ n" by (intro power_increasing) simp_all
    then have "q div 2 ^ n = 0" using assms by simp
    then show False using that by (simp add: bit_iff_odd)
  qed
  show "slice_no q AND 0xFF = 0xFF" "slice_no q AND 0xFFFF = 0xFFFF" "slice_no q AND 0xFF00 = 0xFF00" "drop_bit 8 (slice_no q) AND 0xFF = 0xFF"
    unfolding slice_no_def byte_masks by (rule bit_word_eqI; auto simp: bit_simps)+
  show "slice_no q AND 0xFF000000 = 0" "drop_bit 16 (slice_no q AND 0xFF0000) = of_nat q" "drop_bit 16 (slice_no q) = of_nat q"
    unfolding slice_no_def byte_masks by (rule bit_word_eqI; auto simp: bit_simps dest: b)+
qed

lemma slice_no_inj: "q < 256 \<Longrightarrow> r < 256 \<Longrightarrow> slice_no q = slice_no r \<longleftrightarrow> q = r"
  using slice_no_fields(6) [of q] slice_no_fields(6) [of r] of_nat_u32_inj [of q r] by auto

lemma slice_no_255: "slice_no 255 = 0xFFFFFF"
  by (simp add: slice_no_def push_bit_eq_mult)

end
