(* ===== verification/Grub_Slices_Steps.thy ===== *)
theory Grub_Slices_Steps
  imports Grub_Slices
begin

text \<open>
  One call of \<open>next_partition\<close> on a hard disk whose tables are a chain: the next slice, or the error that there is none.
\<close>

section \<open>Reading a table\<close>

definition table_reader :: "bios \<Rightarrow> u32 \<Rightarrow> geometry \<Rightarrow> u32 \<Rightarrow> 'a disk_scheme \<Rightarrow> bool" where
  "table_reader bios d g buf s \<longleftrightarrow> geometry_ok g \<and> sector_size g = 512 \<and> bios_reads bios d g \<and> drive_known bios d g s
     \<and> not_ezd (drives s) d g \<and> room buf 512 s \<and> disjoint_regions buf 512 BUFFERADDR 0x7e00"

text \<open>What reads change.\<close>

definition only_reads :: "u32 \<Rightarrow> geometry \<Rightarrow> u32 \<Rightarrow> 'a disk_scheme \<Rightarrow> 'a disk_scheme \<Rightarrow> bool" where
  "only_reads d g buf s s' \<longleftrightarrow> buffered d g s'
     \<and> (\<exists>m tr ev. s' = s\<lparr>gmem := m, buf_drive := d, buf_track := tr, buf_geom := g, reads_seen := ev\<rparr>
          \<and> (\<forall>a. \<not> in_region a buf 512 \<longrightarrow> \<not> in_region a BUFFERADDR 0x7e00 \<longrightarrow> m a = gmem s a))"

lemma only_readsD:
  "only_reads d g buf s s' \<Longrightarrow> \<exists>m tr ev. s' = s\<lparr>gmem := m, buf_drive := d, buf_track := tr, buf_geom := g, reads_seen := ev\<rparr>
    \<and> (\<forall>a. \<not> in_region a buf 512 \<longrightarrow> \<not> in_region a BUFFERADDR 0x7e00 \<longrightarrow> m a = gmem s a) \<and> buffered d g s'"
  unfolding only_reads_def by blast

lemma only_readsI:
  "buffered d g s' \<Longrightarrow> s' = s\<lparr>gmem := m, buf_drive := d, buf_track := tr, buf_geom := g, reads_seen := ev\<rparr>
    \<Longrightarrow> (\<And>a. \<not> in_region a buf 512 \<Longrightarrow> \<not> in_region a BUFFERADDR 0x7e00 \<Longrightarrow> m a = gmem s a) \<Longrightarrow> only_reads d g buf s s'"
  unfolding only_reads_def by blast

lemma only_reads_trans:
  assumes "only_reads d g buf s s'" and "only_reads d g buf s' s''"
  shows "only_reads d g buf s s''"
proof -
  obtain m tr ev where 1: "s' = s\<lparr>gmem := m, buf_drive := d, buf_track := tr, buf_geom := g, reads_seen := ev\<rparr>"
    "\<And>a. \<not> in_region a buf 512 \<Longrightarrow> \<not> in_region a BUFFERADDR 0x7e00 \<Longrightarrow> m a = gmem s a" "buffered d g s'" using only_readsD [OF assms(1)] by blast
  obtain m' tr' ev' where 2: "s'' = s'\<lparr>gmem := m', buf_drive := d, buf_track := tr', buf_geom := g, reads_seen := ev'\<rparr>"
    "\<And>a. \<not> in_region a buf 512 \<Longrightarrow> \<not> in_region a BUFFERADDR 0x7e00 \<Longrightarrow> m' a = gmem s' a" "buffered d g s''" using only_readsD [OF assms(2)] by blast
  show ?thesis by (rule only_readsI [OF 2(3), where s = s and m = m' and tr = tr' and ev = ev']) (use 1 2 in simp_all)
qed

lemma table_reader_kept:
  assumes "table_reader bios d g buf s" and "only_reads d g buf s s'"
  shows "table_reader bios d g buf s'"
proof -
  obtain m tr ev where "s' = s\<lparr>gmem := m, buf_drive := d, buf_track := tr, buf_geom := g, reads_seen := ev\<rparr>" "buffered d g s'"
    using only_readsD [OF assms(2)] by blast
  then show ?thesis using assms(1) by (simp add: table_reader_def room_def drive_known_def)
qed

lemma read_table:
  assumes "table_reader bios d g buf s" and "n < total g"
  shows "\<exists>s'. rawread bios d (of_nat n) 0 SECTOR_SIZE buf s = Some (True, s') \<and> only_reads d g buf s s'
    \<and> read_bytes (gmem s') buf 512 = disk_bytes (drives s) d (n * 512) 512"
proof -
  have t: "geometry_ok g" "bios_reads bios d g" "n < spt g \<longrightarrow> not_ezd (drives s) d g" "drive_known bios d g s" "0 < ss g"
    "n * ss g + 0 + 512 \<le> total g * ss g" "room buf 512 s" "disjoint_regions buf 512 BUFFERADDR 0x7e00" "ss g = 512"
    using assms by (auto simp: table_reader_def)
  obtain m tr ev where m: "rawread bios d (of_nat n) (of_nat 0) (of_nat 512) buf s
      = Some (True, s\<lparr>gmem := m, buf_drive := d, buf_track := tr, buf_geom := g, reads_seen := ev\<rparr>)"
    "read_bytes m buf 512 = disk_bytes (drives s) d (n * 512) 512"
    "\<forall>a. \<not> in_region a buf 512 \<longrightarrow> \<not> in_region a BUFFERADDR 0x7e00 \<longrightarrow> m a = gmem s a"
    "buffered d g (s\<lparr>gmem := m, buf_drive := d, buf_track := tr, buf_geom := g\<rparr>)"
    using rawread_spec [OF t(1-5) _ _ t(6-8)] unfolding t(9) by auto
  let ?s' = "s\<lparr>gmem := m, buf_drive := d, buf_track := tr, buf_geom := g, reads_seen := ev\<rparr>"
  have "buffered d g ?s'" using m(4) by (simp add: buffered_def holds_track_def)
  then have "only_reads d g buf s ?s'" using m(3) by (intro only_readsI [OF _ refl]) auto
  then show ?thesis using m(1,2) by (simp add: SECTOR_SIZE_def)
qed

lemma sector_at_read:
  assumes "read_bytes m buf 512 = disk_bytes ds d (n * 512) 512" and "unat a < 512"
  shows "m (buf + a) = sector_at (ds d) n a"
proof -
  have "read_bytes m buf 512 ! unat a = m (buf + a)" using assms(2) by (simp add: nth_read_bytes del: read_bytes.simps)
  then show ?thesis using assms by (simp add: sector_at_def)
qed

lemma table_fields:
  assumes "read_bytes m buf 512 = disk_bytes ds d (n * 512) 512"
  shows "PC_MBR_CHECK_SIG m buf \<longleftrightarrow> PC_MBR_CHECK_SIG (sector_at (ds d) n) 0"
    and "i < 4 \<Longrightarrow> ucast (PC_SLICE_TYPE m buf i) = table_type (ds d) n i"
    and "i < 4 \<Longrightarrow> PC_SLICE_START m buf i = table_start (ds d) n i"
    and "i < 4 \<Longrightarrow> PC_SLICE_LENGTH m buf i = PC_SLICE_LENGTH (sector_at (ds d) n) 0 i"
    and "i < 4 \<Longrightarrow> PC_SLICE_TYPE m buf i = PC_SLICE_TYPE (sector_at (ds d) n) 0 i"
proof -
  note r = sector_at_read [OF assms]
  show "PC_MBR_CHECK_SIG m buf \<longleftrightarrow> PC_MBR_CHECK_SIG (sector_at (ds d) n) 0"
    using r [of 510] r [of 511] by (simp add: PC_MBR_CHECK_SIG_def load16_def add.assoc)
  have i: "i = 0 \<or> i = 1 \<or> i = 2 \<or> i = 3" if "i < 4" using that by auto
  show t: "PC_SLICE_TYPE m buf i = PC_SLICE_TYPE (sector_at (ds d) n) 0 i" if "i < 4"
    using i [OF that] r [of 450] r [of 466] r [of 482] r [of 498] by (auto simp: PC_SLICE_TYPE_def add.assoc)
  then show "ucast (PC_SLICE_TYPE m buf i) = table_type (ds d) n i" if "i < 4" using that by (simp add: table_type_def)
  have l: "load32 m (buf + a) = load32 (sector_at (ds d) n) a" if "unat a < 509" for a
  proof -
    have "unat (a + of_nat j) < 512" if "j < 4" for j
    proof -
      have "unat (a + of_nat j) = unat a + j"
        using that \<open>unat a < 509\<close> by (subst unat_add_lem [THEN iffD1]) (simp_all add: unat_of_nat_u32)
      then show ?thesis using that \<open>unat a < 509\<close> by simp
    qed
    from this [of 0] this [of 1] this [of 2] this [of 3] r [of a] r [of "a + 1"] r [of "a + 2"] r [of "a + 3"] show ?thesis
      by (simp add: load32_def add.assoc)
  qed
  show "PC_SLICE_START m buf i = table_start (ds d) n i" if "i < 4"
    using i [OF that] l [of 454] l [of 470] l [of 486] l [of 502] by (auto simp: PC_SLICE_START_def table_start_def add.assoc)
  show "PC_SLICE_LENGTH m buf i = PC_SLICE_LENGTH (sector_at (ds d) n) 0 i" if "i < 4"
    using i [OF that] l [of 458] l [of 474] l [of 490] l [of 506] by (auto simp: PC_SLICE_LENGTH_def add.assoc)
qed


section \<open>Standing in the chain\<close>

text \<open>\<open>i\<close> entries of the first table of \<open>ns\<close> have been visited, and the last number was \<open>p - 1\<close>; when nothing has
  been visited \<open>p\<close> is 0.\<close>

definition stands :: "nat \<Rightarrow> nat \<Rightarrow> nat \<Rightarrow> nat list \<Rightarrow> slice_vars \<Rightarrow> bool" where
  "stands p i ext ns v \<longleftrightarrow> p < 256 \<and> i \<le> 4 \<and> ext < 4294967296 \<and>
     (if p = 0 then partition v = 0xFFFFFF \<and> i = 0 \<and> ext = 0 \<and> hd ns = 0
      else partition v = slice_no (p - 1) \<and> table_offset v = of_nat (hd ns) \<and> table_entry v = of_nat i - 1
        \<and> ext_offset v = of_nat ext \<and> \<not> IS_PC_SLICE_TYPE_BSD (slice_type v AND 0xFF))"

definition visited :: "nat \<Rightarrow> nat \<Rightarrow> nat \<Rightarrow> u32 \<times> u32 \<times> u32 \<Rightarrow> nat \<Rightarrow> slice_vars" where
  "visited q i n e ext = \<lparr>partition = slice_no q, slice_type = fst e, slice_start = fst (snd e), slice_len = snd (snd e),
     table_offset = of_nat n, table_entry = of_nat i, ext_offset = of_nat ext\<rparr>"

definition next_number :: "nat \<Rightarrow> u32 \<times> u32 \<times> u32 \<Rightarrow> nat" where
  "next_number p e = (if p \<le> 4 \<or> proper e then p else p - 1)"

lemma numbered_Cons: "numbered p (e # es) = (next_number p e, e) # numbered (Suc (next_number p e)) es"
  by (simp add: next_number_def Let_def)

lemma next_pc_slice_reads:
  assumes t: "table_reader bios d g buf s" and v: "stands p i ext ns v" and n: "hd ns < total g"
    and sig: "PC_MBR_CHECK_SIG (sector_at (drives s d) (hd ns)) 0"
  defines "no \<equiv> (if p = 0 then -1 else of_nat (p - 1)) :: u32" and "v1 \<equiv> v\<lparr>table_offset := of_nat (hd ns), ext_offset := of_nat ext, table_entry := of_nat i\<rparr>"
  shows "\<exists>s'. only_reads d g buf s s' \<and> read_bytes (gmem s') buf 512 = disk_bytes (drives s) d (hd ns * 512) 512
    \<and> next_pc_slice bios d buf v s =
      (if i = 4 then
         (case extended_in (drives s d) (hd ns) of
            Some j \<Rightarrow> next_pc_slice bios d buf (to_extended (gmem s') buf j v1) s'
          | None \<Rightarrow> Some (False, v1, s'\<lparr>errnum := ERR_NO_PART\<rparr>))
       else Some (True, take_entry (gmem s') buf no v1, s'))"
proof -
  obtain s' where s': "rawread bios d (of_nat (hd ns)) 0 SECTOR_SIZE buf s = Some (True, s')" "only_reads d g buf s s'"
    "read_bytes (gmem s') buf 512 = disk_bytes (drives s) d (hd ns * 512) 512"
    using read_table [OF t n] by blast
  note f = table_fields [OF s'(3)]
  have p: "drop_bit 16 (partition v AND 0xFF0000) = (if p = 0 then 0xFF else of_nat (p - 1))"
    using v slice_no_fields(5) [of "p - 1"] slice_no_fields(5) [of 255] by (auto simp: stands_def slice_no_255)
  have q: "(of_nat (p - 1) :: u32) \<noteq> 0xFF" if "p \<noteq> 0"
  proof -
    have "p - 1 < 255" using v that by (auto simp: stands_def)
    then have "(of_nat (p - 1) :: u32) \<noteq> of_nat 255" by (subst of_nat_u32_inj) simp_all
    then show ?thesis by simp
  qed
  have e: "find (\<lambda>j. IS_PC_SLICE_TYPE_EXTENDED (ucast (PC_SLICE_TYPE (gmem s') buf j))) [0..<4] = extended_in (drives s d) (hd ns)"
    unfolding extended_in_def by (rule find_cong) (simp_all add: f(2))
  have sg: "PC_MBR_CHECK_SIG (gmem s') buf" using f(1) sig by simp
  have i: "(of_nat i :: u32) = 4 \<longleftrightarrow> i = 4" using v of_nat_u32_inj [of i 4] by (auto simp: stands_def)
  show ?thesis
  proof (cases "p = 0")
    case True
    then have "hd ns = 0" "i = 0" "ext = 0" using v by (simp_all add: stands_def)
    then show ?thesis
      using s' sg True p by (intro exI [of _ s'], subst next_pc_slice.simps) (simp add: no_def v1_def PC_SLICE_MAX_def del: read_bytes.simps)
  next
    case False
    then have w: "table_offset v = of_nat (hd ns)" "table_entry v + 1 = of_nat i" "ext_offset v = of_nat ext" using v by (simp_all add: stands_def)
    then have "v\<lparr>table_entry := of_nat i\<rparr> = v1" by (simp add: v1_def)
    then show ?thesis
      using s' sg False p q [OF False] i w e by (intro exI [of _ s'], subst next_pc_slice.simps) (auto simp: no_def PC_SLICE_MAX_def simp del: read_bytes.simps of_nat_diff)
  qed
qed

lemma table_entries_nth:
  "i < 4 \<Longrightarrow> table_entries img n ! i = (table_type img n i, of_nat n + table_start img n i, PC_SLICE_LENGTH (sector_at img n) 0 i)"
  by (simp add: table_entries_def)

lemma length_table_entries [simp]: "length (table_entries img n) = 4"
  by (simp add: table_entries_def)

lemma take_entry_visited:
  assumes m: "read_bytes m buf 512 = disk_bytes ds d (n * 512) 512" and i: "i < 4" and p: "p < 256"
  defines "e \<equiv> table_entries (ds d) n ! i"
  shows "take_entry m buf (if p = 0 then -1 else of_nat (p - 1)) (v\<lparr>table_offset := of_nat n, ext_offset := of_nat ext, table_entry := of_nat i\<rparr>)
    = visited (next_number p e) i n e ext"
proof -
  have u: "unat (of_nat i :: u32) = i" using i by (simp add: unat_of_nat_u32)
  have e: "e = (table_type (ds d) n i, of_nat n + table_start (ds d) n i, PC_SLICE_LENGTH (sector_at (ds d) n) 0 i)"
    using i by (simp add: e_def table_entries_nth)
  have "(if p = 0 then -1 else of_nat (p - 1)) <s (4 :: u32) \<longleftrightarrow> p \<le> 4"
  proof (cases "p = 0")
    case False
    have "(of_nat (p - 1) :: u32) <s of_nat 4 \<longleftrightarrow> p - 1 < 4" using p by (intro of_nat_sless_u32) simp_all
    then show ?thesis using False by (auto simp del: of_nat_diff)
  qed (simp add: word_sless_alt)
  moreover have "(if p = 0 then -1 else of_nat (p - 1)) + 1 = (of_nat p :: u32)" by auto
  moreover have "\<not> p \<le> 4 \<Longrightarrow> p \<noteq> 0" by simp
  ultimately show ?thesis
    using table_fields(2-4) [OF m i] u
    by (simp add: take_entry_def visited_def e next_number_def proper_def slice_no_def PC_SLICE_MAX_def Let_def del: of_nat_diff)
qed

lemma stands_visited:
  assumes "i < 4" and "q < 255" and "ext < 4294967296" and "\<not> IS_PC_SLICE_TYPE_BSD (table_type img (hd ns) i)"
  shows "stands (Suc q) (Suc i) ext ns (visited q i (hd ns) (table_entries img (hd ns) ! i) ext)"
proof -
  have "ucast b AND (0xFF :: u32) = ucast b" for b :: u8
    unfolding byte_masks by (rule bit_word_eqI) (auto simp: bit_simps dest: bit_imp_le_length)
  then show ?thesis using assms by (simp add: stands_def visited_def table_entries_nth table_type_def)
qed

lemma stands_extended:
  assumes "read_bytes m buf 512 = disk_bytes ds d (hd ns * 512) 512" and v: "stands p 4 ext ns v" and "j < 4"
    and "hd ns' = ext + unat (table_start (ds d) (hd ns) j)" and "hd ns' < 4294967296"
  shows "stands p 0 (if ext = 0 then hd ns' else ext) ns'
    (to_extended m buf j (v\<lparr>table_offset := of_nat (hd ns), ext_offset := of_nat ext, table_entry := of_nat 4\<rparr>))"
proof -
  have "(of_nat ext :: u32) = 0 \<longleftrightarrow> ext = 0" using v of_nat_u32_inj [of ext 0] by (simp add: stands_def)
  moreover have "of_nat ext + PC_SLICE_START m buf j = of_nat (hd ns')"
    using table_fields(3) [OF assms(1,3)] assms(4) by simp
  ultimately show ?thesis using v assms(5) by (auto simp: stands_def to_extended_def Let_def split: if_splits)
qed

section \<open>The next slice\<close>

definition remaining :: "(nat \<Rightarrow> u8) \<Rightarrow> nat \<Rightarrow> nat list \<Rightarrow> (u32 \<times> u32 \<times> u32) list" where
  "remaining img i ns = drop i (table_entries img (hd ns)) @ concat (map (table_entries img) (tl ns))"

lemma remaining_Cons: "i < 4 \<Longrightarrow> remaining img i ns = table_entries img (hd ns) ! i # remaining img (Suc i) ns"
  by (simp add: remaining_def Cons_nth_drop_Suc [symmetric])

text \<open>\<open>v'\<close> stands behind the slice \<open>e\<close>, the first of those that remained, whose table is at \<open>buf\<close>.\<close>

definition steps_to :: "nat \<Rightarrow> (nat \<Rightarrow> u8) \<Rightarrow> nat \<Rightarrow> memory \<Rightarrow> u32 \<Rightarrow> u32 \<times> u32 \<times> u32 \<Rightarrow> (u32 \<times> u32 \<times> u32) list \<Rightarrow> slice_vars \<Rightarrow> bool" where
  "steps_to p img k m buf e es v' \<longleftrightarrow> partition v' = slice_no (next_number p e)
     \<and> (slice_type v', slice_start v', slice_len v') = e
     \<and> (\<exists>i ext ns. stands (Suc (next_number p e)) (Suc i) ext ns v' \<and> i < 4 \<and> chained img k ext ns \<and> remaining img (Suc i) ns = es
          \<and> table_entries img (hd ns) ! i = e \<and> read_bytes m buf 512 = map (\<lambda>j. img (hd ns * 512 + j)) [0..<512])"

lemma chained_hd:
  assumes "chained img k ext ns"
  shows "hd ns < k \<and> PC_MBR_CHECK_SIG (sector_at img (hd ns)) 0 \<and> (\<forall>i < 4. \<not> IS_PC_SLICE_TYPE_BSD (table_type img (hd ns) i))
    \<and> (case extended_in img (hd ns) of None \<Rightarrow> tl ns = []
      | Some i \<Rightarrow> tl ns \<noteq> [] \<and> hd (tl ns) = ext + unat (table_start img (hd ns) i)
          \<and> chained img k (if ext = 0 then hd (tl ns) else ext) (tl ns))"
proof (cases ns)
  case Nil
  then show ?thesis using assms by simp
next
  case (Cons n ns')
  show ?thesis using assms unfolding Cons chained.simps list.sel .
qed

lemma next_in_table:
  assumes t: "table_reader bios d g buf s" and v: "stands p i ext ns v" and c: "chained (drives s d) (total g) ext ns"
    and i: "i < 4" and q: "next_number p (table_entries (drives s d) (hd ns) ! i) < 255"
  shows "\<exists>v' s'. next_pc_slice bios d buf v s = Some (True, v', s') \<and> only_reads d g buf s s'
    \<and> steps_to p (drives s d) (total g) (gmem s') buf (hd (remaining (drives s d) i ns)) (tl (remaining (drives s d) i ns)) v'"
proof -
  let ?img = "drives s d" and ?n = "hd ns"
  let ?e = "table_entries ?img ?n ! i"
  have n: "?n < total g" "PC_MBR_CHECK_SIG (sector_at ?img ?n) 0" "\<not> IS_PC_SLICE_TYPE_BSD (table_type ?img ?n i)"
    using chained_hd [OF c] i by auto
  obtain s' where s': "only_reads d g buf s s'" "read_bytes (gmem s') buf 512 = disk_bytes (drives s) d (?n * 512) 512"
    "next_pc_slice bios d buf v s = Some (True, take_entry (gmem s') buf (if p = 0 then -1 else of_nat (p - 1))
       (v\<lparr>table_offset := of_nat ?n, ext_offset := of_nat ext, table_entry := of_nat i\<rparr>), s')"
    using next_pc_slice_reads [OF t v n(1,2)] i by auto
  have p: "p < 256" "ext < 4294967296" using v by (simp_all add: stands_def)
  let ?v = "visited (next_number p ?e) i ?n ?e ext"
  note r = remaining_Cons [OF i, of ?img ns]
  have "next_pc_slice bios d buf v s = Some (True, ?v, s')"
    using s'(3) unfolding take_entry_visited [OF s'(2) i p(1)] .
  moreover have "steps_to p ?img (total g) (gmem s') buf ?e (remaining ?img (Suc i) ns) ?v"
    using stands_visited [OF i q p(2) n(3)] c i s'(2) unfolding steps_to_def disk_bytes_def
    by (intro conjI exI [of _ i] exI [of _ ext] exI [of _ ns]) (auto simp: visited_def simp del: read_bytes.simps)
  ultimately show ?thesis using s'(1) unfolding r by auto
qed

lemma next_slice:
  assumes t: "table_reader bios d g buf s" and d: "current_drive s \<noteq> NETWORK_DRIVE" "d AND 0x80 \<noteq> 0"
    and v: "stands p i ext ns v" and c: "chained (drives s d) (total g) ext ns"
    and q: "\<forall>(q, e) \<in> set (numbered p (remaining (drives s d) i ns)). q < 255"
  shows "\<exists>v' s'. only_reads d g buf s s' \<and>
    (case remaining (drives s d) i ns of
       [] \<Rightarrow> next_partition bios d dest buf v s = Some (False, v', s'\<lparr>errnum := ERR_NO_PART\<rparr>)
     | e # es \<Rightarrow> next_partition bios d dest buf v s = Some (True, v', s') \<and> steps_to p (drives s d) (total g) (gmem s') buf e es v')"
proof -
  let ?img = "drives s d" and ?n = "hd ns"
  have "\<not> (partition v \<noteq> 0xFFFFFF \<and> IS_PC_SLICE_TYPE_BSD (slice_type v AND 0xff))"
    using v by (cases "p = 0") (simp_all add: stands_def)
  then have np: "next_partition bios d dest buf v s = next_pc_slice bios d buf v s"
    using d unfolding next_partition_def by (simp only: if_False simp_thms)
  have n: "?n < total g" "PC_MBR_CHECK_SIG (sector_at ?img ?n) 0"
    "case extended_in ?img ?n of None \<Rightarrow> tl ns = []
      | Some i \<Rightarrow> tl ns \<noteq> [] \<and> hd (tl ns) = ext + unat (table_start ?img ?n i) \<and> chained ?img (total g) (if ext = 0 then hd (tl ns) else ext) (tl ns)"
    using chained_hd [OF c] by auto
  have i: "i \<le> 4" using v by (simp add: stands_def)
  have 1: ?thesis if i: "i < 4"
  proof -
    note r = remaining_Cons [OF i, of ?img ns]
    from this have "next_number p (table_entries ?img ?n ! i) < 255" using q by (simp add: numbered_Cons del: numbered.simps)
    from next_in_table [OF t v c i this] show ?thesis unfolding np r by auto
  qed
  show ?thesis
  proof (cases "i = 4")
    case False
    with i show ?thesis by (intro 1) simp
  next
    case True
    have r: "remaining ?img 4 ns = concat (map (table_entries ?img) (tl ns))" by (simp add: remaining_def)
    obtain s' where s': "only_reads d g buf s s'" "read_bytes (gmem s') buf 512 = disk_bytes (drives s) d (?n * 512) 512"
      "next_pc_slice bios d buf v s = (case extended_in ?img ?n of
         Some j \<Rightarrow> next_pc_slice bios d buf (to_extended (gmem s') buf j (v\<lparr>table_offset := of_nat ?n, ext_offset := of_nat ext, table_entry := of_nat 4\<rparr>)) s'
       | None \<Rightarrow> Some (False, v\<lparr>table_offset := of_nat ?n, ext_offset := of_nat ext, table_entry := of_nat 4\<rparr>, s'\<lparr>errnum := ERR_NO_PART\<rparr>))"
      using next_pc_slice_reads [OF t v n(1,2)] unfolding True by auto
    show ?thesis
    proof (cases "extended_in ?img ?n")
      case None
      then show ?thesis using s' n(3) r True np by auto
    next
      case (Some j)
      let ?ns = "tl ns" and ?ext = "if ext = 0 then hd (tl ns) else ext"
      have c': "?ns \<noteq> []" "hd ?ns = ext + unat (table_start ?img ?n j)" "chained ?img (total g) ?ext ?ns" using n(3) Some by simp_all
      have j: "j < 4" using Some by (auto simp: extended_in_def find_Some_iff)
      have dr: "drives s' = drives s" using only_readsD [OF s'(1)] by auto
      have "hd ?ns < total g" using c' by (cases ?ns) auto
      then have "hd ?ns < 4294967296" using unat_u32_less [of "total_sectors g"] by simp
      from stands_extended [OF s'(2) _ j c'(2) this] v True
      have v': "stands p 0 ?ext ?ns (to_extended (gmem s') buf j (v\<lparr>table_offset := of_nat ?n, ext_offset := of_nat ext, table_entry := of_nat 4\<rparr>))"
        by simp
      have r0: "remaining ?img 0 ?ns = remaining ?img 4 ns" using c'(1) unfolding r by (cases ?ns) (simp_all add: remaining_def)
      have r': "remaining ?img 4 ns = (table_entries ?img (hd ?ns) ! 0) # remaining ?img (Suc 0) ?ns"
        using remaining_Cons [of 0 ?img ?ns] r0 by simp
      have "next_number p (table_entries ?img (hd ?ns) ! 0) < 255" using q True by (simp add: r' numbered_Cons del: numbered.simps)
      from next_in_table [OF table_reader_kept [OF t s'(1)] v', unfolded dr, OF c'(3) _ this]
      obtain v2 s2 where 2: "next_pc_slice bios d buf (to_extended (gmem s') buf j (v\<lparr>table_offset := of_nat ?n, ext_offset := of_nat ext, table_entry := of_nat 4\<rparr>)) s' = Some (True, v2, s2)"
        "only_reads d g buf s' s2"
        "steps_to p ?img (total g) (gmem s2) buf (hd (remaining ?img 4 ns)) (tl (remaining ?img 4 ns)) v2"
        unfolding r0 by auto
      have "next_partition bios d dest buf v s = Some (True, v2, s2)" using np s'(3) Some 2(1) by simp
      then show ?thesis using only_reads_trans [OF s'(1) 2(2)] 2(3) unfolding True r' by auto
    qed
  qed
qed

end
