(* ===== verification/Grub_Slices_Props.thy ===== *)
theory Grub_Slices_Props
  imports Grub_Slices_Steps
begin

text \<open>
  Properties of the partitions of a hard disk: the iteration visits the slices of the chain of tables, and an opened partition bounds what
  is read.
\<close>

section \<open>The whole iteration\<close>

text \<open>The loop of the callers, \<open>while (next_partition (...))\<close>, which notes what each call leaves in the variables.\<close>

partial_function (option) all_partitions :: "bios \<Rightarrow> u32 \<Rightarrow> u32 \<Rightarrow> slice_vars \<Rightarrow> 'a devices_scheme \<Rightarrow> (slice_vars list \<times> 'a devices_scheme) option" where
  "all_partitions bios d buf v s =
     do {
       (ok, v, s) \<leftarrow> next_partition bios d 0xFFFFFF buf v s;
       if ok then do { (vs, s) \<leftarrow> all_partitions bios d buf v s; Some (v # vs, s) } else Some ([], s)
     }"

lemma all_partitions_spec:
  assumes "table_reader bios d g buf s" and "current_drive s \<noteq> NETWORK_DRIVE" and "d AND 0x80 \<noteq> 0"
    and "stands p i ext ns v" and "chained (drives s d) (total g) ext ns"
    and "\<forall>(q, e) \<in> set (numbered p (remaining (drives s d) i ns)). q < 255"
  shows "\<exists>vs s'. all_partitions bios d buf v s = Some (vs, s') \<and> errnum s' = ERR_NO_PART \<and> drives s' = drives s
    \<and> map (\<lambda>v. (partition v, slice_type v, slice_start v, slice_len v)) vs
        = map (\<lambda>(q, e). (slice_no q, e)) (numbered p (remaining (drives s d) i ns))"
  using assms
proof (induction "remaining (drives s d) i ns" arbitrary: p i ext ns v s)
  case Nil
  obtain v' s' where "only_reads d g buf s s'" "next_partition bios d 0xFFFFFF buf v s = Some (False, v', s'\<lparr>errnum := ERR_NO_PART\<rparr>)"
    using next_slice [OF Nil(2-7), of "0xFFFFFF"] unfolding Nil(1) [symmetric] by auto
  then show ?case using only_readsD [of d g buf s s'] by (subst all_partitions.simps) (auto simp flip: Nil(1))
next
  case (Cons e es)
  note r = Cons(2) [symmetric]
  let ?q = "next_number p e"
  obtain v' s' where s': "only_reads d g buf s s'" "next_partition bios d 0xFFFFFF buf v s = Some (True, v', s')"
    "steps_to p (drives s d) (total g) (gmem s') buf e es v'"
    using next_slice [OF Cons(3-8), of "0xFFFFFF"] unfolding r by auto
  from s'(3) obtain i' ext' ns' where st: "partition v' = slice_no ?q" "(slice_type v', slice_start v', slice_len v') = e"
    "stands (Suc ?q) i' ext' ns' v'" "chained (drives s d) (total g) ext' ns'" "remaining (drives s d) i' ns' = es"
    unfolding steps_to_def by blast
  have dr: "drives s' = drives s" "current_drive s' = current_drive s" using only_readsD [OF s'(1)] by auto
  have "\<forall>(q, e) \<in> set (numbered (Suc ?q) es). q < 255" using Cons(8) by (simp add: r numbered_Cons del: numbered.simps)
  then obtain vs s2 where "all_partitions bios d buf v' s' = Some (vs, s2)" "errnum s2 = ERR_NO_PART" "drives s2 = drives s"
    "map (\<lambda>v. (partition v, slice_type v, slice_start v, slice_len v)) vs = map (\<lambda>(q, e). (slice_no q, e)) (numbered (Suc ?q) es)"
    using Cons(1) [of s' i' ns' "Suc ?q" ext' v', unfolded dr, OF st(5) [symmetric] table_reader_kept [OF Cons(3) s'(1)] Cons(4,5) st(3,4)]
    by (auto simp: st(5))
  then show ?case using s'(2) st(1,2) by (subst all_partitions.simps) (auto simp: r numbered_Cons simp del: numbered.simps)
qed

lemma stands_start: "partition v = 0xFFFFFF \<Longrightarrow> stands 0 0 0 (0 # ns) v"
  by (simp add: stands_def)

lemma remaining_start: "numbered 0 (remaining img 0 (n # ns)) = slices img (n # ns)"
  by (simp add: remaining_def slices_def)

text \<open>C8: on a hard disk whose partition tables form a chain, repeated calls of \<open>next_partition\<close> return the four entries of
  each table in the order of the chain, with their types, first sectors, lengths and numbers, empty and extended
  ones included, and then fail with \<open>ERR_NO_PART\<close>; the iteration ends.\<close>

theorem next_partition_enumerates:
  assumes "table_reader bios d g buf s" and "current_drive s \<noteq> NETWORK_DRIVE" and "d AND 0x80 \<noteq> 0"
    and "chained (drives s d) (total g) 0 (0 # ns)" and "\<forall>(q, e) \<in> set (slices (drives s d) (0 # ns)). q < 255"
  shows "\<exists>vs s'. all_partitions bios d buf (v\<lparr>partition := 0xFFFFFF\<rparr>) s = Some (vs, s')
    \<and> map (\<lambda>v. (partition v, slice_type v, slice_start v, slice_len v)) vs = map (\<lambda>(q, e). (slice_no q, e)) (slices (drives s d) (0 # ns))
    \<and> errnum s' = ERR_NO_PART \<and> drives s' = drives s"
proof -
  have "stands 0 0 0 (0 # ns) (v\<lparr>partition := 0xFFFFFF\<rparr>)" by (rule stands_start) simp
  from all_partitions_spec [OF assms(1-3) this assms(4)] assms(5) show ?thesis unfolding remaining_start by blast
qed

section \<open>Opening\<close>

text \<open>What opening sets first is not used to find out the geometry.\<close>

definition begun :: "u32 \<Rightarrow> 'a devices_scheme \<Rightarrow> 'a devices_scheme" where
  "begun a s = s\<lparr>part_start := a, current_slice := 0, bsd_evil_hack := 0\<rparr>"

lemma begun_simps [simp]:
  "cdrp_at (begun a s) = cdrp_at s" "cdrp_stack (begun a s) = cdrp_stack s" "drp_at (begun a s) = drp_at s"
  "drp_stack (begun a s) = drp_stack s" "buf_drive (begun a s) = buf_drive s" "buf_geom (begun a s) = buf_geom s"
  by (simp_all add: begun_def)

lemma memcheck_frame: "memcheck x n (begun a s) = (fst (memcheck x n s), begun a (snd (memcheck x n s)))"
  by (simp add: memcheck_def begun_def Let_def)

lemma get_cdinfo_frame: "get_cdinfo bios d g (begun a s) = (let (e, g, s') = get_cdinfo bios d g s in (e, g, begun a s'))"
  by (simp add: get_cdinfo_def memcheck_frame Let_def case_prod_beta)

lemma lba_total_frame: "lba_total bios d g (begun a s) = (let (e, g, s') = lba_total bios d g s in (e, g, begun a s'))"
  by (simp add: lba_total_def memcheck_frame Let_def case_prod_beta)

lemma get_diskinfo_frame: "get_diskinfo bios d g (begun a s) = (let (e, g, s') = get_diskinfo bios d g s in (e, g, begun a s'))"
  by (simp add: get_diskinfo_def get_cdinfo_frame lba_total_frame Let_def split: prod.splits)

lemma check_drive_opens:
  assumes "table_reader bios d g buf s"
  shows "\<exists>t. check_drive bios d (begun a s)
      = (True, (begun a s)\<lparr>buf_drive := d, buf_track := t, buf_geom := g\<rparr>)
    \<and> buffered d g (s\<lparr>buf_drive := d, buf_track := t, buf_geom := g\<rparr>)"
proof (cases "buf_drive s = d")
  case True
  then have b: "buffered d g s" using assms by (simp add: table_reader_def drive_known_def)
  then have "s\<lparr>buf_drive := d, buf_track := buf_track s, buf_geom := g\<rparr> = s" by (simp add: buffered_def)
  moreover have "(begun a s)\<lparr>buf_drive := d, buf_track := buf_track s, buf_geom := g\<rparr>
      = begun a s"
    using b by (simp add: buffered_def begun_def)
  ultimately show ?thesis using True b by (intro exI [of _ "buf_track s"]) (simp add: check_drive_def begun_def)
next
  case False
  then have "get_diskinfo bios d (buf_geom s) s = (0, g, s)" using assms by (simp add: table_reader_def drive_known_def)
  moreover have "total g < 2147483648" using assms by (simp add: table_reader_def geometry_ok_def)
  then have "(-1 :: u32) \<noteq> of_nat t" if "t < total g" for t using that by (intro of_nat_not_minus_1 [THEN not_sym]) simp
  ultimately have "check_drive bios d (begun a s) = (True, (begun a s)\<lparr>buf_drive := d, buf_track := -1, buf_geom := g\<rparr>)"
    "buffered d g (s\<lparr>buf_drive := d, buf_track := -1, buf_geom := g\<rparr>)"
    using False by (simp_all add: check_drive_def get_diskinfo_frame buffered_def)
  then show ?thesis by blast
qed

text \<open>The partition that is found is open.\<close>

definition opened :: "bios \<Rightarrow> u32 \<Rightarrow> geometry \<Rightarrow> u32 \<Rightarrow> nat \<Rightarrow> u32 \<times> u32 \<times> u32 \<Rightarrow> 'a devices_scheme \<Rightarrow> 'a devices_scheme \<Rightarrow> bool" where
  "opened bios d g buf q e s s' \<longleftrightarrow> current_partition s' = slice_no q \<and> (current_slice s', part_start s', part_length s') = e
     \<and> table_reader bios d g buf s' \<and> current_drive s' = current_drive s \<and> drives s' = drives s
     \<and> errnum s' = ERR_NONE \<and> mem_lower s' = mem_lower s \<and> mem_upper s' = mem_upper s
     \<and> buffered d g s' \<and> devices.more s' = devices.more s
     \<and> (\<forall>a. \<not> in_region a buf 512 \<longrightarrow> \<not> in_region a BUFFERADDR 0x7e00 \<longrightarrow> gmem s' a = gmem s a)"

lemma open_loop_spec:
  assumes "table_reader bios d g buf s" and "d = current_drive s" and "d \<noteq> NETWORK_DRIVE" and "d AND 0x80 \<noteq> 0"
    and "stands p i ext ns v" and "chained (drives s d) (total g) ext ns"
    and "\<forall>(q, e) \<in> set (numbered p (remaining (drives s d) i ns)). q < 255" and "r < 255"
  shows "case find (\<lambda>(q, e). q = r \<and> fst e \<noteq> 0) (numbered p (remaining (drives s d) i ns)) of
      Some (q, e) \<Rightarrow> \<exists>s'. open_loop bios (slice_no r) buf v s = Some (True, s') \<and> opened bios d g buf q e s s'
    | None \<Rightarrow> \<exists>s'. open_loop bios (slice_no r) buf v s = Some (False, s') \<and> errnum s' = ERR_NO_PART"
  using assms
proof (induction "remaining (drives s d) i ns" arbitrary: p i ext ns v s)
  case Nil
  note nd = Nil(4) [unfolded Nil(3)]
  obtain v' s' where "next_partition bios d (slice_no r) buf v s = Some (False, v', s'\<lparr>errnum := ERR_NO_PART\<rparr>)"
    using next_slice [OF Nil(2) nd Nil(5-8), of "slice_no r"] unfolding Nil(1) [symmetric] by auto
  then show ?case unfolding Nil(1) [symmetric] by (subst open_loop.simps) (simp add: Nil(3) [symmetric] set_current_def)
next
  case (Cons e es)
  note t = Cons(3) and d = Cons(4) and nd = Cons(5) [unfolded Cons(4)] and rem = Cons(2) [symmetric]
  let ?q = "next_number p e" and ?img = "drives s d"
  obtain v' s' where s': "only_reads d g buf s s'" "next_partition bios d (slice_no r) buf v s = Some (True, v', s')"
    "steps_to p ?img (total g) (gmem s') buf e es v'"
    using next_slice [OF t nd Cons(6-9), of "slice_no r"] unfolding rem by auto
  from s'(3) obtain i' ext' ns' where st: "partition v' = slice_no ?q" "(slice_type v', slice_start v', slice_len v') = e"
    "stands (Suc ?q) i' ext' ns' v'" "chained ?img (total g) ext' ns'" "remaining ?img i' ns' = es"
    unfolding steps_to_def by blast
  have q: "?q < 255" "\<forall>(q, e) \<in> set (numbered (Suc ?q) es). q < 255" using Cons(9) by (simp_all add: rem numbered_Cons del: numbered.simps)
  have f: "drives s' = drives s" "current_drive s' = d" "errnum s' = ERR_NONE" "mem_lower s' = mem_lower s" "mem_upper s' = mem_upper s"
    "devices.more s' = devices.more s" "\<forall>a. \<not> in_region a buf 512 \<longrightarrow> \<not> in_region a BUFFERADDR 0x7e00 \<longrightarrow> gmem s' a = gmem s a"
    using only_readsD [OF s'(1)] t d by (auto simp: table_reader_def room_def)
  note t' = table_reader_kept [OF t s'(1)]
  define s1 where "s1 = (set_current v' s')\<lparr>cur_part_offset := table_offset v', cur_part_addr := BOOT_PART_TABLE + push_bit 4 (table_entry v')\<rparr>"
  have buf': "buffered d g s'" using only_readsD [OF s'(1)] by auto
  then have t1: "table_reader bios d g buf s1" "errnum s1 = ERR_NONE" "s1\<lparr>errnum := ERR_NONE\<rparr> = s1" "current_drive s1 = d" "drives s1 = drives s"
    using t' f by (simp_all add: s1_def set_current_def table_reader_def room_def drive_known_def buffered_def holds_track_def)
  have b1: "buffered d g s1" using buf' by (simp add: s1_def set_current_def buffered_def holds_track_def)
  have no: "slice_no r = slice_no ?q \<longleftrightarrow> r = ?q" "drop_bit 16 (slice_no r) \<noteq> 0xFF"
    using slice_no_inj [of r ?q] slice_no_fields(6) [of r] of_nat_u32_inj [of r 255] q(1) Cons(10) by auto
  have l: "open_loop bios (slice_no r) buf v s
      = (if fst e \<noteq> 0 \<and> ?q = r then Some (True, s1) else open_loop bios (slice_no r) buf v' s1)"
    using s'(2) st(1,2) no t1(3)
    by (subst open_loop.simps) (auto simp: d [symmetric] s1_def set_current_def Let_def)
  show ?case
  proof (cases "fst e \<noteq> 0 \<and> ?q = r")
    case True
    then have "opened bios d g buf ?q e s s1" using t1 b1 f st(1,2) d by (auto simp: opened_def s1_def set_current_def)
    then show ?thesis using True l by (simp add: rem numbered_Cons del: numbered.simps)
  next
    case False
    have "case find (\<lambda>(q, e). q = r \<and> fst e \<noteq> 0) (numbered (Suc ?q) es) of
      Some (q, e) \<Rightarrow> \<exists>s'. open_loop bios (slice_no r) buf v' s1 = Some (True, s') \<and> opened bios d g buf q e s1 s'
    | None \<Rightarrow> \<exists>s'. open_loop bios (slice_no r) buf v' s1 = Some (False, s') \<and> errnum s' = ERR_NO_PART"
      using Cons(1) [of s1 i' ns' "Suc ?q" ext' v', unfolded t1(4,5), OF st(5) [symmetric] t1(1) refl Cons(5,6) st(3,4) _ Cons(10)] q(2)
      unfolding st(5) by blast
    moreover have "opened bios d g buf q e s1 s'' \<Longrightarrow> opened bios d g buf q e s s''" for q e s''
      using f d by (simp add: opened_def s1_def set_current_def)
    moreover have "find (\<lambda>(q, e). q = r \<and> fst e \<noteq> 0) (numbered p (remaining ?img i ns)) = find (\<lambda>(q, e). q = r \<and> fst e \<noteq> 0) (numbered (Suc ?q) es)"
      using False by (auto simp: rem numbered_Cons simp del: numbered.simps)
    ultimately show ?thesis using l False by (auto split: option.splits)
  qed
qed

lemma open_partition_spec:
  assumes t: "table_reader bios d g buf s" and d: "d = current_drive s" "d AND 0x80 \<noteq> 0" "d AND 0xFFFFFF7F < 8"
    and r: "current_partition s = slice_no r" "r < 255"
    and c: "chained (drives s d) (total g) 0 (0 # ns)" and q: "\<forall>(q, e) \<in> set (slices (drives s d) (0 # ns)). q < 255"
  shows "case find (\<lambda>(q, e). q = r \<and> fst e \<noteq> 0) (slices (drives s d) (0 # ns)) of
      Some (q, e) \<Rightarrow> \<exists>s'. open_partition bios buf v s = Some (True, s') \<and> opened bios d g buf q e s s'
    | None \<Rightarrow> \<exists>s'. open_partition bios buf v s = Some (False, s') \<and> errnum s' = ERR_NO_PART"
proof -
  have "d \<noteq> NETWORK_DRIVE" using d(2) by (auto simp: NETWORK_DRIVE_def)
  note dd = d(1) this d(2)
  have "sane_partition s = (True, s)"
    using d r slice_no_fields(1,3,4) [of r] by (simp add: sane_partition_def)
  moreover obtain tr where ck: "check_drive bios d (begun 0 s) = (True, (begun 0 s)\<lparr>buf_drive := d, buf_track := tr, buf_geom := g\<rparr>)"
    "buffered d g (s\<lparr>buf_drive := d, buf_track := tr, buf_geom := g\<rparr>)"
    using check_drive_opens [OF t] by blast
  define s1 where "s1 = (begun 0 s)\<lparr>buf_drive := d, buf_track := tr, buf_geom := g, part_length := total_sectors g, current_partition := 0xFFFFFF\<rparr>"
  moreover have "slice_no r \<noteq> 0xFFFFFF" using slice_no_inj [of r 255] r(2) by (simp add: slice_no_255)
  ultimately have o: "open_partition bios buf v s = open_loop bios (slice_no r) buf
      (v\<lparr>partition := 0xFFFFFF, slice_type := 0, slice_start := 0, slice_len := total_sectors g\<rparr>) s1"
    using dd r ck(1) by (simp add: open_partition_def begun_def Let_def)
  have f: "drives s1 = drives s" "current_drive s1 = d" "mem_lower s1 = mem_lower s" "mem_upper s1 = mem_upper s" "errnum s1 = errnum s"
    "devices.more s1 = devices.more s" "gmem s1 = gmem s"
    using d by (simp_all add: s1_def begun_def)
  have "buffered d g s1" using ck(2) by (simp add: s1_def begun_def buffered_def holds_track_def)
  then have t1: "table_reader bios d g buf s1"
    using t f by (simp add: table_reader_def room_def drive_known_def buffered_def)
  have op: "opened bios d g buf q e s1 s' \<Longrightarrow> opened bios d g buf q e s s'" for q e s' using f d by (simp add: opened_def)
  have "stands 0 0 0 (0 # ns) (v\<lparr>partition := 0xFFFFFF, slice_type := 0, slice_start := 0, slice_len := total_sectors g\<rparr>)"
    by (rule stands_start) simp
  from open_loop_spec [OF t1 f(2) [symmetric] dd(2,3) this, unfolded f(1) remaining_start, OF c q r(2)] op
  show ?thesis unfolding o by (cases "find (\<lambda>(q, e). q = r \<and> fst e \<noteq> 0) (slices (drives s d) (0 # ns))") auto
qed

text \<open>C9: opening a slice of a hard disk finds the first slice of the chain of tables that has the number and is not empty, and then
  \<open>devread\<close> gives the bytes of the drive from the start of that slice and nothing beyond its end; if there is no such slice
  opening it fails with \<open>ERR_NO_PART\<close>.\<close>

theorem open_partition_reads:
  assumes "table_reader bios d g buf s" and "d = current_drive s" and "d AND 0x80 \<noteq> 0" and "d AND 0xFFFFFF7F < 8"
    and "current_partition s = slice_no r" and "r < 255"
    and "chained (drives s d) (total g) 0 (0 # ns)" and "\<forall>(q, e) \<in> set (slices (drives s d) (0 # ns)). q < 255"
  shows "case find (\<lambda>(q, e). q = r \<and> fst e \<noteq> 0) (slices (drives s d) (0 # ns)) of
      None \<Rightarrow> \<exists>s'. open_partition bios buf v s = Some (False, s') \<and> errnum s' = ERR_NO_PART
    | Some (q, type, start, len) \<Rightarrow>
        \<exists>s1. open_partition bios buf v s = Some (True, s1) \<and> current_slice s1 = type
          \<and> (\<forall>sector off n dst. unat start + unat len \<le> total g \<and> sector < 2147483648 \<and> 0 < n \<and> off + n < 2147479552
                \<and> room dst n s \<and> disjoint_regions dst n BUFFERADDR 0x7e00 \<longrightarrow>
              (\<exists>ok s2. devread bios (of_nat sector) (of_nat off) (of_nat n) dst s1 = Some (ok, s2)
                \<and> ok = (sector * 512 + off + n \<le> unat len * 512)
                \<and> (ok \<longrightarrow> read_bytes (gmem s2) dst n = disk_bytes (drives s) d ((unat start + sector) * 512 + off) n)))"
proof -
  have rd: "\<exists>ok s2. devread bios (of_nat sector) (of_nat off) (of_nat n) dst s1 = Some (ok, s2)
      \<and> ok = (sector * 512 + off + n \<le> unat len * 512)
      \<and> (ok \<longrightarrow> read_bytes (gmem s2) dst n = disk_bytes (drives s) d ((unat start + sector) * 512 + off) n)"
    if "opened bios d g buf q (type, start, len) s s1" "unat start + unat len \<le> total g" "sector < 2147483648" "0 < n" "off + n < 2147479552"
      "room dst n s" "disjoint_regions dst n BUFFERADDR 0x7e00"
    for s1 q type start len sector off n dst
  proof -
    have o: "geometry_ok g" "bios_reads bios (current_drive s1) g" "not_ezd (drives s1) (current_drive s1) g"
      "drive_known bios (current_drive s1) g s1" "sector_size g = 512" "part_start s1 = of_nat (unat start)" "part_length s1 = of_nat (unat len)"
      "room dst n s1" "drives s1 = drives s" "current_drive s1 = d"
      using that(1,6) assms(2) by (auto simp: opened_def table_reader_def room_def)
    show ?thesis using devread_spec [OF o(1-7) that(2-5) o(8) that(7)] unfolding o(9,10) by (fastforce split: if_splits simp del: read_bytes.simps)
  qed
  note op = open_partition_spec [OF assms, of v]
  show ?thesis
  proof (cases "find (\<lambda>(q, e). q = r \<and> fst e \<noteq> 0) (slices (drives s d) (0 # ns))")
    case None
    then show ?thesis using op by simp
  next
    case (Some x)
    obtain q type start len where x: "x = (q, type, start, len)" by (cases x)
    then obtain s1 where s1: "open_partition bios buf v s = Some (True, s1)" "opened bios d g buf q (type, start, len) s s1"
      using op Some by auto
    then have "current_slice s1 = type" by (simp add: opened_def)
    then show ?thesis using s1(1) rd [OF s1(2)] unfolding Some x by auto
  qed
qed

end
