(* ===== verification/Grub_Slices_Write.thy ===== *)
theory Grub_Slices_Write
  imports Grub_Slices_Props
begin

text \<open>
  Changing partition tables: which bytes of the drive \<open>make_saved_active\<close> and \<open>set_partition_hidden_flag\<close> change.
\<close>

section \<open>Writing back a table\<close>

lemma read_bytes_upd:
  assumes "k < n" and "n \<le> 4294967296"
  shows "read_bytes (m(p + of_nat k := x)) p n = (read_bytes m p n)[k := x]"
proof (rule nth_equalityI)
  fix i assume "i < length (read_bytes (m(p + of_nat k := x)) p n)"
  then have "i < n" by simp
  moreover have "(of_nat i :: u32) = of_nat k \<longleftrightarrow> i = k" using assms \<open>i < n\<close> by (intro of_nat_u32_inj) simp_all
  ultimately show "read_bytes (m(p + of_nat k := x)) p n ! i = (read_bytes m p n)[k := x] ! i"
    using assms(1) by (simp add: nth_read_bytes nth_list_update)
qed simp

lemma disk_write_back: "disk_write ds d a (disk_bytes ds d a n) = ds"
  by (auto simp: disk_write_def fun_eq_iff)

lemma disk_write_upd:
  assumes "k < length bs"
  shows "disk_write ds d a (bs[k := x]) = (disk_write ds d a bs)(d := (disk_write ds d a bs d)(a + k := x))"
  using assms by (auto simp: disk_write_def fun_eq_iff nth_list_update)

text \<open>What is needed to write a table from \<open>mbr\<close>.\<close>

definition table_writer :: "bios \<Rightarrow> u32 \<Rightarrow> geometry \<Rightarrow> u32 \<Rightarrow> 'a disk_scheme \<Rightarrow> bool" where
  "table_writer bios d g mbr s \<longleftrightarrow> table_reader bios d g mbr s \<and> bios_writes bios d g \<and> room SCRATCHADDR 512 s
     \<and> disjoint_regions mbr 512 SCRATCHADDR 512"

lemma table_writer_kept: "table_writer bios d g mbr s \<Longrightarrow> only_reads d g mbr s s' \<Longrightarrow> table_writer bios d g mbr s'"
  using table_reader_kept [of bios d g mbr s s'] only_readsD [of d g mbr s s'] by (auto simp: table_writer_def room_def)

lemma write_table:
  assumes w: "table_writer bios d g mbr s" and g: "buf_geom s = g" and n: "n < total g"
    and bs: "read_bytes m mbr 512 = bs"
  shows "\<exists>m' t. rawwrite bios d (of_nat n) mbr (s\<lparr>gmem := m\<rparr>)
    = Some (True, s\<lparr>gmem := m', drives := disk_write (drives s) d (n * 512) bs, buf_track := t\<rparr>)"
proof -
  have t: "geometry_ok g" "bios_reads bios d g" "bios_writes bios d g" "not_ezd (drives (s\<lparr>gmem := m\<rparr>)) d g" "sector_size g = 512"
    "buf_geom (s\<lparr>gmem := m\<rparr>) = g" "room SCRATCHADDR 512 (s\<lparr>gmem := m\<rparr>)" "unat mbr + 512 < 4294967296" "disjoint_regions mbr 512 SCRATCHADDR 512"
    using w g room_bounds [of mbr 512 s] by (auto simp: table_writer_def table_reader_def room_def)
  from rawwrite_spec [OF t(1-6) n t(7-9)] bs show ?thesis by auto
qed

section \<open>Hiding\<close>

definition type_at :: "nat \<Rightarrow> nat \<Rightarrow> nat" where
  "type_at n i = n * 512 + 450 + 16 * i"

text \<open>The type byte of the entry \<open>e\<close> of a table is changed, and nothing else on the drive.\<close>

definition type_changed :: "(u8 \<Rightarrow> u8) \<Rightarrow> nat \<Rightarrow> u32 \<times> u32 \<times> u32 \<Rightarrow> u32 \<Rightarrow> (u32 \<Rightarrow> nat \<Rightarrow> u8) \<Rightarrow> (u32 \<Rightarrow> nat \<Rightarrow> u8) \<Rightarrow> bool" where
  "type_changed f k e d ds ds' \<longleftrightarrow> (\<exists>n < k. \<exists>i < 4. table_entries (ds d) n ! i = e
     \<and> ds' = ds(d := (ds d)(type_at n i := f (ds d (type_at n i)))))"

lemma hide_loop_spec:
  assumes "table_writer bios d g mbr s" and "d = current_drive s" and "d \<noteq> NETWORK_DRIVE" and "d AND 0x80 \<noteq> 0"
    and "stands p i ext ns v" and "chained (drives s d) (total g) ext ns"
    and "\<forall>(q, e) \<in> set (numbered p (remaining (drives s d) i ns)). q < 255" and "current_partition s = slice_no r" and "r < 255"
  shows "case find (\<lambda>(q, e). q = r) (numbered p (remaining (drives s d) i ns)) of
      Some (q, e) \<Rightarrow> \<exists>s'. hide_loop bios hidden mbr v s = Some (0, s') \<and> type_changed (hide hidden) (total g) e d (drives s) (drives s')
    | None \<Rightarrow> \<exists>s'. hide_loop bios hidden mbr v s = Some (1, s') \<and> errnum s' = ERR_NO_PART \<and> drives s' = drives s"
  using assms
proof (induction "remaining (drives s d) i ns" arbitrary: p i ext ns v s)
  case Nil
  have t: "table_reader bios d g mbr s" using Nil(2) by (simp add: table_writer_def)
  note nd = Nil(4) [unfolded Nil(3)]
  obtain v' s' where s': "only_reads d g mbr s s'" "next_partition bios d 0xFFFFFF mbr v s = Some (False, v', s'\<lparr>errnum := ERR_NO_PART\<rparr>)"
    using next_slice [OF t nd Nil(5-8), of "0xFFFFFF"] unfolding Nil(1) [symmetric] by auto
  have "drives s' = drives s" using only_readsD [OF s'(1)] by auto
  then show ?case unfolding Nil(1) [symmetric] using s'(2) by (subst hide_loop.simps) (simp add: Nil(3) [symmetric])
next
  case (Cons e es)
  have t: "table_reader bios d g mbr s" using Cons(3) by (simp add: table_writer_def)
  note d = Cons(4) and nd = Cons(5) [unfolded Cons(4)] and rem = Cons(2) [symmetric]
  let ?q = "next_number p e" and ?img = "drives s d"
  obtain v' s' where s': "only_reads d g mbr s s'" "next_partition bios d 0xFFFFFF mbr v s = Some (True, v', s')"
    "steps_to p ?img (total g) (gmem s') mbr e es v'"
    using next_slice [OF t nd Cons(6-9), of "0xFFFFFF"] unfolding rem by auto
  from s'(3) obtain i' ext' ns' where st: "partition v' = slice_no ?q" "(slice_type v', slice_start v', slice_len v') = e"
    "stands (Suc ?q) (Suc i') ext' ns' v'" "chained ?img (total g) ext' ns'" "remaining ?img (Suc i') ns' = es" "i' < 4"
    "table_entries ?img (hd ns') ! i' = e" "read_bytes (gmem s') mbr 512 = disk_bytes (drives s) d (hd ns' * 512) 512"
    unfolding steps_to_def disk_bytes_def by blast
  have q: "?q < 255" "\<forall>(q, e) \<in> set (numbered (Suc ?q) es). q < 255" using Cons(9) by (simp_all add: rem numbered_Cons del: numbered.simps)
  have f: "drives s' = drives s" "current_drive s' = d" "current_partition s' = slice_no r" "buf_geom s' = g"
    using only_readsD [OF s'(1)] d Cons(10) by auto
  note w' = table_writer_kept [OF Cons(3) s'(1)]
  have no: "slice_no ?q = slice_no r \<longleftrightarrow> ?q = r" using slice_no_inj q(1) Cons(11) by auto
  show ?case
  proof (cases "?q = r")
    case True
    let ?n = "hd ns'"
    have n: "?n < total g" using chained_hd [OF st(4)] by simp
    have v': "table_offset v' = of_nat ?n" "unat (table_entry v') = i'" using st(3,6) by (simp_all add: stands_def unat_of_nat_u32)
    let ?a = "PC_SLICE_TYPE_AT mbr i'" and ?k = "450 + 16 * i'"
    have k: "?k < 512" using st(6) by simp
    have ak: "?a = mbr + of_nat ?k" by (simp add: PC_SLICE_TYPE_AT_def add.assoc)
    have at: "gmem s' ?a = drives s d (?n * 512 + ?k)"
      using nth_read_bytes [OF k, of "gmem s'" mbr] k unfolding st(8) ak by simp
    let ?x = "hide hidden (gmem s' ?a)"
    have rb: "read_bytes ((gmem s')(?a := ?x)) mbr 512 = (disk_bytes (drives s) d (?n * 512) 512)[?k := ?x]"
      using read_bytes_upd [OF k, of "gmem s'" mbr ?x] st(8) unfolding ak by simp
    have w2: "table_writer bios d g mbr (s'\<lparr>buf_track := -1\<rparr>)"
    proof -
      have "total g < 2147483648" using t by (simp add: table_reader_def geometry_ok_def)
      then have "(-1 :: u32) \<noteq> of_nat t" if "t < total g" for t using that by (intro of_nat_not_minus_1 [THEN not_sym]) simp
      then have "buffered d g (s'\<lparr>buf_track := -1\<rparr>)" using only_readsD [OF s'(1)] by (auto simp: buffered_def)
      then show ?thesis using w' by (simp add: table_writer_def table_reader_def room_def drive_known_def buffered_def)
    qed
    have eq: "s'\<lparr>gmem := (gmem s')(?a := ?x), buf_track := -1\<rparr> = (s'\<lparr>buf_track := -1\<rparr>)\<lparr>gmem := (gmem s')(?a := ?x)\<rparr>" by simp
    obtain m' tr where "rawwrite bios d (of_nat ?n) mbr (s'\<lparr>gmem := (gmem s')(?a := ?x), buf_track := -1\<rparr>)
        = Some (True, s'\<lparr>gmem := m', drives := disk_write (drives s') d (?n * 512) ((disk_bytes (drives s) d (?n * 512) 512)[?k := ?x]), buf_track := tr\<rparr>)"
      unfolding eq using write_table [OF w2 _ n rb] f(4) by auto
    then have "hide_loop bios hidden mbr v s = Some (0, s'\<lparr>gmem := m', drives := (drives s)(d := (drives s d)(?n * 512 + ?k := ?x)), buf_track := tr\<rparr>)"
      using s'(2) st(1) no True v' f k
      by (subst hide_loop.simps) (simp add: d [symmetric] disk_write_upd disk_write_back)
    moreover have "type_changed (hide hidden) (total g) e d (drives s) ((drives s)(d := (drives s d)(?n * 512 + ?k := ?x)))"
      unfolding type_changed_def type_at_def at using n st(6,7)
      by (intro exI [of _ ?n] conjI exI [of _ i']) (simp_all add: add.assoc)
    ultimately show ?thesis using True by (simp add: rem numbered_Cons del: numbered.simps)
  next
    case False
    have "hide_loop bios hidden mbr v s = hide_loop bios hidden mbr v' s'"
      using s'(2) st(1) no False f by (subst hide_loop.simps) (simp add: d [symmetric])
    moreover have "find (\<lambda>(q, e). q = r) (numbered p (remaining ?img i ns)) = find (\<lambda>(q, e). q = r) (numbered (Suc ?q) es)"
      using False by (simp add: rem numbered_Cons del: numbered.simps)
    ultimately show ?thesis
      using Cons(1) [of s' "Suc i'" ns' "Suc ?q" ext' v', unfolded f(1), OF st(5) [symmetric] w' f(2) [symmetric] Cons(5,6) st(3,4) _ f(3) Cons(11)] q(2)
      unfolding st(5) by (cases "find (\<lambda>(q, e). q = r) (numbered (Suc ?q) es)") auto
  qed
qed

lemma hide_bit: "hide hidden = (\<lambda>t. if hidden then t OR 0x10 else t AND 0xEF)"
proof
  have "(NOT 0x10 :: u8) = 0xEF" by simp
  then show "hide hidden t = (if hidden then t OR 0x10 else t AND 0xEF)" for t
    by (simp only: hide_def PC_SLICE_TYPE_HIDDEN_FLAG_def \<open>NOT 0x10 = 0xEF\<close>)
qed

text \<open>C19: \<open>set_partition_hidden_flag\<close> sets (to hide) or clears (to unhide) the bit 0x10 in the type of the first slice with the number of the
  current partition, and changes nothing else on any drive; if there is no such slice it changes nothing and reports the failure.\<close>

theorem hidden_flag_changes_type:
  assumes "table_writer bios d g mbr s" and "d = current_drive s" and "d AND 0x80 \<noteq> 0"
    and "current_partition s = slice_no r" and "r < 255"
    and "chained (drives s d) (total g) 0 (0 # ns)" and "\<forall>(q, e) \<in> set (slices (drives s d) (0 # ns)). q < 255"
  shows "case find (\<lambda>(q, e). q = r) (slices (drives s d) (0 # ns)) of
      Some (q, e) \<Rightarrow> \<exists>s'. set_partition_hidden_flag bios hidden mbr v s = Some (0, s')
        \<and> type_changed (\<lambda>t. if hidden then t OR 0x10 else t AND 0xEF) (total g) e d (drives s) (drives s')
    | None \<Rightarrow> \<exists>s'. set_partition_hidden_flag bios hidden mbr v s = Some (1, s') \<and> errnum s' = ERR_NO_PART \<and> drives s' = drives s"
proof -
  have d: "d \<noteq> NETWORK_DRIVE" using assms(3) by (auto simp: NETWORK_DRIVE_def)
  have st: "stands 0 0 0 (0 # ns) (v\<lparr>partition := 0xFFFFFF\<rparr>)" by (rule stands_start) simp
  have "drop_bit 16 (slice_no r) \<noteq> 0xFF" using slice_no_fields(6) [of r] of_nat_u32_inj [of r 255] assms(5) by auto
  then have "set_partition_hidden_flag bios hidden mbr v s = hide_loop bios hidden mbr (v\<lparr>partition := 0xFFFFFF\<rparr>) s"
    using assms(2-5) slice_no_fields(2) [of r] by (simp add: set_partition_hidden_flag_def)
  then show ?thesis
    using hide_loop_spec [OF assms(1,2) d assms(3) st assms(6), unfolded remaining_start, OF assms(7,4,5), of hidden, unfolded hide_bit]
    by (cases "find (\<lambda>(q, e). q = r) (slices (drives s d) (0 # ns))") auto
qed

section \<open>The active flag\<close>

lemma flags_cleared:
  "for_n 0 4 (\<lambda>i s. s\<lparr>gmem := (gmem s)(PC_SLICE_FLAG mbr i := 0)\<rparr>) s
    = s\<lparr>gmem := (gmem s)(PC_SLICE_FLAG mbr 0 := 0, PC_SLICE_FLAG mbr 1 := 0, PC_SLICE_FLAG mbr 2 := 0, PC_SLICE_FLAG mbr 3 := 0)\<rparr>"
  by (simp add: numeral_eq_Suc)

text \<open>C20: \<open>make_saved_active\<close> of a primary partition that is not extended leaves a first table in which that
  partition is active, and the other three are not unless it was active before; no other byte of any drive changes. For an
  extended partition it fails with \<open>ERR_DEV_VALUES\<close> and changes nothing.\<close>

theorem make_saved_active_flags:
  assumes "table_writer bios d g mbr s" and "d = saved_drive s" and "d AND 0x80 \<noteq> 0" and "drop_bit 16 (saved_partition s) = of_nat part" and "part < 4"
    and "0 < total g"
  shows "\<exists>ok s'. make_saved_active bios mbr s = Some (ok, s')
    \<and> ok = (\<not> IS_PC_SLICE_TYPE_EXTENDED (table_type (drives s d) 0 part)) \<and> (\<not> ok \<longrightarrow> errnum s' = ERR_DEV_VALUES)
    \<and> drives s' = (if ok \<and> drives s d (446 + 16 * part) \<noteq> 0x80
        then (drives s)(d := (drives s d)(446 := 0, 462 := 0, 478 := 0, 494 := 0, 446 + 16 * part := 0x80)) else drives s)"
proof -
  have t: "table_reader bios d g mbr s" using assms(1) by (simp add: table_writer_def)
  obtain s' where s': "rawread bios d 0 0 SECTOR_SIZE mbr s = Some (True, s')" "only_reads d g mbr s s'"
    "read_bytes (gmem s') mbr 512 = disk_bytes (drives s) d (0 * 512) 512"
    using read_table [OF t assms(6)] by auto
  have f: "drives s' = drives s" "saved_drive s' = d" "buf_geom s' = g" using only_readsD [OF s'(2)] assms(2) by auto
  note w' = table_writer_kept [OF assms(1) s'(2)]
  have p: "\<not> 3 <s (of_nat part :: u32)" "unat (of_nat part :: u32) = part"
    using of_nat_sless_u32 [of 3 part] assms(5) by (simp_all add: unat_of_nat_u32)
  note ty = table_fields(2) [OF s'(3) assms(5)]
  have fl: "PC_SLICE_FLAG mbr j = mbr + of_nat (446 + 16 * j)" for j by (simp add: PC_SLICE_FLAG_def add.assoc)
  have at: "gmem s' (PC_SLICE_FLAG mbr part) = drives s d (446 + 16 * part)"
    using nth_read_bytes [of "446 + 16 * part" 512 "gmem s'" mbr] assms(5) unfolding s'(3) fl by simp
  let ?m = "(gmem s')(PC_SLICE_FLAG mbr 0 := 0, PC_SLICE_FLAG mbr 1 := 0, PC_SLICE_FLAG mbr 2 := 0, PC_SLICE_FLAG mbr 3 := 0, PC_SLICE_FLAG mbr part := 0x80)"
  have "read_bytes ?m mbr 512 = (disk_bytes (drives s) d (0 * 512) 512)[446 := 0, 462 := 0, 478 := 0, 494 := 0, 446 + 16 * part := 0x80]"
  proof -
    have "read_bytes (m(PC_SLICE_FLAG mbr j := x)) mbr 512 = (read_bytes m mbr 512)[446 + 16 * j := x]" if "j < 4" for m j x
      using read_bytes_upd [of "446 + 16 * j" 512 m mbr x] that unfolding fl by simp
    then show ?thesis using assms(5) unfolding s'(3) [symmetric] by simp
  qed
  note wr = write_table [OF w' f(3) assms(6) this]
  show ?thesis
  proof (cases "IS_PC_SLICE_TYPE_EXTENDED (table_type (drives s d) 0 part) \<or> drives s d (446 + 16 * part) = 0x80")
    case True
    have "make_saved_active bios mbr s = (if IS_PC_SLICE_TYPE_EXTENDED (table_type (drives s d) 0 part)
        then Some (False, s'\<lparr>errnum := ERR_DEV_VALUES\<rparr>) else Some (True, s'))"
      using assms(2-4) s'(1) f p ty at True
      by (cases "drives s d (446 + 16 * part) = 0x80"; simp add: make_saved_active_def PC_SLICE_FLAG_BOOTABLE_def Let_def del: for_n.simps)
    then show ?thesis using True f(1) by auto
  next
    case False
    obtain m' tr where "rawwrite bios d 0 mbr (s'\<lparr>gmem := ?m\<rparr>) = Some (True, s'\<lparr>gmem := m', drives := disk_write (drives s) d (0 * 512)
        ((disk_bytes (drives s) d (0 * 512) 512)[446 := 0, 462 := 0, 478 := 0, 494 := 0, 446 + 16 * part := 0x80]), buf_track := tr\<rparr>)"
      using wr f(1) by auto
    then have "make_saved_active bios mbr s = Some (True, s'\<lparr>gmem := m', drives := disk_write (drives s) d (0 * 512)
        ((disk_bytes (drives s) d (0 * 512) 512)[446 := 0, 462 := 0, 478 := 0, 494 := 0, 446 + 16 * part := 0x80]), buf_track := tr\<rparr>)"
      using assms(2-4) s'(1) f p ty at False
      by (simp add: make_saved_active_def flags_cleared PC_SLICE_FLAG_BOOTABLE_def Let_def del: for_n.simps)
    moreover have "disk_write (drives s) d (0 * 512)
        ((disk_bytes (drives s) d (0 * 512) 512)[446 := 0, 462 := 0, 478 := 0, 494 := 0, 446 + 16 * part := 0x80])
      = (drives s)(d := (drives s d)(446 := 0, 462 := 0, 478 := 0, 494 := 0, 446 + 16 * part := 0x80))"
      using assms(5) by (simp add: disk_write_upd disk_write_back)
    ultimately show ?thesis using False by auto
  qed
qed

end
