(* ===== verification/Grub_Device.thy ===== *)
theory Grub_Device
  imports Grub_Slices_Write
begin

text \<open>
  Device names: \<open>set_device\<close> of src/grub-0.97/stage2/disk_io.c, as it is outside Stage 1.5 and without network support.
\<close>

section \<open>The parser\<close>

definition GRUB_INVALID_DRIVE :: u32 where "GRUB_INVALID_DRIVE = 0xFF"

text \<open>\<open>part_choice\<close> counts 0, 1, 2: unspecified, a disk, chosen.\<close>

record device_names = devices +
  incomplete :: bool
  disk_choice :: bool
  part_choice :: nat

text \<open>A number into a variable: it stays as it is when there is an error.\<close>

definition parse_number :: "u32 \<Rightarrow> 'a grub_scheme \<Rightarrow> (bool \<times> u32 \<times> u32 \<times> 'a grub_scheme) option" where
  "parse_number ptr s =
     map_option (\<lambda>r. case r of Inl e \<Rightarrow> (False, ptr, 0, s\<lparr>errnum := e\<rparr>) | Inr (ptr, n) \<Rightarrow> (True, ptr, n, s))
       (safe_parse_maxint (gmem s) ptr)"

definition is_drive_char :: "u8 \<Rightarrow> 'a device_names_scheme \<Rightarrow> bool" where
  "is_drive_char ch s \<longleftrightarrow> ch = 0x66 \<or> ch = 0x68 \<or> (ch = 0x63 \<and> cdrom_drive s \<noteq> GRUB_INVALID_DRIVE)"

text \<open>The drive behind the parenthesis; the left component is an early return, for the completion of names.\<close>

definition parse_drive :: "u32 \<Rightarrow> 'a device_names_scheme \<Rightarrow> ((u32 + u32) \<times> 'a device_names_scheme) option" where
  "parse_drive device s =
     (let ch = gmem s device; known = is_drive_char ch s in
      if known \<and> gmem s (device + 1) = 0
      then Some (Inl (device + 2), s\<lparr>gmem := (gmem s)(device + 1 := 0x64, device + 2 := 0)\<rparr>)
      else if known \<and> gmem s (device + 1) = 0x64 \<and> gmem s (device + 2) = 0 then Some (Inl (device + 2), s)
      else
        let s = (if known \<and> gmem s (device + 1) \<noteq> 0x64 then s\<lparr>errnum := ERR_NUMBER_PARSING\<rparr> else s);
            device = (if known then device + 2 else device)
        in if ch = 0x63 \<and> cdrom_drive s \<noteq> GRUB_INVALID_DRIVE then Some (Inr device, s\<lparr>current_drive := cdrom_drive s\<rparr>)
           else
             do {
               (ok, device, n, s) \<leftarrow> parse_number device s;
               let s = (if ok then s\<lparr>current_drive := n\<rparr> else s);
               let s = s\<lparr>disk_choice := False\<rparr>;
               Some (Inr device, if ch = 0x68 then s\<lparr>current_drive := current_drive s + 0x80\<rparr> else s)
             })"

text \<open>The partition behind the comma; false is an error.\<close>

definition is_bsd_char :: "u8 \<Rightarrow> bool" where
  "is_bsd_char c \<longleftrightarrow> 0x61 \<le> c \<and> c \<le> 0x68"

definition parse_partition :: "u32 \<Rightarrow> 'a device_names_scheme \<Rightarrow> (bool \<times> u32 \<times> 'a device_names_scheme) option" where
  "parse_partition device s =
     (if 0x30 \<le> gmem s device \<and> gmem s device \<le> 0x39 then
        do {
          let s = s\<lparr>current_partition := 0, part_choice := part_choice s + 1\<rparr>;
          (ok, device, n, s) \<leftarrow> (if current_drive s AND 0x80 = 0 then Some (False, device, 0, s) else parse_number device s);
          let s = (if ok then s\<lparr>current_partition := n\<rparr> else s);
          if \<not> ok \<or> 254 < n then Some (False, device, s\<lparr>errnum := ERR_DEV_FORMAT\<rparr>)
          else
            let s = s\<lparr>current_partition := push_bit 16 (current_partition s) + 0xFFFF\<rparr>;
                device = (if gmem s device = 0x2C then device + 1 else device)
            in Some (if is_bsd_char (gmem s device)
               then (True, device + 1, s\<lparr>current_partition := push_bit 8 (ucast (gmem s device) - 0x61) OR (current_partition s AND 0xFF00FF)\<rparr>)
               else (True, device, s))
        }
      else if is_bsd_char (gmem s device)
      then Some (True, device + 1, s\<lparr>current_partition := push_bit 8 (ucast (gmem s device) - 0x61) OR 0xFF00FF,
          part_choice := part_choice s + 1\<rparr>)
      else Some (True, device, s))"

text \<open>What follows the drive. The right component: where the parser is, and whether the name is complete.\<close>

definition parse_rest :: "u32 \<Rightarrow> 'a device_names_scheme \<Rightarrow> ((u32 + u32 \<times> bool) \<times> 'a device_names_scheme) option" where
  "parse_rest device s =
     (if errnum s \<noteq> ERR_NONE then Some (Inl 0, s)
      else if gmem s device = 0x29 then Some (Inr (device, True), s\<lparr>part_choice := 2\<rparr>)
      else if gmem s device = 0x2C then
        do {
          (ok, device, s) \<leftarrow> parse_partition (device + 1) (s\<lparr>disk_choice := False, part_choice := part_choice s + 1\<rparr>);
          Some (if \<not> ok then (Inl 0, s)
                else if gmem s device = 0x29 then
                  (Inr (device, True),
                   if part_choice s = 1 then s\<lparr>current_partition := saved_partition s, part_choice := 2\<rparr> else s)
                else (Inr (device, False), s))
        }
      else Some (Inr (device, False), s))"

text \<open>The result is the position behind the name, or 0.\<close>

definition set_device :: "u32 \<Rightarrow> 'a device_names_scheme \<Rightarrow> (u32 \<times> 'a device_names_scheme) option" where
  "set_device device s =
     (let s = s\<lparr>current_drive := saved_drive s, current_partition := 0xFFFFFF, incomplete := False, disk_choice := True, part_choice := 0\<rparr> in
      if gmem s device = 0x28 \<and> gmem s (device + 1) = 0 then Some (device + 1, s)
      else
        do {
          (r, s) \<leftarrow> (if gmem s device = 0x28 then
              let device = device + 1 in
              do {
                (r, s) \<leftarrow> (if gmem s device \<noteq> 0x2C \<and> gmem s device \<noteq> 0x29 then parse_drive device s else Some (Inr device, s));
                case r of Inl ret \<Rightarrow> Some (Inl ret, s) | Inr device \<Rightarrow> parse_rest device s
              }
            else Some (Inr (device, False), s));
          case r of
            Inl ret \<Rightarrow> Some (ret, s)
          | Inr (device, result) \<Rightarrow>
              let (sane, s) = sane_partition s
              in Some (if \<not> sane then (0, s)
                       else if result then (device + 1, s)
                       else (0, s\<lparr>errnum := ERR_DEV_FORMAT, incomplete := (gmem s device = 0)\<rparr>))
        })"

section \<open>Names\<close>

text \<open>A hard disk or a floppy, a slice, a BSD partition.\<close>

record device_name =
  hard :: bool
  unit_no :: nat
  slice :: "nat option"
  bsd :: "nat option"

definition device_ok :: "device_name \<Rightarrow> bool" where
  "device_ok n \<longleftrightarrow> unit_no n < 8 \<and> (case slice n of None \<Rightarrow> True | Some p \<Rightarrow> hard n \<and> p \<le> 254)
     \<and> (case bsd n of None \<Rightarrow> True | Some b \<Rightarrow> b < 8)"

definition device_text :: "device_name \<Rightarrow> u8 list" where
  "device_text n = [0x28, if hard n then 0x68 else 0x66, 0x64] @ number_text 10 (unit_no n)
     @ (case slice n of None \<Rightarrow> [] | Some p \<Rightarrow> 0x2C # number_text 10 p)
     @ (case bsd n of None \<Rightarrow> [] | Some b \<Rightarrow> [0x2C, of_nat (0x61 + b)]) @ [0x29]"

definition part_of :: "nat \<Rightarrow> nat \<Rightarrow> u32" where
  "part_of p b = push_bit 16 (of_nat p) OR push_bit 8 (of_nat b) OR 0xFF"

definition device_partition :: "device_name \<Rightarrow> u32" where
  "device_partition n = part_of (case slice n of None \<Rightarrow> 0xFF | Some p \<Rightarrow> p) (case bsd n of None \<Rightarrow> 0xFF | Some b \<Rightarrow> b)"

definition device_drive :: "device_name \<Rightarrow> u32" where
  "device_drive n = of_nat (unit_no n) + (if hard n then 0x80 else 0)"

section \<open>Numbers in a name\<close>

lemma number_text_digits: "c \<in> set (number_text 10 n) \<Longrightarrow> 48 \<le> unat c \<and> unat c \<le> 57"
proof -
  assume "c \<in> set (number_text 10 n)"
  then have "digit_of False c \<noteq> None"
    using digits_le_bound [OF base_gt_1, of _ False n] digit_of_digit_char [of _ False] by (auto simp: number_text_def base_of_def)
  then show ?thesis by (auto simp: digit_of_def Let_def split: if_splits)
qed

lemma number_text_Cons: "\<exists>c cs. number_text 10 n = c # cs \<and> 48 \<le> unat c \<and> unat c \<le> 57"
  using number_text_digits [of _ n] number_text_nonempty [of 10 n] by (cases "number_text 10 n") auto

text \<open>A number is followed by the end of the string or by a character that cannot continue it.\<close>

definition ends_number :: "u8 list \<Rightarrow> bool" where
  "ends_number bs \<longleftrightarrow> (bs = [] \<or> digit_of False (hd bs) = None \<and> hd bs \<noteq> 0x78 \<and> hd bs \<noteq> 0x58)"

lemma parse_number_before:
  assumes "cstr_at (gmem s) p (number_text 10 n @ bs)" and "n \<le> 2147483647" and "ends_number bs"
  shows "parse_number p s = Some (True, p + of_nat (length (number_text 10 n)), of_nat n, s)"
proof -
  have "\<not> hex_prefixed (number_text 10 n @ bs)"
  proof (cases "number_text 10 n")
    case (Cons c0 cs)
    then show ?thesis
      using assms(3) number_text_digits [of "0x78" n] number_text_digits [of "0x58" n]
      by (cases cs; cases bs) (auto simp: hex_prefixed_def bytes_of_def ends_number_def)
  qed simp
  moreover have "number_prefix False (number_text 10 n @ bs) = number_text 10 n"
    using number_text_prefix [of False n bs] assms(3) by (cases bs) (auto simp: base_of_def number_prefix_def ends_number_def)
  moreover have "number_value False 0 (number_text 10 n) = n" using number_text_value [of False n] by (simp add: base_of_def)
  ultimately have "safe_parse_maxint (gmem s) p = Some (Inr (p + of_nat (length (number_text 10 n)), of_nat n))"
    using safe_parse_cstr [OF assms(1)] assms(2) number_text_Cons [of n] by (auto simp: parse_result_def)
  then show ?thesis by (simp add: parse_number_def)
qed

lemma parse_number_at:
  assumes "cstr_at (gmem s) p (number_text 10 n @ c # bs)" and "n \<le> 2147483647" and "c = 0x29 \<or> c = 0x2C"
  shows "parse_number p s = Some (True, p + of_nat (length (number_text 10 n)), of_nat n, s)"
proof -
  have "ends_number (c # bs)" using assms(3) by (auto simp: ends_number_def digit_of_def)
  then show ?thesis using parse_number_before assms(1,2) by blast
qed

section \<open>Partition numbers\<close>

lemma nat_bits: "q < 256 \<Longrightarrow> bit q n \<Longrightarrow> n < 8" for q n :: nat
proof (rule ccontr)
  assume q: "q < 256" "bit q n" and "\<not> n < 8"
  then have "(2 :: nat) ^ 8 \<le> 2 ^ n" by (intro power_increasing) simp_all
  then have "q div 2 ^ n = 0" using q(1) by simp
  then show False using q(2) by (simp add: bit_iff_odd)
qed

lemma part_of_slice: "q < 256 \<Longrightarrow> push_bit 16 (of_nat q) + 0xFFFF = part_of q 0xFF"
proof -
  assume q: "q < 256"
  have "push_bit 16 (of_nat q) + (0xFFFF :: u32) = push_bit 16 (of_nat q) OR 0xFFFF"
    unfolding byte_masks by (rule disjunctive_add) (auto simp: bit_simps)
  moreover have "push_bit 8 0xFF OR 0xFF = (0xFFFF :: u32)" by simp
  ultimately show ?thesis by (simp add: part_of_def or.assoc)
qed

lemma part_of_0: "push_bit 8 x OR 0xFF00FF = part_of 0xFF b" if "x = of_nat b"
proof -
  have "part_of 0xFF b = push_bit 8 (of_nat b) OR (0xFF0000 OR 0xFF)" by (simp only: part_of_def or.commute or.left_commute of_nat_numeral) simp
  then show ?thesis using that by simp
qed

lemma part_of_bsd:
  assumes "p < 256"
  shows "push_bit 8 (of_nat b) OR (part_of p 0xFF AND 0xFF00FF) = part_of p b"
proof -
  have m: "(0xFF00FF :: u32) = push_bit 16 (mask 8) OR mask 8" by (simp add: mask_eq_exp_minus_1)
  have "part_of p 0xFF = push_bit 16 (of_nat p) OR mask 16" by (simp add: part_of_def or.assoc mask_eq_exp_minus_1)
  then show ?thesis unfolding part_of_def [of p b] m byte_masks
    by (simp only:) (rule bit_word_eqI, use assms in \<open>auto simp: bit_simps dest: nat_bits\<close>)
qed

lemma part_of_fields:
  assumes "p < 256" and "b < 256"
  shows "part_of p b AND 0xFF000000 = 0" "part_of p b AND 0xFF = 0xFF" "drop_bit 16 (part_of p b) = of_nat p"
    "part_of p b AND 0xFF00 = push_bit 8 (of_nat b)"
  unfolding part_of_def byte_masks using assms by (rule_tac bit_word_eqI; auto simp: bit_simps dest: nat_bits)+

end
