(* ===== verification/Grub_Disk_Returns.thy ===== *)
theory Grub_Disk_Returns
  imports Grub_Disk_Session
begin

text \<open>
  \<open>rawread\<close> on any BIOS: it always returns.
\<close>

section \<open>Termination\<close>

text \<open>What no transfer changes, and keeps the loop going.\<close>

definition steady :: "u32 \<Rightarrow> 'a disk_scheme \<Rightarrow> bool" where
  "steady d s \<longleftrightarrow> buf_drive s = d \<and> (sector_size (buf_geom s) = 512 \<or> sector_size (buf_geom s) = 2048)
     \<and> 0 < spt (buf_geom s) \<and> spt (buf_geom s) * ss (buf_geom s) \<le> 0x7e00 \<and> heads (buf_geom s) \<noteq> 0"

definition same_shape :: "'a disk_scheme \<Rightarrow> 'a disk_scheme \<Rightarrow> bool" where
  "same_shape s s' \<longleftrightarrow> buf_drive s' = buf_drive s \<and> sector_size (buf_geom s') = sector_size (buf_geom s)
     \<and> sectors (buf_geom s') = sectors (buf_geom s) \<and> heads (buf_geom s') = heads (buf_geom s)"

lemma same_shape_steady: "same_shape s s' \<Longrightarrow> steady d s \<Longrightarrow> steady d s'"
  by (auto simp: same_shape_def steady_def)

lemma same_shape_trans: "same_shape s s' \<Longrightarrow> same_shape s' s'' \<Longrightarrow> same_shape s s''"
  by (auto simp: same_shape_def)

lemma same_shape_simps [simp]:
  "same_shape s s" "same_shape s (s\<lparr>errnum := e\<rparr>)" "same_shape s (s\<lparr>buf_track := t\<rparr>)" "same_shape s (s\<lparr>gmem := m\<rparr>)"
  "same_shape s (s\<lparr>reads_seen := ev\<rparr>)"
  by (simp_all add: same_shape_def)

lemma transfer_returns:
  assumes "steady d s"
  shows "\<exists>err s'. transfer bios read drive sector n seg s = Some (err, s') \<and> same_shape s s'"
proof -
  have z: "sectors (buf_geom s) \<noteq> 0" "heads (buf_geom s) \<noteq> 0" using assms by (auto simp: steady_def)
  then have "\<exists>err g hw. biosdisk bios read drive (buf_geom s) sector n seg hw0 = Some (err, g, hw)
      \<and> sectors g = sectors (buf_geom s) \<and> heads g = heads (buf_geom s) \<and> sector_size g = sector_size (buf_geom s)" for hw0
    by (auto simp: biosdisk_def biosdisk_chs_def Let_def split: prod.splits)
  from this [of "(gmem s, drives s)"] show ?thesis by (auto simp: transfer_def same_shape_def)
qed

lemma memmove_shape: "same_shape s (snd (grub_memmove a b n s))"
  by (auto simp: grub_memmove_def memcheck_def Let_def same_shape_def)

lemma read_track_returns:
  assumes "steady d s"
  shows "\<exists>b s'. read_track bios d sector off track slen num bufaddr s = Some (b, s') \<and> same_shape s s'"
proof -
  let ?x = "if num <s slen then (sector, num, BUFFERADDR + off) else (track, sectors_per_vtrack (buf_geom s), bufaddr)"
  obtain start n b where x: "?x = (start, n, b)" by (cases ?x)
  obtain err s1 where 1: "transfer bios BIOSDISK_READ d start n BUFFERSEG s = Some (err, s1)" "same_shape s s1"
    using transfer_returns [OF assms] by blast
  have "steady d (s1\<lparr>buf_track := -1\<rparr>)" using same_shape_steady [OF 1(2) assms] by (simp add: steady_def)
  from transfer_returns [OF this, of bios BIOSDISK_READ d sector slen BUFFERSEG]
  obtain err2 s2 where 2: "transfer bios BIOSDISK_READ d sector slen BUFFERSEG (s1\<lparr>buf_track := -1\<rparr>) = Some (err2, s2)"
    "same_shape (s1\<lparr>buf_track := -1\<rparr>) s2" by blast
  have "same_shape s s2" using 1(2) 2(2) by (auto simp: same_shape_def)
  then show ?thesis
    unfolding read_track_def x using 1 2(1) by (auto simp: same_shape_def Let_def)
qed

lemma map_ezd_returns:
  assumes "steady d s"
  shows "\<exists>s'. map_ezd bios d sector slen s = Some s' \<and> same_shape s s'"
proof -
  obtain err s1 where "transfer bios BIOSDISK_READ d 1 1 BUFFERSEG s = Some (err, s1)" "same_shape s s1"
    using transfer_returns [OF assms] by blast
  then show ?thesis using memmove_shape by (auto simp: map_ezd_def same_shape_def)
qed


lemma note_reads_returns:
  assumes "steady d s"
  shows "\<exists>s'. note_reads sector off n s = Some s' \<and> same_shape s s'"
proof -
  have "0 < sector_size (buf_geom s)" using assms by (auto simp: steady_def)
  from note_reads_ends [OF this, of sector off n] show ?thesis by auto
qed

text \<open>What an iteration reads is positive and does not exceed what is left.\<close>

lemma iteration_size:
  fixes sector len off :: u32
  assumes "steady d s" and "unat off < ss (buf_geom s)" and "0 <s len" and "\<not> sector <s 0"
  defines "num \<equiv> sectors_per_vtrack (buf_geom s) - c_mod sector (sectors_per_vtrack (buf_geom s))"
  defines "rest \<equiv> push_bit (log2 (sector_size (buf_geom s))) num - off"
  shows "sectors_per_vtrack (buf_geom s) \<noteq> 0" and "sint (len - (if rest <s len then rest else len)) < sint len"
    and "0 \<le> sint (len - (if rest <s len then rest else len))"
proof -
  define g where "g = buf_geom s"
  define k where "k = spt g - unat sector mod spt g"
  have g: "sector_size g = 512 \<or> sector_size g = 2048" "0 < spt g" "spt g * ss g \<le> 0x7e00" using assms(1) by (auto simp: steady_def g_def)
  have sh: "push_bit (log2 (sector_size g)) (of_nat x :: u32) = of_nat (x * ss g)" for x using g(1) by (auto simp: push_bit_eq_mult)
  have v: "sectors_per_vtrack g = of_nat (spt g)"
    using sh [of "spt g"] unat_of_nat_u32 [of "spt g * ss g"] g(3) by (simp add: sectors_per_vtrack_def BUFFERLEN_def word_less_nat_alt)
  show "sectors_per_vtrack (buf_geom s) \<noteq> 0" using v g(2) by (auto simp: g_def)
  have sec: "unat sector < 2147483648"
  proof -
    have "0 \<le> sint sector" using assms(4) by (simp add: word_sless_alt)
    then have "uint sector = sint sector" using sint_range_u32(2) [of sector] by (simp add: uint_sint take_bit_int_eq_self)
    then have "int (unat sector) < 2147483648" using sint_range_u32(2) [of sector] by simp
    then show ?thesis by linarith
  qed
  have "spt g * 1 \<le> spt g * ss g" using g(1) by (intro mult_le_mono2) auto
  then have s63: "spt g < 2147483648" using g(3) by linarith
  have "c_mod sector (sectors_per_vtrack g) = of_nat (unat sector mod spt g)"
    using c_mod_nat [OF sec s63] by (simp add: v)
  then have "num = of_nat k" using g(2) by (simp add: num_def k_def v g_def [symmetric] of_nat_diff)
  moreover have k: "0 < k" "k \<le> spt g" using g(2) by (simp_all add: k_def)
  moreover have "unat off < k * ss g" using assms(2) k(1) by (cases k) (auto simp: g_def)
  ultimately have r: "rest = of_nat (k * ss g - unat off)" unfolding rest_def g_def [symmetric] by (simp add: sh of_nat_diff)
  have "k * ss g \<le> spt g * ss g" using k(2) by (rule mult_le_mono1)
  then have "k * ss g - unat off < 2147483648" using g(3) by linarith
  then have pos: "0 < sint rest" using \<open>unat off < k * ss g\<close> by (simp add: r sint_of_nat_u32 del: of_nat_diff of_nat_mult)
  have d: "sint (len - rest) = sint len - sint rest" if "rest <s len"
    using that pos sint_range_u32 [of len] by (simp add: word_sless_alt sint_word_diff signed_take_bit_int_eq_self)
  show "sint (len - (if rest <s len then rest else len)) < sint len" "0 \<le> sint (len - (if rest <s len then rest else len))"
    using d pos assms(3) by (auto simp: word_sless_alt)
qed

lemma rawread_loop_returns:
  assumes "steady d s" and "unat off < ss (buf_geom s)"
  shows "\<exists>ok s'. rawread_loop bios d sector off len buf s = Some (ok, s')"
  using assms
proof (induction "nat (sint len)" arbitrary: sector off len buf s rule: less_induct)
  case less
  note st = less.prems(1)
  show ?case
  proof (cases "0 <s len \<and> errnum s = ERR_NONE \<and> \<not> sector <s 0 \<and> \<not> total_sectors (buf_geom s) \<le> sector")
    case False
    have "check_drive bios d s = (True, s)" using st by (simp add: check_drive_def steady_def)
    with False show ?thesis by (subst rawread_loop.simps) (auto simp: Let_def)
  next
    case True
    let ?spt = "sectors_per_vtrack (buf_geom s)" and ?bits = "log2 (sector_size (buf_geom s))"
    let ?soff = "c_mod sector ?spt"
    let ?rest = "push_bit ?bits (?spt - ?soff) - off"
    let ?size = "if ?rest <s len then ?rest else len"
    let ?slen = "drop_bit ?bits (off + len + sector_size (buf_geom s) - 1)"
    let ?b = "BUFFERADDR + push_bit ?bits ?soff + off"
    have z: "?spt \<noteq> 0" "sint (len - ?size) < sint len" "0 \<le> sint (len - ?size)"
      using iteration_size [OF st less.prems(2), of len sector] True by blast+
    have cd: "check_drive bios d s = (True, s)" using st by (simp add: check_drive_def steady_def)
    obtain b s1 where 1: "(if sector - ?soff \<noteq> buf_track s then
          do {
            (bufaddr, s) \<leftarrow> read_track bios d sector off (sector - ?soff) ?slen (?spt - ?soff) ?b s;
            s \<leftarrow> map_ezd bios d sector ?slen s;
            Some (bufaddr, s)
          }
        else Some (?b, s)) = Some (b, s1)" "same_shape s s1"
    proof (cases "sector - ?soff = buf_track s")
      case True
      then show ?thesis using that [of ?b s] by simp
    next
      case False
      obtain b s1 where r: "read_track bios d sector off (sector - ?soff) ?slen (?spt - ?soff) ?b s = Some (b, s1)" "same_shape s s1"
        using read_track_returns [OF st] by blast
      obtain s2 where "map_ezd bios d sector ?slen s1 = Some s2" "same_shape s1 s2"
        using map_ezd_returns [OF same_shape_steady [OF r(2) st]] by blast
      then show ?thesis using that [of b s2] r False same_shape_trans by fastforce
    qed
    obtain s2 where 2: "note_reads sector off ?size s1 = Some s2" "same_shape s1 s2"
      using note_reads_returns [OF same_shape_steady [OF 1(2) st]] by blast
    define s3 where "s3 = snd (grub_memmove buf b ?size s2)"
    have "same_shape s s3" unfolding s3_def using 1(2) 2(2) memmove_shape same_shape_trans by blast
    then have st3: "steady d s3" using same_shape_steady st by blast
    moreover have "unat (0 :: u32) < ss (buf_geom s3)" using st3 by (auto simp: steady_def)
    moreover have "nat (sint (len - ?size)) < nat (sint len)" using z(2,3) by simp
    ultimately obtain ok s' where "rawread_loop bios d (sector + (?spt - ?soff)) 0 (len - ?size) (buf + ?size) s3 = Some (ok, s')"
      using less.hyps by blast
    then have "rawread_loop bios d sector off len buf s = Some (ok, s')"
      unfolding rawread_loop.simps [of bios d sector off len buf s]
      using True z(1) cd 1(1) 2(1) by (simp add: Let_def s3_def split del: if_split)
    then show ?thesis by blast
  qed
qed

text \<open>C11: whatever the BIOS answers and whatever sector, offset, length and buffer are asked for, \<open>rawread\<close> on the
  buffered drive returns: every turn of its loop leaves less to read or ends it with an error.\<close>

theorem rawread_returns:
  assumes "steady d s" and "unat off < ss (buf_geom s)"
  shows "\<exists>ok s'. rawread bios d sector off len buf s = Some (ok, s')"
  using rawread_loop_returns [OF assms] by (auto simp: rawread_def)

end
