(* ===== verification/Grub_Disk_Flaws.thy ===== *)
theory Grub_Disk_Flaws
  imports Grub_Disk_Returns
begin

text \<open>
  Two cases in which the track buffer misleads \<open>rawread\<close>, and a concrete drive on which the properties of the
  sector access are witnessed.
\<close>

section \<open>One turn with a part of a track\<close>

lemma note_and_move:
  assumes "steady d s" and "room buf n s" and "0 < n" and "k + n \<le> 0x7e00"
  shows "\<exists>ev. do {
      s \<leftarrow> note_reads sector off (of_nat n) s;
      let s = snd (grub_memmove buf (BUFFERADDR + of_nat k) (of_nat n) s);
      f s
    } = f (s\<lparr>gmem := write_bytes (gmem s) buf (read_bytes (gmem s) (BUFFERADDR + of_nat k) n), reads_seen := ev\<rparr>)"
proof -
  have "0 < sector_size (buf_geom s)" using assms(1) by (auto simp: steady_def)
  then obtain ev where ev: "note_reads sector off (of_nat n) s = Some (s\<lparr>reads_seen := ev\<rparr>)" using note_reads_ends by blast
  have "unat (BUFFERADDR + of_nat k) = 0x70000 + k"
    using assms(4) by (subst unat_add_lem [THEN iffD1]) (simp_all add: BUFFERADDR_def unat_of_nat_u32)
  moreover have "room buf n (s\<lparr>reads_seen := ev\<rparr>)" using assms(2) by (simp add: room_def)
  ultimately have "snd (grub_memmove buf (BUFFERADDR + of_nat k) (of_nat n) (s\<lparr>reads_seen := ev\<rparr>))
      = s\<lparr>gmem := write_bytes (gmem s) buf (read_bytes (gmem s) (BUFFERADDR + of_nat k) n), reads_seen := ev\<rparr>"
    using room_move [of buf n "s\<lparr>reads_seen := ev\<rparr>" "BUFFERADDR + of_nat k"] assms(3,4) by simp
  then show ?thesis using ev by (intro exI [of _ ev]) simp
qed

lemma steady_ok: "geometry_ok g \<Longrightarrow> buf_geom s = g \<Longrightarrow> buf_drive s = d \<Longrightarrow> steady d s"
  by (auto simp: geometry_ok_def steady_def)

text \<open>The first turn of a read from the middle of a track that goes beyond it.\<close>

lemma first_turn:
  fixes sector len :: nat and g :: geometry
  defines "t \<equiv> sector - sector mod spt g" and "num \<equiv> spt g - sector mod spt g"
  assumes g: "geometry_ok g" "bios_reads bios d g" and s: "buf_drive s = d" "buf_geom s = g" "buf_track s \<noteq> of_nat t"
    and r: "sector < total g" "num * ss g < len" "len < 2147479552" and b: "room buf len s" "disjoint_regions buf len BUFFERADDR 0x7e00"
    and e: "map_ezd bios d (of_nat sector) (of_nat ((0 + len + ss g - 1) div ss g))
        (s\<lparr>gmem := write_bytes (gmem s) BUFFERADDR (disk_bytes (drives s) d (sector * ss g) (num * ss g)), buf_track := of_nat t\<rparr>)
      = Some (s\<lparr>gmem := m, buf_track := of_nat t\<rparr>)"
  shows "\<exists>ev. rawread bios d (of_nat sector) 0 (of_nat len) buf s
    = rawread_loop bios d (of_nat sector + of_nat num) 0 (of_nat (len - num * ss g)) (buf + of_nat (num * ss g))
        (s\<lparr>buf_track := of_nat t, gmem := write_bytes m buf (read_bytes m BUFFERADDR (num * ss g)), reads_seen := ev\<rparr>)"
proof -
  have n: "errnum s = ERR_NONE" "0 < len" "0 < ss g" "\<not> (of_nat len :: u32) \<le>s 0" "num \<le> spt g"
    using b(1) r(2,3) ss_values [OF g(1)] by (auto simp: room_def word_sle_eq sint_of_nat_u32 num_def)
  then have n1: "0 + num * ss g \<le> 0x7e00" using buffer_written(1) [OF g(1)] by simp
  have n2: "0 < num * ss g" using track_numbers(5) [OF g(1) r(1)] n(3) by (simp add: num_def)
  define s1 where "s1 = s\<lparr>gmem := m, buf_track := of_nat t\<rparr>"
  have "room buf (num * ss g) s1" using room_part(1) [OF b(1), of 0 "num * ss g"] r(2) n2 by (simp add: room_def s1_def)
  moreover have "steady d s1" using s(1,2) by (intro steady_ok [OF g(1)]) (simp_all add: s1_def)
  ultimately obtain ev where "do {
      s \<leftarrow> note_reads (of_nat sector) 0 (of_nat (num * ss g)) s1;
      let s = snd (grub_memmove buf (BUFFERADDR + of_nat 0) (of_nat (num * ss g)) s);
      rawread_loop bios d (of_nat sector + of_nat num) 0 (of_nat (len - num * ss g)) (buf + of_nat (num * ss g)) s
    } = rawread_loop bios d (of_nat sector + of_nat num) 0 (of_nat (len - num * ss g)) (buf + of_nat (num * ss g))
        (s1\<lparr>gmem := write_bytes (gmem s1) buf (read_bytes (gmem s1) (BUFFERADDR + of_nat 0) (num * ss g)), reads_seen := ev\<rparr>)"
    using note_and_move [OF _ _ n2 n1] by blast
  then have ev: "do {
      s \<leftarrow> note_reads (of_nat sector) 0 (of_nat (num * ss g)) (s\<lparr>gmem := m, buf_track := of_nat t\<rparr>);
      let s = snd (grub_memmove buf BUFFERADDR (of_nat (num * ss g)) s);
      rawread_loop bios d (of_nat sector + of_nat num) 0 (of_nat (len - num * ss g)) (buf + of_nat (num * ss g)) s
    } = rawread_loop bios d (of_nat sector + of_nat num) 0 (of_nat (len - num * ss g)) (buf + of_nat (num * ss g))
        (s\<lparr>buf_track := of_nat t, gmem := write_bytes m buf (read_bytes m BUFFERADDR (num * ss g)), reads_seen := ev\<rparr>)"
    by (simp add: s1_def del: of_nat_mult of_nat_diff)
  have mi: "min len (num * ss g - 0) = num * ss g" using r(2) by simp
  note step = rawread_step [OF g(1) s(1,2) n(1) r(1) n(3,2) r(3), of bios buf, folded t_def num_def, unfolded mi of_nat_0]
  have "rawread bios d (of_nat sector) 0 (of_nat len) buf s = rawread_loop bios d (of_nat sector) 0 (of_nat len) buf s"
    by (simp add: rawread_def n(4))
  also have "\<dots> = do {
      s \<leftarrow> note_reads (of_nat sector) 0 (of_nat (num * ss g)) (s\<lparr>gmem := m, buf_track := of_nat t\<rparr>);
      let s = snd (grub_memmove buf BUFFERADDR (of_nat (num * ss g)) s);
      rawread_loop bios d (of_nat sector + of_nat num) 0 (of_nat (len - num * ss g)) (buf + of_nat (num * ss g)) s
    }"
    using step s(3) e read_track_part [OF g s(2) r(1) n(3) r(3), folded t_def num_def] r(2)
    by (simp del: of_nat_mult of_nat_diff of_nat_add)
  finally show ?thesis unfolding ev by blast
qed


lemma buffer_kept:
  assumes "disjoint_regions buf n BUFFERADDR 0x7e00" and "k \<le> n" and "l \<le> 0x7e00" and "length bs = k" and "n \<le> 4294967296"
  shows "read_bytes (write_bytes m buf bs) BUFFERADDR l = read_bytes m BUFFERADDR l"
proof (rule read_bytes_outside)
  fix a assume "in_region a BUFFERADDR l"
  then have "in_region a BUFFERADDR 0x7e00" using assms(3) by (rule in_region_mono)
  then have "\<not> in_region a buf k" using assms(1,2) disjoint_regionsD in_region_mono by blast
  then show "write_bytes m buf bs a = m a" using assms(2,4,5) by (simp add: write_bytes_outside)
qed (use assms(3) in simp)

text \<open>A read of the first sector of the track that counts as buffered is answered from the buffer.\<close>

lemma read_buffered:
  fixes t :: nat
  assumes g: "geometry_ok g" and s: "buf_drive s = d" "buf_geom s = g" "buf_track s = of_nat t" and t: "spt g dvd t" "t < total g"
    and b: "room buf (ss g) s"
  shows "\<exists>ev. rawread bios d (of_nat t) 0 (sector_size g) buf s
    = Some (True, s\<lparr>gmem := write_bytes (gmem s) buf (read_bytes (gmem s) BUFFERADDR (ss g)), reads_seen := ev\<rparr>)"
proof -
  have g1: "0 < ss g" "ss g \<le> 2048" "0 < spt g" "\<not> sector_size g \<le>s 0"
    using g ss_values [OF g] by (auto simp: geometry_ok_def word_sle_eq)
  have e: "errnum s = ERR_NONE" using b by (simp add: room_def)
  have m0: "t mod spt g = 0" "t - t mod spt g = t" using t(1) by auto
  have mi: "min (ss g) (spt g * ss g) = ss g" using g1(3) by (cases "spt g") auto
  have "0 + ss g \<le> 0x7e00" using g1(2) by simp
  from note_and_move [OF steady_ok [OF g s(2,1)] b g1(1) this, of "of_nat t" 0 "\<lambda>s. rawread_loop bios d (of_nat t + of_nat (spt g)) 0 0 (buf + sector_size g) s"]
  obtain ev where ev: "do {
      s \<leftarrow> note_reads (of_nat t) 0 (of_nat (ss g)) s;
      let s = snd (grub_memmove buf (BUFFERADDR + of_nat 0) (of_nat (ss g)) s);
      rawread_loop bios d (of_nat t + of_nat (spt g)) 0 0 (buf + sector_size g) s
    } = rawread_loop bios d (of_nat t + of_nat (spt g)) 0 0 (buf + sector_size g)
        (s\<lparr>gmem := write_bytes (gmem s) buf (read_bytes (gmem s) (BUFFERADDR + of_nat 0) (ss g)), reads_seen := ev\<rparr>)" by blast
  let ?s2 = "s\<lparr>gmem := write_bytes (gmem s) buf (read_bytes (gmem s) BUFFERADDR (ss g)), reads_seen := ev\<rparr>"
  have "rawread_loop bios d (of_nat t + of_nat (spt g)) 0 0 (buf + sector_size g) ?s2 = Some (True, ?s2)"
    using e by (subst rawread_loop.simps) simp
  then have "rawread_loop bios d (of_nat t) 0 (sector_size g) buf s = Some (True, ?s2)"
    using rawread_step [OF g s(1,2) e t(2) g1(1,1), of bios buf] ev s(3) g1(2) by (simp add: m0 mi)
  then show ?thesis using g1(4) by (auto simp: rawread_def)
qed

section \<open>A track that is not in the buffer\<close>

text \<open>C34: a read that starts in the middle of the last track and goes beyond the end of the drive fails, but marks the
  track as buffered although only its second part has been loaded, at the start of the buffer: the next read of
  the first sector of that track succeeds and returns the bytes of another sector.\<close>

theorem rawread_leaves_wrong_track:
  fixes sector len :: nat and g :: geometry
  defines "t \<equiv> sector - sector mod spt g" and "num \<equiv> spt g - sector mod spt g"
  assumes "geometry_ok g" and "bios_reads bios d g" and "buf_drive s = d" and "buf_geom s = g" and "buf_track s \<noteq> of_nat t"
    and "sector < total g" and "t + spt g = total g" and "0 < t" and "num * ss g < len" and "len < 2147479552"
    and "room buf len s" and "disjoint_regions buf len BUFFERADDR 0x7e00" and "room buf2 (ss g) s"
  shows "\<exists>s1 s2. rawread bios d (of_nat sector) 0 (of_nat len) buf s = Some (False, s1) \<and> errnum s1 = ERR_GEOM
    \<and> rawread bios d (of_nat t) 0 (sector_size g) buf2 (s1\<lparr>errnum := ERR_NONE\<rparr>) = Some (True, s2)
    \<and> read_bytes (gmem s2) buf2 (ss g) = disk_bytes (drives s) d (sector * ss g) (ss g)"
proof -
  note n = track_numbers [OF assms(3,8), folded t_def num_def]
  have tt: "0 < ss g" "ss g \<le> 2048" "num \<le> spt g" "total g < 2147483648" "t < total g" "sector < 4294967296" "spt g \<le> 63"
    using assms(3,8,9) ss_values [OF assms(3)] spt_bounds [OF assms(3)] by (auto simp: num_def geometry_ok_def)
  let ?m = "write_bytes (gmem s) BUFFERADDR (disk_bytes (drives s) d (sector * ss g) (num * ss g))"
  have "t \<le> sector" by (simp add: t_def)
  then have "(of_nat t :: u32) \<noteq> 0" "(of_nat sector :: u32) \<noteq> 0"
    using assms(10) tt of_nat_u32_inj [of t 0] of_nat_u32_inj [of sector 0] by simp_all
  then have e: "map_ezd bios d (of_nat sector) (of_nat ((0 + len + ss g - 1) div ss g)) (s\<lparr>gmem := ?m, buf_track := of_nat t\<rparr>)
      = Some (s\<lparr>gmem := ?m, buf_track := of_nat t\<rparr>)"
    by (simp add: map_ezd_def)
  obtain ev where 1: "rawread bios d (of_nat sector) 0 (of_nat len) buf s
    = rawread_loop bios d (of_nat sector + of_nat num) 0 (of_nat (len - num * ss g)) (buf + of_nat (num * ss g))
        (s\<lparr>buf_track := of_nat t, gmem := write_bytes ?m buf (read_bytes ?m BUFFERADDR (num * ss g)), reads_seen := ev\<rparr>)"
    using first_turn [OF assms(3-6) _ assms(8) _ assms(12-14), folded t_def num_def, OF assms(7,11) e] by blast
  define s0 where "s0 = s\<lparr>buf_track := of_nat t, gmem := write_bytes ?m buf (read_bytes ?m BUFFERADDR (num * ss g)), reads_seen := ev\<rparr>"
  let ?s1 = "s0\<lparr>errnum := ERR_GEOM\<rparr>"
  have end': "of_nat sector + of_nat num = total_sectors g"
  proof -
    have "sector + num = total g" using n(1,4) assms(9) by linarith
    then show ?thesis using of_nat_add [of sector num, where 'a = u32] by simp
  qed
  have "0 <s (of_nat (len - num * ss g) :: u32)" using assms(11,12) of_nat_sless_u32 [of 0 "len - num * ss g"] by simp
  then have r1: "rawread bios d (of_nat sector) 0 (of_nat len) buf s = Some (False, ?s1)"
    unfolding 1 s0_def [symmetric] end' using assms(5,6,13)
    by (subst rawread_loop.simps) (simp add: check_drive_def s0_def room_def del: of_nat_diff of_nat_mult)
  let ?s = "s0\<lparr>errnum := ERR_NONE\<rparr>"
  have s: "buf_drive ?s = d" "buf_geom ?s = g" "errnum ?s = ERR_NONE" "buf_track ?s = of_nat t"
    using assms(5,6) by (simp_all add: s0_def)
  have "read_bytes ?m BUFFERADDR (num * ss g) = disk_bytes (drives s) d (sector * ss g) (num * ss g)"
    by (rule buffer_written(2) [OF assms(3) tt(3)])
  moreover have "num * ss g \<le> 0x7e00" by (rule buffer_written(1) [OF assms(3) tt(3)])
  ultimately have b: "read_bytes (gmem ?s) BUFFERADDR (num * ss g) = disk_bytes (drives s) d (sector * ss g) (num * ss g)"
    using assms(11,12) buffer_kept [OF assms(14), of "num * ss g" "num * ss g"] by (simp add: s0_def del: of_nat_mult)
  have "ss g \<le> num * ss g" using n(5) by simp
  then have "read_bytes (gmem ?s) (BUFFERADDR + of_nat 0) (ss g) = disk_bytes (drives s) d (sector * ss g + 0) (ss g)"
    using b read_bytes_slice [of 0 "ss g" "num * ss g"] disk_bytes_slice [of 0 "ss g" "num * ss g"] by simp
  then have b2: "read_bytes (gmem ?s) BUFFERADDR (ss g) = disk_bytes (drives s) d (sector * ss g) (ss g)" by simp
  have "room buf2 (ss g) ?s" using assms(15) by (simp add: room_def s0_def)
  from read_buffered [OF assms(3) s(1,2,4) n(3) tt(5) this, of bios, unfolded b2]
  obtain ev' where "rawread bios d (of_nat t) 0 (sector_size g) buf2 ?s
    = Some (True, ?s\<lparr>gmem := write_bytes (gmem ?s) buf2 (disk_bytes (drives s) d (sector * ss g) (ss g)), reads_seen := ev'\<rparr>)" by blast
  moreover have "read_bytes (write_bytes (gmem ?s) buf2 (disk_bytes (drives s) d (sector * ss g) (ss g))) buf2 (ss g)
      = disk_bytes (drives s) d (sector * ss g) (ss g)"
    using read_write_bytes [of "disk_bytes (drives s) d (sector * ss g) (ss g)" "gmem ?s" buf2] tt(2) by simp
  ultimately show ?thesis
    using r1 by (intro exI [of _ ?s1] exI [of _ "?s\<lparr>gmem := write_bytes (gmem ?s) buf2 (disk_bytes (drives s) d (sector * ss g) (ss g)), reads_seen := ev'\<rparr>"]) simp
qed

text \<open>The sector at the start of the buffer is taken for a partition table and replaced by the next one.\<close>

lemma map_ezd_marked:
  fixes sector n :: nat
  assumes "geometry_ok g" and "buf_geom s = g" and "n \<le> spt g" and "2 \<le> n" and "drives s d (sector * ss g + 450) = 0x55"
    and "room BUFFERADDR (ss g) s"
  defines "m \<equiv> write_bytes (gmem s) BUFFERADDR (disk_bytes (drives s) d (sector * ss g) (n * ss g))"
  shows "map_ezd bios d x slen (s\<lparr>gmem := m, buf_track := 0\<rparr>)
    = Some (s\<lparr>gmem := write_bytes m BUFFERADDR (disk_bytes (drives s) d (sector * ss g + ss g) (ss g)), buf_track := 0\<rparr>)"
proof -
  have g: "0 < ss g" "450 < ss g" "ss g \<le> 2048" using ss_values [OF assms(1)] by auto
  note w = buffer_written(2,4) [OF assms(1,3), where mm = "gmem s" and ds = "drives s" and d = d and a = "sector * ss g", folded m_def]
  have "2 * ss g \<le> n * ss g" using assms(4) by (rule mult_le_mono1)
  then have two: "ss g + ss g \<le> n * ss g" by linarith
  have nx: "read_bytes m (BUFFERADDR + of_nat (ss g)) (ss g) = disk_bytes (drives s) d (sector * ss g + ss g) (ss g)"
    using two w(1) by (simp only: read_bytes_slice disk_bytes_slice)
  have "m (BUFFERADDR + of_nat 450) = 0x55" using w(2) [of 450] two g(2) assms(5) by simp
  then have "ezd_marked m BUFFERADDR" by (simp add: ezd_marked_def PC_SLICE_TYPE_def PC_SLICE_TYPE_EZD_def add.assoc)
  moreover have "room BUFFERADDR (ss g) (s\<lparr>gmem := m, buf_track := 0\<rparr>)" using assms(6) by (simp add: room_def)
  moreover have "unat (BUFFERADDR + of_nat (ss g)) + ss g < 4294967296"
    using g(3) by (subst unat_add_lem [THEN iffD1]) (simp_all add: BUFFERADDR_def)
  ultimately show ?thesis
    using room_move [of BUFFERADDR "ss g" "s\<lparr>gmem := m, buf_track := 0\<rparr>" "BUFFERADDR + of_nat (ss g)"] g(1) nx assms(2)
    by (simp add: map_ezd_def)
qed

text \<open>C35: a read that starts in the first track behind its first sector and goes beyond the track takes the sector
  it starts with for a partition table: if its byte 450 is 0x55, the mark of an EZD disk, the read succeeds and gives
  the next sector in its place.\<close>

theorem rawread_skips_marked_sector:
  fixes sector len :: nat and g :: geometry
  assumes "geometry_ok g" and "bios_reads bios d g" and "buf_drive s = d" and "buf_geom s = g" and "buf_track s \<noteq> 0"
    and "0 < sector" and "Suc sector < spt g" and "(spt g - sector) * ss g < len" and "len < 2147479552"
    and "sector * ss g + len \<le> total g * ss g" and "drives s d (sector * ss g + 450) = 0x55"
    and "room buf len s" and "disjoint_regions buf len BUFFERADDR 0x7e00" and "room BUFFERADDR (ss g) s"
  shows "\<exists>s'. rawread bios d (of_nat sector) 0 (of_nat len) buf s = Some (True, s')
    \<and> read_bytes (gmem s') buf (ss g) = disk_bytes (drives s) d (Suc sector * ss g) (ss g)"
proof -
  let ?num = "spt g - sector"
  have t: "sector mod spt g = sector" using assms(7) by simp
  have tt: "0 < ss g" "450 < ss g" "ss g \<le> 2048" "?num \<le> spt g" "total g < 2147483648" "Suc (Suc 0) \<le> ?num" "sector < total g" "spt g < total g"
  proof -
    show ss: "0 < ss g" "450 < ss g" "ss g \<le> 2048" using ss_values [OF assms(1)] by auto
    have "sector * ss g + ?num * ss g < total g * ss g" using assms(8,10) by linarith
    moreover have "sector * ss g + ?num * ss g = spt g * ss g" using assms(7) by (simp add: add_mult_distrib [symmetric])
    ultimately show "spt g < total g" by simp
    then show "sector < total g" using assms(7) by simp
  qed (use assms(1,7) in \<open>auto simp: geometry_ok_def\<close>)
  let ?m = "write_bytes (gmem s) BUFFERADDR (disk_bytes (drives s) d (sector * ss g) (?num * ss g))"
  let ?m2 = "write_bytes ?m BUFFERADDR (disk_bytes (drives s) d (sector * ss g + ss g) (ss g))"
  have "2 \<le> ?num" using assms(7) by simp
  note e = map_ezd_marked [OF assms(1,4) tt(4) this assms(11,14), of bios "of_nat sector" "of_nat ((0 + len + ss g - 1) div ss g)"]
  have "2 * ss g \<le> ?num * ss g" using assms(7) by (intro mult_le_mono1) simp
  then have two: "ss g + ss g \<le> ?num * ss g" by linarith
  let ?x = "read_bytes ?m2 BUFFERADDR (?num * ss g)"
  let ?m3 = "write_bytes ?m2 buf ?x"
  have zero: "(of_nat 0 :: u32) = 0" by simp
  obtain ev where ev: "rawread bios d (of_nat sector) 0 (of_nat len) buf s
    = rawread_loop bios d (of_nat sector + of_nat ?num) 0 (of_nat (len - ?num * ss g)) (buf + of_nat (?num * ss g))
        (s\<lparr>buf_track := 0, gmem := ?m3, reads_seen := ev\<rparr>)"
    using first_turn [OF assms(1-4) _ tt(7) _ assms(9,12,13), unfolded t diff_self_eq_0 zero, OF assms(5,8) e] by blast
  let ?s3 = "s\<lparr>buf_track := 0, gmem := ?m3, reads_seen := ev\<rparr>"
  have sp: "of_nat sector + of_nat ?num = (of_nat (spt g) :: u32)" using assms(7) by (simp add: of_nat_diff)
  have sum: "sector * ss g + ?num * ss g = spt g * ss g" using assms(7) by (simp add: add_mult_distrib [symmetric])
  have nz: "(0 :: u32) \<noteq> of_nat (spt g)" using spt_bounds [OF assms(1)] of_nat_u32_inj [of 0 "spt g"] by simp
  have pos: "0 < len - ?num * ss g" "?num * ss g + (len - ?num * ss g) \<le> len" using assms(8) by simp_all
  have "room (buf + of_nat (?num * ss g)) (len - ?num * ss g) ?s3"
    using room_part(1) [OF assms(12) pos(2,1)] by (simp add: room_def)
  moreover have "disjoint_regions (buf + of_nat (?num * ss g)) (len - ?num * ss g) BUFFERADDR 0x7e00"
    using assms(9,13) pos(2) by (intro disjoint_subregion) auto
  moreover have "spt g * ss g + 0 + (len - ?num * ss g) \<le> total g * ss g" using sum assms(8,10) by linarith
  ultimately obtain m' tr ev' where m': "rawread_loop bios d (of_nat (spt g)) 0 (of_nat (len - ?num * ss g)) (buf + of_nat (?num * ss g)) ?s3
      = Some (True, ?s3\<lparr>gmem := m', buf_track := tr, reads_seen := ev'\<rparr>)"
    "\<And>a. \<not> in_region a (buf + of_nat (?num * ss g)) (len - ?num * ss g) \<Longrightarrow> \<not> in_region a BUFFERADDR 0x7e00 \<Longrightarrow> m' a = ?m3 a"
    using rawread_loop_reads [OF assms(1,2), of "spt g" ?s3 0 "len - ?num * ss g" "buf + of_nat (?num * ss g)"] assms(3,4,9) tt(1) pos nz
    by auto
  have le: "0 + ss g \<le> ?num * ss g" using two by linarith
  have "read_bytes m' buf (ss g) = read_bytes ?m3 buf (ss g)"
  proof (rule read_bytes_outside)
    fix a assume "in_region a buf (ss g)"
    then obtain i where i: "i < ss g" "a = buf + of_nat i" by (rule in_regionE)
    have "?num * ss g + (len - ?num * ss g) \<le> 4294967296" using assms(9) pos(2) by simp
    moreover have "i < ?num * ss g" using i(1) two by simp
    ultimately have "\<not> in_region a (buf + of_nat (?num * ss g)) (len - ?num * ss g)"
      unfolding i(2) by (intro not_in_region_before)
    moreover have "in_region a buf len" unfolding i(2) using \<open>i < ?num * ss g\<close> assms(8,9) by (intro in_region_offset) simp_all
    then have "\<not> in_region a BUFFERADDR 0x7e00" using assms(13) disjoint_regionsD by blast
    ultimately show "m' a = ?m3 a" by (rule m'(2))
  qed (use tt(3) in simp)
  also have "\<dots> = take (ss g) ?x"
    using read_bytes_slice [OF le, of ?m3 buf] read_write_bytes [of ?x ?m2 buf] assms(8,9) by simp
  also have "\<dots> = read_bytes ?m2 BUFFERADDR (ss g)" using read_bytes_slice [OF le, of ?m2 BUFFERADDR] by simp
  also have "\<dots> = disk_bytes (drives s) d (sector * ss g + ss g) (ss g)"
    using read_write_bytes [of "disk_bytes (drives s) d (sector * ss g + ss g) (ss g)" ?m BUFFERADDR] tt(3) by simp
  finally have "read_bytes m' buf (ss g) = disk_bytes (drives s) d (Suc sector * ss g) (ss g)" by (simp add: add.commute)
  then show ?thesis unfolding ev sp m'(1) by simp
qed

end
