(* ===== verification/Grub_Disk_Demo.thy ===== *)
theory Grub_Disk_Demo
  imports Grub_Disk_Flaws
begin

text \<open>
  A floppy of two tracks of four sectors and a BIOS that serves it: the properties of the sector access at
  concrete inputs.
\<close>

definition demo_geom :: geometry where
  "demo_geom = \<lparr>cylinders = 2, heads = 1, sectors = 4, total_sectors = 8, sector_size = 512, flags = 0\<rparr>"

definition demo_bios :: bios where
  "demo_bios = \<lparr>int13_transfer = \<lambda>_ _ _ hw. (1, hw), int13_status = \<lambda>_ p. (1, p), int13_parameters = \<lambda>_ p. (1, p),
     biosdisk_standard = \<lambda>ah d c h k n seg (m, ds).
       let a = (unat c * 4 + (unat k - 1)) * 512 in
       if ah = 2 then (0, write_bytes m (16 * seg) (disk_bytes ds d a (unat n * 512)), ds)
       else (0, m, disk_write ds d a (read_bytes m (16 * seg) 512)),
     check_int13_extensions = \<lambda>_. 0, get_diskinfo_standard = \<lambda>_. (0, 2, 1, 4)\<rparr>"

text \<open>Every byte of a sector is its number. No drive is buffered.\<close>

definition demo_disk :: disk where
  "demo_disk = \<lparr>gmem = \<lambda>_. 0, errnum = ERR_NONE, mem_lower = 640, mem_upper = 0, drives = \<lambda>_ i. of_nat (i div 512),
     cdrp_at = 0x8000, cdrp_stack = no_spec, drp_at = 0x8100, drp_stack = no_parameters,
     current_drive = 0, part_start = 2, part_length = 4, buf_drive = -1, buf_track = -1,
     buf_geom = \<lparr>cylinders = 0, heads = 0, sectors = 0, total_sectors = 0, sector_size = 0, flags = 0\<rparr>,
     disk_read_func = False, reads_seen = []\<rparr>"

definition demo_buffered :: disk where
  "demo_buffered = demo_disk\<lparr>buf_drive := 0, buf_geom := demo_geom\<rparr>"

lemma demo_geom_ok: "geometry_ok demo_geom" "ss demo_geom = 512" "spt demo_geom = 4" "total demo_geom = 8"
  by (simp_all add: geometry_ok_def demo_geom_def)

lemma demo_reads: "bios_reads demo_bios 0 demo_geom" and demo_writes: "bios_writes demo_bios 0 demo_geom"
  by (simp_all add: bios_reads_def bios_writes_def demo_geom_def demo_bios_def unat_of_nat_u32 del: of_nat_Suc)

lemma demo_not_ezd: "not_ezd (drives demo_disk) 0 demo_geom"
proof -
  have "(of_nat ((k * 512 + 450 + 16 * i) div 512) :: u8) \<noteq> 0x55" if "k < 4" "i < 4" for k i :: nat
  proof -
    have "(k * 512 + 450 + 16 * i) div 512 = k" using that by (simp add: div_nat_eqI)
    moreover have "k \<in> {0, 1, 2, 3}" using that(1) by auto
    ultimately show ?thesis by auto
  qed
  then show ?thesis by (simp add: not_ezd_def demo_disk_def demo_geom_def)
qed

lemma demo_known: "drive_known demo_bios 0 demo_geom demo_disk"
  by (simp add: drive_known_def demo_disk_def get_diskinfo_def standard_geometry_def demo_bios_def demo_geom_def chs_total_def
      SECTOR_SIZE_def)

lemma demo_room: "0x1000 \<le> unat a \<Longrightarrow> unat a + n \<le> 655360 \<Longrightarrow> room a n demo_disk" "room a n demo_buffered = room a n demo_disk"
  by (simp_all add: room_def demo_disk_def demo_buffered_def)

lemma demo_disk_apart: "unat a + n \<le> 0x70000 \<Longrightarrow> disjoint_regions a n BUFFERADDR 0x7e00" "unat a + n \<le> 0x77e00 \<Longrightarrow> disjoint_regions a n SCRATCHADDR 512"
  by (auto simp: disjoint_regions_def in_region_def buffer_addresses unat_minus_u32 split: if_splits)

lemma rawread_reads_witness:
  "\<exists>s'. rawread demo_bios 0 2 10 1500 0x10000 demo_disk = Some (True, s')
    \<and> read_bytes (gmem s') 0x10000 1500 = disk_bytes (drives demo_disk) 0 1034 1500"
proof -
  have "\<exists>s'. rawread demo_bios 0 (of_nat 2) (of_nat 10) (of_nat 1500) 0x10000 demo_disk = Some (True, s')
    \<and> read_bytes (gmem s') 0x10000 1500 = disk_bytes (drives demo_disk) 0 (2 * ss demo_geom + 10) 1500
    \<and> (\<forall>a. \<not> in_region a 0x10000 1500 \<longrightarrow> \<not> in_region a BUFFERADDR 0x7e00 \<longrightarrow> gmem s' a = gmem demo_disk a)
    \<and> drives s' = drives demo_disk \<and> buffered 0 demo_geom s'"
    by (rule rawread_reads [OF demo_geom_ok(1) demo_reads _ demo_known])
      (simp_all add: demo_geom_ok demo_not_ezd demo_room demo_disk_apart)
  then show ?thesis by (auto simp: demo_geom_ok simp del: read_bytes.simps)
qed

lemma devread_partition_witness:
  "\<exists>s'. devread demo_bios 1 500 700 0x10000 demo_disk = Some (True, s')
    \<and> read_bytes (gmem s') 0x10000 700 = disk_bytes (drives demo_disk) 0 2036 700"
  using devread_partition [of demo_geom demo_bios demo_disk 2 4 1 700 500 "0x10000"]
    demo_geom_ok demo_reads demo_not_ezd demo_known demo_room demo_disk_apart
  by (auto simp: demo_geom_def demo_disk_def)

lemma rawread_returns_witness:
  "\<exists>ok s'. rawread demo_bios 0 9 10 0xFFFFFFFF 0 demo_buffered = Some (ok, s')"
  by (rule rawread_returns) (simp_all add: steady_def demo_buffered_def demo_geom_def)


lemma demo_buffered_fields:
  "buf_drive demo_buffered = 0" "buf_geom demo_buffered = demo_geom" "buf_track demo_buffered = -1" "drives demo_buffered = drives demo_disk"
  by (simp_all add: demo_buffered_def demo_disk_def)

lemma io_refines_array_witness:
  "\<exists>s'. io_run demo_bios 0 [Read 5 10 3 0x10000, Write 5 (replicate 512 7) 0x20000, Read 5 510 4 0x10000] demo_buffered
    = Some ([(True, [5, 5, 5]), (True, []), (True, [7, 7, 6, 6])], s')"
proof -
  let ?ops = "[Read 5 10 3 0x10000, Write 5 (replicate 512 7) 0x20000, Read 5 510 4 0x10000]"
  have "(-1 :: u32) \<noteq> of_nat t" if "t < 8" for t using that by (intro of_nat_not_minus_1 [THEN not_sym]) simp
  then have "buffered 0 demo_geom demo_buffered" by (simp add: buffered_def demo_buffered_fields demo_geom_ok)
  then have i: "io_inv demo_bios 0 demo_geom demo_buffered"
    using demo_geom_ok demo_reads demo_writes demo_not_ezd demo_room [of SCRATCHADDR 512]
    by (simp add: io_inv_def demo_buffered_fields) (simp add: demo_geom_def SCRATCHADDR_def)
  have "\<forall>op \<in> set ?ops. io_ok demo_geom demo_buffered op"
    by (simp add: demo_geom_ok demo_room demo_disk_apart)
  from io_refines_array [OF i this] show ?thesis
    by (auto simp: demo_buffered_fields store_at_def upt_rec demo_disk_def)
qed

lemma rawread_leaves_wrong_track_witness:
  "\<exists>s1 s2. rawread demo_bios 0 6 0 1025 0x10000 demo_buffered = Some (False, s1) \<and> errnum s1 = ERR_GEOM
    \<and> rawread demo_bios 0 4 0 512 0x20000 (s1\<lparr>errnum := ERR_NONE\<rparr>) = Some (True, s2)
    \<and> read_bytes (gmem s2) 0x20000 512 = disk_bytes (drives demo_disk) 0 3072 512"
  using rawread_leaves_wrong_track [OF demo_geom_ok(1) demo_reads demo_buffered_fields(1,2), of 6 1025 "0x10000" "0x20000"]
  by (simp add: demo_geom_ok demo_room demo_disk_apart demo_buffered_fields del: read_bytes.simps) (simp add: demo_geom_def)

text \<open>The same drive with a sector that looks like the partition table of an EZD disk.\<close>

definition demo_marked :: disk where
  "demo_marked = demo_buffered\<lparr>drives := \<lambda>_ i. if i = 962 then 0x55 else of_nat (i div 512)\<rparr>"

lemma rawread_skips_marked_sector_witness:
  "\<exists>s'. rawread demo_bios 0 1 0 1600 0x10000 demo_marked = Some (True, s')
    \<and> read_bytes (gmem s') 0x10000 512 = disk_bytes (drives demo_marked) 0 1024 512"
proof -
  have f: "buf_drive demo_marked = 0" "buf_geom demo_marked = demo_geom" "buf_track demo_marked \<noteq> 0" "drives demo_marked 0 962 = 0x55"
    by (simp_all add: demo_marked_def demo_buffered_def demo_disk_def)
  have r: "room a n demo_marked = room a n demo_disk" for a n by (simp add: room_def demo_marked_def demo_buffered_def)
  have b: "room BUFFERADDR 512 demo_disk" by (rule demo_room) (simp_all add: BUFFERADDR_def)
  show ?thesis
    using rawread_skips_marked_sector [OF demo_geom_ok(1) demo_reads f(1-3), of 1 1600 "0x10000"]
    by (simp add: demo_geom_ok demo_room r b demo_disk_apart f del: read_bytes.simps)
qed

end
