(* ===== verification/Grub_Slices_Demo.thy ===== *)
theory Grub_Slices_Demo
  imports Grub_Slices_Write Grub_Disk_Demo
begin

text \<open>
  A hard disk of sixteen sectors with a primary partition, an extended one and two logical ones: the properties of the partitions at
  concrete inputs.
\<close>

definition demo_hd_geom :: geometry where
  "demo_hd_geom = \<lparr>cylinders = 4, heads = 1, sectors = 4, total_sectors = 16, sector_size = 512, flags = 0\<rparr>"

text \<open>The tables: type, start and length of the entries that are not empty. Everything else is 0.\<close>

definition demo_tables :: "nat \<Rightarrow> u8" where
  "demo_tables i =
     (if i \<in> {510, 2558, 4606} then 0x55 else if i \<in> {511, 2559, 4607} then 0xAA
      else if i = 450 then 0x83 else if i = 454 then 1 else if i = 458 then 3
      else if i = 466 then 5 else if i = 470 then 4 else if i = 474 then 8
      else if i = 2498 then 0x83 else if i = 2502 then 1 else if i = 2506 then 3
      else if i = 2514 then 5 else if i = 2518 then 4 else if i = 2522 then 4
      else if i = 4546 then 0x0B else if i = 4550 then 1 else if i = 4554 then 3
      else 0)"

definition demo_hd :: devices where
  "demo_hd = \<lparr>gmem = \<lambda>_. 0, errnum = ERR_NONE, mem_lower = 640, mem_upper = 0, drives = \<lambda>_. demo_tables,
     cdrp_at = 0x8000, cdrp_stack = no_spec, drp_at = 0x8100, drp_stack = no_parameters,
     current_drive = 0x80, part_start = 0, part_length = 0, buf_drive = 0x80, buf_track = -1, buf_geom = demo_hd_geom,
     disk_read_func = False, reads_seen = [], current_partition = slice_no 5, current_slice = 0, bsd_evil_hack = 0,
     saved_drive = 0x80, saved_partition = slice_no 0, cdrom_drive = 0x9F, cur_part_offset = 0, cur_part_addr = 0, boot_part_addr = 0\<rparr>"

definition demo_vars :: slice_vars where
  "demo_vars = \<lparr>partition = 0, slice_type = 0, slice_start = 0, slice_len = 0, table_offset = 0, table_entry = 0, ext_offset = 0\<rparr>"

lemma demo_hd_fields [simp]:
  "drives demo_hd = (\<lambda>_. demo_tables)" "current_drive demo_hd = 0x80" "saved_drive demo_hd = 0x80" "errnum demo_hd = ERR_NONE"
  "buf_drive demo_hd = 0x80" "buf_geom demo_hd = demo_hd_geom" "buf_track demo_hd = -1" "mem_lower demo_hd = 640"
  "current_partition demo_hd = slice_no 5" "saved_partition demo_hd = slice_no 0"
  by (simp_all add: demo_hd_def)

lemma demo_hd_geom_ok: "geometry_ok demo_hd_geom" "sector_size demo_hd_geom = 512" "spt demo_hd_geom = 4" "total demo_hd_geom = 16"
  by (simp_all add: geometry_ok_def demo_hd_geom_def)

lemma demo_hd_reads: "bios_reads demo_bios 0x80 demo_hd_geom" and demo_hd_writes: "bios_writes demo_bios 0x80 demo_hd_geom"
  by (simp_all add: bios_reads_def bios_writes_def demo_hd_geom_def demo_bios_def unat_of_nat_u32 del: of_nat_Suc)

lemma demo_upto: "[0..<4] = [0, 1, 2, 3 :: nat]"
  by (simp add: upt_rec)

lemmas demo_table = table_type_def table_start_def PC_SLICE_TYPE_def PC_SLICE_START_def PC_SLICE_LENGTH_def sector_at_def load32_def demo_tables_def

lemma demo_types: "table_entries demo_tables 0 = [(0x83, 1, 3), (5, 4, 8), (0, 0, 0), (0, 0, 0)]"
  "table_entries demo_tables 4 = [(0x83, 5, 3), (5, 8, 4), (0, 4, 0), (0, 4, 0)]"
  "table_entries demo_tables 8 = [(0x0B, 9, 3), (0, 8, 0), (0, 8, 0), (0, 8, 0)]"
  by (simp_all add: table_entries_def demo_upto demo_table)

lemma demo_not_marked: "not_ezd (\<lambda>_. demo_tables) 0x80 demo_hd_geom"
proof -
  have "demo_tables (k * 512 + 450 + 16 * i) \<noteq> 0x55" if "k < 4" "i < 4" for k i
  proof -
    have "k \<in> {0, 1, 2, 3}" "i \<in> {0, 1, 2, 3}" using that by auto
    then show ?thesis by (auto simp: demo_tables_def)
  qed
  then show ?thesis by (simp add: not_ezd_def demo_hd_geom_def)
qed

lemma demo_valid: "PC_MBR_CHECK_SIG (sector_at demo_tables n) 0" if "n \<in> {0, 4, 8}"
  using that by (auto simp: PC_MBR_CHECK_SIG_def load16_def PC_MBR_SIGNATURE_def sector_at_def demo_tables_def)

lemma demo_table_types: "table_type demo_tables n i = fst (table_entries demo_tables n ! i)" if "i < 4"
  using that by (simp add: table_entries_nth)

lemma demo_extended: "extended_in demo_tables 0 = Some 1" "extended_in demo_tables 4 = Some 1" "extended_in demo_tables 8 = None"
  by (simp_all add: extended_in_def demo_upto demo_table_types demo_types IS_PC_SLICE_TYPE_EXTENDED_def slice_numbers)

lemma demo_chain: "chained demo_tables 16 0 [0, 4, 8]"
proof -
  have "\<forall>i<4. \<not> IS_PC_SLICE_TYPE_BSD (table_type demo_tables n i)" if "n \<in> {0, 4, 8}" for n
  proof (intro allI impI)
    fix i :: nat assume "i < 4"
    then have "i = 0 \<or> i = 1 \<or> i = 2 \<or> i = 3" by auto
    with that show "\<not> IS_PC_SLICE_TYPE_BSD (table_type demo_tables n i)"
      by (auto simp: demo_table_types demo_types IS_PC_SLICE_TYPE_BSD_def slice_numbers)
  qed
  moreover have "unat (table_start demo_tables 0 1) = 4" "unat (table_start demo_tables 4 1) = 4"
    by (simp_all add: demo_table)
  ultimately show ?thesis using demo_valid demo_extended by simp
qed

lemma demo_slices: "slices demo_tables [0, 4, 8] =
  [(0, 0x83, 1, 3), (1, 5, 4, 8), (2, 0, 0, 0), (3, 0, 0, 0),
   (4, 0x83, 5, 3), (4, 5, 8, 4), (4, 0, 4, 0), (4, 0, 4, 0), (5, 0x0B, 9, 3), (5, 0, 8, 0), (5, 0, 8, 0), (5, 0, 8, 0)]"
  by (simp add: slices_def demo_types proper_def IS_PC_SLICE_TYPE_EXTENDED_def slice_numbers)

lemma demo_writer: "table_writer demo_bios 0x80 demo_hd_geom 0x10000 demo_hd"
proof -
  have "(-1 :: u32) \<noteq> of_nat t" if "t < 16" for t using that by (intro of_nat_not_minus_1 [THEN not_sym]) simp
  then have "buffered 0x80 demo_hd_geom demo_hd" by (simp add: buffered_def demo_hd_geom_ok)
  then show ?thesis
    using demo_hd_geom_ok demo_hd_reads demo_hd_writes demo_not_marked demo_disk_apart [of "0x10000" 512]
    by (simp add: table_writer_def table_reader_def drive_known_def room_def SCRATCHADDR_def)
qed

lemma demo_reader: "table_reader demo_bios 0x80 demo_hd_geom 0x10000 demo_hd"
  using demo_writer by (simp add: table_writer_def)

lemma demo_numbers: "\<forall>(q, e) \<in> set (slices demo_tables [0, 4, 8]). q < 255"
  by (simp add: demo_slices)

lemma next_partition_enumerates_witness:
  "\<exists>vs s'. all_partitions demo_bios 0x80 0x10000 (demo_vars\<lparr>partition := 0xFFFFFF\<rparr>) demo_hd = Some (vs, s')
    \<and> map slice_start vs = [1, 4, 0, 0, 5, 8, 4, 4, 9, 8, 8, 8] \<and> errnum s' = ERR_NO_PART"
proof -
  obtain vs s' where v: "all_partitions demo_bios 0x80 0x10000 (demo_vars\<lparr>partition := 0xFFFFFF\<rparr>) demo_hd = Some (vs, s')"
    "map (\<lambda>v. (partition v, slice_type v, slice_start v, slice_len v)) vs = map (\<lambda>(q, e). (slice_no q, e)) (slices demo_tables [0, 4, 8])"
    "errnum s' = ERR_NO_PART"
    using next_partition_enumerates [OF demo_reader, of "[4, 8]" demo_vars] demo_chain demo_numbers
    by (auto simp: demo_hd_geom_ok NETWORK_DRIVE_def)
  have "map (fst \<circ> snd \<circ> snd) (map (\<lambda>v. (partition v, slice_type v, slice_start v, slice_len v)) vs) = map slice_start vs" by simp
  then have "map slice_start vs = [1, 4, 0, 0, 5, 8, 4, 4, 9, 8, 8, 8]" unfolding v(2) demo_slices by simp
  then show ?thesis using v(1,3) by (intro exI [of _ vs] exI [of _ s']) simp
qed

lemma open_partition_reads_witness:
  "\<exists>s1 s2. open_partition demo_bios 0x10000 demo_vars demo_hd = Some (True, s1)
    \<and> devread demo_bios 1 10 500 0x20000 s1 = Some (True, s2)
    \<and> read_bytes (gmem s2) 0x20000 500 = disk_bytes (\<lambda>_. demo_tables) 0x80 5130 500"
proof -
  have f: "find (\<lambda>(q, e). q = 5 \<and> fst e \<noteq> 0) (slices demo_tables [0, 4, 8]) = Some (5, 0x0B, 9, 3)" by (simp add: demo_slices)
  have r: "room 0x20000 500 demo_hd" "disjoint_regions 0x20000 500 BUFFERADDR 0x7e00"
    using demo_disk_apart [of "0x20000" 500] by (simp_all add: room_def)
  obtain s1 where s1: "open_partition demo_bios 0x10000 demo_vars demo_hd = Some (True, s1)"
    "\<forall>sector off n dst. unat (9 :: u32) + unat (3 :: u32) \<le> total demo_hd_geom \<and> sector < 2147483648 \<and> 0 < n \<and> off + n < 2147479552
        \<and> room dst n demo_hd \<and> disjoint_regions dst n BUFFERADDR 0x7e00 \<longrightarrow>
      (\<exists>ok s2. devread demo_bios (of_nat sector) (of_nat off) (of_nat n) dst s1 = Some (ok, s2)
        \<and> ok = (sector * 512 + off + n \<le> unat (3 :: u32) * 512)
        \<and> (ok \<longrightarrow> read_bytes (gmem s2) dst n = disk_bytes (drives demo_hd) 0x80 ((unat (9 :: u32) + sector) * 512 + off) n))"
    using open_partition_reads [OF demo_reader, of 5 "[4, 8]" demo_vars] demo_chain demo_numbers f
    by (simp add: demo_hd_geom_ok) blast
  have "\<exists>ok s2. devread demo_bios (of_nat 1) (of_nat 10) (of_nat 500) 0x20000 s1 = Some (ok, s2)
        \<and> ok = (1 * 512 + 10 + 500 \<le> unat (3 :: u32) * 512)
        \<and> (ok \<longrightarrow> read_bytes (gmem s2) 0x20000 500 = disk_bytes (drives demo_hd) 0x80 ((unat (9 :: u32) + 1) * 512 + 10) 500)"
    using s1(2) r by (elim allE [of _ 1] allE [of _ 10] allE [of _ 500] allE [of _ "0x20000"]) (simp add: demo_hd_geom_ok)
  then show ?thesis using s1(1) by auto
qed

lemma hidden_flag_changes_type_witness:
  "\<exists>s'. set_partition_hidden_flag demo_bios True 0x10000 demo_vars demo_hd = Some (0, s')
    \<and> type_changed (\<lambda>t. t OR 0x10) 16 (0x0B, 9, 3) 0x80 (\<lambda>_. demo_tables) (drives s')"
proof -
  have "find (\<lambda>(q, e). q = 5) (slices demo_tables [0, 4, 8]) = Some (5, 0x0B, 9, 3)" by (simp add: demo_slices)
  then show ?thesis
    using hidden_flag_changes_type [OF demo_writer, of 5 "[4, 8]" True demo_vars] demo_chain demo_numbers by (simp add: demo_hd_geom_ok)
qed

lemma make_saved_active_flags_witness:
  "\<exists>s'. make_saved_active demo_bios 0x10000 demo_hd = Some (True, s') \<and> drives s' 0x80 446 = 0x80"
proof -
  have "\<not> IS_PC_SLICE_TYPE_EXTENDED (table_type demo_tables 0 0)" "demo_tables 446 = 0"
    by (simp_all add: demo_table_types demo_types IS_PC_SLICE_TYPE_EXTENDED_def slice_numbers demo_tables_def)
  then show ?thesis
    using make_saved_active_flags [OF demo_writer, of 0] slice_no_fields(6) [of 0] by (auto simp: demo_hd_geom_ok)
qed

end
