(* ===== verification/Grub_Device_Props.thy ===== *)
theory Grub_Device_Props
  imports Grub_Device Grub_Slices_Demo
begin

text \<open>
  Every name of a device, printed, is read back by \<open>set_device\<close>.
\<close>

section \<open>The parts of a name\<close>

definition bsd_text :: "nat option \<Rightarrow> u8 list" where
  "bsd_text b = (case b of None \<Rightarrow> [] | Some b \<Rightarrow> [0x2C, of_nat (0x61 + b)])"

definition bsd_no :: "nat option \<Rightarrow> nat" where
  "bsd_no b = (case b of None \<Rightarrow> 0xFF | Some b \<Rightarrow> b)"

lemma bsd_chars:
  assumes "b < 8"
  shows "is_bsd_char (of_nat (0x61 + b))" "ucast (of_nat (0x61 + b) :: u8) - 0x61 = (of_nat b :: u32)"
    "(of_nat (0x61 + b) :: u8) \<noteq> 0x29" "(of_nat (0x61 + b) :: u8) \<noteq> 0x2C" "\<not> ((of_nat (0x61 + b) :: u8) \<le> 0x39)"
proof -
  have "b = 0 \<or> b = 1 \<or> b = 2 \<or> b = 3 \<or> b = 4 \<or> b = 5 \<or> b = 6 \<or> b = 7" using assms by auto
  then show "is_bsd_char (of_nat (0x61 + b))" "ucast (of_nat (0x61 + b) :: u8) - 0x61 = (of_nat b :: u32)"
    "(of_nat (0x61 + b) :: u8) \<noteq> 0x29" "(of_nat (0x61 + b) :: u8) \<noteq> 0x2C" "\<not> ((of_nat (0x61 + b) :: u8) \<le> 0x39)"
    by (auto simp: is_bsd_char_def)
qed

lemma digit_range: "48 \<le> unat c \<Longrightarrow> unat c \<le> 57 \<Longrightarrow> 0x30 \<le> c \<and> c \<le> (0x39 :: u8)"
  by (simp add: word_le_nat_alt)

lemma cstr_at_parts: "cstr_at m p (xs @ c # ys) \<Longrightarrow> m (p + of_nat (length xs)) = c \<and> cstr_at m (p + of_nat (length xs) + 1) ys"
  by (auto simp: cstr_at_append)

lemma parse_slice:
  assumes m: "cstr_at (gmem s) q (number_text 10 p @ bsd_text b @ 0x29 # bs)" and p: "p \<le> 254" and b: "\<forall>n. b = Some n \<longrightarrow> n < 8"
    and d: "current_drive s AND 0x80 \<noteq> 0"
  shows "parse_partition q s = Some (True, q + of_nat (length (number_text 10 p @ bsd_text b)),
    s\<lparr>current_partition := part_of p (bsd_no b), part_choice := part_choice s + 1\<rparr>)"
proof -
  let ?s = "s\<lparr>current_partition := 0, part_choice := part_choice s + 1\<rparr>" and ?q = "q + of_nat (length (number_text 10 p))"
  obtain c cs where c: "number_text 10 p = c # cs" "0x30 \<le> c" "c \<le> 0x39" using number_text_Cons [of p] digit_range by blast
  have 1: "0x30 \<le> gmem s q" "gmem s q \<le> 0x39" using m c by auto
  obtain c' bs' where c': "bsd_text b @ 0x29 # bs = c' # bs'" "c' = 0x29 \<or> c' = 0x2C" by (cases b) (auto simp: bsd_text_def)
  have "cstr_at (gmem ?s) q (number_text 10 p @ c' # bs')" using m c'(1) by simp
  from parse_number_at [OF this _ c'(2)] p have n: "parse_number q ?s = Some (True, ?q, of_nat p, ?s)" by simp
  have p2: "\<not> 254 < (of_nat p :: u32)" using p by (simp add: word_less_nat_alt unat_of_nat_u32)
  have np: "push_bit 16 (of_nat p) + 0xFFFF = part_of p 0xFF" using p by (intro part_of_slice) simp
  show ?thesis
  proof (cases b)
    case None
    then have "gmem s ?q = 0x29" using cstr_at_parts [of "gmem s" q "number_text 10 p"] m by (simp add: bsd_text_def)
    moreover have "\<not> is_bsd_char 0x29" by (simp add: is_bsd_char_def)
    ultimately show ?thesis using 1 n d p2 np None by (simp add: parse_partition_def bsd_text_def bsd_no_def)
  next
    case (Some k)
    then have k: "k < 8" using b by simp
    have g: "gmem s ?q = 0x2C" "gmem s (?q + 1) = of_nat (0x61 + k)"
      using cstr_at_parts [of "gmem s" q "number_text 10 p" "0x2C" "of_nat (0x61 + k) # 0x29 # bs"] m
      by (simp_all add: Some bsd_text_def)
    have "push_bit 8 (of_nat k) OR (part_of p 0xFF AND 0xFF00FF) = part_of p k" using p by (intro part_of_bsd) simp
    then show ?thesis using 1 n d p2 np g bsd_chars(1,2) [OF k] unfolding Some
      by (simp add: parse_partition_def bsd_text_def bsd_no_def add.assoc del: of_nat_add)
  qed
qed

lemma parse_bsd:
  assumes "cstr_at (gmem s) q (of_nat (0x61 + b) # bs)" and "b < 8"
  shows "parse_partition q s = Some (True, q + 1, s\<lparr>current_partition := part_of 0xFF b, part_choice := part_choice s + 1\<rparr>)"
proof -
  have "gmem s q = of_nat (0x61 + b)" using assms(1) by simp
  then show ?thesis
    using bsd_chars [OF assms(2)] part_of_0 [OF bsd_chars(2) [OF assms(2)]] by (simp add: parse_partition_def del: of_nat_add)
qed

lemma parse_rest_name:
  assumes m: "cstr_at (gmem s) q ((case slice n of None \<Rightarrow> [] | Some p \<Rightarrow> 0x2C # number_text 10 p) @ bsd_text (bsd n) @ 0x29 # bs)"
    and n: "device_ok n" and s: "errnum s = ERR_NONE" "hard n \<longrightarrow> current_drive s AND 0x80 \<noteq> 0" "part_choice s = 0" "current_partition s = 0xFFFFFF" "\<not> disk_choice s"
  shows "parse_rest q s = Some (Inr (q + of_nat (length ((case slice n of None \<Rightarrow> [] | Some p \<Rightarrow> 0x2C # number_text 10 p) @ bsd_text (bsd n))), True),
    s\<lparr>current_partition := device_partition n, part_choice := 2\<rparr>)"
proof (cases "slice n")
  case None
  have "part_of 0xFF 0xFF = 0xFFFFFF" by (simp add: part_of_def)
  note ff = this
  show ?thesis
  proof (cases "bsd n")
    case b: None
    then have "gmem s q = 0x29" "device_partition n = 0xFFFFFF" using m None ff by (simp_all add: bsd_text_def device_partition_def)
    then show ?thesis using s None b by (simp add: parse_rest_def bsd_text_def)
  next
    case (Some b)
    then have b: "b < 8" using n by (simp add: device_ok_def)
    let ?s = "s\<lparr>disk_choice := False, part_choice := part_choice s + 1\<rparr>"
    have g: "gmem s q = 0x2C" "cstr_at (gmem ?s) (q + 1) (of_nat (0x61 + b) # 0x29 # bs)" "gmem s (q + 1 + 1) = 0x29"
      using m None Some by (simp_all add: bsd_text_def)
    have "device_partition n = part_of 0xFF b" using None Some by (simp add: device_partition_def)
    then show ?thesis using s g(1,3) parse_bsd [OF g(2) b] None Some by (simp add: parse_rest_def bsd_text_def add.assoc)
  qed
next
  case (Some p)
  then have p: "p \<le> 254" "hard n" "\<forall>k. bsd n = Some k \<longrightarrow> k < 8" using n by (auto simp: device_ok_def)
  let ?s = "s\<lparr>disk_choice := False, part_choice := part_choice s + 1\<rparr>" and ?t = "number_text 10 p @ bsd_text (bsd n)"
  have g: "gmem s q = 0x2C" "cstr_at (gmem ?s) (q + 1) (number_text 10 p @ bsd_text (bsd n) @ 0x29 # bs)"
    using m Some by simp_all
  have e: "gmem s (q + 1 + of_nat (length ?t)) = 0x29"
    using cstr_at_parts [of "gmem s" "q + 1" ?t "0x29" bs] g(2) by simp
  have "current_drive ?s AND 0x80 \<noteq> 0" using s(2) p(2) by simp
  from parse_slice [OF g(2) p(1,3) this]
  have "parse_partition (q + 1) ?s = Some (True, q + 1 + of_nat (length ?t), ?s\<lparr>current_partition := device_partition n, part_choice := 2\<rparr>)"
    using s(3) Some by (simp add: device_partition_def bsd_no_def)
  then show ?thesis using s g(1) e Some by (simp add: parse_rest_def add.assoc)
qed

section \<open>The whole name\<close>

lemma drive_numbers:
  assumes "k < 8"
  shows "of_nat k AND (0xFFFFFF7F :: u32) < 8" "(of_nat k + 0x80) AND (0xFFFFFF7F :: u32) < 8" "(of_nat k + 0x80) AND 0x80 \<noteq> (0 :: u32)"
proof -
  have "k = 0 \<or> k = 1 \<or> k = 2 \<or> k = 3 \<or> k = 4 \<or> k = 5 \<or> k = 6 \<or> k = 7" using assms by auto
  then show "of_nat k AND (0xFFFFFF7F :: u32) < 8" "(of_nat k + 0x80) AND (0xFFFFFF7F :: u32) < 8" "(of_nat k + 0x80) AND 0x80 \<noteq> (0 :: u32)"
    by auto
qed

lemma device_sane:
  assumes "device_ok n" and "current_drive s = device_drive n" and "current_partition s = device_partition n"
  shows "sane_partition s = (True, s)"
proof -
  let ?p = "case slice n of None \<Rightarrow> 0xFF | Some p \<Rightarrow> p" and ?b = "case bsd n of None \<Rightarrow> 0xFF | Some b \<Rightarrow> b"
  have r: "?p < 256" "?b < 256" "unit_no n < 8" using assms(1) by (auto simp: device_ok_def split: option.splits)
  note f = part_of_fields [OF r(1,2)]
  have "push_bit 8 (of_nat ?b) = (0xFF00 :: u32) \<or> push_bit 8 (of_nat ?b) < (0x800 :: u32)"
  proof (cases "bsd n")
    case (Some b)
    then have b: "b < 8" using assms(1) by (simp add: device_ok_def)
    have "push_bit 8 (of_nat b) = (of_nat (b * 256) :: u32)" by (simp add: push_bit_eq_mult)
    moreover have "unat (of_nat (b * 256) :: u32) = b * 256" using b by (intro unat_of_nat_u32) simp
    ultimately show ?thesis using b Some by (simp add: word_less_nat_alt del: of_nat_mult)
  qed simp
  moreover have "of_nat ?p = (0xFF :: u32) \<or> current_drive s AND 0x80 \<noteq> 0"
    using assms(1,2) drive_numbers(3) [OF r(3)] by (auto simp: device_ok_def device_drive_def split: option.splits)
  moreover have "current_drive s AND 0xFFFFFF7F < 8" using drive_numbers(1,2) [OF r(3)] assms(2) by (simp add: device_drive_def)
  ultimately show ?thesis using f assms(3) by (auto simp: sane_partition_def device_partition_def)
qed

text \<open>C10: the name of a hard disk or a floppy, of a slice of a hard disk, or of a BSD partition is read back by \<open>set_device\<close>:
  it returns the position behind the name, having set the current drive and the current partition.\<close>

theorem set_device_reads_name:
  assumes "cstr_at (gmem s) device (device_text n @ bs)" and "device_ok n" and "errnum s = ERR_NONE"
  shows "\<exists>s'. set_device device s = Some (device + of_nat (length (device_text n)), s')
    \<and> current_drive s' = device_drive n \<and> current_partition s' = device_partition n \<and> errnum s' = ERR_NONE \<and> gmem s' = gmem s"
proof -
  let ?rest = "(case slice n of None \<Rightarrow> [] | Some p \<Rightarrow> 0x2C # number_text 10 p) @ bsd_text (bsd n)"
  let ?u = "number_text 10 (unit_no n)" and ?h = "if hard n then 0x68 else 0x66 :: u8"
  have t: "device_text n = [0x28, ?h, 0x64] @ ?u @ ?rest @ [0x29]" by (simp add: device_text_def bsd_text_def)
  have a: "gmem s device = 0x28" "gmem s (device + 1) = ?h" "gmem s (device + 1 + 1) = 0x64" "cstr_at (gmem s) (device + 1 + 2) (?u @ ?rest @ 0x29 # bs)"
    using assms(1) unfolding t by (auto simp: add.assoc)
  let ?q = "device + 1 + 2 + of_nat (length ?u)"
  obtain c cs where c: "?rest @ 0x29 # bs = c # cs" "c = 0x29 \<or> c = 0x2C"
    by (cases "slice n"; cases "bsd n") (auto simp: bsd_text_def)
  have r: "cstr_at (gmem s) ?q (?rest @ 0x29 # bs)" using a(4) by (simp add: cstr_at_append)
  define s0 where "s0 = s\<lparr>current_drive := saved_drive s, current_partition := 0xFFFFFF, incomplete := False, disk_choice := True, part_choice := 0\<rparr>"
  define s1 where "s1 = s0\<lparr>current_drive := device_drive n, disk_choice := False\<rparr>"
  have u: "unit_no n < 8" "unit_no n \<le> 2147483647" using assms(2) by (auto simp: device_ok_def)
  have f0: "gmem s0 = gmem s" "errnum s0 = ERR_NONE" using assms(3) by (simp_all add: s0_def)
  have "cstr_at (gmem s0) (device + 1 + 2) (?u @ c # cs)" using a(4) c(1) f0(1) by simp
  from parse_number_at [OF this u(2) c(2)]
  have pn: "parse_number (device + 1 + 2) s0 = Some (True, ?q, of_nat (unit_no n), s0)" .
  have k: "is_drive_char ?h s0" "?h \<noteq> 0" "?h \<noteq> 0x63" "?h = 0x68 \<longleftrightarrow> hard n" by (simp_all add: is_drive_char_def)
  have "gmem s (device + 1 + 2) \<noteq> 0" using a(4) number_text_Cons [of "unit_no n"] by auto
  then have pd: "parse_drive (device + 1) s0 = Some (Inr ?q, s1)"
    using a(2,3) pn k f0 by (simp add: parse_drive_def s1_def device_drive_def Let_def)
  have f1: "gmem s1 = gmem s" "errnum s1 = ERR_NONE" "part_choice s1 = 0" "current_partition s1 = 0xFFFFFF" "\<not> disk_choice s1" "current_drive s1 = device_drive n"
    using f0 by (simp_all add: s1_def s0_def)
  have "hard n \<longrightarrow> current_drive s1 AND 0x80 \<noteq> 0" using drive_numbers(3) [OF u(1)] by (simp add: f1(6) device_drive_def)
  from parse_rest_name [OF _ assms(2) f1(2) this f1(3-5), of ?q bs] r f1(1)
  have pr: "parse_rest ?q s1 = Some (Inr (?q + of_nat (length ?rest), True), s1\<lparr>current_partition := device_partition n, part_choice := 2\<rparr>)"
    by simp
  let ?s2 = "s1\<lparr>current_partition := device_partition n, part_choice := 2\<rparr>"
  have sane: "sane_partition ?s2 = (True, ?s2)" by (rule device_sane [OF assms(2)]) (simp_all add: f1)
  have "set_device device s = Some (?q + of_nat (length ?rest) + 1, ?s2)"
    using a(1,2) k f0(1) pd pr sane unfolding set_device_def s0_def [symmetric] by (simp add: Let_def)
  moreover have "?q + of_nat (length ?rest) + 1 = device + of_nat (length (device_text n))" unfolding t by simp
  ultimately show ?thesis using f1 by simp
qed

definition demo_named :: device_names where
  "demo_named = devices.extend (demo_hd\<lparr>gmem := write_bytes (\<lambda>_. 0) 0x8000 (bytes_of ''(hd0,17,c)'')\<rparr>)
     (device_names.fields True True 0)"

lemma set_device_reads_name_witness:
  "\<exists>s'. set_device 0x8000 demo_named = Some (0x800A, s') \<and> current_drive s' = 0x80 \<and> current_partition s' = 0x1102FF"
proof -
  let ?n = "\<lparr>hard = True, unit_no = 0, slice = Some 17, bsd = Some 2\<rparr>"
  have t: "device_text ?n = bytes_of ''(hd0,17,c)''"
    by (simp add: device_text_def number_text_def digits_le.simps digit_char_def bytes_of_def)
  have g: "gmem demo_named = write_bytes (\<lambda>_. 0) 0x8000 (bytes_of ''(hd0,17,c)'')" "errnum demo_named = ERR_NONE"
    by (simp_all add: demo_named_def devices.defs device_names.defs demo_hd_def)
  have "cstr_at (gmem demo_named) 0x8000 (device_text ?n @ [])" unfolding t g by (simp add: bytes_of_def)
  from set_device_reads_name [OF this _ g(2)] show ?thesis
    unfolding t by (auto simp: device_ok_def device_drive_def device_partition_def part_of_def)
qed

end
