(* ===== verification/Spec2Isabelle.thy ===== *)
theory Spec2Isabelle
  imports KString_More Messages Kmain Md5_Password Grub_Cmdline_Props Grub_Tparm_Props Grub_Device_Props
begin

text \<open>
  HavenOS, a small 32-bit kernel in C, and the parts of GRUB 0.97 that boot it: a verification library of
  their routines.

  The C source is translated function by function into executable HOL definitions that carry the
  source's names. Memory is a function from 32-bit addresses to bytes, the ports are a trace of events,
  the globals of each source file are the fields of a record that extends the record of the files it
  uses. Machine integers are words of their width. A loop that may not end, or an access outside every
  object, makes a definition return \<open>None\<close>; a routine that ends in an endless loop on purpose returns
  \<open>Spins\<close>.

  The kernel, src/*.c, from the bottom:
  \<^item> Prelude, Machine: words, memory regions, C strings in memory, the ports.
  \<^item> KCommon, KString, KString_More: src/common.c (block routines) and src/string.c.
  \<^item> Vga: src/vga.c; Vga_Screen, Vga_Print, Vga_Fprint, Vga_Props: the abstract screen it refines.
  \<^item> Serial: src/serial.c and src/log.c; Messages: \<open>PANIC\<close> and the two messages of src/vga.c.
  \<^item> Kmemory: src/kmemory.c, with the locale of allocators.
  \<^item> Descriptors: src/mem.c and src/interrupt_table.c with the processor's reading of the tables.
  \<^item> Interrupts: src/isr.c and src/timer.c.
  \<^item> Paging: src/paging.c with the processor's address translation.
  \<^item> Keyboard, Keyboard_Props: src/keyboard.c.
  \<^item> Kmain: src/kmain.c, the boot and what any order of interrupts keeps after it.

  The boot loader, src/grub-0.97/stage2:
  \<^item> Md5_Rfc: the algorithm of RFC 1321 on its own, with its constants as sines, and their computation. Md5, Md5_Password:
    md5.c against it, block by block, message by message, and the password check.
  \<^item> Grub_Strings: the string routines of char_io.c, its number parser and printer and \<open>grub_sprintf\<close>;
    Grub_Strings_Props: what each of them denotes.
  \<^item> Grub_Memory: \<open>memcheck\<close>, \<open>grub_memmove\<close> and the copies that stop once an error is set.
  \<^item> Grub_Term: the terminal interface (term.h) as a trace of events whose answers a function of the
    trace gives, \<open>grub_putchar\<close> with the pager, \<open>grub_printf\<close>, the messages of \<open>print_error\<close>.
  \<^item> Grub_Cmdline: \<open>real_get_cmdline\<close> with its nested functions and the history; Grub_Cmdline_Screen,
    _Text, _Edits, _Keys, _History, _Session and _Props: an abstract line with a cursor and a kill buffer that the
    keys refine, first each display routine, then each operation, then each key; then a session with the
    history that C-p and C-n go through.
  \<^item> Grub_Tparm: the interpreter of terminal capabilities, tparm.c; Grub_Tparm_Code, _Expand and _Props:
    expressions, with the meaning of their operators on integers, compiled to its codes, and the expansion that a call
    gives.
  \<^item> Grub_Bios, Grub_Disk: bios.c and the sectors of disk_io.c. The assembly routines of the BIOS interface are
    the functions of a record. Grub_Disk_Read, _Props, _Write, _Session: a read gives the bytes of the drive and
    keeps the invariant that the track buffer agrees with the drive, and a session of reads and writes is one
    on an array of bytes. Grub_Disk_Returns: a read returns on any BIOS; Grub_Disk_Flaws: two reads
    that go wrong; Grub_Disk_Demo: a floppy on which all of them are witnessed.
  \<^item> Grub_Partition: the partitions of disk_io.c, with the layouts of pc_slice.h. Grub_Slices: the partitions of
    a drive as a list, read off the chain of its tables; Grub_Slices_Steps, _Props and _Write: the iteration returns that
    list, opening a partition finds one in it, and what the two routines that write a table change;
    Grub_Slices_Demo: a hard disk with a primary, an extended and two logical partitions.
  \<^item> Grub_Device, Grub_Device_Props: \<open>set_device\<close>, and that it reads every printed name of a device.

  Hypotheses on the BIOS. \<open>bios_reads\<close> and \<open>bios_writes\<close> say that a transfer of sectors that the drive has
  copies them between the drive and the segment, by whichever of the two interfaces the geometry selects, and
  \<open>geometry_ok\<close> that the geometry has sectors, heads and a sector size of 512 or 2048. Without them only that reads
  return is shown.

  Hypotheses on the drive. \<open>chained\<close> says that the tables have their signature, lie on the drive and form a chain that
  ends, without BSD slices; a chain that does not end makes the code loop. The numbers of the partitions are less than 255.

  Hypotheses on the memory. \<open>memcpy\<close> and \<open>memset\<close> of the boot loader copy nothing while an error number is set or when the
  destination is not in the memory that the BIOS reported, so the theorems on md5.c and on the editor assume that no error is
  pending and that the buffers lie in conventional memory (\<open>md5_ready\<close>, \<open>low_memory_ok\<close>, \<open>fits_low\<close>).

  Bounds. The loops over memory are \<open>partial_function (option)\<close>: that they return is part of each theorem.
  The editor's theorems hold for lines of any length that the program allows, below 1600 characters, and all keys but TAB,
  whose completion is an argument of the model; a deletion is included when the bytes that it moves stay in the buffer of
  the line, as they always do while the line has at most 800 characters. The interpreter's theorems hold for capabilities
  of at most 256 characters, its own limit, and expressions that need at most 11 places on its stack of 20, since up to
  nine parameters may lie below them.

  Interrupts are delivered to the kernel from its endless loop on, not while the boot sequence runs after \<open>sti\<close>.

  Not modelled: the assembly of the kernel and of the boot loader; the remaining files of stage2, above all the
  commands of builtins.c, the file systems, the files and the completion of names of disk_io.c; the network boot drivers
  (vendored from Etherboot), the shell-side utilities, which run GRUB under a host system, and the stage
  1 loaders.
\<close>

end
